(* ===== verification/Prelude.thy ===== *)
theory Prelude
  imports Main "HOL-Library.Word" "HOL-Library.Sublist"
begin

text \<open>
  The generic part of the library: the collections of facts the component theories fill,
  lemmas on lists, options and maps that several components share, and the interfaces
  (locales) that more than one component implements. Nothing here speaks of butai.
\<close>

named_theorems rs_simps \<open>evaluation rules for the model of Rust's \<open>str\<close>\<close>
named_theorems core_defs \<open>the definitions of the daemon's operations, for unfolding\<close>
named_theorems core_frame \<open>which fields an operation of the daemon leaves alone\<close>

section \<open>Words\<close>

type_synonym u8 = "8 word"
type_synonym u16 = "16 word"
type_synonym u32 = "32 word"
type_synonym u64 = "64 word"

text \<open>Saturating subtraction and addition at a bound, as \<open>usize::saturating_sub\<close> and
  \<open>u16::saturating_sub\<close> compute them; on \<^typ>\<open>nat\<close> subtraction already stops at 0.\<close>

definition clamp :: "'a::linorder \<Rightarrow> 'a \<Rightarrow> 'a \<Rightarrow> 'a" where
  "clamp lo hi x = (if x < lo then lo else if hi < x then hi else x)"

lemma clamp_bounds: "lo \<le> hi \<Longrightarrow> lo \<le> clamp lo hi x \<and> clamp lo hi x \<le> hi"
  by (auto simp: clamp_def)

lemma clamp_id: "lo \<le> x \<Longrightarrow> x \<le> hi \<Longrightarrow> clamp lo hi x = x"
  by (auto simp: clamp_def)

lemma clamp_idem: "lo \<le> hi \<Longrightarrow> clamp lo hi (clamp lo hi x) = clamp lo hi x"
  by (auto simp: clamp_def)

section \<open>Lists\<close>

text \<open>\<open>slice::chunks(n)\<close>: consecutive pieces of length \<open>n\<close>, the last one shorter.\<close>

fun chunks3 :: "'a list \<Rightarrow> 'a list list" where
  "chunks3 [] = []"
| "chunks3 [a] = [[a]]"
| "chunks3 [a, b] = [[a, b]]"
| "chunks3 (a # b # c # xs) = [a, b, c] # chunks3 xs"

lemma concat_chunks3 [simp]: "concat (chunks3 xs) = xs"
  by (induction xs rule: chunks3.induct) auto

lemma chunks3_lengths: "c \<in> set (chunks3 xs) \<Longrightarrow> c \<noteq> [] \<and> length c \<le> 3"
  by (induction xs rule: chunks3.induct) auto

text \<open>\<open>Iterator::position\<close> and the removal of the element found there.\<close>

fun position :: "('a \<Rightarrow> bool) \<Rightarrow> 'a list \<Rightarrow> nat option" where
  "position P [] = None"
| "position P (x # xs) = (if P x then Some 0 else map_option Suc (position P xs))"

definition remove_nth :: "nat \<Rightarrow> 'a list \<Rightarrow> 'a list" where
  "remove_nth i xs = take i xs @ drop (Suc i) xs"

definition insert_nth :: "nat \<Rightarrow> 'a \<Rightarrow> 'a list \<Rightarrow> 'a list" where
  "insert_nth i x xs = take i xs @ x # drop i xs"

lemma position_Some_iff:
  "position P xs = Some i \<longleftrightarrow> i < length xs \<and> P (xs ! i) \<and> (\<forall>j<i. \<not> P (xs ! j))"
proof (induction xs arbitrary: i)
  case Nil
  then show ?case by simp
next
  case (Cons x xs)
  show ?case
  proof (cases "P x")
    case True
    then show ?thesis by (cases i) auto
  next
    case False
    then show ?thesis
      by (cases i) (auto simp: Cons.IH nth_Cons less_Suc_eq_0_disj split: nat.splits)
  qed
qed

lemma position_None_iff [simp]: "position P xs = None \<longleftrightarrow> (\<forall>x \<in> set xs. \<not> P x)"
  by (induction xs) auto

lemma position_eq_mem: "position (\<lambda>p. p = x) xs \<noteq> None \<longleftrightarrow> x \<in> set xs"
  by auto

lemma remove_nth_Suc [simp]: "remove_nth (Suc i) (x # xs) = x # remove_nth i xs"
  by (simp add: remove_nth_def)

lemma remove_nth_0 [simp]: "remove_nth 0 (x # xs) = xs"
  by (simp add: remove_nth_def)

text \<open>Removing the first occurrence, spelled as the source does it, is \<^const>\<open>remove1\<close>.\<close>

lemma remove_nth_position:
  "position (\<lambda>p. p = x) xs = Some i \<Longrightarrow> remove_nth i xs = remove1 x xs"
  by (induction xs arbitrary: i) (auto split: if_splits)

lemma length_remove_nth [simp]: "i < length xs \<Longrightarrow> length (remove_nth i xs) = length xs - 1"
  by (simp add: remove_nth_def)

lemma insert_nth_remove_nth:
  "i < length xs \<Longrightarrow> insert_nth i (xs ! i) (remove_nth i xs) = xs"
  by (simp add: insert_nth_def remove_nth_def id_take_nth_drop [symmetric] min_def)

text \<open>The longest suffix of a list that fits a bound: what a ring buffer keeps.\<close>

definition take_last :: "nat \<Rightarrow> 'a list \<Rightarrow> 'a list" where
  "take_last n xs = drop (length xs - n) xs"

lemma length_take_last [simp]: "length (take_last n xs) = min n (length xs)"
  by (simp add: take_last_def min_def)

lemma take_last_all [simp]: "length xs \<le> n \<Longrightarrow> take_last n xs = xs"
  by (simp add: take_last_def)

lemma take_last_0 [simp]: "take_last 0 xs = []"
  by (simp add: take_last_def)

lemma take_last_append:
  "take_last n (xs @ ys) = take_last (n - length ys) xs @ take_last n ys"
proof (cases "length ys \<le> n")
  case True
  then have "length xs + length ys - n = length xs - (n - length ys)" by arith
  with True show ?thesis by (simp add: take_last_def)
next
  case False
  then show ?thesis by (simp add: take_last_def)
qed

lemma suffix_take_last: "suffix (take_last n xs) xs"
  by (simp add: take_last_def suffix_drop)

lemma take_last_take_last: "take_last n (take_last n xs @ ys) = take_last n (xs @ ys)"
proof -
  have "take_last (n - length ys) (take_last n xs) = take_last (n - length ys) xs"
  proof -
    have "(length xs - n) + (length xs - (length xs - n) - (n - length ys))
        = length xs - (n - length ys)" by arith
    then show ?thesis by (simp add: take_last_def add.commute)
  qed
  then show ?thesis by (simp only: take_last_append)
qed

section \<open>Interfaces\<close>

text \<open>
  A codec: an encoder and a partial decoder that undoes it on the values it is used for.
  The wire formats, the file formats and the configuration words of the program all make
  this promise; what follows from it is proved once, here.
\<close>

locale codec =
  fixes enc :: "'a \<Rightarrow> 'b"
    and dec :: "'b \<Rightarrow> 'a option"
    and ok :: "'a \<Rightarrow> bool"
  assumes dec_enc: "ok x \<Longrightarrow> dec (enc x) = Some x"
begin

lemma enc_inj:
  assumes "ok x" "ok y" "enc x = enc y"
  shows "x = y"
proof -
  have "Some x = dec (enc x)" using assms(1) by (rule dec_enc [symmetric])
  also have "\<dots> = dec (enc y)" by (simp only: assms(3))
  also have "\<dots> = Some y" using assms(2) by (rule dec_enc)
  finally show ?thesis by simp
qed

lemma enc_inj_on: "inj_on enc {x. ok x}"
  by (rule inj_onI) (simp add: enc_inj)

lemma dec_all: "list_all ok xs \<Longrightarrow> those (map (dec \<circ> enc) xs) = Some xs"
proof (induction xs)
  case (Cons x xs)
  then show ?case by (simp add: dec_enc)
qed simp

lemma enc_map_inj:
  assumes "list_all ok xs" "list_all ok ys" "map enc xs = map enc ys"
  shows "xs = ys"
proof -
  have "those (map dec (map enc xs)) = those (map dec (map enc ys))"
    by (simp only: assms(3))
  then show ?thesis
    using dec_all [OF assms(1)] dec_all [OF assms(2)] by (simp only: map_map option.inject)
qed

end

text \<open>
  A consumer of a byte stream whose result does not depend on how the stream was cut into
  reads: feeding two pieces in turn is feeding their concatenation.
\<close>

locale chunked =
  fixes feed :: "'b list \<Rightarrow> 's \<Rightarrow> 's"
  assumes feed_nil: "feed [] s = s"
    and feed_append: "feed (xs @ ys) s = feed ys (feed xs s)"
begin

lemma feed_concat: "feed (concat xss) s = fold feed xss s"
  by (induction xss arbitrary: s) (auto simp: feed_nil feed_append)

lemma same_stream: "concat xss = concat yss \<Longrightarrow> fold feed xss s = fold feed yss s"
  by (metis feed_concat)

end

text \<open>
  A supply of identifiers: the next one is read off a counter, and every identifier in use
  lies below it. Whoever allocates through it never reuses a live identifier.
\<close>

locale id_supply =
  fixes next_id :: "'s \<Rightarrow> nat"
    and alloc :: "'s \<Rightarrow> nat \<times> 's"
    and used :: "'s \<Rightarrow> nat set"
  assumes alloc_id: "fst (alloc s) = next_id s"
    and alloc_next: "next_id (snd (alloc s)) = Suc (next_id s)"
    and alloc_used: "used (snd (alloc s)) = used s"
begin

definition fresh :: "'s \<Rightarrow> bool" where
  "fresh s \<longleftrightarrow> (\<forall>i \<in> used s. i < next_id s)"

lemma alloc_fresh: "fresh s \<Longrightarrow> fst (alloc s) \<notin> used s"
  by (auto simp: fresh_def alloc_id)

lemma alloc_keeps_fresh:
  "fresh s \<Longrightarrow> used t \<subseteq> insert (fst (alloc s)) (used s) \<Longrightarrow> next_id t = next_id (snd (alloc s)) \<Longrightarrow> fresh t"
  by (fastforce simp: fresh_def alloc_id alloc_next)

end

end
