(* ===== verification/Rust_Str.thy ===== *)
theory Rust_Str
  imports Prelude "HOL-Library.Char_ord"
begin

text \<open>
  Rust's \<open>str\<close> and \<open>String\<close> as the program uses them. A string is the list of its
  UTF-8 bytes (an Isabelle \<^typ>\<open>char\<close> is a byte), so lengths and indices are byte lengths
  and byte indices, as they are in Rust. Where the source walks \<open>chars()\<close>, the model walks
  \<open>uchars\<close>, which groups the bytes of one code point.
\<close>

section \<open>Characters\<close>

definition is_cont :: "char \<Rightarrow> bool" where
  "is_cont c \<longleftrightarrow> (let n = (of_char c :: nat) in 128 \<le> n \<and> n < 192)"

text \<open>The code points of a string, each as the group of its bytes.\<close>

function uchars :: "string \<Rightarrow> string list" where
  "uchars [] = []"
| "uchars (c # cs) = (c # takeWhile is_cont cs) # uchars (dropWhile is_cont cs)"
  by pat_completeness auto
termination
  by (relation "measure length") (auto simp: le_imp_less_Suc length_dropWhile_le)

lemma concat_uchars [simp]: "concat (uchars s) = s"
  by (induction s rule: uchars.induct) auto

definition is_digit :: "char \<Rightarrow> bool" where
  "is_digit c \<longleftrightarrow> (let n = (of_char c :: nat) in 48 \<le> n \<and> n \<le> 57)"

definition is_lower :: "char \<Rightarrow> bool" where
  "is_lower c \<longleftrightarrow> (let n = (of_char c :: nat) in 97 \<le> n \<and> n \<le> 122)"

definition is_upper :: "char \<Rightarrow> bool" where
  "is_upper c \<longleftrightarrow> (let n = (of_char c :: nat) in 65 \<le> n \<and> n \<le> 90)"

definition is_alnum :: "char \<Rightarrow> bool" where
  "is_alnum c \<longleftrightarrow> is_digit c \<or> is_lower c \<or> is_upper c"

definition is_ascii :: "char \<Rightarrow> bool" where
  "is_ascii c \<longleftrightarrow> (of_char c :: nat) < 128"

text \<open>\<open>char::to_ascii_lowercase\<close> and \<open>to_ascii_uppercase\<close>, bytewise.\<close>

definition ascii_lower :: "char \<Rightarrow> char" where
  "ascii_lower c = (if is_upper c then char_of (of_char c + 32 :: nat) else c)"

definition ascii_upper :: "char \<Rightarrow> char" where
  "ascii_upper c = (if is_lower c then char_of (of_char c - 32 :: nat) else c)"

lemma uchars_ascii: "list_all is_ascii s \<Longrightarrow> uchars s = map (\<lambda>c. [c]) s"
proof (induction s)
  case Nil
  then show ?case by simp
next
  case (Cons c s)
  have nc: "\<not> is_cont d" if "is_ascii d" for d
    using that by (simp add: is_cont_def is_ascii_def Let_def)
  from Cons.prems have "takeWhile is_cont s = []" "dropWhile is_cont s = s"
    using nc by (cases s; simp)+
  with Cons show ?case by simp
qed

text \<open>\<open>char::is_whitespace\<close>: the code points with the Unicode White\_Space property.\<close>

definition uws :: "string \<Rightarrow> bool" where
  "uws g \<longleftrightarrow> g \<in> set
     [[CHR 0x09], [CHR 0x0A], [CHR 0x0B], [CHR 0x0C], [CHR 0x0D], [CHR 0x20],
      [CHR 0xC2, CHR 0x85], [CHR 0xC2, CHR 0xA0], [CHR 0xE1, CHR 0x9A, CHR 0x80],
      [CHR 0xE2, CHR 0x80, CHR 0x80], [CHR 0xE2, CHR 0x80, CHR 0x81], [CHR 0xE2, CHR 0x80, CHR 0x82],
      [CHR 0xE2, CHR 0x80, CHR 0x83], [CHR 0xE2, CHR 0x80, CHR 0x84], [CHR 0xE2, CHR 0x80, CHR 0x85],
      [CHR 0xE2, CHR 0x80, CHR 0x86], [CHR 0xE2, CHR 0x80, CHR 0x87], [CHR 0xE2, CHR 0x80, CHR 0x88],
      [CHR 0xE2, CHR 0x80, CHR 0x89], [CHR 0xE2, CHR 0x80, CHR 0x8A], [CHR 0xE2, CHR 0x80, CHR 0xA8],
      [CHR 0xE2, CHR 0x80, CHR 0xA9], [CHR 0xE2, CHR 0x80, CHR 0xAF], [CHR 0xE2, CHR 0x81, CHR 0x9F],
      [CHR 0xE3, CHR 0x80, CHR 0x80]]"

section \<open>Prefixes, suffixes, searching\<close>

fun strip_prefix :: "'a list \<Rightarrow> 'a list \<Rightarrow> 'a list option" where
  "strip_prefix [] s = Some s"
| "strip_prefix (p # ps) [] = None"
| "strip_prefix (p # ps) (c # cs) = (if p = c then strip_prefix ps cs else None)"

definition starts_with :: "'a list \<Rightarrow> 'a list \<Rightarrow> bool" where
  "starts_with p s \<longleftrightarrow> strip_prefix p s \<noteq> None"

lemma strip_prefix_iff: "strip_prefix p s = Some r \<longleftrightarrow> s = p @ r"
  by (induction p s rule: strip_prefix.induct) auto

lemma strip_prefix_append [simp, rs_simps]: "strip_prefix p (p @ r) = Some r"
  by (simp add: strip_prefix_iff)

lemma starts_with_iff: "starts_with p s \<longleftrightarrow> (\<exists>r. s = p @ r)"
  by (auto simp: starts_with_def strip_prefix_iff)

lemma starts_with_append [simp, rs_simps]: "starts_with p (p @ r)"
  by (simp add: starts_with_def)

lemma starts_with_code [rs_simps]:
  "starts_with [] s \<longleftrightarrow> True"
  "starts_with (p # ps) [] \<longleftrightarrow> False"
  "starts_with (p # ps) (c # cs) \<longleftrightarrow> p = c \<and> starts_with ps cs"
  by (auto simp: starts_with_def)

definition strip_suffix :: "'a list \<Rightarrow> 'a list \<Rightarrow> 'a list option" where
  "strip_suffix p s = map_option rev (strip_prefix (rev p) (rev s))"

lemma strip_suffix_iff: "strip_suffix p s = Some r \<longleftrightarrow> s = r @ p"
  by (auto simp: strip_suffix_def strip_prefix_iff rev_eq_append_conv)
     (metis append_Nil2 rev_append rev_rev_ident)

text \<open>\<open>str::split_once\<close> with a string pattern: at the first match.\<close>

fun split_once :: "'a list \<Rightarrow> 'a list \<Rightarrow> ('a list \<times> 'a list) option" where
  "split_once p s =
     (case strip_prefix p s of
        Some r \<Rightarrow> Some ([], r)
      | None \<Rightarrow> (case s of [] \<Rightarrow> None
                | c # cs \<Rightarrow> map_option (apfst (Cons c)) (split_once p cs)))"

declare split_once.simps [simp del]

definition contains :: "'a list \<Rightarrow> 'a list \<Rightarrow> bool" where
  "contains p s \<longleftrightarrow> split_once p s \<noteq> None"

lemma split_once_SomeD: "split_once p s = Some (a, b) \<Longrightarrow> s = a @ p @ b"
proof (induction s arbitrary: a b)
  case Nil
  then show ?case by (subst (asm) split_once.simps) (auto simp: strip_prefix_iff split: option.splits)
next
  case (Cons c s)
  then show ?case
    by (subst (asm) split_once.simps) (auto simp: strip_prefix_iff split: option.splits)
qed

lemma split_once_None_iff: "split_once p s = None \<longleftrightarrow> (\<forall>a b. s \<noteq> a @ p @ b)"
proof (induction s)
  case Nil
  have "strip_prefix p [] = None \<longleftrightarrow> p \<noteq> []" by (cases p) auto
  then show ?case by (subst split_once.simps) (auto split: option.splits)
next
  case (Cons c s)
  show ?case
  proof (cases "strip_prefix p (c # s)")
    case None
    then have "\<forall>b. c # s \<noteq> p @ b" by (auto simp: strip_prefix_iff)
    moreover have "split_once p (c # s) = None \<longleftrightarrow> split_once p s = None"
      using None by (subst split_once.simps) simp
    ultimately show ?thesis
      using Cons.IH by (auto simp: Cons_eq_append_conv)
  next
    case (Some r)
    then have "c # s = [] @ p @ r" by (simp add: strip_prefix_iff)
    moreover have "split_once p (c # s) \<noteq> None"
      using Some by (subst split_once.simps) simp
    ultimately show ?thesis by blast
  qed
qed

lemma contains_iff: "contains p s \<longleftrightarrow> (\<exists>a b. s = a @ p @ b)"
  using split_once_None_iff [of p s] by (auto simp: contains_def)

text \<open>For a single separator byte the first match is found where the byte first occurs.\<close>

lemma split_once_char: "c \<notin> set a \<Longrightarrow> split_once [c] (a @ c # b) = Some (a, b)"
proof (induction a)
  case Nil
  then show ?case by (subst split_once.simps) simp
next
  case (Cons x a)
  then show ?case by (subst split_once.simps) auto
qed

lemma split_once_char_None: "c \<notin> set a \<Longrightarrow> split_once [c] a = None"
  by (auto simp: split_once_None_iff)

text \<open>\<open>str::split\<close> on one byte: the pieces between its occurrences, at least one.\<close>

fun split_char :: "'a \<Rightarrow> 'a list \<Rightarrow> 'a list list" where
  "split_char c [] = [[]]"
| "split_char c (x # xs) =
     (if x = c then [] # split_char c xs
      else (case split_char c xs of [] \<Rightarrow> [[x]] | p # ps \<Rightarrow> (x # p) # ps))"

lemma split_char_nonempty [simp]: "split_char c s \<noteq> []"
  by (induction s) (auto split: list.splits)

lemma split_char_none: "c \<notin> set s \<Longrightarrow> split_char c s = [s]"
  by (induction s) auto

lemma split_char_append: "c \<notin> set a \<Longrightarrow> split_char c (a @ c # b) = a # split_char c b"
  by (induction a) auto

text \<open>\<open>[T]::join\<close>.\<close>

fun join :: "'a list \<Rightarrow> 'a list list \<Rightarrow> 'a list" where
  "join sep [] = []"
| "join sep [x] = x"
| "join sep (x # y # ys) = x @ sep @ join sep (y # ys)"

lemma split_char_join:
  "xs \<noteq> [] \<Longrightarrow> \<forall>x \<in> set xs. c \<notin> set x \<Longrightarrow> split_char c (join [c] xs) = xs"
  by (induction "[c]" xs rule: join.induct) (auto simp: split_char_none split_char_append)

lemma join_split_char: "join [c] (split_char c s) = s"
proof (induction s)
  case (Cons x s)
  obtain p ps where ps: "split_char c s = p # ps" by (cases "split_char c s") auto
  with Cons.IH show ?case by (cases ps) auto
qed simp

text \<open>\<open>str::trim_end_matches\<close> with a string pattern: strip the suffix while it is there.\<close>

function trim_end_matches :: "'a list \<Rightarrow> 'a list \<Rightarrow> 'a list" where
  "trim_end_matches p s =
     (if p = [] then s else case strip_suffix p s of None \<Rightarrow> s | Some r \<Rightarrow> trim_end_matches p r)"
  by pat_completeness auto
termination
  by (relation "measure (\<lambda>(p, s). length s)") (auto simp: strip_suffix_iff)

declare trim_end_matches.simps [simp del]

lemma trim_end_matches_no_suffix:
  "\<not> contains p s \<Longrightarrow> trim_end_matches p s = s"
  by (subst trim_end_matches.simps)
     (auto simp: contains_iff strip_suffix_iff split: option.splits; metis append_Nil2)

section \<open>Trimming and words\<close>

definition dropWhile_end :: "('a \<Rightarrow> bool) \<Rightarrow> 'a list \<Rightarrow> 'a list" where
  "dropWhile_end P xs = rev (dropWhile P (rev xs))"

definition trim_start :: "string \<Rightarrow> string" where
  "trim_start s = concat (dropWhile uws (uchars s))"

definition trim_end :: "string \<Rightarrow> string" where
  "trim_end s = concat (dropWhile_end uws (uchars s))"

definition trim :: "string \<Rightarrow> string" where
  "trim s = concat (dropWhile_end uws (dropWhile uws (uchars s)))"

text \<open>\<open>str::split_whitespace\<close>: the maximal runs of code points that are not white space.\<close>

function words_of :: "string list \<Rightarrow> string list list" where
  "words_of gs =
     (case dropWhile uws gs of [] \<Rightarrow> []
      | g # gs' \<Rightarrow> (g # takeWhile (Not \<circ> uws) gs') # words_of (dropWhile (Not \<circ> uws) gs'))"
  by pat_completeness auto
termination
proof (relation "measure length", simp)
  fix gs g gs'
  assume *: "dropWhile uws gs = g # gs'"
  have "length (dropWhile (Not \<circ> uws) gs') \<le> length gs'" by (rule length_dropWhile_le)
  also have "\<dots> < length (dropWhile uws gs)" using * by simp
  also have "\<dots> \<le> length gs" by (rule length_dropWhile_le)
  finally show "(dropWhile (Not \<circ> uws) gs', gs) \<in> measure length" by simp
qed

declare words_of.simps [simp del]

definition split_whitespace :: "string \<Rightarrow> string list" where
  "split_whitespace s = map concat (words_of (uchars s))"

section \<open>Lines\<close>

text \<open>
  \<open>str::lines\<close>: pieces ended by a newline, which is dropped together with a carriage
  return before it; a last piece with no newline is kept as it is.
\<close>

definition strip_cr :: "string \<Rightarrow> string" where
  "strip_cr l = (case strip_suffix [CHR 0x0D] l of Some r \<Rightarrow> r | None \<Rightarrow> l)"

function lines :: "string \<Rightarrow> string list" where
  "lines s =
     (if s = [] then []
      else case split_once [CHR 0x0A] s of
             None \<Rightarrow> [s]
           | Some (a, b) \<Rightarrow> strip_cr a # lines b)"
  by pat_completeness auto
termination
proof (relation "measure length", simp)
  fix s :: string and x a b
  assume "split_once [CHR 0x0A] s = Some x" and "(a, b) = x"
  then have "s = a @ [CHR 0x0A] @ b" by (auto dest: split_once_SomeD)
  then show "(b, s) \<in> measure length" by simp
qed

declare lines.simps [simp del]

text \<open>What the program writes back: every line followed by a newline.\<close>

definition unlines :: "string list \<Rightarrow> string" where
  "unlines ls = concat (map (\<lambda>l. l @ [CHR 0x0A]) ls)"

lemma unlines_simps [simp]: "unlines [] = []" "unlines (l # ls) = l @ CHR 0x0A # unlines ls"
  by (simp_all add: unlines_def)

lemma unlines_append: "unlines (xs @ ys) = unlines xs @ unlines ys"
  by (simp add: unlines_def)

text \<open>A line that survives the round trip: no newline in it, no carriage return at its end.\<close>

definition clean_line :: "string \<Rightarrow> bool" where
  "clean_line l \<longleftrightarrow> CHR 0x0A \<notin> set l \<and> strip_suffix [CHR 0x0D] l = None"

lemma lines_Cons: "CHR 0x0A \<notin> set l \<Longrightarrow> lines (l @ CHR 0x0A # s) = strip_cr l # lines s"
  by (subst lines.simps) (simp add: split_once_char)

lemma lines_unlines_append:
  "list_all clean_line ls \<Longrightarrow> lines (unlines ls @ s) = ls @ lines s"
  by (induction ls) (auto simp: clean_line_def lines_Cons strip_cr_def)

lemma lines_nil [simp]: "lines [] = []"
  by (subst lines.simps) simp

lemma lines_unlines: "list_all clean_line ls \<Longrightarrow> lines (unlines ls) = ls"
  using lines_unlines_append [of ls "[]"] by simp

section \<open>Numbers in decimal\<close>

definition digit_char :: "nat \<Rightarrow> char" where
  "digit_char d = char_of (48 + d)"

definition digit_val :: "char \<Rightarrow> nat" where
  "digit_val c = of_char c - 48"

fun show_nat :: "nat \<Rightarrow> string" where
  "show_nat n = (if n < 10 then [digit_char n] else show_nat (n div 10) @ [digit_char (n mod 10)])"

declare show_nat.simps [simp del]

definition undigits :: "string \<Rightarrow> nat" where
  "undigits s = foldl (\<lambda>a c. 10 * a + digit_val c) 0 s"

text \<open>
  \<open>str::parse\<close> to an unsigned integer no larger than \<open>m\<close>: an optional plus sign, at
  least one digit, no overflow.
\<close>

definition parse_uint :: "nat \<Rightarrow> string \<Rightarrow> nat option" where
  "parse_uint m s =
     (let ds = (case s of c # cs \<Rightarrow> if c = CHR ''+'' then cs else s | [] \<Rightarrow> s)
      in if ds = [] \<or> \<not> list_all is_digit ds then None
         else if undigits ds \<le> m then Some (undigits ds) else None)"

text \<open>\<open>str::parse\<close> to a signed integer of \<open>w\<close> bits: an optional sign.\<close>

definition parse_int :: "nat \<Rightarrow> string \<Rightarrow> int option" where
  "parse_int w s =
     (case s of
        [] \<Rightarrow> None
      | c # cs \<Rightarrow>
          if c = CHR ''-'' then
            (if cs = [] \<or> \<not> list_all is_digit cs \<or> 2 ^ (w - 1) < undigits cs then None
             else Some (- int (undigits cs)))
          else map_option int (parse_uint (2 ^ (w - 1) - 1) s))"

definition usize_max :: nat where "usize_max = 2 ^ 64 - 1"

definition u64_max :: nat where "u64_max = 2 ^ 64 - 1"

lemma digit_char_props:
  assumes "d < 10"
  shows "is_digit (digit_char d)" "digit_val (digit_char d) = d" "digit_char d \<noteq> CHR ''+''"
    "digit_char d \<noteq> CHR ''-''"
proof -
  have v: "of_char (digit_char d) = 48 + d"
    using assms by (simp add: digit_char_def)
  show "is_digit (digit_char d)" "digit_val (digit_char d) = d"
    using assms by (simp_all add: is_digit_def digit_val_def v)
  show "digit_char d \<noteq> CHR ''+''" "digit_char d \<noteq> CHR ''-''"
    using v by auto
qed

lemma undigits_snoc [simp]: "undigits (s @ [c]) = 10 * undigits s + digit_val c"
  by (simp add: undigits_def)

lemma show_nat_digits: "list_all is_digit (show_nat n)"
proof (induction n rule: show_nat.induct)
  case (1 n)
  then show ?case
    by (subst show_nat.simps) (auto simp: digit_char_props)
qed

lemma undigits_show_nat: "undigits (show_nat n) = n"
proof (induction n rule: show_nat.induct)
  case (1 n)
  show ?case
  proof (cases "n < 10")
    case True
    then show ?thesis
      by (subst show_nat.simps) (simp add: undigits_def digit_char_props)
  next
    case False
    with 1 have "undigits (show_nat (n div 10)) = n div 10" by simp
    with False show ?thesis
      by (subst show_nat.simps) (simp add: digit_char_props)
  qed
qed

lemma show_nat_nonempty [simp]: "show_nat n \<noteq> []"
  by (subst show_nat.simps) simp

lemma digit_not_sign: "is_digit c \<Longrightarrow> c \<noteq> CHR ''+''" "is_digit c \<Longrightarrow> c \<noteq> CHR ''-''"
  by (auto simp: is_digit_def)

lemma parse_show_nat: "n \<le> m \<Longrightarrow> parse_uint m (show_nat n) = Some n"
proof -
  assume "n \<le> m"
  obtain c cs where s: "show_nat n = c # cs" by (cases "show_nat n") auto
  with show_nat_digits [of n] have "c \<noteq> CHR ''+''" by (auto dest: digit_not_sign)
  with s \<open>n \<le> m\<close> show ?thesis
    using show_nat_digits [of n] undigits_show_nat [of n] by (simp add: parse_uint_def)
qed

lemma parse_uint_le: "parse_uint m s = Some n \<Longrightarrow> n \<le> m"
  by (auto simp: parse_uint_def Let_def split: if_splits)

lemma show_nat_inj: "show_nat m = show_nat n \<Longrightarrow> m = n"
  using undigits_show_nat by metis

lemma not_in_show_nat: "\<not> is_digit c \<Longrightarrow> c \<notin> set (show_nat n)"
  using show_nat_digits [of n] by (auto simp: list_all_iff)

interpretation decimal: codec show_nat "parse_uint m" "\<lambda>n. n \<le> m" for m
  by unfold_locales (rule parse_show_nat)

section \<open>Words of printed text\<close>

lemma words_of_append:
  assumes "w \<noteq> []" "list_all (Not \<circ> uws) w" "rest = [] \<or> uws (hd rest)"
  shows "words_of (w @ rest) = w # words_of rest"
proof -
  obtain g gs where w: "w = g # gs" using assms(1) by (cases w) auto
  have t: "takeWhile (Not \<circ> uws) (gs @ rest) = gs"
    using assms(2,3) w by (cases rest) (auto simp: takeWhile_append list_all_iff)
  have d: "dropWhile (Not \<circ> uws) (gs @ rest) = rest"
    using assms(2,3) w by (cases rest) (auto simp: dropWhile_append list_all_iff)
  from assms(2) w have "\<not> uws g" by simp
  then show ?thesis
    using t d by (subst words_of.simps) (simp add: w)
qed

lemma words_of_ws: "uws g \<Longrightarrow> words_of (g # gs) = words_of gs"
  by (subst (1 2) words_of.simps) simp

lemma words_of_Nil [simp]: "words_of [] = []"
  by (subst words_of.simps) simp

definition visible :: "char \<Rightarrow> bool" where
  "visible c \<longleftrightarrow> (let n = (of_char c :: nat) in 32 < n \<and> n < 127)"

lemma visible_not_ws: "visible c \<Longrightarrow> \<not> uws [c]"
  by (auto simp: visible_def uws_def)

lemma visible_ascii: "visible c \<Longrightarrow> is_ascii c"
  by (simp add: visible_def is_ascii_def Let_def)

lemma space_ws: "uws '' ''"
  by (simp add: uws_def)

lemma split_whitespace_two:
  assumes "a \<noteq> []" "list_all visible a" "b \<noteq> []" "list_all visible b"
  shows "split_whitespace (a @ '' '' @ b) = [a, b]"
proof -
  let ?s = "map (\<lambda>c. [c])"
  have "list_all is_ascii (a @ '' '' @ b)"
    using assms visible_ascii by (auto simp: list_all_iff) (auto simp: is_ascii_def)
  then have u: "uchars (a @ '' '' @ b) = ?s a @ '' '' # ?s b"
    by (simp add: uchars_ascii)
  have nw: "list_all (Not \<circ> uws) (?s x)" if "list_all visible x" for x
    using that by (auto simp: list_all_iff visible_not_ws)
  have "words_of (?s b) = [?s b]"
    using words_of_append [of "?s b" "[]"] assms nw by simp
  then have "words_of (?s a @ '' '' # ?s b) = [?s a, ?s b]"
    using words_of_append [of "?s a" "'' '' # ?s b"] assms nw words_of_ws space_ws by simp
  then show ?thesis unfolding split_whitespace_def u by simp
qed

lemma digits_visible: "list_all visible (show_nat n)"
  using show_nat_digits [of n] by (auto simp: list_all_iff is_digit_def visible_def Let_def)

text \<open>Hexadecimal, two digits per byte: \<open>format!("{x:02x}")\<close>.\<close>

definition hex_digit :: "nat \<Rightarrow> char" where
  "hex_digit d = (if d < 10 then char_of (48 + d) else char_of (87 + d))"

definition hex2 :: "u8 \<Rightarrow> string" where
  "hex2 b = [hex_digit (unat b div 16), hex_digit (unat b mod 16)]"

definition is_hex :: "char \<Rightarrow> bool" where
  "is_hex c \<longleftrightarrow> is_digit c \<or> (let n = (of_char c :: nat) in 97 \<le> n \<and> n \<le> 102)"

lemma hex_digit_is_hex: "d < 16 \<Longrightarrow> is_hex (hex_digit d)"
  by (auto simp: is_hex_def is_digit_def hex_digit_def Let_def)

lemma hex2_props: "length (hex2 b) = 2" "list_all is_hex (hex2 b)"
proof -
  have "unat b < 256" using unsigned_less [of b] by simp
  then show "length (hex2 b) = 2" "list_all is_hex (hex2 b)"
    by (auto simp: hex2_def intro!: hex_digit_is_hex)
qed

end
