(* ===== verification/Base64.thy ===== *)
theory Base64
  imports Rust_Str
begin

text \<open>
  \<open>crates/butai-protocol/src/b64.rs\<close>: the standard-alphabet base64 the wire protocol and
  OSC 52 share. The accumulator is the source's \<open>u32\<close>, whose shifts drop the high bits; the
  bit count is its \<open>u8\<close>, which never exceeds 13. An error names the byte the decoder disliked
  (its text is built from that byte by \<open>format!\<close>).
\<close>

unbundle bit_operations_syntax

definition b64_alphabet :: string where
  "b64_alphabet = ''ABCDEFGHIJKLMNOPQRSTUVWXYZabcdefghijklmnopqrstuvwxyz0123456789+/''"

definition b64_sym :: "u32 \<Rightarrow> char" where
  "b64_sym w = b64_alphabet ! unat w"

section \<open>Encoding\<close>

definition encode_chunk :: "u8 list \<Rightarrow> string" where
  "encode_chunk chunk =
     (let b0 = chunk ! 0;
          b1 = (if 1 < length chunk then chunk ! 1 else 0);
          b2 = (if 2 < length chunk then chunk ! 2 else 0);
          n = push_bit 16 (ucast b0 :: u32) OR push_bit 8 (ucast b1) OR ucast b2
      in [b64_sym (drop_bit 18 n AND 63),
          b64_sym (drop_bit 12 n AND 63),
          if length chunk > 1 then b64_sym (drop_bit 6 n AND 63) else CHR ''='',
          if length chunk > 2 then b64_sym (n AND 63) else CHR ''=''])"

definition encode :: "u8 list \<Rightarrow> string" where
  "encode data = concat (map encode_chunk (chunks3 data))"

section \<open>Decoding\<close>

datatype b64_error = Invalid_character char | Truncated

text \<open>What one byte of input means to the loop: a value, the end, a byte to skip, or an error.\<close>

datatype b64_token = Sextet u32 | Pad | Skip | Bad

definition classify :: "char \<Rightarrow> b64_token" where
  "classify c =
     (let n = (of_char c :: nat)
      in if is_upper c then Sextet (of_nat (n - 65))
         else if is_lower c then Sextet (of_nat (n - 97 + 26))
         else if is_digit c then Sextet (of_nat (n - 48 + 52))
         else if c = CHR ''+'' then Sextet 62
         else if c = CHR ''/'' then Sextet 63
         else if c = CHR ''='' then Pad
         else if c \<in> {CHR '' '', CHR 0x09, CHR 0x0D, CHR 0x0A} then Skip
         else Bad)"

fun decode_loop :: "string \<Rightarrow> u32 \<Rightarrow> nat \<Rightarrow> u8 list \<Rightarrow> b64_error + (u8 list \<times> nat)" where
  "decode_loop [] acc bits out = Inr (out, bits)"
| "decode_loop (c # cs) acc bits out =
     (case classify c of
        Pad \<Rightarrow> Inr (out, bits)
      | Skip \<Rightarrow> decode_loop cs acc bits out
      | Bad \<Rightarrow> Inl (Invalid_character c)
      | Sextet v \<Rightarrow>
          (let acc' = push_bit 6 acc OR v; bits' = bits + 6
           in if bits' \<ge> 8
              then decode_loop cs acc' (bits' - 8) (out @ [ucast (drop_bit (bits' - 8) acc')])
              else decode_loop cs acc' bits' out))"

definition decode :: "string \<Rightarrow> b64_error + u8 list" where
  "decode s =
     (case decode_loop s 0 0 [] of
        Inl e \<Rightarrow> Inl e
      | Inr (out, bits) \<Rightarrow> if bits \<ge> 6 then Inl Truncated else Inr out)"

section \<open>Lemmas\<close>

lemma classify_sym_all: "\<forall>k \<in> set [0..<64]. classify (b64_alphabet ! k) = Sextet (of_nat k)"
  by code_simp

lemma classify_sym: "unat w < 64 \<Longrightarrow> classify (b64_sym w) = Sextet w"
  using classify_sym_all by (simp add: b64_sym_def)

lemma and63: "unat (w AND 63 :: u32) < 64"
proof -
  have "w AND 63 \<le> 63" by (rule word_and_le1)
  then have "unat (w AND 63) \<le> unat (63 :: u32)" by (rule word_le_nat_alt [THEN iffD1])
  then show ?thesis by simp
qed

lemmas sym_classify [simp] = classify_sym [OF and63]

lemma decode_pad [simp]: "decode_loop (CHR ''='' # cs) acc bits out = Inr (out, bits)"
proof -
  have "classify CHR ''='' = Pad" by code_simp
  then show ?thesis by simp
qed

text \<open>The bits of a 24-bit group come back out of the accumulator, whatever was above them.\<close>

definition group24 :: "u8 \<Rightarrow> u8 \<Rightarrow> u8 \<Rightarrow> u32" where
  "group24 b0 b1 b2 = push_bit 16 (ucast b0) OR push_bit 8 (ucast b1) OR ucast b2"

definition shift_in :: "u32 \<Rightarrow> u32 \<Rightarrow> u32" where
  "shift_in acc v = push_bit 6 acc OR v"

lemma less8: "i < (8::nat) \<Longrightarrow> i = 0 \<or> i = 1 \<or> i = 2 \<or> i = 3 \<or> i = 4 \<or> i = 5 \<or> i = 6 \<or> i = 7"
  by arith

lemma mask6: "(63 :: u32) = mask 6"
  by (simp add: mask_eq_exp_minus_1)

lemma bit_u8_high [simp]: "8 \<le> n \<Longrightarrow> \<not> bit (b :: u8) n"
  by (auto dest: bit_imp_le_length)

lemmas group_defs = group24_def shift_in_def mask6

lemma group_byte0:
  "ucast (drop_bit 4 (shift_in (shift_in acc (drop_bit 18 (group24 b0 b1 b2) AND 63))
     (drop_bit 12 (group24 b0 b1 b2) AND 63))) = b0"
  unfolding group_defs
  by (rule bit_word_eqI) (simp, drule less8, elim disjE; simp add: bit_simps)

lemma group_byte1:
  "ucast (drop_bit 2 (shift_in (shift_in acc (drop_bit 12 (group24 b0 b1 b2) AND 63))
     (drop_bit 6 (group24 b0 b1 b2) AND 63))) = b1"
  unfolding group_defs
  by (rule bit_word_eqI) (simp, drule less8, elim disjE; simp add: bit_simps)

lemma group_byte2:
  "ucast (shift_in (shift_in acc (drop_bit 6 (group24 b0 b1 b2) AND 63))
     (group24 b0 b1 b2 AND 63)) = b2"
  unfolding group_defs
  by (rule bit_word_eqI) (simp, drule less8, elim disjE; simp add: bit_simps)

lemma decode_sym:
  "classify c = Sextet v \<Longrightarrow>
   decode_loop (c # cs) acc bits out =
     (if bits + 6 \<ge> 8
      then decode_loop cs (shift_in acc v) (bits - 2)
             (out @ [ucast (drop_bit (bits - 2) (shift_in acc v))])
      else decode_loop cs (shift_in acc v) (bits + 6) out)"
  by (simp add: Let_def shift_in_def)

lemma encode_chunk_group:
  "encode_chunk [b0, b1, b2] =
     [b64_sym (drop_bit 18 (group24 b0 b1 b2) AND 63), b64_sym (drop_bit 12 (group24 b0 b1 b2) AND 63),
      b64_sym (drop_bit 6 (group24 b0 b1 b2) AND 63), b64_sym (group24 b0 b1 b2 AND 63)]"
  "encode_chunk [b0, b1] =
     [b64_sym (drop_bit 18 (group24 b0 b1 0) AND 63), b64_sym (drop_bit 12 (group24 b0 b1 0) AND 63),
      b64_sym (drop_bit 6 (group24 b0 b1 0) AND 63), CHR ''='']"
  "encode_chunk [b0] =
     [b64_sym (drop_bit 18 (group24 b0 0 0) AND 63), b64_sym (drop_bit 12 (group24 b0 0 0) AND 63),
      CHR ''='', CHR ''='']"
  by (simp_all add: encode_chunk_def group24_def Let_def)

text \<open>One full group decodes to its three bytes and leaves no bits pending.\<close>

lemma decode_group3:
  "\<exists>acc'. decode_loop (encode_chunk [b0, b1, b2] @ cs) acc 0 out = decode_loop cs acc' 0 (out @ [b0, b1, b2])"
  by (simp del: decode_loop.simps
        add: encode_chunk_group decode_sym group_byte0 group_byte1 group_byte2) blast

lemma decode_group2: "decode_loop (encode_chunk [b0, b1]) acc 0 out = Inr (out @ [b0, b1], 2)"
  by (simp del: decode_loop.simps add: encode_chunk_group decode_sym group_byte0 group_byte1)

lemma decode_group1: "decode_loop (encode_chunk [b0]) acc 0 out = Inr (out @ [b0], 4)"
  by (simp del: decode_loop.simps add: encode_chunk_group decode_sym group_byte0)

lemma decode_loop_encode:
  "\<exists>bits < 6. decode_loop (encode data) acc 0 out = Inr (out @ data, bits)"
proof (induction data arbitrary: acc out rule: chunks3.induct)
  case 1
  then show ?case by (simp add: encode_def)
next
  case (2 a)
  then show ?case by (simp add: encode_def decode_group1)
next
  case (3 a b)
  then show ?case by (simp add: encode_def decode_group2)
next
  case (4 a b c xs)
  have e: "encode (a # b # c # xs) = encode_chunk [a, b, c] @ encode xs"
    by (simp add: encode_def)
  obtain acc' where *: "decode_loop (encode_chunk [a, b, c] @ encode xs) acc 0 out
      = decode_loop (encode xs) acc' 0 (out @ [a, b, c])"
    using decode_group3 by blast
  from 4 [of acc' "out @ [a, b, c]"] show ?case
    unfolding e * by simp
qed

lemma decode_encode: "decode (encode data) = Inr data"
  using decode_loop_encode [of data 0 "[]"] by (auto simp: decode_def)

definition decode_opt :: "string \<Rightarrow> u8 list option" where
  "decode_opt s = (case decode s of Inl _ \<Rightarrow> None | Inr bs \<Rightarrow> Some bs)"

interpretation b64: codec encode decode_opt "\<lambda>_. True"
  by unfold_locales (simp add: decode_opt_def decode_encode)

text \<open>The padded length, and that only alphabet bytes and padding are written.\<close>

lemma length_encode_chunk: "length (encode_chunk c) = 4"
  by (simp add: encode_chunk_def Let_def)

lemma length_encode: "length (encode data) = 4 * ((length data + 2) div 3)"
proof (induction data rule: chunks3.induct)
  case (4 a b c xs)
  have "(length (a # b # c # xs) + 2) div 3 = Suc ((length xs + 2) div 3)"
    using div_add1_eq [of "length xs + 2" 3 3] by simp
  with 4 show ?case by (simp add: encode_def length_encode_chunk)
qed (simp_all add: encode_def length_encode_chunk)

lemma length_decode_loop:
  "decode_loop s acc bits out = Inr (bs, b) \<Longrightarrow> bits < 8 \<Longrightarrow>
   8 * length bs + b \<le> 8 * length out + bits + 6 * length s \<and> b < 8"
  by (induction s acc bits out arbitrary: bs b rule: decode_loop.induct)
     (fastforce simp: Let_def split: b64_token.splits if_splits)+

lemma length_decode: "decode s = Inr bs \<Longrightarrow> length bs \<le> length s * 3 div 4"
  using length_decode_loop [of s 0 0 "[]" bs]
  by (fastforce simp: decode_def split: sum.splits if_splits prod.splits)

text \<open>White space anywhere in the input changes nothing.\<close>

lemma decode_loop_skip:
  "decode_loop (filter (\<lambda>c. classify c \<noteq> Skip) s) acc bits out = decode_loop s acc bits out"
  by (induction s acc bits out rule: decode_loop.induct) (auto simp: Let_def split: b64_token.splits)

section \<open>The property\<close>

text \<open>
  Decoding what was encoded gives the bytes back, the encoding takes four characters for
  every three bytes begun, and white space added anywhere is ignored.
\<close>

theorem base64_roundtrip:
  "decode (encode data) = Inr data
   \<and> length (encode data) = 4 * ((length data + 2) div 3)
   \<and> decode (filter (\<lambda>c. classify c \<noteq> Skip) s) = decode s"
  using decode_encode length_encode by (simp add: decode_def [of s] decode_def [of "filter P s" for P] decode_loop_skip)

end
