(* ===== verification/Hunk.thy ===== *)
theory Hunk
  imports Rust_Str
begin

text \<open>
  \<open>crates/butai-protocol/src/hunk.rs\<close>: a unified diff as data. The text is parsed into
  files, hunks and marked lines; a selection of a hunk's lines is written out again as a patch
  of its own; a patch can be turned round. Line numbers are \<open>usize\<close>; the running offset
  of \<open>write_file\<close> is the source's \<open>isize\<close>, kept as an integer (its overflow would
  need a patch of more than \<open>2 ^ 63\<close> lines).
\<close>

section \<open>Data\<close>

datatype origin = Context | Added | Removed | NoNewline

fun marker :: "origin \<Rightarrow> char" where
  "marker Context = CHR '' ''"
| "marker Added = CHR ''+''"
| "marker Removed = CHR ''-''"
| "marker NoNewline = CHR 0x5C"

definition in_old :: "origin \<Rightarrow> bool" where
  "in_old r \<longleftrightarrow> r = Context \<or> r = Removed"

definition in_new :: "origin \<Rightarrow> bool" where
  "in_new r \<longleftrightarrow> r = Context \<or> r = Added"

record hunk_line =
  l_origin :: origin
  l_text :: string

record hunk =
  old_start :: nat
  new_start :: nat
  h_section :: string
  h_lines :: "hunk_line list"

record file_patch =
  fp_header :: "string list"
  old_path :: string
  new_path :: string
  hunks :: "hunk list"

record patch =
  files :: "file_patch list"

record selection =
  sel_file :: nat
  sel_hunk :: nat
  sel_lines :: "nat list option"

section \<open>Hunks\<close>

definition old_len :: "hunk \<Rightarrow> nat" where
  "old_len h = length (filter (\<lambda>l. in_old (l_origin l)) (h_lines h))"

definition new_len :: "hunk \<Rightarrow> nat" where
  "new_len h = length (filter (\<lambda>l. in_new (l_origin l)) (h_lines h))"

definition changed_line_indices :: "hunk \<Rightarrow> nat list" where
  "changed_line_indices h =
     map fst (filter (\<lambda>(i, l). l_origin l = Added \<or> l_origin l = Removed)
       (List.enumerate 0 (h_lines h)))"

definition hunk_header :: "hunk \<Rightarrow> nat \<Rightarrow> string" where
  "hunk_header h start =
     (let ol = old_len h; nl = new_len h;
          old = (if ol = 1 then show_nat (old_start h)
                 else show_nat (old_start h) @ '','' @ show_nat ol);
          new = (if nl = 1 then show_nat start else show_nat start @ '','' @ show_nat nl);
          sec = (if h_section h = [] then [] else '' '' @ h_section h)
      in ''@@ -'' @ old @ '' +'' @ new @ '' @@'' @ sec)"

section \<open>Writing\<close>

definition as_isize :: "nat \<Rightarrow> int" where
  "as_isize n = (if n < 2 ^ 63 then int n else int n - 2 ^ 64)"

definition recomputed_start :: "hunk \<Rightarrow> int \<Rightarrow> nat" where
  "recomputed_start h delta =
     (let base = as_isize (old_start h) + delta;
          start = (if new_len h = 0 then base - 1 else if old_len h = 0 then base + 1 else base)
      in nat (max start 0))"

fun write_hunks :: "hunk list \<Rightarrow> int \<Rightarrow> string list" where
  "write_hunks [] delta = []"
| "write_hunks (h # hs) delta =
     hunk_header h (recomputed_start h delta)
     # map (\<lambda>l. marker (l_origin l) # l_text l) (h_lines h)
     @ write_hunks hs (delta + (int (new_len h) - int (old_len h)))"

text \<open>The lines \<open>write_file\<close> pushes; each is followed by a newline (\<open>unlines\<close>).\<close>

definition write_file :: "file_patch \<Rightarrow> (nat \<Rightarrow> hunk \<Rightarrow> bool) \<Rightarrow> string list" where
  "write_file f keep =
     (let kept = map snd (filter (\<lambda>(i, h). keep i h) (List.enumerate 0 (hunks f)))
      in if kept = [] \<and> hunks f \<noteq> [] then []
         else fp_header f @ write_hunks kept 0)"

definition to_text :: "patch \<Rightarrow> string" where
  "to_text p = unlines (concat (map (\<lambda>f. write_file f (\<lambda>_ _. True)) (files p)))"

section \<open>Parsing\<close>

definition parse_start :: "string \<Rightarrow> nat option" where
  "parse_start s =
     parse_uint usize_max (case split_once '','' s of Some (a, _) \<Rightarrow> a | None \<Rightarrow> s)"

definition parse_hunk_header :: "string \<Rightarrow> hunk option" where
  "parse_hunk_header rest =
     (let (ranges, sec) =
        (case split_once '' @@'' rest of
           Some (r, s) \<Rightarrow> (r, case strip_prefix '' '' s of Some s' \<Rightarrow> s' | None \<Rightarrow> s)
         | None \<Rightarrow> (trim_end_matches '' @@'' rest, []))
      in case split_whitespace ranges of
           o' # n' # _ \<Rightarrow>
             (case strip_prefix ''-'' o' of None \<Rightarrow> None
              | Some old \<Rightarrow> (case strip_prefix ''+'' n' of None \<Rightarrow> None
                | Some new \<Rightarrow> (case parse_start old of None \<Rightarrow> None
                  | Some os \<Rightarrow> (case parse_start new of None \<Rightarrow> None
                    | Some ns \<Rightarrow> Some \<lparr>old_start = os, new_start = ns, h_section = sec, h_lines = []\<rparr>))))
         | _ \<Rightarrow> None)"

definition strip_prefix_dir :: "string \<Rightarrow> string" where
  "strip_prefix_dir path =
     (let path = hd (split_char CHR 0x09 path)
      in case split_once ''/'' path of
           Some (a, rest) \<Rightarrow> if a = ''a'' \<or> a = ''b'' then rest else path
         | None \<Rightarrow> path)"

definition update_last :: "('a \<Rightarrow> 'a) \<Rightarrow> 'a list \<Rightarrow> 'a list" where
  "update_last f xs = (if xs = [] then [] else butlast xs @ [f (last xs)])"

text \<open>What a line inside a hunk adds to it; a byte that marks nothing is skipped.\<close>

definition parse_body :: "string \<Rightarrow> hunk_line option" where
  "parse_body raw =
     (case raw of
        [] \<Rightarrow> Some \<lparr>l_origin = Context, l_text = []\<rparr>
      | c # rest \<Rightarrow>
          if c = CHR '' '' then Some \<lparr>l_origin = Context, l_text = rest\<rparr>
          else if c = CHR ''+'' then Some \<lparr>l_origin = Added, l_text = rest\<rparr>
          else if c = CHR ''-'' then Some \<lparr>l_origin = Removed, l_text = rest\<rparr>
          else if c = CHR 0x5C then Some \<lparr>l_origin = NoNewline, l_text = rest\<rparr>
          else None)"

definition parse_into_file :: "file_patch \<Rightarrow> string \<Rightarrow> file_patch" where
  "parse_into_file f raw =
     (case strip_prefix ''@@ '' raw of
        Some rest \<Rightarrow>
          (case parse_hunk_header rest of
             Some h \<Rightarrow> f\<lparr>hunks := hunks f @ [h]\<rparr> | None \<Rightarrow> f)
      | None \<Rightarrow>
          if hunks f = [] then
            (case strip_prefix ''--- '' raw of
               Some p \<Rightarrow> f\<lparr>old_path := strip_prefix_dir p, fp_header := fp_header f @ [raw]\<rparr>
             | None \<Rightarrow>
                 (case strip_prefix ''+++ '' raw of
                    Some p \<Rightarrow> f\<lparr>new_path := strip_prefix_dir p, fp_header := fp_header f @ [raw]\<rparr>
                  | None \<Rightarrow> f\<lparr>fp_header := fp_header f @ [raw]\<rparr>))
          else
            (case parse_body raw of
               None \<Rightarrow> f
             | Some l \<Rightarrow> f\<lparr>hunks := update_last (\<lambda>h. h\<lparr>h_lines := h_lines h @ [l]\<rparr>) (hunks f)\<rparr>))"

definition parse_step :: "file_patch list \<Rightarrow> string \<Rightarrow> file_patch list" where
  "parse_step fs raw =
     (if starts_with ''diff --git '' raw
      then fs @ [\<lparr>fp_header = [raw], old_path = [], new_path = [], hunks = []\<rparr>]
      else update_last (\<lambda>f. parse_into_file f raw) fs)"

definition parse :: "string \<Rightarrow> patch" where
  "parse t = \<lparr>files = foldl parse_step [] (lines t)\<rparr>"

definition hunk_count :: "patch \<Rightarrow> nat" where
  "hunk_count p = sum_list (map (\<lambda>f. length (hunks f)) (files p))"

section \<open>Selecting lines of a hunk\<close>

fun subset_loop :: "hunk_line list \<Rightarrow> (nat \<Rightarrow> bool) \<Rightarrow> nat \<Rightarrow> hunk_line list \<Rightarrow> hunk_line list \<Rightarrow> hunk_line list" where
  "subset_loop all keep i [] acc = acc"
| "subset_loop all keep i (l # ls) acc =
     subset_loop all keep (Suc i) ls
       (case l_origin l of
          Context \<Rightarrow> acc @ [l]
        | Added \<Rightarrow> if keep i then acc @ [l] else acc
        | Removed \<Rightarrow> if keep i then acc @ [l] else acc @ [\<lparr>l_origin = Context, l_text = l_text l\<rparr>]
        | NoNewline \<Rightarrow>
            if length acc = i
               \<or> (acc \<noteq> [] \<and> i - 1 < length all \<and> l_text (all ! (i - 1)) = l_text (last acc))
            then acc @ [l] else acc)"

definition subset_lines :: "hunk \<Rightarrow> nat list option \<Rightarrow> hunk_line list" where
  "subset_lines h picked =
     subset_loop (h_lines h) (\<lambda>i. case picked of None \<Rightarrow> True | Some p \<Rightarrow> i \<in> set p) 0 (h_lines h) []"

definition is_change :: "hunk_line \<Rightarrow> bool" where
  "is_change l \<longleftrightarrow> l_origin l = Added \<or> l_origin l = Removed"

definition subset :: "patch \<Rightarrow> selection \<Rightarrow> string option" where
  "subset p sel =
     (if \<not> sel_file sel < length (files p) then None
      else let file = files p ! sel_file sel in
        if \<not> sel_hunk sel < length (hunks file) then None
        else let h = hunks file ! sel_hunk sel; ls = subset_lines h (sel_lines sel) in
          if \<not> list_ex is_change ls then None
          else Some (unlines (write_file (file\<lparr>hunks := [h\<lparr>h_lines := ls\<rparr>]\<rparr>) (\<lambda>_ _. True))))"

section \<open>Turning a patch round\<close>

definition null_path :: string where "null_path = ''/dev/null''"

definition rev_side :: "string \<Rightarrow> string \<Rightarrow> string" where
  "rev_side pre path =
     (if path = null_path \<or> path = [] then null_path else pre @ ''/'' @ path)"

definition rev_real :: "string \<Rightarrow> string \<Rightarrow> string" where
  "rev_real a b = (if a = null_path \<or> a = [] then b else a)"

definition reverse_header_line :: "string \<Rightarrow> string \<Rightarrow> string \<Rightarrow> string" where
  "reverse_header_line oldp newp line =
     (if starts_with ''--- '' line then ''--- '' @ rev_side ''a'' oldp
      else if starts_with ''+++ '' line then ''+++ '' @ rev_side ''b'' newp
      else if starts_with ''diff --git '' line
        then ''diff --git a/'' @ rev_real oldp newp @ '' b/'' @ rev_real newp oldp
      else case strip_prefix ''index '' line of
        Some rest \<Rightarrow>
          (case split_once ''..'' rest of
             Some (a, b) \<Rightarrow>
               (let (b', mode) = (case split_once '' '' b of Some (b1, m) \<Rightarrow> (b1, '' '' @ m) | None \<Rightarrow> (b, []))
                in ''index '' @ b' @ ''..'' @ a @ mode)
           | None \<Rightarrow> line)
      | None \<Rightarrow> (case strip_prefix ''new file mode '' line of
        Some m \<Rightarrow> ''deleted file mode '' @ m
      | None \<Rightarrow> (case strip_prefix ''deleted file mode '' line of
        Some m \<Rightarrow> ''new file mode '' @ m
      | None \<Rightarrow> (case strip_prefix ''rename from '' line of
        Some p \<Rightarrow> ''rename to '' @ p
      | None \<Rightarrow> (case strip_prefix ''rename to '' line of
        Some p \<Rightarrow> ''rename from '' @ p
      | None \<Rightarrow> line)))))"

definition reverse_header :: "string list \<Rightarrow> string \<Rightarrow> string \<Rightarrow> string list" where
  "reverse_header hdr oldp newp = map (reverse_header_line oldp newp) hdr"

fun reverse_origin :: "origin \<Rightarrow> origin" where
  "reverse_origin Added = Removed"
| "reverse_origin Removed = Added"
| "reverse_origin other = other"

definition reverse_hunk :: "hunk \<Rightarrow> hunk" where
  "reverse_hunk h =
     \<lparr>old_start = new_start h, new_start = old_start h, h_section = h_section h,
      h_lines = map (\<lambda>l. \<lparr>l_origin = reverse_origin (l_origin l), l_text = l_text l\<rparr>) (h_lines h)\<rparr>"

definition reversed :: "patch \<Rightarrow> patch" where
  "reversed p =
     \<lparr>files = map (\<lambda>f. \<lparr>fp_header = reverse_header (fp_header f) (new_path f) (old_path f),
                        old_path = new_path f, new_path = old_path f,
                        hunks = map reverse_hunk (hunks f)\<rparr>) (files p)\<rparr>"

section \<open>What a parse of the written text gives\<close>

text \<open>\<open>write_file\<close> recomputes every \<open>new_start\<close>; this is the patch it writes.\<close>

fun renumber_hunks :: "hunk list \<Rightarrow> int \<Rightarrow> hunk list" where
  "renumber_hunks [] delta = []"
| "renumber_hunks (h # hs) delta =
     h\<lparr>new_start := recomputed_start h delta\<rparr>
     # renumber_hunks hs (delta + (int (new_len h) - int (old_len h)))"

definition renumber_file :: "file_patch \<Rightarrow> file_patch" where
  "renumber_file f = f\<lparr>hunks := renumber_hunks (hunks f) 0\<rparr>"

definition renumber :: "patch \<Rightarrow> patch" where
  "renumber p = \<lparr>files = map renumber_file (files p)\<rparr>"

definition header_path :: "string \<Rightarrow> string list \<Rightarrow> string" where
  "header_path pre hdr =
     (case filter (starts_with pre) hdr of [] \<Rightarrow> [] | ls \<Rightarrow> strip_prefix_dir (drop (length pre) (last ls)))"

text \<open>
  A patch git would print: every text is free of line ends, a file opens with its
  \<open>diff --git\<close> line and no other header line looks like a hunk or a file, its paths are the
  ones its header names, and the line numbers fit a \<open>usize\<close>.
\<close>

definition wf_hunk :: "hunk \<Rightarrow> bool" where
  "wf_hunk h \<longleftrightarrow>
     old_start h \<le> usize_max \<and> new_start h \<le> usize_max \<and> clean_line (h_section h)
     \<and> list_all (\<lambda>l. clean_line (l_text l)) (h_lines h)"

definition plain_header_line :: "string \<Rightarrow> bool" where
  "plain_header_line l \<longleftrightarrow>
     \<not> starts_with ''diff --git '' l \<and> \<not> starts_with ''@@ '' l"

definition wf_file :: "file_patch \<Rightarrow> bool" where
  "wf_file f \<longleftrightarrow>
     fp_header f \<noteq> [] \<and> starts_with ''diff --git '' (hd (fp_header f))
     \<and> list_all clean_line (fp_header f) \<and> list_all plain_header_line (tl (fp_header f))
     \<and> old_path f = header_path ''--- '' (tl (fp_header f))
     \<and> new_path f = header_path ''+++ '' (tl (fp_header f))
     \<and> list_all wf_hunk (hunks (renumber_file f))"

definition wf_patch :: "patch \<Rightarrow> bool" where
  "wf_patch p \<longleftrightarrow> list_all wf_file (files p)"

lemma update_last_snoc [simp]: "update_last f (xs @ [x]) = xs @ [f x]"
  by (simp add: update_last_def)

lemma update_last_Nil [simp]: "update_last f [] = []"
  by (simp add: update_last_def)

subsection \<open>The \<open>@@\<close> line\<close>

lemma split_once_at:
  "CHR ''@'' \<notin> set a \<Longrightarrow> split_once '' @@'' (a @ '' @@'' @ b) = Some (a, b)"
proof (induction a)
  case Nil
  then show ?case by (subst split_once.simps) simp
next
  case (Cons x a)
  have "strip_prefix '' @@'' ((x # a) @ '' @@'' @ b) = None"
    using Cons.prems by (cases a) auto
  with Cons show ?case by (subst split_once.simps) simp
qed

definition range_text :: "nat \<Rightarrow> nat \<Rightarrow> string" where
  "range_text start len = (if len = 1 then show_nat start else show_nat start @ '','' @ show_nat len)"

lemma range_text_visible: "range_text s n \<noteq> []" "list_all visible (range_text s n)"
  using digits_visible by (auto simp: range_text_def visible_def)

lemma parse_start_range: "s \<le> usize_max \<Longrightarrow> parse_start (range_text s n) = Some s"
proof -
  assume "s \<le> usize_max"
  have c: "CHR '','' \<notin> set (show_nat k)" for k
    by (rule not_in_show_nat) (simp add: is_digit_def)
  show ?thesis
    using \<open>s \<le> usize_max\<close> c
    by (simp add: parse_start_def range_text_def split_once_char split_once_char_None parse_show_nat)
qed

lemma visible_no_at: "list_all visible a \<Longrightarrow> CHR ''@'' \<notin> set a \<or> CHR ''@'' \<in> set a"
  by blast

lemma range_text_no_at: "CHR ''@'' \<notin> set (range_text s n)"
  using not_in_show_nat [of "CHR ''@''"] by (auto simp: range_text_def is_digit_def)

lemma hunk_header_text:
  "hunk_header h start =
     ''@@ '' @ (CHR ''-'' # range_text (old_start h) (old_len h)) @ '' '' @ (CHR ''+'' # range_text start (new_len h))
     @ '' @@'' @ (if h_section h = [] then [] else '' '' @ h_section h)"
  by (simp add: hunk_header_def range_text_def Let_def)

lemma parse_hunk_header_written:
  assumes "old_start h \<le> usize_max" "start \<le> usize_max"
  shows "parse_hunk_header ((CHR ''-'' # range_text (old_start h) (old_len h)) @ '' ''
           @ (CHR ''+'' # range_text start (new_len h))
           @ '' @@'' @ (if h_section h = [] then [] else '' '' @ h_section h))
         = Some \<lparr>old_start = old_start h, new_start = start, h_section = h_section h, h_lines = []\<rparr>"
proof -
  let ?o = "CHR ''-'' # range_text (old_start h) (old_len h)"
  let ?n = "CHR ''+'' # range_text start (new_len h)"
  let ?sec = "if h_section h = [] then [] else '' '' @ h_section h"
  have vis: "list_all visible ?o" "list_all visible ?n"
    using range_text_visible by (auto simp: visible_def)
  have "CHR ''@'' \<notin> set (?o @ '' '' @ ?n)"
    using range_text_no_at by auto
  then have "split_once '' @@'' ((?o @ '' '' @ ?n) @ '' @@'' @ ?sec) = Some (?o @ '' '' @ ?n, ?sec)"
    by (rule split_once_at)
  then have so: "split_once '' @@'' (?o @ '' '' @ ?n @ '' @@'' @ ?sec) = Some (?o @ '' '' @ ?n, ?sec)"
    by simp
  have sw: "split_whitespace (?o @ '' '' @ ?n) = [?o, ?n]"
    using vis by (intro split_whitespace_two) auto
  show ?thesis
    unfolding parse_hunk_header_def so
    by (simp add: sw [simplified] parse_start_range assms)
qed

subsection \<open>Hunks, files, patches\<close>

lemma marker_lines:
  "\<not> starts_with ''diff --git '' (marker r # t)" "strip_prefix ''@@ '' (marker r # t) = None"
  "parse_body (marker r # t) = Some \<lparr>l_origin = r, l_text = t\<rparr>"
  by (cases r; simp add: rs_simps parse_body_def)+

lemma parse_step_body:
  "parse_step (fs @ [f\<lparr>hunks := hs @ [h]\<rparr>]) (marker r # t) =
   fs @ [f\<lparr>hunks := hs @ [h\<lparr>h_lines := h_lines h @ [\<lparr>l_origin = r, l_text = t\<rparr>]\<rparr>]\<rparr>]"
  by (simp add: parse_step_def parse_into_file_def marker_lines update_last_def
      del: strip_prefix.simps)

lemma parse_body_lines:
  "foldl parse_step (fs @ [f\<lparr>hunks := hs @ [h]\<rparr>]) (map (\<lambda>l. marker (l_origin l) # l_text l) ls) =
   fs @ [f\<lparr>hunks := hs @ [h\<lparr>h_lines := h_lines h @ ls\<rparr>]\<rparr>]"
proof (induction ls arbitrary: h)
  case (Cons l ls)
  show ?case
    using Cons.IH [of "h\<lparr>h_lines := h_lines h @ [l]\<rparr>"] by (cases l) (simp add: parse_step_body)
qed simp

lemma parse_step_header:
  assumes "old_start h \<le> usize_max" "start \<le> usize_max"
  shows "parse_step (fs @ [f\<lparr>hunks := hs\<rparr>]) (hunk_header h start) =
   fs @ [f\<lparr>hunks := hs @ [\<lparr>old_start = old_start h, new_start = start, h_section = h_section h, h_lines = []\<rparr>]\<rparr>]"
proof -
  have "\<not> starts_with ''diff --git '' (hunk_header h start)"
    by (simp add: hunk_header_text rs_simps)
  moreover have "strip_prefix ''@@ '' (hunk_header h start) = Some ((CHR ''-'' # range_text (old_start h) (old_len h)) @ '' ''
           @ (CHR ''+'' # range_text start (new_len h))
           @ '' @@'' @ (if h_section h = [] then [] else '' '' @ h_section h))"
    by (simp add: hunk_header_text)
  ultimately show ?thesis
    using parse_hunk_header_written [OF assms]
    by (simp add: parse_step_def parse_into_file_def)
qed

lemma parse_write_hunks:
  "list_all wf_hunk (renumber_hunks gs delta) \<Longrightarrow>
   foldl parse_step (fs @ [f\<lparr>hunks := hs\<rparr>]) (write_hunks gs delta) =
   fs @ [f\<lparr>hunks := hs @ renumber_hunks gs delta\<rparr>]"
proof (induction gs delta arbitrary: hs rule: write_hunks.induct)
  case (2 h gs delta)
  let ?h = "\<lparr>old_start = old_start h, new_start = recomputed_start h delta, h_section = h_section h, h_lines = []\<rparr>"
  from "2.prems" have b: "old_start h \<le> usize_max" "recomputed_start h delta \<le> usize_max"
    by (simp_all add: wf_hunk_def)
  have eq: "?h\<lparr>h_lines := h_lines ?h @ h_lines h\<rparr> = h\<lparr>new_start := recomputed_start h delta\<rparr>"
    by simp
  have "foldl parse_step (fs @ [f\<lparr>hunks := hs\<rparr>]) (write_hunks (h # gs) delta)
      = foldl parse_step (fs @ [f\<lparr>hunks := hs @ [h\<lparr>new_start := recomputed_start h delta\<rparr>]\<rparr>])
          (write_hunks gs (delta + (int (new_len h) - int (old_len h))))"
    by (simp only: write_hunks.simps foldl_append foldl_Cons foldl_Nil parse_step_header [OF b]
        parse_body_lines eq)
  then show ?case using 2 by simp
qed simp

lemma plain_header_step:
  assumes "plain_header_line l" "hunks f = []"
  shows "parse_step (fs @ [f]) l = fs @ [parse_into_file f l]"
    and "hunks (parse_into_file f l) = []"
    and "fp_header (parse_into_file f l) = fp_header f @ [l]"
  using assms
  by (auto simp: parse_step_def parse_into_file_def plain_header_line_def starts_with_def
      split: option.splits)

lemma header_path_snoc:
  "header_path pre (ls @ [l]) = (case strip_prefix pre l of Some p \<Rightarrow> strip_prefix_dir p | None \<Rightarrow> header_path pre ls)"
  by (auto simp: header_path_def starts_with_def strip_prefix_iff split: option.splits list.splits)

lemma header_paths_step:
  assumes "plain_header_line l" "hunks f = []"
    "old_path f = header_path ''--- '' ls" "new_path f = header_path ''+++ '' ls"
  shows "old_path (parse_into_file f l) = header_path ''--- '' (ls @ [l])"
    and "new_path (parse_into_file f l) = header_path ''+++ '' (ls @ [l])"
proof -
  have "strip_prefix ''@@ '' l = None"
    using assms(1) by (auto simp: plain_header_line_def starts_with_def)
  moreover have "strip_prefix ''--- '' l = Some p \<Longrightarrow> strip_prefix ''+++ '' l = None" for p
    by (auto simp: strip_prefix_iff)
  ultimately show "old_path (parse_into_file f l) = header_path ''--- '' (ls @ [l])"
    and "new_path (parse_into_file f l) = header_path ''+++ '' (ls @ [l])"
    using assms(2-4) by (auto simp: parse_into_file_def header_path_snoc split: option.splits)
qed

lemma parse_header_lines:
  "list_all plain_header_line ls \<Longrightarrow> hunks f = [] \<Longrightarrow>
   old_path f = header_path ''--- '' pre \<Longrightarrow> new_path f = header_path ''+++ '' pre \<Longrightarrow>
   foldl parse_step (fs @ [f]) ls =
   fs @ [\<lparr>fp_header = fp_header f @ ls, old_path = header_path ''--- '' (pre @ ls),
          new_path = header_path ''+++ '' (pre @ ls), hunks = []\<rparr>]"
proof (induction ls arbitrary: f pre)
  case (Cons l ls)
  let ?f = "parse_into_file f l"
  have l: "plain_header_line l" and ls: "list_all plain_header_line ls" using Cons.prems by simp_all
  note st = plain_header_step [OF l Cons.prems(2)]
  note hp = header_paths_step [OF l Cons.prems(2-4)]
  show ?case
    using Cons.IH [OF ls st(2) hp] by (simp add: st(1,3))
qed simp

lemma parse_write_file:
  assumes "wf_file f"
  shows "foldl parse_step fs (write_file f (\<lambda>_ _. True)) = fs @ [renumber_file f]"
proof -
  from assms obtain h0 ht where hdr: "fp_header f = h0 # ht"
    by (cases "fp_header f") (auto simp: wf_file_def)
  note wf = assms [unfolded wf_file_def]
  have all: "map snd (filter (\<lambda>(i, h). True) (List.enumerate 0 (hunks f))) = hunks f"
    by simp
  have w: "write_file f (\<lambda>_ _. True) = (h0 # ht) @ write_hunks (hunks f) 0"
    unfolding write_file_def all Let_def hdr by (cases "hunks f = []") simp_all
  let ?f0 = "\<lparr>fp_header = [h0], old_path = [], new_path = [], hunks = []\<rparr>"
  have "parse_step fs h0 = fs @ [?f0]"
    using wf hdr by (simp add: parse_step_def)
  moreover have "foldl parse_step (fs @ [?f0]) ht =
      fs @ [\<lparr>fp_header = [h0] @ ht, old_path = header_path ''--- '' ([] @ ht),
             new_path = header_path ''+++ '' ([] @ ht), hunks = []\<rparr>]"
    using parse_header_lines [of ht ?f0 "[]" fs] wf hdr by (simp add: header_path_def)
  moreover have "\<lparr>fp_header = [h0] @ ht, old_path = header_path ''--- '' ([] @ ht),
             new_path = header_path ''+++ '' ([] @ ht), hunks = []\<rparr> = f\<lparr>hunks := []\<rparr>"
    using wf hdr by simp
  moreover have "foldl parse_step (fs @ [f\<lparr>hunks := []\<rparr>]) (write_hunks (hunks f) 0) = fs @ [renumber_file f]"
    using parse_write_hunks [where gs = "hunks f" and delta = 0 and fs = fs and f = f and hs = "[]"] wf by (simp add: renumber_file_def)
  ultimately show ?thesis
    unfolding w by simp
qed

lemma parse_files:
  "list_all wf_file gs \<Longrightarrow>
   foldl parse_step fs (concat (map (\<lambda>f. write_file f (\<lambda>_ _. True)) gs)) = fs @ map renumber_file gs"
proof (induction gs arbitrary: fs)
  case (Cons g gs)
  then show ?case by (simp add: parse_write_file)
qed simp

lemma clean_line_Cons: "c \<noteq> CHR 0x0A \<Longrightarrow> c \<noteq> CHR 0x0D \<Longrightarrow> clean_line t \<Longrightarrow> clean_line (c # t)"
  by (cases t rule: rev_cases) (auto simp: clean_line_def strip_suffix_def)

lemma clean_line_append: "CHR 0x0A \<notin> set a \<Longrightarrow> b \<noteq> [] \<Longrightarrow> clean_line b \<Longrightarrow> clean_line (a @ b)"
  by (cases b rule: rev_cases) (auto simp: clean_line_def strip_suffix_def)

lemma clean_marker: "clean_line t \<Longrightarrow> clean_line (marker r # t)"
  by (rule clean_line_Cons) (cases r; simp)+

lemma clean_hunk_header: "clean_line (h_section h) \<Longrightarrow> clean_line (hunk_header h start)"
proof -
  assume c: "clean_line (h_section h)"
  have n: "CHR 0x0A \<notin> set (range_text a b)" for a b
    using not_in_show_nat [of "CHR 0x0A"] by (auto simp: range_text_def is_digit_def)
  have "clean_line (''@@'' @ (if h_section h = [] then [] else '' '' @ h_section h))"
    using c by (cases "h_section h" rule: rev_cases) (auto simp: clean_line_def strip_suffix_def)
  then have "clean_line ((''@@ '' @ (CHR ''-'' # range_text (old_start h) (old_len h)) @ '' '' @ (CHR ''+'' # range_text start (new_len h)) @ '' '')
     @ (''@@'' @ (if h_section h = [] then [] else '' '' @ h_section h)))"
  proof (rule clean_line_append [rotated 2])
    show "CHR 0x0A \<notin> set (''@@ '' @ (CHR ''-'' # range_text (old_start h) (old_len h)) @ '' '' @ (CHR ''+'' # range_text start (new_len h)) @ '' '')"
      using n by simp
  qed simp
  then show ?thesis by (simp add: hunk_header_text)
qed

lemma clean_write_hunks:
  "list_all wf_hunk (renumber_hunks hs delta) \<Longrightarrow> list_all clean_line (write_hunks hs delta)"
  by (induction hs delta rule: write_hunks.induct)
     (auto simp: wf_hunk_def clean_hunk_header list_all_iff clean_marker)

lemma clean_write_file: "wf_file f \<Longrightarrow> list_all clean_line (write_file f k)"
proof -
  assume wf: "wf_file f"
  have "list_all clean_line (write_hunks (map snd (filter (\<lambda>(i, h). k i h) (List.enumerate 0 (hunks f)))) 0)
        \<or> True" by simp
  have hs: "\<And>h. h \<in> set (renumber_hunks (hunks f) 0) \<Longrightarrow> wf_hunk h"
    using wf by (auto simp: wf_file_def renumber_file_def list_all_iff)
  have mem: "h \<in> set gs \<Longrightarrow> \<exists>n. h\<lparr>new_start := n\<rparr> \<in> set (renumber_hunks gs d)" for h gs d
    by (induction gs d rule: renumber_hunks.induct) auto
  have c: "h \<in> set (hunks f) \<Longrightarrow> clean_line (h_section h) \<and> list_all (\<lambda>l. clean_line (l_text l)) (h_lines h)" for h
    using mem [of h "hunks f" 0] hs by (fastforce simp: wf_hunk_def)
  have w: "\<forall>h \<in> set gs. clean_line (h_section h) \<and> list_all (\<lambda>l. clean_line (l_text l)) (h_lines h) \<Longrightarrow>
      list_all clean_line (write_hunks gs d)" for gs d
    by (induction gs d rule: write_hunks.induct) (auto simp: clean_hunk_header list_all_iff clean_marker)
  have "set (map snd (filter (\<lambda>(i, h). k i h) (List.enumerate 0 (hunks f)))) \<subseteq> set (hunks f)"
    by (auto simp: in_set_enumerate_eq)
  then show ?thesis
    using w c wf unfolding write_file_def Let_def
    by (auto simp: wf_file_def subset_iff simp del: set_map)
qed

text \<open>Parsing what \<open>to_text\<close> wrote gives the patch back, with the new side renumbered.\<close>

lemma parse_to_text: "wf_patch p \<Longrightarrow> parse (to_text p) = renumber p"
proof -
  assume wf: "wf_patch p"
  then have "list_all clean_line (concat (map (\<lambda>f. write_file f (\<lambda>_ _. True)) (files p)))"
    by (auto simp: wf_patch_def list_all_iff dest: clean_write_file [unfolded list_all_iff])
  with wf show ?thesis
    by (simp add: parse_def to_text_def lines_unlines parse_files wf_patch_def renumber_def)
qed

definition parse_opt :: "string \<Rightarrow> patch option" where
  "parse_opt t = Some (parse t)"

interpretation patch_text: codec to_text parse_opt "\<lambda>p. wf_patch p \<and> renumber p = p"
  by unfold_locales (simp add: parse_opt_def parse_to_text)

end
