(* ===== verification/Hunk_Apply.thy ===== *)
theory Hunk_Apply
  imports Hunk
begin

text \<open>
  What the two transformations of \<open>crates/butai-protocol/src/hunk.rs\<close> promise: a selection
  keeps the side of the hunk the patch applies to, and a reversed patch undoes the patch. The
  second is stated over an abstract application of a list of hunks to the lines of a file.
\<close>

section \<open>The two sides of a hunk\<close>

definition side_of :: "(origin \<Rightarrow> bool) \<Rightarrow> hunk_line list \<Rightarrow> string list" where
  "side_of P ls = map l_text (filter (\<lambda>l. P (l_origin l)) ls)"

abbreviation old_side :: "hunk \<Rightarrow> string list" where
  "old_side h \<equiv> side_of in_old (h_lines h)"

abbreviation new_side :: "hunk \<Rightarrow> string list" where
  "new_side h \<equiv> side_of in_new (h_lines h)"

lemma side_of_simps [simp]:
  "side_of P [] = []"
  "side_of P (l # ls) = (if P (l_origin l) then l_text l # side_of P ls else side_of P ls)"
  "side_of P (ls @ ls') = side_of P ls @ side_of P ls'"
  by (simp_all add: side_of_def)

lemma length_sides [simp]: "length (old_side h) = old_len h" "length (new_side h) = new_len h"
  by (simp_all add: side_of_def old_len_def new_len_def)

lemma in_old_new_simps [simp]:
  "in_old Context" "\<not> in_old Added" "in_old Removed" "\<not> in_old NoNewline"
  "in_new Context" "in_new Added" "\<not> in_new Removed" "\<not> in_new NoNewline"
  by (simp_all add: in_old_def in_new_def)

section \<open>A selection of lines\<close>

text \<open>The selection rules, stated line by line: what the new side of the selection holds.\<close>

fun picked_new :: "(nat \<Rightarrow> bool) \<Rightarrow> nat \<Rightarrow> hunk_line list \<Rightarrow> string list" where
  "picked_new keep i [] = []"
| "picked_new keep i (l # ls) =
     (case l_origin l of
        Context \<Rightarrow> [l_text l]
      | Added \<Rightarrow> if keep i then [l_text l] else []
      | Removed \<Rightarrow> if keep i then [] else [l_text l]
      | NoNewline \<Rightarrow> []) @ picked_new keep (Suc i) ls"

definition keep_of :: "nat list option \<Rightarrow> nat \<Rightarrow> bool" where
  "keep_of picked i = (case picked of None \<Rightarrow> True | Some p \<Rightarrow> i \<in> set p)"

lemma subset_loop_sides:
  "side_of in_old (subset_loop all keep i ls acc) = side_of in_old acc @ side_of in_old ls"
  "side_of in_new (subset_loop all keep i ls acc) = side_of in_new acc @ picked_new keep i ls"
  by (induction all keep i ls acc rule: subset_loop.induct) (auto split: origin.split)

lemma subset_lines_sides:
  "side_of in_old (subset_lines h picked) = old_side h"
  "side_of in_new (subset_lines h picked) = picked_new (keep_of picked) 0 (h_lines h)"
  by (simp_all add: subset_lines_def subset_loop_sides keep_of_def [abs_def])

lemma subset_loop_all:
  "(\<forall>j. keep j) \<Longrightarrow> length acc = i \<Longrightarrow> subset_loop all keep i ls acc = acc @ ls"
  by (induction all keep i ls acc rule: subset_loop.induct) (auto split: origin.split)

lemma subset_lines_whole: "subset_lines h None = h_lines h"
  by (simp add: subset_lines_def subset_loop_all)

text \<open>A line of the selection is a line of the hunk, or a removed one turned into context.\<close>

lemma subset_loop_mem:
  "l \<in> set (subset_loop all keep i ls acc) \<Longrightarrow>
   l \<in> set acc \<or> l \<in> set ls \<or> (\<exists>r \<in> set ls. l_origin r = Removed \<and> l = \<lparr>l_origin = Context, l_text = l_text r\<rparr>)"
  by (induction all keep i ls acc rule: subset_loop.induct) (auto split: origin.splits if_splits)

lemma subset_lines_text: "l \<in> set (subset_lines h picked) \<Longrightarrow> \<exists>r \<in> set (h_lines h). l_text l = l_text r"
  unfolding subset_lines_def by (drule subset_loop_mem) auto

text \<open>Which changes survive: exactly the selected ones.\<close>

lemma subset_loop_changes:
  "filter is_change (subset_loop all keep i ls acc) =
   filter is_change acc @ map snd (filter (\<lambda>(j, l). keep j \<and> is_change l) (List.enumerate i ls))"
  by (induction all keep i ls acc rule: subset_loop.induct)
     (auto simp: is_change_def split: origin.split)

lemma subset_lines_changes:
  "filter is_change (subset_lines h picked) =
   map (\<lambda>i. h_lines h ! i) (filter (keep_of picked) (changed_line_indices h))"
proof -
  have *: "map snd (filter (\<lambda>(j, l). K j \<and> is_change l) (List.enumerate 0 ls))
      = map ((!) ls) (filter K (map fst (filter (\<lambda>(j, l). is_change l) (List.enumerate 0 ls))))" for K ls
    by (induction ls rule: rev_induct) (auto simp: enumerate_append_eq nth_append in_set_enumerate_eq)
  have idx: "changed_line_indices h = map fst (filter (\<lambda>(j, l). is_change l) (List.enumerate 0 (h_lines h)))"
    by (simp add: changed_line_indices_def is_change_def)
  have "subset_lines h picked = subset_loop (h_lines h) (keep_of picked) 0 (h_lines h) []"
    by (simp add: subset_lines_def keep_of_def [abs_def])
  then have "filter is_change (subset_lines h picked) =
      map snd (filter (\<lambda>(j, l). keep_of picked j \<and> is_change l) (List.enumerate 0 (h_lines h)))"
    by (simp only: subset_loop_changes filter.simps append_Nil)
  also have "\<dots> = map ((!) (h_lines h)) (filter (keep_of picked) (changed_line_indices h))"
    unfolding idx by (rule *)
  finally show ?thesis .
qed

lemma subset_None_changes:
  "\<not> list_ex is_change (subset_lines h picked)
   \<longleftrightarrow> (\<forall>i \<in> set (changed_line_indices h). \<not> keep_of picked i)"
proof -
  have "\<not> list_ex is_change xs \<longleftrightarrow> filter is_change xs = []" for xs
    by (induction xs) auto
  then have "\<not> list_ex is_change (subset_lines h picked) \<longleftrightarrow> filter is_change (subset_lines h picked) = []" .
  also have "\<dots> \<longleftrightarrow> (\<forall>i \<in> set (changed_line_indices h). \<not> keep_of picked i)"
    unfolding subset_lines_changes by (simp add: filter_empty_conv)
  finally show ?thesis .
qed

lemma subset_None_iff:
  "subset p sel = None \<longleftrightarrow>
   (\<not> sel_file sel < length (files p)
    \<or> \<not> sel_hunk sel < length (hunks (files p ! sel_file sel))
    \<or> (\<forall>i \<in> set (changed_line_indices (hunks (files p ! sel_file sel) ! sel_hunk sel)).
         \<not> keep_of (sel_lines sel) i))"
  by (simp add: subset_def Let_def subset_None_changes)

text \<open>What is written for a selection reads back as one file with one hunk.\<close>

lemma as_isize_bounds: "- (2 ^ 63) \<le> as_isize n" "as_isize n < 2 ^ 63" if "n \<le> usize_max"
  using that by (auto simp: as_isize_def usize_max_def)

lemma recomputed_start_0: "n = old_start h \<Longrightarrow> n \<le> usize_max \<Longrightarrow> recomputed_start h 0 \<le> usize_max"
proof -
  assume n: "n = old_start h" "n \<le> usize_max"
  then have "as_isize (old_start h) < 2 ^ 63" using as_isize_bounds by simp
  then show ?thesis by (auto simp: recomputed_start_def Let_def usize_max_def)
qed

lemma renumber_hunks_clean:
  "h \<in> set hs \<Longrightarrow> list_all wf_hunk (renumber_hunks hs d) \<Longrightarrow>
   old_start h \<le> usize_max \<and> clean_line (h_section h) \<and> (\<forall>l \<in> set (h_lines h). clean_line (l_text l))"
  by (induction hs d rule: renumber_hunks.induct) (auto simp: wf_hunk_def list_all_iff)

lemma wf_subset_file:
  assumes "wf_file f" "h \<in> set (hunks f)"
  shows "wf_file (f\<lparr>hunks := [h\<lparr>h_lines := subset_lines h picked\<rparr>]\<rparr>)"
proof -
  have h: "old_start h \<le> usize_max" "clean_line (h_section h)" "\<forall>l \<in> set (h_lines h). clean_line (l_text l)"
    using renumber_hunks_clean [OF assms(2)] assms(1) by (auto simp: wf_file_def renumber_file_def)
  have "\<forall>l \<in> set (subset_lines h picked). clean_line (l_text l)"
    using h(3) subset_lines_text by metis
  moreover have "recomputed_start (h\<lparr>h_lines := ls\<rparr>) 0 \<le> usize_max" for ls
    using h(1) by (intro recomputed_start_0) simp_all
  ultimately show ?thesis
    using assms(1) h by (auto simp: wf_file_def renumber_file_def wf_hunk_def list_all_iff)
qed

lemma parse_subset:
  assumes "wf_patch p" "subset p sel = Some t"
  shows "let f = files p ! sel_file sel; h = hunks f ! sel_hunk sel
         in parse t = \<lparr>files = [renumber_file (f\<lparr>hunks := [h\<lparr>h_lines := subset_lines h (sel_lines sel)\<rparr>]\<rparr>)]\<rparr>"
proof -
  let ?f = "files p ! sel_file sel" and ?h = "hunks (files p ! sel_file sel) ! sel_hunk sel"
  let ?g = "?f\<lparr>hunks := [?h\<lparr>h_lines := subset_lines ?h (sel_lines sel)\<rparr>]\<rparr>"
  from assms(2) have b: "sel_file sel < length (files p)" "sel_hunk sel < length (hunks ?f)"
    and t: "t = unlines (write_file ?g (\<lambda>_ _. True))"
    by (auto simp: subset_def Let_def split: if_splits)
  have "wf_file ?f" using assms(1) b(1) by (simp add: wf_patch_def list_all_length)
  then have "wf_file ?g" using b(2) by (intro wf_subset_file) simp_all
  then have "parse (to_text \<lparr>files = [?g]\<rparr>) = renumber \<lparr>files = [?g]\<rparr>"
    by (intro parse_to_text) (simp add: wf_patch_def)
  then show ?thesis by (simp add: t to_text_def renumber_def Let_def)
qed

section \<open>Applying a patch, and undoing it\<close>

text \<open>
  An abstract reader of hunks: \<open>apply_from pos hs xs\<close> applies \<open>hs\<close> to \<open>xs\<close>, the lines of a file
  from line \<open>pos\<close> on (lines count from 1). A hunk stands at its \<open>old_start\<close>, or, when its old side
  is empty, right after it; its old side must be there, and is replaced by its new side.
\<close>

definition place :: "hunk \<Rightarrow> nat" where
  "place h = (if old_len h = 0 then Suc (old_start h) else old_start h)"

fun apply_from :: "nat \<Rightarrow> hunk list \<Rightarrow> string list \<Rightarrow> string list option" where
  "apply_from pos [] xs = Some xs"
| "apply_from pos (h # hs) xs =
     (if pos \<le> place h \<and> place h - pos \<le> length xs
      then (case strip_prefix (old_side h) (drop (place h - pos) xs) of
              None \<Rightarrow> None
            | Some r \<Rightarrow>
                map_option (\<lambda>ys. take (place h - pos) xs @ new_side h @ ys)
                  (apply_from (place h + old_len h) hs r))
      else None)"

lemma in_reverse_origin [simp]:
  "in_old (reverse_origin r) = in_new r" "in_new (reverse_origin r) = in_old r"
  "reverse_origin (reverse_origin r) = r"
  by (cases r; simp)+

lemma reverse_hunk_sides [simp]:
  "old_side (reverse_hunk h) = new_side h" "new_side (reverse_hunk h) = old_side h"
  by (simp_all add: reverse_hunk_def side_of_def filter_map o_def)

lemma reverse_hunk_lens [simp]:
  "old_len (reverse_hunk h) = new_len h" "new_len (reverse_hunk h) = old_len h"
  by (metis length_sides reverse_hunk_sides)+

lemma reverse_hunk_starts [simp]:
  "old_start (reverse_hunk h) = new_start h" "new_start (reverse_hunk h) = old_start h"
  by (simp_all add: reverse_hunk_def)

lemma reverse_hunk_reverse [simp]: "reverse_hunk (reverse_hunk h) = h"
proof -
  have "map (\<lambda>l. \<lparr>l_origin = l_origin l, l_text = l_text l\<rparr>) ls = ls" for ls
    by (rule map_idI) simp
  then show ?thesis by (cases h) (simp add: reverse_hunk_def o_def)
qed

text \<open>A hunk with a body, whose line number is no more than an \<open>isize\<close> holds.\<close>

definition proper_hunk :: "hunk \<Rightarrow> bool" where
  "proper_hunk h \<longleftrightarrow> 0 < old_len h + new_len h \<and> old_start h < 2 ^ 63"

lemma place_shift:
  assumes "proper_hunk h" "new_start h = recomputed_start h delta" "1 \<le> int (place h) + delta"
  shows "int (place (reverse_hunk h)) = int (place h) + delta"
  using assms by (auto simp: proper_hunk_def place_def recomputed_start_def as_isize_def Let_def split: if_splits)

lemma apply_reverse:
  assumes "list_all proper_hunk hs" "renumber_hunks hs delta = hs"
    "int npos = int pos + delta" "1 \<le> npos" "apply_from pos hs xs = Some ys"
  shows "apply_from npos (map reverse_hunk hs) ys = Some xs"
  using assms
proof (induction hs arbitrary: delta npos pos xs ys)
  case (Cons h hs)
  let ?k = "place h - pos" and ?r = "reverse_hunk h"
  from Cons.prems have k: "pos \<le> place h" "?k \<le> length xs"
    and nh: "h\<lparr>new_start := recomputed_start h delta\<rparr> = h"
    and rest: "renumber_hunks hs (delta + (int (new_len h) - int (old_len h))) = hs"
    by (auto split: if_splits)
  from Cons.prems(5) k obtain r ys' where r: "strip_prefix (old_side h) (drop ?k xs) = Some r"
    and ys': "apply_from (place h + old_len h) hs r = Some ys'"
    and ys: "ys = take ?k xs @ new_side h @ ys'"
    by (auto split: option.splits)
  have ns: "new_start h = recomputed_start h delta"
    using nh by (metis hunk.select_convs(2) hunk.surjective hunk.update_convs(2))
  have pl: "int (place ?r) = int (place h) + delta"
    using Cons.prems k ns by (intro place_shift) auto
  have k': "npos \<le> place ?r" "place ?r - npos = ?k"
    using pl k(1) Cons.prems(3) by linarith+
  have xs: "xs = take ?k xs @ old_side h @ r"
    using r by (metis append_take_drop_id strip_prefix_iff)
  have "apply_from (place ?r + new_len h) (map reverse_hunk hs) ys' = Some r"
  proof (rule Cons.IH [OF _ rest _ _ ys'])
    show "list_all proper_hunk hs" using Cons.prems by simp
    show "int (place ?r + new_len h) = int (place h + old_len h) + (delta + (int (new_len h) - int (old_len h)))"
      using pl by simp
    show "1 \<le> place ?r + new_len h" using k' Cons.prems(4) by simp
  qed
  then show ?case
    using k k' ys xs by (simp add: min_def)
qed simp

section \<open>Reversing twice\<close>

lemma reversed_hunks:
  "map hunks (files (reversed p)) = map (map reverse_hunk \<circ> hunks) (files p)"
  by (simp add: reversed_def)

lemma reversed_reversed_hunks:
  "map hunks (files (reversed (reversed p))) = map hunks (files p)"
  "map old_path (files (reversed (reversed p))) = map old_path (files p)"
  "map new_path (files (reversed (reversed p))) = map new_path (files p)"
  by (simp_all add: reversed_def o_def)

text \<open>The header lines git writes for a file with these paths.\<close>

definition hash_text :: "string \<Rightarrow> bool" where
  "hash_text x \<longleftrightarrow> list_all is_alnum x"

definition index_line :: "string \<Rightarrow> bool" where
  "index_line l \<longleftrightarrow> (\<exists>x y m. l = ''index '' @ x @ ''..'' @ y @ m \<and> hash_text x \<and> hash_text y
     \<and> (m = [] \<or> (\<exists>m'. m = '' '' @ m')))"

definition git_line :: "string \<Rightarrow> string \<Rightarrow> string \<Rightarrow> bool" where
  "git_line oldp newp l \<longleftrightarrow>
     l = ''--- '' @ rev_side ''a'' oldp \<or> l = ''+++ '' @ rev_side ''b'' newp
     \<or> l = ''diff --git a/'' @ rev_real oldp newp @ '' b/'' @ rev_real newp oldp
     \<or> index_line l
     \<or> (\<exists>m. l = ''new file mode '' @ m) \<or> (\<exists>m. l = ''deleted file mode '' @ m)
     \<or> (\<exists>m. l = ''rename from '' @ m) \<or> (\<exists>m. l = ''rename to '' @ m)
     \<or> (\<exists>m. l = ''similarity index '' @ m) \<or> (\<exists>m. l = ''Binary files '' @ m)"

lemma split_once_hash:
  "hash_text x \<Longrightarrow> split_once ''..'' (x @ ''..'' @ r) = Some (x, r)"
proof (induction x)
  case Nil
  then show ?case by (subst split_once.simps) simp
next
  case (Cons c x)
  then have "c \<noteq> CHR ''.''" by (auto simp: hash_text_def is_alnum_def is_digit_def is_lower_def is_upper_def)
  with Cons show ?case by (subst split_once.simps) (simp add: hash_text_def)
qed

lemma hash_no_space: "hash_text x \<Longrightarrow> CHR '' '' \<notin> set x"
  by (auto simp: hash_text_def list_all_iff is_alnum_def is_digit_def is_lower_def is_upper_def)

lemma reverse_index:
  assumes "hash_text x" "hash_text y" "m = [] \<or> (\<exists>m'. m = '' '' @ m')"
  shows "reverse_header_line a b (''index '' @ x @ ''..'' @ y @ m) = ''index '' @ y @ ''..'' @ x @ m"
proof -
  have "split_once ''..'' (x @ ''..'' @ y @ m) = Some (x, y @ m)"
    using assms(1) by (rule split_once_hash)
  moreover have "(case split_once '' '' (y @ m) of Some (b1, m) \<Rightarrow> (b1, '' '' @ m) | None \<Rightarrow> (y @ m, [])) = (y, m)"
    using assms(3) hash_no_space [OF assms(2)]
    by (auto simp: split_once_char split_once_char_None)
  ultimately show ?thesis by (simp add: reverse_header_line_def starts_with_code)
qed

lemma reverse_index_twice: "index_line l \<Longrightarrow> reverse_header_line a b (reverse_header_line c d l) = l"
proof -
  assume "index_line l"
  then obtain x y m where l: "l = ''index '' @ x @ ''..'' @ y @ m"
    and h: "hash_text x" "hash_text y" "m = [] \<or> (\<exists>m'. m = '' '' @ m')"
    unfolding index_line_def by blast
  show ?thesis unfolding l by (simp only: reverse_index [OF h] reverse_index [OF h(2,1,3)])
qed

lemma reverse_header_line_twice:
  assumes "git_line a b l"
  shows "reverse_header_line a b (reverse_header_line b a l) = l"
  using assms unfolding git_line_def
  by (elim disjE exE; (simp only: reverse_index_twice)?) (simp_all add: reverse_header_line_def starts_with_code)

lemma reversed_reversed:
  assumes "\<forall>f \<in> set (files p). list_all (git_line (old_path f) (new_path f)) (fp_header f)"
  shows "reversed (reversed p) = p"
proof -
  have f: "reverse_header (reverse_header (fp_header f) (new_path f) (old_path f)) (old_path f) (new_path f)
      = fp_header f" if "f \<in> set (files p)" for f
    using assms that by (auto simp: reverse_header_def list_all_iff reverse_header_line_twice intro!: map_idI)
  have "map (\<lambda>f. \<lparr>fp_header = reverse_header (reverse_header (fp_header f) (new_path f) (old_path f)) (old_path f) (new_path f),
      old_path = old_path f, new_path = new_path f, hunks = map (reverse_hunk \<circ> reverse_hunk) (hunks f)\<rparr>) (files p) = files p"
    using f by (intro map_idI) (simp add: o_def)
  then show ?thesis by (cases p) (simp add: reversed_def o_def)
qed

lemma reversed_undo:
  assumes "f \<in> set (files p)" "list_all proper_hunk (hunks f)" "renumber_file f = f"
    and "apply_from 1 (hunks f) xs = Some ys"
  shows "\<exists>g \<in> set (files (reversed p)). old_path g = new_path f \<and> new_path g = old_path f
           \<and> apply_from 1 (hunks g) ys = Some xs"
proof -
  have "renumber_hunks (hunks f) 0 = hunks f"
    using assms(3) unfolding renumber_file_def by (metis file_patch.select_convs(4) file_patch.surjective file_patch.update_convs(4))
  then have "apply_from 1 (map reverse_hunk (hunks f)) ys = Some xs"
    using apply_reverse [OF assms(2) _ _ _ assms(4)] by simp
  then show ?thesis using assms(1) by (force simp: reversed_def)
qed

section \<open>Two divergences\<close>

text \<open>
  The marker of a dropped added line survives when the kept line before it has the same text,
  although the source says that dropping an added line takes its marker with it.
\<close>

lemma marker_of_dropped_line:
  "subset_lines \<lparr>old_start = 1, new_start = 1, h_section = [],
      h_lines = [\<lparr>l_origin = Removed, l_text = ''foo''\<rparr>, \<lparr>l_origin = Added, l_text = ''foo''\<rparr>,
                 \<lparr>l_origin = NoNewline, l_text = '' No newline at end of file''\<rparr>]\<rparr> (Some [0])
   = [\<lparr>l_origin = Removed, l_text = ''foo''\<rparr>, \<lparr>l_origin = NoNewline, l_text = '' No newline at end of file''\<rparr>]"
  by (simp add: subset_lines_def)

text \<open>A carriage return at the end of a line is lost by parsing: \<open>str::lines\<close> strips it.\<close>

lemma crlf_is_lost: "lines (''+a'' @ [CHR 0x0D, CHR 0x0A]) = [''+a'']"
  using lines_Cons [of "''+a'' @ [CHR 0x0D]" "[]"] by (simp add: strip_cr_def strip_suffix_def)

section \<open>The properties\<close>

text \<open>A small patch the witnesses evaluate.\<close>

definition demo_file :: file_patch where
  "demo_file =
     \<lparr>fp_header = [''diff --git a/f b/f'', ''index 11..22 100644'', ''--- a/f'', ''+++ b/f''],
      old_path = ''f'', new_path = ''f'',
      hunks = [\<lparr>old_start = 2, new_start = 2, h_section = ''fn f()'',
        h_lines = [\<lparr>l_origin = Context, l_text = ''x''\<rparr>, \<lparr>l_origin = Removed, l_text = ''y''\<rparr>,
                   \<lparr>l_origin = Added, l_text = ''z''\<rparr>, \<lparr>l_origin = Added, l_text = ''w''\<rparr>]\<rparr>]\<rparr>"

definition demo_patch :: patch where
  "demo_patch = \<lparr>files = [demo_file]\<rparr>"

lemma header_path_demo:
  "header_path ''--- '' (tl (fp_header demo_file)) = ''f''"
  "header_path ''+++ '' (tl (fp_header demo_file)) = ''f''"
  by code_simp+

lemma renumber_demo: "renumber_file demo_file = demo_file"
  by (simp add: renumber_file_def demo_file_def recomputed_start_def
      new_len_def old_len_def as_isize_def in_old_def in_new_def)

lemma wf_demo: "wf_patch demo_patch"
proof -
  have "list_all clean_line (fp_header demo_file)" "list_all plain_header_line (tl (fp_header demo_file))"
    by (simp_all add: demo_file_def clean_line_def strip_suffix_def plain_header_line_def starts_with_code)
  moreover have "list_all wf_hunk (hunks demo_file)"
    by (simp add: demo_file_def wf_hunk_def clean_line_def strip_suffix_def usize_max_def)
  ultimately show ?thesis
    using header_path_demo renumber_demo
    by (simp add: wf_patch_def demo_patch_def wf_file_def) (simp add: demo_file_def starts_with_code)
qed

text \<open>
  C28. Writing a well-formed patch out and parsing the text gives the patch back, with the new
  side of every hunk header renumbered from the old side and the hunks before it.
\<close>

theorem patch_text_roundtrip:
  assumes "wf_patch p"
  shows "parse (to_text p) = renumber p"
  using assms by (rule parse_to_text)

theorem patch_text_roundtrip_witness: "wf_patch demo_patch \<and> parse (to_text demo_patch) = demo_patch"
proof -
  have "renumber demo_patch = demo_patch" by (simp add: renumber_def demo_patch_def renumber_demo)
  then show ?thesis using patch_text_roundtrip [OF wf_demo] wf_demo by simp
qed

text \<open>
  A selection of lines is written as a patch of one file and one hunk, starting at the
  same old line: its old side is the old side of the whole hunk, its new side is what the
  selection rules say, and the changes in it are exactly the selected ones, in order.
\<close>

theorem selection_is_a_patch:
  assumes "wf_patch p" "subset p sel = Some t"
    and f_def: "f = files p ! sel_file sel" and h_def: "h = hunks f ! sel_hunk sel"
  shows "\<exists>g k. files (parse t) = [g] \<and> hunks g = [k] \<and> fp_header g = fp_header f
       \<and> old_start k = old_start h \<and> old_side k = old_side h
       \<and> new_side k = picked_new (keep_of (sel_lines sel)) 0 (h_lines h)
       \<and> filter is_change (h_lines k)
         = map ((!) (h_lines h)) (filter (keep_of (sel_lines sel)) (changed_line_indices h))"
  using parse_subset [OF assms(1,2)]
  by (simp add: Let_def f_def h_def renumber_file_def subset_lines_sides subset_lines_changes)

theorem selection_is_a_patch_witness:
  "\<exists>g k. files (parse (the (subset demo_patch \<lparr>sel_file = 0, sel_hunk = 0, sel_lines = Some [2]\<rparr>))) = [g]
     \<and> hunks g = [k] \<and> old_side k = [''x'', ''y''] \<and> new_side k = [''x'', ''y'', ''z'']"
proof -
  let ?sel = "\<lparr>sel_file = 0, sel_hunk = 0, sel_lines = Some [2]\<rparr>"
  let ?h = "hunks (files demo_patch ! 0) ! 0"
  have "subset demo_patch ?sel \<noteq> None"
    by (simp add: subset_None_iff demo_patch_def demo_file_def keep_of_def changed_line_indices_def)
  then have "subset demo_patch ?sel = Some (the (subset demo_patch ?sel))" by simp
  note * = selection_is_a_patch [OF wf_demo this refl refl]
  have sides: "old_side ?h = [''x'', ''y'']"
    "picked_new (keep_of (Some [2])) 0 (h_lines ?h) = [''x'', ''y'', ''z'']"
    by (simp_all add: demo_patch_def demo_file_def keep_of_def)
  from * show ?thesis by (simp add: sides) blast
qed

text \<open>
  A selection gives no patch exactly when it names a file or a hunk that is not there, or
  picks none of the hunk's changed lines.
\<close>

theorem selection_of_nothing:
  "subset p sel = None \<longleftrightarrow>
   (length (files p) \<le> sel_file sel
    \<or> length (hunks (files p ! sel_file sel)) \<le> sel_hunk sel
    \<or> filter (keep_of (sel_lines sel))
        (changed_line_indices (hunks (files p ! sel_file sel) ! sel_hunk sel)) = [])"
  unfolding subset_None_iff filter_empty_conv not_less by (rule refl)

text \<open>
  C23. Undoing. When the hunks of a file, numbered as \<open>write_file\<close> numbers them, apply to the
  lines \<open>xs\<close> and give \<open>ys\<close>, the hunks of the reversed patch apply to \<open>ys\<close> and give \<open>xs\<close> back.
\<close>

theorem reversed_undoes:
  assumes "f \<in> set (files p)" "list_all proper_hunk (hunks f)" "renumber_file f = f"
    and "apply_from 1 (hunks f) xs = Some ys"
  shows "\<exists>g \<in> set (files (reversed p)). old_path g = new_path f \<and> new_path g = old_path f
           \<and> apply_from 1 (hunks g) ys = Some xs"
  using assms by (rule reversed_undo)

theorem reversed_undoes_witness:
  "\<exists>g \<in> set (files (reversed demo_patch)). old_path g = ''f'' \<and> new_path g = ''f''
     \<and> apply_from 1 (hunks g) [''a'', ''x'', ''z'', ''w'', ''b''] = Some [''a'', ''x'', ''y'', ''b'']"
proof -
  have "demo_file \<in> set (files demo_patch)" by (simp add: demo_patch_def)
  moreover have "list_all proper_hunk (hunks demo_file)"
    by (simp add: demo_file_def proper_hunk_def old_len_def in_old_def)
  moreover note renumber_demo
  moreover have "apply_from 1 (hunks demo_file) [''a'', ''x'', ''y'', ''b''] = Some [''a'', ''x'', ''z'', ''w'', ''b'']"
    by (simp add: demo_file_def place_def old_len_def)
  ultimately have "\<exists>g \<in> set (files (reversed demo_patch)). old_path g = new_path demo_file \<and> new_path g = old_path demo_file
     \<and> apply_from 1 (hunks g) [''a'', ''x'', ''z'', ''w'', ''b''] = Some [''a'', ''x'', ''y'', ''b'']"
    by (rule reversed_undoes)
  then show ?thesis by (simp add: demo_file_def)
qed

text \<open>
  Reversing a patch with the header lines git writes twice gives the patch itself: the
  paths, the hashes, the mode and rename lines and every hunk come back.
\<close>

theorem reversed_twice:
  assumes "\<forall>f \<in> set (files p). list_all (git_line (old_path f) (new_path f)) (fp_header f)"
  shows "reversed (reversed p) = p"
  using assms by (rule reversed_reversed)

theorem reversed_twice_witness: "reversed (reversed demo_patch) = demo_patch"
proof (rule reversed_twice)
  have "index_line ''index 11..22 100644''"
    unfolding index_line_def
    by (rule exI [of _ "''11''"], rule exI [of _ "''22''"], rule exI [of _ "'' 100644''"])
       (simp add: hash_text_def is_alnum_def is_digit_def)
  then show "\<forall>f \<in> set (files demo_patch). list_all (git_line (old_path f) (new_path f)) (fp_header f)"
    by (simp add: demo_patch_def demo_file_def git_line_def rev_side_def rev_real_def null_path_def)
qed

end
