(* ===== verification/Protocol.thy ===== *)
theory Protocol
  imports Rust_Str
begin

text \<open>
  \<open>crates/butai-protocol/src/lib.rs\<close>: the vocabulary of the wire. Identifiers are the \<open>u64\<close>
  counters of the source, kept as natural numbers; a Rust \<open>char\<close> is the UTF-8 text of one code
  point; a path is the string of its bytes.
\<close>

type_synonym pane_id = nat
type_synonym session_id = nat
type_synonym client_id = nat
type_synonym uchar = string
type_synonym path = string

section \<open>Cells and frames\<close>

datatype color = Default | Indexed u8 | Rgb u8 u8 u8

record mods =
  bold :: bool
  dim :: bool
  italic :: bool
  underline :: bool
  reverse :: bool
  crossed_out :: bool

record cell =
  ch :: string
  fg :: color
  bg :: color
  c_mods :: mods

record cell_run =
  run_x :: nat
  run_y :: nat
  run_cells :: "cell list"

datatype cursor_shape = Block | Underline | Bar

record frame_update =
  full :: bool
  cells :: "cell_run list"
  cursor :: "(nat \<times> nat) option"
  cursor_shape :: cursor_shape
  wants_mouse :: bool

section \<open>Input\<close>

datatype key_code =
  KChar uchar | KEnter | KEsc | KBackspace | KTab | KBackTab | KLeft | KRight | KUp | KDown
  | KHome | KEnd | KPageUp | KPageDown | KDelete | KInsert | KF u8

record key_mods =
  ctrl :: bool
  alt :: bool
  shift :: bool

definition no_mods :: key_mods where
  "no_mods = \<lparr>ctrl = False, alt = False, shift = False\<rparr>"

record key_event =
  code :: key_code
  key_mods :: key_mods

definition char_key :: "uchar \<Rightarrow> key_event" where
  "char_key c = \<lparr>code = KChar c, key_mods = no_mods\<rparr>"

definition ctrl_key :: "uchar \<Rightarrow> key_event" where
  "ctrl_key c = \<lparr>code = KChar c, key_mods = no_mods\<lparr>ctrl := True\<rparr>\<rparr>"

datatype mouse_button = BtnLeft | BtnRight

datatype input_event =
  Key key_event
  | Paste string
  | MouseDown nat nat bool mouse_button
  | MouseDrag nat nat bool
  | MouseUp nat nat
  | ScrollUp nat nat
  | ScrollDown nat nat

section \<open>Commands\<close>

datatype split_dir = Horizontal | Vertical

datatype dir = DLeft | DRight | DUp | DDown

datatype pane_kind =
  Terminal "string option" | Editor "path option" | FileTree | Git | Diff | Agent string

datatype command =
  SplitPane split_dir pane_kind
  | ClosePane
  | FocusDir dir
  | FocusPane pane_id
  | ZoomToggle
  | GitMenu
  | ResizePane dir int
  | ScrollPage int
  | NewWindow
  | NextWindow
  | PrevWindow
  | SelectWindow nat
  | RenameWindow string
  | NewSession "string option" "string option"
  | KillSession string
  | ListSessions
  | KillServer
  | KillServerClear
  | ApplyLayout string
  | OpenFile path
  | ListAgents
  | SpawnAgent string
  | SetDefaultAgent "string option"
  | NewProcess string string
  | ReloadConfig
  | SetTheme string
  | ListThemes
  | ToggleAllAgents
  | PasteImage
  | PutFile string string

definition MAX_PUT_FILE_BYTES :: nat where
  "MAX_PUT_FILE_BYTES = 8 * 1024 * 1024"

section \<open>Messages\<close>

datatype encoding = Json | Msgpack

datatype attach_target =
  AttachTo string
  | AttachNew "string option" "string option"
  | AttachDefault
  | Control
  | PaneTarget pane_id

record session_info =
  si_id :: session_id
  si_name :: string
  si_windows :: nat
  attached_clients :: nat
  si_cwd :: path

datatype client_msg =
  Hello u32 encoding nat nat attach_target path
  | Input input_event
  | Resize nat nat
  | Command command
  | Watch pane_id
  | Detach
  | Notice string

definition MAX_NOTICE_CHARS :: nat where
  "MAX_NOTICE_CHARS = 200"

definition PROTOCOL_VERSION :: u32 where
  "PROTOCOL_VERSION = 1"

definition DETACH_SERVER_SHUTDOWN :: string where
  "DETACH_SERVER_SHUTDOWN = ''server shutting down''"

datatype server_msg =
  SHello u32 "session_info option" "string option"
  | Frame frame_update
  | SessionList "session_info list"
  | AgentList "string list"
  | ThemeList "string list"
  | Ok
  | Detached string
  | Error string
  | SetClipboard string
  | Bell
  | FilePut path
  | ReadClipboardImage

end
