(* ===== verification/Names.thy ===== *)
theory Names
  imports Protocol
begin

text \<open>
  The names the daemon makes up: the random identifiers of \<open>crates/butai-server/src/ids.rs\<close>, and
  from \<open>core.rs\<close> the directory name of a workspace's dumps, the dump files, the safe part of a
  pasted file's name and the default workspace name. \<open>butai-protocol/src/paths.rs\<close>: where the
  daemon keeps its files.
\<close>

section \<open>Identifiers\<close>

unbundle bit_operations_syntax

definition fnv_offset :: u64 where "fnv_offset = 0xcbf29ce484222325"
definition fnv_prime :: u64 where "fnv_prime = 0x00000100000001b3"

definition fnv_step :: "u64 \<Rightarrow> u8 \<Rightarrow> u64" where
  "fnv_step h b = (h XOR ucast b) * fnv_prime"

definition le_bytes :: "u64 \<Rightarrow> u8 list" where
  "le_bytes w = map (\<lambda>i. ucast (drop_bit (8 * i) w)) [0..<8]"

text \<open>The bytes used when the kernel's random source cannot be read.\<close>

definition fallback_bytes :: "u64 \<Rightarrow> u8 list" where
  "fallback_bytes seed =
     concat (map (\<lambda>half. le_bytes (foldl fnv_step (fnv_offset XOR of_nat half) (le_bytes seed))) [0, 1])"

definition random_bytes :: "u8 list option \<Rightarrow> u64 \<Rightarrow> u64 \<Rightarrow> u64 \<Rightarrow> u8 list" where
  "random_bytes urandom nanos pid counter =
     (case urandom of Some b \<Rightarrow> b
      | None \<Rightarrow> fallback_bytes (nanos XOR push_bit 32 pid XOR counter))"

definition uuid_bits :: "u8 list \<Rightarrow> u8 list" where
  "uuid_bits b = (let b = b[6 := ((b ! 6) AND 0x0f) OR 0x40] in b[8 := ((b ! 8) AND 0x3f) OR 0x80])"

definition hex :: "u8 list \<Rightarrow> string" where
  "hex bs = concat (map hex2 bs)"

definition uuid_v4 :: "u8 list \<Rightarrow> string" where
  "uuid_v4 bytes =
     (let b = uuid_bits bytes
      in hex (take 4 b) @ ''-'' @ hex (take 2 (drop 4 b)) @ ''-'' @ hex (take 2 (drop 6 b)) @ ''-''
         @ hex (take 2 (drop 8 b)) @ ''-'' @ hex (drop 10 b))"

lemma length_hex [simp]: "length (hex bs) = 2 * length bs"
  by (induction bs) (simp_all add: hex_def hex2_props)

lemma hex_is_hex: "list_all is_hex (hex bs)"
  by (induction bs) (auto simp: hex_def hex2_props)

lemma hex_append [simp]: "hex (a @ b) = hex a @ hex b"
  by (simp add: hex_def)

lemma hex_Cons: "hex (b # bs) = hex2 b @ hex bs"
  by (simp add: hex_def)

lemma length_le_bytes [simp]: "length (le_bytes w) = 8"
  by (simp add: le_bytes_def)

lemma length_fallback [simp]: "length (fallback_bytes s) = 16"
  by (simp add: fallback_bytes_def)

text \<open>A fact about one byte, checked on all of them.\<close>

lemma u8_all: "list_all (\<lambda>n. P (word_of_nat n :: u8)) [0..<256] \<Longrightarrow> P b"
proof -
  assume a: "list_all (\<lambda>n. P (word_of_nat n :: u8)) [0..<256]"
  have "unat b < 256" using unsigned_less [of b] by simp
  then have "unat b \<in> set [0..<256]" by simp
  with a have "P (word_of_nat (unat b))" unfolding list_all_iff by (rule bspec)
  then show "P b" by simp
qed

lemma version_nibble: "hex2 ((b AND 0x0f) OR 0x40) ! 0 = CHR ''4''"
  by (rule u8_all [where P = "\<lambda>b. hex2 ((b AND 0x0f) OR 0x40) ! 0 = CHR ''4''"]) code_simp

lemma variant_nibble: "hex2 ((b AND 0x3f) OR 0x80) ! 0 \<in> set ''89ab''"
  by (rule u8_all [where P = "\<lambda>b. hex2 ((b AND 0x3f) OR 0x80) ! 0 \<in> set ''89ab''"]) code_simp

lemma uuid_split:
  assumes "length b = 16"
  shows "\<exists>t u v w x. b = t @ [u] @ v @ [w] @ x \<and> length t = 6 \<and> length v = 1 \<and> length x = 7
    \<and> uuid_bits b = t @ [(u AND 0x0f) OR 0x40] @ v @ [(w AND 0x3f) OR 0x80] @ x"
proof -
  let ?t = "take 6 b" and ?v = "[b ! 7]" and ?x = "drop 9 b"
  have "drop 6 b = b ! 6 # b ! 7 # b ! 8 # drop 9 b"
    using assms Cons_nth_drop_Suc [of 6 b] Cons_nth_drop_Suc [of 7 b] Cons_nth_drop_Suc [of 8 b] by simp
  then have b: "b = ?t @ [b ! 6] @ ?v @ [b ! 8] @ ?x"
    using append_take_drop_id [of 6 b] by simp
  have len: "length ?t = 6" using assms by simp
  have upd: "(t @ [u] @ v @ [w] @ x)[6 := u', 8 := w'] = t @ [u'] @ v @ [w'] @ x"
    if "length t = 6" "length v = 1" for t v x :: "u8 list" and u w u' w'
    using that by (simp add: list_update_append)
  have "uuid_bits b = b[6 := ((b ! 6) AND 0x0f) OR 0x40, 8 := ((b ! 8) AND 0x3f) OR 0x80]"
    by (simp add: uuid_bits_def Let_def)
  also have "\<dots> = ?t @ [((b ! 6) AND 0x0f) OR 0x40] @ ?v @ [((b ! 8) AND 0x3f) OR 0x80] @ ?x"
    by (subst (1) b) (rule upd [OF len], simp)
  finally have "uuid_bits b = ?t @ [((b ! 6) AND 0x0f) OR 0x40] @ ?v @ [((b ! 8) AND 0x3f) OR 0x80] @ ?x" .
  with b assms len show ?thesis
    by (intro exI [of _ ?t] exI [of _ "b ! 6"] exI [of _ ?v] exI [of _ "b ! 8"] exI [of _ ?x]) simp
qed

lemma uuid_shape:
  assumes "length b = 16"
  shows "length (uuid_v4 b) = 36
    \<and> map length (split_char CHR ''-'' (uuid_v4 b)) = [8, 4, 4, 4, 12]
    \<and> list_all (list_all is_hex) (split_char CHR ''-'' (uuid_v4 b))
    \<and> split_char CHR ''-'' (uuid_v4 b) ! 2 ! 0 = CHR ''4''
    \<and> split_char CHR ''-'' (uuid_v4 b) ! 3 ! 0 \<in> set ''89ab''"
proof -
  obtain t u v w x where len: "length t = 6" "length v = 1" "length x = 7"
    and bits: "uuid_bits b = t @ [(u AND 0x0f) OR 0x40] @ v @ [(w AND 0x3f) OR 0x80] @ x"
    using uuid_split [OF assms] by blast
  let ?u = "(u AND 0x0f) OR 0x40" and ?w = "(w AND 0x3f) OR 0x80"
  obtain y where v: "v = [y]" using len(2) by (cases v) auto
  obtain z x' where x: "x = z # x'" using len(3) by (cases x) auto
  let ?p = "[hex (take 4 t), hex (drop 4 t), hex [?u, y], hex [?w, z], hex x']"
  have id: "uuid_v4 b = join [CHR ''-''] ?p"
    using len by (simp add: uuid_v4_def Let_def bits v x numeral_eq_Suc)
  have nd: "CHR ''-'' \<notin> set (hex bs)" for bs
    using hex_is_hex [of bs] by (auto simp: list_all_iff is_hex_def is_digit_def)
  have sp: "split_char CHR ''-'' (uuid_v4 b) = ?p"
    unfolding id by (rule split_char_join) (use nd in auto)
  have h2: "hex2 c = [hex2 c ! 0, hex2 c ! 1]" for c by (simp add: hex2_def)
  have "length x' = 6" using len(3) x by simp
  then have "length (uuid_v4 b) = 36" using len unfolding id by simp
  moreover have "hex [?u, y] ! 0 = CHR ''4''" "hex [?w, z] ! 0 \<in> set ''89ab''"
    using version_nibble [of u] variant_nibble [of w] by (simp_all add: hex_Cons nth_append hex2_props)
  ultimately show ?thesis
    unfolding sp using len \<open>length x' = 6\<close> hex_is_hex by simp
qed

section \<open>Names of files and workspaces\<close>

definition ascii_alnum :: "string \<Rightarrow> bool" where
  "ascii_alnum g \<longleftrightarrow> (case g of [c] \<Rightarrow> is_alnum c | _ \<Rightarrow> False)"

definition hex16 :: "u64 \<Rightarrow> string" where
  "hex16 w = hex (rev (le_bytes w))"

text \<open>\<open>Path::file_name\<close> on Unix: the last component, if it is a name.\<close>

definition file_name :: "path \<Rightarrow> string option" where
  "file_name p =
     (let cs = filter (\<lambda>c. c \<noteq> [] \<and> c \<noteq> ''.'') (split_char CHR ''/'' p)
      in if cs = [] then None else if last cs = ''..'' then None else Some (last cs))"

definition join_path :: "path \<Rightarrow> path \<Rightarrow> path" where
  "join_path a b =
     (if starts_with ''/'' b \<or> a = [] then b
      else if last a = CHR ''/'' then a @ b else a @ ''/'' @ b)"

text \<open>\<open>Path::parent\<close>: slashes and dots at the end are not components.\<close>

fun trim_back :: "string \<Rightarrow> string" where
  "trim_back (c # d # s) =
     (if c = CHR ''/'' then trim_back (d # s)
      else if c = CHR ''.'' \<and> d = CHR ''/'' then trim_back (d # s) else c # d # s)"
| "trim_back s = s"

definition parent :: "path \<Rightarrow> path option" where
  "parent p =
     (let r = trim_back (rev p)
      in if r = [] \<or> r = ''/'' then None else Some (rev (trim_back (dropWhile (\<lambda>c. c \<noteq> CHR ''/'') r))))"

definition workspace_key :: "path \<Rightarrow> string" where
  "workspace_key cwd =
     (let hash = foldl fnv_step fnv_offset (map (\<lambda>c. of_char c) cwd);
          name = (case file_name cwd of Some n \<Rightarrow> n | None \<Rightarrow> ''ws'');
          slug = concat (take 32 (map (\<lambda>g. if ascii_alnum g then g else ''-'') (uchars name)))
      in slug @ ''-'' @ hex16 hash)"

definition agent_dump :: "nat \<Rightarrow> string" where
  "agent_dump i = ''agent-'' @ show_nat i @ ''.bin''"

definition proc_dump :: "nat \<Rightarrow> string" where
  "proc_dump i = ''proc-'' @ show_nat i @ ''.bin''"

definition default_ws_name :: "path \<Rightarrow> string" where
  "default_ws_name cwd = (case file_name cwd of Some n \<Rightarrow> n | None \<Rightarrow> ''main'')"

text \<open>The last piece after a slash or a backslash.\<close>

definition last_piece :: "string \<Rightarrow> string" where
  "last_piece name = rev (takeWhile (\<lambda>c. c \<noteq> CHR ''/'' \<and> c \<noteq> CHR 0x5C) (rev name))"

definition clean_char :: "uchar \<Rightarrow> string" where
  "clean_char g = (if ascii_alnum g \<or> g = ''.'' \<or> g = ''-'' \<or> g = ''_'' then g else ''-'')"

definition scratch_name :: "string \<Rightarrow> string" where
  "scratch_name name =
     (let cleaned = concat (take 64 (map clean_char (uchars (last_piece name))));
          cleaned = dropWhile_end (\<lambda>c. c = CHR ''.'') (dropWhile (\<lambda>c. c = CHR ''.'') cleaned)
      in if cleaned = [] then ''paste'' else cleaned)"

definition pad6 :: "nat \<Rightarrow> string" where
  "pad6 n = replicate (6 - length (show_nat n)) CHR ''0'' @ show_nat n"

lemma agent_proc_dump_distinct:
  "agent_dump i = agent_dump j \<longleftrightarrow> i = j" "proc_dump i = proc_dump j \<longleftrightarrow> i = j" "agent_dump i \<noteq> proc_dump j"
  by (auto simp: agent_dump_def proc_dump_def dest: show_nat_inj)

definition safe_char :: "char \<Rightarrow> bool" where
  "safe_char c \<longleftrightarrow> is_alnum c \<or> c = CHR ''.'' \<or> c = CHR ''-'' \<or> c = CHR ''_''"

lemma dropWhile_end_props:
  "\<exists>z. xs = dropWhile_end P xs @ z"
  "dropWhile_end P xs \<noteq> [] \<Longrightarrow> \<not> P (last (dropWhile_end P xs))"
proof -
  have "rev xs = takeWhile P (rev xs) @ dropWhile P (rev xs)" by simp
  then have "xs = dropWhile_end P xs @ rev (takeWhile P (rev xs))"
    unfolding dropWhile_end_def by (metis rev_append rev_rev_ident)
  then show "\<exists>z. xs = dropWhile_end P xs @ z" ..
  show "dropWhile_end P xs \<noteq> [] \<Longrightarrow> \<not> P (last (dropWhile_end P xs))"
    using hd_dropWhile [of P "rev xs"] by (simp add: dropWhile_end_def last_rev)
qed

text \<open>Trimming dots at both ends.\<close>

lemma trim_dots:
  fixes cs :: string
  defines "e \<equiv> dropWhile_end (\<lambda>c. c = CHR ''.'') (dropWhile (\<lambda>c. c = CHR ''.'') cs)"
  shows "set e \<subseteq> set cs \<and> length e \<le> length cs
    \<and> (e \<noteq> [] \<longrightarrow> hd e \<noteq> CHR ''.'' \<and> last e \<noteq> CHR ''.'')"
proof -
  let ?d = "dropWhile (\<lambda>c. c = CHR ''.'') cs"
  obtain z where z: "?d = e @ z" using dropWhile_end_props(1) unfolding e_def by blast
  have d: "set ?d \<subseteq> set cs" "length ?d \<le> length cs"
    by (auto dest: set_dropWhileD simp: length_dropWhile_le)
  have "hd ?d = hd e \<and> ?d \<noteq> []" if "e \<noteq> []" using that z by (cases e) auto
  then have "hd e \<noteq> CHR ''.''" if "e \<noteq> []"
    using hd_dropWhile [of "\<lambda>c. c = CHR ''.''" cs] that by auto
  moreover have "last e \<noteq> CHR ''.''" if "e \<noteq> []"
    using dropWhile_end_props(2) that unfolding e_def by blast
  moreover have "set e \<subseteq> set ?d" "length e \<le> length ?d" by (auto simp: z)
  ultimately show ?thesis using d by auto
qed

lemma clean_char_safe: "list_all safe_char (clean_char g) \<and> length (clean_char g) = 1"
  by (auto simp: clean_char_def ascii_alnum_def safe_char_def split: list.splits)

lemma clean_chars_safe:
  "list_all safe_char (concat (map clean_char gs)) \<and> length (concat (map clean_char gs)) = length gs"
  using clean_char_safe by (induction gs) auto

lemma trim_dots_safe:
  assumes "list_all safe_char cs" "length cs \<le> 64"
  defines "e \<equiv> dropWhile_end (\<lambda>c. c = CHR ''.'') (dropWhile (\<lambda>c. c = CHR ''.'') cs)"
  shows "list_all safe_char e \<and> length e \<le> 64 \<and> (e \<noteq> [] \<longrightarrow> hd e \<noteq> CHR ''.'' \<and> last e \<noteq> CHR ''.'')"
  using trim_dots [of cs] assms(1,2) unfolding e_def [symmetric] by (auto simp: list_all_iff)

lemma scratch_name_safe:
  "scratch_name name \<noteq> [] \<and> list_all safe_char (scratch_name name)
   \<and> hd (scratch_name name) \<noteq> CHR ''.'' \<and> last (scratch_name name) \<noteq> CHR ''.''
   \<and> length (scratch_name name) \<le> 64"
proof -
  define c where "c = concat (take 64 (map clean_char (uchars (last_piece name))))"
  define e where "e = dropWhile_end (\<lambda>c. c = CHR ''.'') (dropWhile (\<lambda>c. c = CHR ''.'') c)"
  have c: "list_all safe_char c" "length c \<le> 64"
    unfolding c_def take_map using clean_chars_safe [of "take 64 (uchars (last_piece name))"] by auto
  note e = trim_dots_safe [OF c, folded e_def]
  have "scratch_name name = (if e = [] then ''paste'' else e)"
    unfolding scratch_name_def Let_def e_def c_def by (rule refl)
  then show ?thesis using e by (simp add: safe_char_def is_alnum_def is_lower_def)
qed

section \<open>Where the daemon keeps its files\<close>

text \<open>The environment and the home directory are arguments; \<open>fallback\<close> is the per-user directory
  used without a home.\<close>

definition override_from :: "string option \<Rightarrow> path option" where
  "override_from v = (case v of Some s \<Rightarrow> if s = [] then None else Some s | None \<Rightarrow> None)"

definition dir_for :: "path \<Rightarrow> path option \<Rightarrow> path option \<Rightarrow> path" where
  "dir_for fallback overridden home =
     (case overridden of Some d \<Rightarrow> d
      | None \<Rightarrow> (case home of Some h \<Rightarrow> join_path h ''.butai'' | None \<Rightarrow> fallback))"

definition socket_for :: "path \<Rightarrow> path option \<Rightarrow> path option \<Rightarrow> path option \<Rightarrow> path" where
  "socket_for fallback home_override socket home =
     (if home_override \<noteq> None then join_path (dir_for fallback home_override home) ''butai.sock''
      else case socket of Some s \<Rightarrow> s
           | None \<Rightarrow> join_path (dir_for fallback None home) ''butai.sock'')"

section \<open>The properties\<close>

text \<open>
  Every identifier handed to an agent, from the kernel's bytes or from the fallback, has the
  shape agents check: 36 characters, hexadecimal groups of 8, 4, 4, 4 and 12 between dashes, the
  version digit 4 and a variant digit 8, 9, a or b.
\<close>

theorem uuid_is_version_4:
  assumes "urandom = None \<or> (\<exists>b. urandom = Some b \<and> length b = 16)"
  shows "let id = uuid_v4 (random_bytes urandom nanos pid counter); ps = split_char CHR ''-'' id
    in length id = 36 \<and> map length ps = [8, 4, 4, 4, 12] \<and> list_all (list_all is_hex) ps
       \<and> ps ! 2 ! 0 = CHR ''4'' \<and> ps ! 3 ! 0 \<in> set ''89ab''"
proof -
  have "length (random_bytes urandom nanos pid counter) = 16"
    using assms by (auto simp: random_bytes_def)
  from uuid_shape [OF this] show ?thesis unfolding Let_def .
qed

theorem uuid_is_version_4_witness:
  "length (uuid_v4 (random_bytes None 1 2 3)) = 36"
  using uuid_is_version_4 [of None 1 2 3] by (simp add: Let_def)

text \<open>
  The name a pasted file is written under is never empty, holds only letters, digits, dots,
  dashes and underscores, neither starts nor ends with a dot and is at most 64 bytes long, so
  joining it to a directory stays in that directory.
\<close>

theorem scratch_name_is_safe:
  "scratch_name name \<noteq> [] \<and> CHR ''/'' \<notin> set (scratch_name name) \<and> CHR 0x5C \<notin> set (scratch_name name)
   \<and> CHR '' '' \<notin> set (scratch_name name) \<and> scratch_name name \<noteq> ''..''
   \<and> hd (scratch_name name) \<noteq> CHR ''.'' \<and> length (scratch_name name) \<le> 64"
proof -
  have "\<not> safe_char CHR ''/''" "\<not> safe_char CHR 0x5C" "\<not> safe_char CHR '' ''"
    by (simp_all add: safe_char_def is_alnum_def is_digit_def is_lower_def is_upper_def)
  then show ?thesis using scratch_name_safe [of name] by (auto simp: list_all_iff)
qed

end
