(* ===== verification/Input_Encode.thy ===== *)
theory Input_Encode
  imports Protocol
begin

text \<open>
  \<open>crates/butai-server/src/input/encode.rs\<close>: a key event as the bytes a program on the other
  side of the PTY expects, and a paste. \<open>decode_special\<close> is the reader a terminal program has of
  the escape sequences; no two special keys are sent as the same bytes.
\<close>

section \<open>Encoding\<close>

abbreviation ESC :: char where "ESC \<equiv> CHR 0x1B"

record encode_modes =
  application_cursor_keys :: bool
  bracketed_paste :: bool

definition modifier_param :: "key_mods \<Rightarrow> nat" where
  "modifier_param m =
     1 + (if shift m then 1 else 0) + 2 * (if alt m then 1 else 0) + 4 * (if ctrl m then 1 else 0)"

definition csi :: "encode_modes \<Rightarrow> nat \<Rightarrow> char \<Rightarrow> string" where
  "csi modes mp c =
     (if mp > 1 then ESC # ''[1;'' @ show_nat mp @ [c]
      else if application_cursor_keys modes \<and> c \<in> set ''ABCDHF'' then ESC # ''O'' @ [c]
      else ESC # ''['' @ [c])"

definition csi_tilde :: "nat \<Rightarrow> nat \<Rightarrow> string" where
  "csi_tilde mp n =
     (if mp > 1 then ESC # ''['' @ show_nat n @ '';'' @ show_nat mp @ ''~''
      else ESC # ''['' @ show_nat n @ ''~'')"

definition prefix_alt :: "bool \<Rightarrow> string \<Rightarrow> string" where
  "prefix_alt a bytes = (if a then ESC # bytes else bytes)"

definition encode_fkey :: "u8 \<Rightarrow> nat \<Rightarrow> string" where
  "encode_fkey n mp =
     (if 1 \<le> n \<and> n \<le> 4 then
        (let c = char_of (80 + unat n - 1)
         in if mp > 1 then ESC # ''[1;'' @ show_nat mp @ [c] else ESC # ''O'' @ [c])
      else if 5 \<le> n \<and> n \<le> 12 then
        (let code = (if n = 5 then 15 else if n = 6 then 17 else if n = 7 then 18
                     else if n = 8 then 19 else if n = 9 then 20 else if n = 10 then 21
                     else if n = 11 then 23 else 24)
         in csi_tilde mp code)
      else [])"

text \<open>A control character for the byte of a typed character.\<close>

definition ctrl_byte :: "uchar \<Rightarrow> string" where
  "ctrl_byte g =
     (case g of
        [c] \<Rightarrow>
          if is_lower c then [char_of (of_char c - 97 + 1 :: nat)]
          else if is_upper c then [char_of (of_char (ascii_lower c) - 97 + 1 :: nat)]
          else if c = CHR '' '' \<or> c = CHR ''@'' then [CHR 0x00]
          else if c = CHR ''['' then [CHR 0x1B]
          else if c = CHR 0x5C then [CHR 0x1C]
          else if c = CHR '']'' then [CHR 0x1D]
          else if c = CHR ''^'' then [CHR 0x1E]
          else if c = CHR ''_'' \<or> c = CHR ''/'' then [CHR 0x1F]
          else g
      | _ \<Rightarrow> g)"

definition encode_key :: "key_event \<Rightarrow> encode_modes \<Rightarrow> string" where
  "encode_key key modes =
     (let m = key_mods key; mp = modifier_param m in
      case code key of
        KChar c \<Rightarrow>
          (let base = (if ctrl m then ctrl_byte c else c)
           in if alt m then ESC # base else base)
      | KEnter \<Rightarrow> prefix_alt (alt m) [CHR 0x0D]
      | KEsc \<Rightarrow> [ESC]
      | KBackspace \<Rightarrow> prefix_alt (alt m) [CHR 0x7F]
      | KTab \<Rightarrow> prefix_alt (alt m) [CHR 0x09]
      | KBackTab \<Rightarrow> ESC # ''[Z''
      | KUp \<Rightarrow> csi modes mp CHR ''A''
      | KDown \<Rightarrow> csi modes mp CHR ''B''
      | KRight \<Rightarrow> csi modes mp CHR ''C''
      | KLeft \<Rightarrow> csi modes mp CHR ''D''
      | KHome \<Rightarrow> csi modes mp CHR ''H''
      | KEnd \<Rightarrow> csi modes mp CHR ''F''
      | KPageUp \<Rightarrow> csi_tilde mp 5
      | KPageDown \<Rightarrow> csi_tilde mp 6
      | KInsert \<Rightarrow> csi_tilde mp 2
      | KDelete \<Rightarrow> csi_tilde mp 3
      | KF n \<Rightarrow> encode_fkey n mp)"

definition encode_paste :: "string \<Rightarrow> encode_modes \<Rightarrow> string" where
  "encode_paste t modes =
     (if bracketed_paste modes then (ESC # ''[200~'') @ t @ (ESC # ''[201~'') else t)"

section \<open>Reading the sequences back\<close>

definition mods_of_param :: "nat \<Rightarrow> key_mods" where
  "mods_of_param n =
     (let k = n - 1 in \<lparr>ctrl = (k div 4) mod 2 = 1, alt = (k div 2) mod 2 = 1, shift = k mod 2 = 1\<rparr>)"

definition letter_key :: "char \<Rightarrow> key_code option" where
  "letter_key c = map_of
     [(CHR ''A'', KUp), (CHR ''B'', KDown), (CHR ''C'', KRight), (CHR ''D'', KLeft),
      (CHR ''H'', KHome), (CHR ''F'', KEnd), (CHR ''P'', KF 1), (CHR ''Q'', KF 2),
      (CHR ''R'', KF 3), (CHR ''S'', KF 4)] c"

definition number_key :: "nat \<Rightarrow> key_code option" where
  "number_key n = map_of
     [(5, KPageUp), (6, KPageDown), (2, KInsert), (3, KDelete), (15, KF 5), (17, KF 6),
      (18, KF 7), (19, KF 8), (20, KF 9), (21, KF 10), (23, KF 11), (24, KF 12)] n"

definition event_of :: "key_code option \<Rightarrow> nat \<Rightarrow> key_event option" where
  "event_of k mp = map_option (\<lambda>c. \<lparr>code = c, key_mods = mods_of_param mp\<rparr>) k"

text \<open>The parameters of a sequence, its final byte, and the key they name.\<close>

definition decode_special :: "string \<Rightarrow> key_event option" where
  "decode_special s =
     (case strip_prefix (ESC # ''O'') s of
        Some r \<Rightarrow> (case r of [c] \<Rightarrow> event_of (letter_key c) 1 | _ \<Rightarrow> None)
      | None \<Rightarrow> (case strip_prefix (ESC # ''['') s of
          None \<Rightarrow> None
        | Some r \<Rightarrow>
            if r = [] then None
            else let ps = map undigits (split_char (CHR '';'') (butlast r)); c = last r in
              if butlast r = [] then event_of (letter_key c) 1
              else if c = CHR ''~'' then
                (case ps of [n] \<Rightarrow> event_of (number_key n) 1
                 | [n, m] \<Rightarrow> event_of (number_key n) m | _ \<Rightarrow> None)
              else (case ps of [_, m] \<Rightarrow> event_of (letter_key c) m | _ \<Rightarrow> None)))"

definition special :: "key_event \<Rightarrow> bool" where
  "special k \<longleftrightarrow> code k \<in> {KUp, KDown, KRight, KLeft, KHome, KEnd, KPageUp, KPageDown, KInsert, KDelete}
     \<or> (\<exists>n. code k = KF n \<and> 1 \<le> n \<and> n \<le> 12)"

lemma modifier_param_range: "1 \<le> modifier_param m" "modifier_param m \<le> 8"
  by (simp_all add: modifier_param_def)

lemma mods_of_modifier_param: "mods_of_param (modifier_param m) = m"
  by (cases m) (simp add: mods_of_param_def modifier_param_def)

lemma undigits_Nil [simp]: "undigits [] = 0"
  by (simp add: undigits_def)

lemma no_semicolon: "CHR '';'' \<notin> set (show_nat n)"
  by (rule not_in_show_nat) (simp add: is_digit_def)

lemma fkey_letters:
  "char_of (80::nat) = CHR ''P''" "char_of (81::nat) = CHR ''Q''"
  "char_of (82::nat) = CHR ''R''" "char_of (83::nat) = CHR ''S''"
  by code_simp+

lemma show_nat_1: "show_nat 1 = ''1''"
  by code_simp

lemma decode_letter_param:
  "c \<noteq> CHR ''~'' \<Longrightarrow> decode_special (ESC # ''[1;'' @ show_nat mp @ [c]) = event_of (letter_key c) mp"
proof -
  assume c: "c \<noteq> CHR ''~''"
  have one: "''1;'' @ show_nat mp = show_nat 1 @ CHR '';'' # show_nat mp"
    by (simp only: show_nat_1) simp
  have "split_char (CHR '';'') (''1;'' @ show_nat mp) = [show_nat 1, show_nat mp]"
    unfolding one by (simp add: split_char_append split_char_none no_semicolon)
  with c show ?thesis
    by (simp add: decode_special_def butlast_append undigits_show_nat Let_def)
qed

lemma decode_letter: "decode_special (ESC # ''['' @ [c]) = event_of (letter_key c) 1"
  "decode_special (ESC # ''O'' @ [c]) = event_of (letter_key c) 1"
  by (simp_all add: decode_special_def)

lemma decode_tilde: "1 \<le> mp \<Longrightarrow> decode_special (csi_tilde mp n) = event_of (number_key n) mp"
proof -
  assume mp: "1 \<le> mp"
  have "split_char (CHR '';'') (show_nat n @ CHR '';'' # show_nat mp) = [show_nat n, show_nat mp]"
    by (simp add: split_char_append split_char_none no_semicolon)
  moreover have "split_char (CHR '';'') (show_nat n) = [show_nat n]"
    by (simp add: split_char_none no_semicolon)
  ultimately show ?thesis
    using mp by (auto simp: decode_special_def csi_tilde_def butlast_append undigits_show_nat Let_def)
qed

lemma decode_csi:
  "1 \<le> mp \<Longrightarrow> c \<noteq> CHR ''~'' \<Longrightarrow> decode_special (csi modes mp c) = event_of (letter_key c) mp"
  using decode_letter_param [of c mp] decode_letter [of c] by (auto simp: csi_def le_less)

lemma fkey_cases:
  fixes n :: u8
  assumes "1 \<le> n" "n \<le> 12"
  shows "n \<in> {1, 2, 3, 4, 5, 6, 7, 8, 9, 10, 11, 12}"
proof -
  have "1 \<le> unat n" "unat n \<le> 12"
    using assms by (simp_all add: word_le_nat_alt)
  then have "unat n = 1 \<or> unat n = 2 \<or> unat n = 3 \<or> unat n = 4 \<or> unat n = 5 \<or> unat n = 6
      \<or> unat n = 7 \<or> unat n = 8 \<or> unat n = 9 \<or> unat n = 10 \<or> unat n = 11 \<or> unat n = 12"
    by presburger
  then show ?thesis
    by (simp add: word_unat_eq_iff)
qed

lemma decode_fkey:
  assumes "1 \<le> n" "n \<le> 12" "1 \<le> mp"
  shows "decode_special (encode_fkey n mp) = event_of (Some (KF n)) mp"
proof -
  have f14: "decode_special (if mp > 1 then ESC # ''[1;'' @ show_nat mp @ [c] else ESC # ''O'' @ [c]) = event_of (letter_key c) mp"
    if "c \<noteq> CHR ''~''" for c
    using decode_letter_param [OF that, of mp] decode_letter(2) [of c] assms(3) by (auto simp: le_less)
  note f14' = f14 [simplified]
  show ?thesis
    using fkey_cases [OF assms(1,2)]
    apply (simp only: insert_iff empty_iff)
    apply (elim disjE FalseE)
    apply (simp_all add: encode_fkey_def Let_def fkey_letters f14' decode_tilde [OF assms(3)] letter_key_def number_key_def
       split del: if_split)
    done
qed

lemma decode_encode_special: "special k \<Longrightarrow> decode_special (encode_key k modes) = Some k"
  using modifier_param_range(1) [of "key_mods k"]
  by (cases k)
     (auto simp: special_def encode_key_def Let_def decode_csi decode_tilde decode_fkey event_of_def
       mods_of_modifier_param letter_key_def number_key_def)

interpretation special_keys: codec "\<lambda>k. encode_key k modes" decode_special special for modes
  by unfold_locales (rule decode_encode_special)

section \<open>Typed characters\<close>

lemma alt_prefixes_escape:
  "alt m \<Longrightarrow> encode_key \<lparr>code = KChar c, key_mods = m\<rparr> modes
     = ESC # encode_key \<lparr>code = KChar c, key_mods = m\<lparr>alt := False\<rparr>\<rparr> modes"
  by (simp add: encode_key_def Let_def)

lemma ctrl_byte_control:
  assumes "is_lower c \<or> is_upper c \<or> c \<in> {CHR '' '', CHR ''@'', CHR ''['', CHR 0x5C, CHR '']'', CHR ''^'', CHR ''_'', CHR ''/''}"
  shows "\<exists>b. ctrl_byte [c] = [b] \<and> (of_char b :: nat) < 32"
  using assms
  by (auto simp: ctrl_byte_def is_lower_def is_upper_def ascii_lower_def Let_def)


section \<open>The properties\<close>

text \<open>
  The special keys (arrows, paging keys, function keys) with any modifiers are read back
  from the bytes they are sent as, in every mode, so a program can tell them all apart.
\<close>

theorem special_keys_distinct:
  assumes "special k" "special k'" "encode_key k modes = encode_key k' modes"
  shows "k = k' \<and> decode_special (encode_key k modes) = Some k"
  using special_keys.enc_inj [OF assms] decode_encode_special [OF assms(1)] by simp

theorem special_keys_distinct_witness:
  "decode_special (encode_key \<lparr>code = KF 5, key_mods = \<lparr>ctrl = True, alt = False, shift = True\<rparr>\<rparr>
      \<lparr>application_cursor_keys = True, bracketed_paste = False\<rparr>)
   = Some \<lparr>code = KF 5, key_mods = \<lparr>ctrl = True, alt = False, shift = True\<rparr>\<rparr>"
proof -
  let ?k = "\<lparr>code = KF 5, key_mods = \<lparr>ctrl = True, alt = False, shift = True\<rparr>\<rparr>"
  have "special ?k" by (simp add: special_def)
  then show ?thesis using special_keys_distinct [OF _ _ refl, of ?k] by simp
qed

end
