(* ===== verification/Wire.thy ===== *)
theory Wire
  imports Protocol
begin

text \<open>
  One connection of \<open>crates/butai-server/src/client_conn.rs\<close>: which protocol the first byte
  selects, the hello that must come first, the loop that turns frames into events of the core,
  and the writer. The length-delimited framing and the JSON and MessagePack codecs are library
  code: a frame here is what the framing yields, and \<open>decode\<close> is a parameter. Every send may
  find its receiver gone; that outcome is a flag carried with the frame or the message.
\<close>

definition MAX_FRAME_LEN :: nat where
  "MAX_FRAME_LEN = 32 * 1024 * 1024"

definition MAX_CONSECUTIVE_BAD_FRAMES :: nat where
  "MAX_CONSECUTIVE_BAD_FRAMES = 16"

datatype 'b frame_read = ReadError | FrameBytes 'b

datatype conn_event = Connected client_id | FromClient client_id client_msg | Gone client_id

datatype route = Http | Events "conn_event list"

text \<open>The inbound loop, with the count of undecodable frames in a row; \<open>ok\<close> tells whether the
  core still takes events.\<close>

fun inbound :: "('b \<Rightarrow> 'm option) \<Rightarrow> nat \<Rightarrow> ('b frame_read \<times> bool) list \<Rightarrow> 'm list" where
  "inbound dec bad [] = []"
| "inbound dec bad ((ReadError, ok) # fs) = []"
| "inbound dec bad ((FrameBytes b, ok) # fs) =
     (case dec b of
        Some m \<Rightarrow> if ok then m # inbound dec 0 fs else []
      | None \<Rightarrow> if MAX_CONSECUTIVE_BAD_FRAMES \<le> Suc bad then [] else inbound dec (Suc bad) fs)"

text \<open>The writer: the first message is JSON, the rest in the negotiated encoding; a
  \<open>Detached\<close> is the last one.\<close>

fun is_detached :: "server_msg \<Rightarrow> bool" where
  "is_detached (Detached r) = True"
| "is_detached _ = False"

fun writer :: "(server_msg \<Rightarrow> encoding \<Rightarrow> 'b option) \<Rightarrow> encoding \<Rightarrow> bool \<Rightarrow> (server_msg \<times> bool) list \<Rightarrow> 'b list" where
  "writer enc encoding first [] = []"
| "writer enc encoding first ((m, ok) # ms) =
     (case enc m (if first then Json else encoding) of
        None \<Rightarrow> []
      | Some b \<Rightarrow> if \<not> ok then []
                  else if is_detached m then [b]
                  else b # writer enc encoding False ms)"

definition connection ::
    "(encoding \<Rightarrow> 'b \<Rightarrow> client_msg option) \<Rightarrow> client_id \<Rightarrow> u8 \<Rightarrow> ('b frame_read \<times> bool) list \<Rightarrow> route" where
  "connection dec cid first frames =
     (if first \<noteq> 0 then Http
      else Events (case frames of
        (FrameBytes b, ok) # fs \<Rightarrow>
          (case dec Json b of
             Some (Hello v e c r t d) \<Rightarrow>
               if ok
               then [Connected cid, FromClient cid (Hello v e c r t d)]
                    @ map (FromClient cid) (inbound (dec e) 0 fs) @ [Gone cid]
               else []
           | _ \<Rightarrow> [])
      | _ \<Rightarrow> []))"

section \<open>What the loops promise\<close>

definition decodable :: "('b \<Rightarrow> 'm option) \<Rightarrow> ('b frame_read \<times> bool) list \<Rightarrow> 'm list" where
  "decodable dec fs = List.map_filter (\<lambda>(f, ok). case f of FrameBytes b \<Rightarrow> dec b | ReadError \<Rightarrow> None) fs"

fun undecodable :: "('b \<Rightarrow> 'm option) \<Rightarrow> 'b frame_read \<times> bool \<Rightarrow> bool" where
  "undecodable dec (FrameBytes b, ok) \<longleftrightarrow> dec b = None"
| "undecodable dec (ReadError, ok) \<longleftrightarrow> False"

text \<open>No run of \<open>n\<close> undecodable frames, counting \<open>bad\<close> that came before.\<close>

fun tolerable :: "('b \<Rightarrow> 'm option) \<Rightarrow> nat \<Rightarrow> ('b frame_read \<times> bool) list \<Rightarrow> bool" where
  "tolerable dec bad [] \<longleftrightarrow> True"
| "tolerable dec bad ((ReadError, ok) # fs) \<longleftrightarrow> False"
| "tolerable dec bad ((FrameBytes b, ok) # fs) \<longleftrightarrow>
     ok \<and> (if dec b = None then Suc bad < MAX_CONSECUTIVE_BAD_FRAMES \<and> tolerable dec (Suc bad) fs
           else tolerable dec 0 fs)"

lemma decodable_simps [simp]:
  "decodable dec [] = []"
  "decodable dec ((FrameBytes b, ok) # fs) = (case dec b of None \<Rightarrow> [] | Some m \<Rightarrow> [m]) @ decodable dec fs"
  "decodable dec ((ReadError, ok) # fs) = decodable dec fs"
  by (simp_all add: decodable_def map_filter_def split: option.split)

lemma inbound_tolerable: "tolerable dec bad fs \<Longrightarrow> inbound dec bad fs = decodable dec fs"
  by (induction dec bad fs rule: inbound.induct) (auto split: option.splits)

lemma inbound_prefix: "prefix (inbound dec bad fs) (decodable dec fs)"
  by (induction dec bad fs rule: inbound.induct) (auto split: option.splits)

lemma inbound_bad_run:
  "list_all (undecodable dec) fs \<Longrightarrow> MAX_CONSECUTIVE_BAD_FRAMES \<le> bad + length fs \<Longrightarrow> fs \<noteq> [] \<Longrightarrow>
   inbound dec bad (fs @ gs) = []"
proof (induction dec bad fs rule: inbound.induct)
  case (3 dec bad b ok fs)
  then show ?case by (cases "fs = []") auto
qed auto

lemma writer_last:
  "writer enc encoding first (ms @ (m, ok) # ms') =
   writer enc encoding first (ms @ [(m, ok)])" if "is_detached m"
  using that
  by (induction enc encoding first ms rule: writer.induct) (auto split: option.split)

section \<open>The properties\<close>

text \<open>
  A connection's events are bracketed: nothing at all reaches the core unless the first
  frame is a hello, and then the core sees the connection, that hello, and at the end exactly
  one \<open>Gone\<close>, with only messages of this client between.
\<close>

theorem connection_bracketed:
  assumes "connection dec cid first frames = Events es" "es \<noteq> []"
  shows "\<exists>v e c r t d ms. es = [Connected cid, FromClient cid (Hello v e c r t d)]
           @ map (FromClient cid) ms @ [Gone cid]
         \<and> prefix ms (decodable (dec e) (tl frames))"
  using assms inbound_prefix
  by (auto simp: connection_def split: if_splits list.splits frame_read.splits option.splits client_msg.splits)
     blast

theorem connection_bracketed_witness:
  "\<exists>es. connection (\<lambda>_ b. if b = (0::nat) then Some (Hello 1 Json 80 24 Control []) else Some Detach) 7 0
      [(FrameBytes 0, True), (FrameBytes 1, True)] = Events es
     \<and> last es = Gone 7 \<and> length es = 4"
proof -
  let ?dec = "\<lambda>_ b. if b = (0::nat) then Some (Hello 1 Json 80 24 Control []) else Some Detach"
  let ?es = "[Connected 7, FromClient 7 (Hello 1 Json 80 24 Control []), FromClient 7 Detach, Gone 7]"
  have c: "connection ?dec 7 0 [(FrameBytes 0, True), (FrameBytes 1, True)] = Events ?es"
    by (simp add: connection_def)
  from connection_bracketed [OF c] show ?thesis unfolding c by auto
qed

text \<open>
  Tolerance. As long as the stream has no read error, the core listens and fewer than
  sixteen undecodable frames come in a row, every decodable message is delivered, in order;
  sixteen undecodable frames in a row end the connection whatever follows.
\<close>

theorem undecodable_frames_skipped:
  "(tolerable dec 0 fs \<longrightarrow> inbound dec 0 fs = decodable dec fs)
   \<and> (length bs = MAX_CONSECUTIVE_BAD_FRAMES \<and> list_all (undecodable dec) bs
      \<longrightarrow> inbound dec 0 (bs @ gs) = [])"
  using inbound_tolerable [of dec 0 fs] inbound_bad_run [of dec bs 0 gs]
  by (cases bs) (simp_all add: MAX_CONSECUTIVE_BAD_FRAMES_def)

theorem undecodable_frames_skipped_witness:
  "inbound (\<lambda>b. if b = (0::nat) then None else Some b) 0
      [(FrameBytes 3, True), (FrameBytes 0, True), (FrameBytes 0, True), (FrameBytes 5, True)] = [3, 5]
   \<and> inbound (\<lambda>b. if b = (0::nat) then None else Some b) 0
      (replicate 16 (FrameBytes 0, True) @ [(FrameBytes 5, True)]) = []"
proof -
  let ?d = "\<lambda>b. if b = (0::nat) then None else Some b"
  let ?fs = "[(FrameBytes 3, True), (FrameBytes 0, True), (FrameBytes 0, True), (FrameBytes 5, True)]"
  have "tolerable ?d 0 ?fs" by (simp add: MAX_CONSECUTIVE_BAD_FRAMES_def)
  moreover have "list_all (undecodable ?d) (replicate 16 (FrameBytes 0, True))"
    by (simp add: list_all_iff)
  ultimately show ?thesis
    using undecodable_frames_skipped [of ?d ?fs "replicate 16 (FrameBytes 0, True)" "[(FrameBytes 5, True)]"]
    by (simp add: MAX_CONSECUTIVE_BAD_FRAMES_def)
qed

text \<open>
  Nothing is written after a \<open>Detached\<close>: whatever is queued behind it, the bytes sent are
  those of the queue that ends with it.
\<close>

theorem nothing_after_detached:
  "writer enc e first (ms @ (Detached reason, ok) # ms') = writer enc e first (ms @ [(Detached reason, ok)])"
  by (rule writer_last) simp

end
