(* ===== verification/Frame_Diff.thy ===== *)
theory Frame_Diff
  imports Protocol
begin

text \<open>
  \<open>crates/butai-server/src/render.rs\<close>: a pane's cell grid as a frame update. The grid is the
  library's \<open>ratatui::Buffer\<close>: its area and its cells are a record here, its \<open>diff\<close> and the
  display width of a symbol are parameters. Coordinates are \<open>u16\<close> in the source; they are natural
  numbers here, and stay below the right edge plus the width of one cell.
\<close>

section \<open>Conversion\<close>

datatype tui_color =
  Reset | Black | Red | Green | Yellow | Blue | Magenta | Cyan | Gray | DarkGray
  | LightRed | LightGreen | LightYellow | LightBlue | LightMagenta | LightCyan | White
  | TIndexed u8 | TRgb u8 u8 u8

fun to_proto_color :: "tui_color \<Rightarrow> color" where
  "to_proto_color Reset = Default"
| "to_proto_color Black = Indexed 0"
| "to_proto_color Red = Indexed 1"
| "to_proto_color Green = Indexed 2"
| "to_proto_color Yellow = Indexed 3"
| "to_proto_color Blue = Indexed 4"
| "to_proto_color Magenta = Indexed 5"
| "to_proto_color Cyan = Indexed 6"
| "to_proto_color Gray = Indexed 7"
| "to_proto_color DarkGray = Indexed 8"
| "to_proto_color LightRed = Indexed 9"
| "to_proto_color LightGreen = Indexed 10"
| "to_proto_color LightYellow = Indexed 11"
| "to_proto_color LightBlue = Indexed 12"
| "to_proto_color LightMagenta = Indexed 13"
| "to_proto_color LightCyan = Indexed 14"
| "to_proto_color White = Indexed 15"
| "to_proto_color (TIndexed i) = Indexed i"
| "to_proto_color (TRgb r g b) = Rgb r g b"

record tui_cell =
  symbol :: string
  t_fg :: tui_color
  t_bg :: tui_color
  modifier :: mods

record area =
  ax :: nat
  ay :: nat
  aw :: nat
  ah :: nat

record buffer =
  b_area :: area
  b_at :: "nat \<Rightarrow> nat \<Rightarrow> tui_cell"

definition right :: "area \<Rightarrow> nat" where "right a = ax a + aw a"
definition bottom :: "area \<Rightarrow> nat" where "bottom a = ay a + ah a"

definition to_proto_cell :: "tui_cell \<Rightarrow> cell" where
  "to_proto_cell c = \<lparr>ch = symbol c, fg = to_proto_color (t_fg c), bg = to_proto_color (t_bg c), c_mods = modifier c\<rparr>"

section \<open>Runs\<close>

definition cell_width :: "(string \<Rightarrow> nat) \<Rightarrow> string \<Rightarrow> nat" where
  "cell_width width s = max (width s) 1"

text \<open>\<open>push_cell\<close>: extend the last run when the cell stands where that run ends.\<close>

definition push_cell ::
    "(string \<Rightarrow> nat) \<Rightarrow> nat \<times> nat \<times> tui_cell \<Rightarrow> cell_run list \<times> (nat \<times> nat) \<Rightarrow> cell_run list \<times> (nat \<times> nat)" where
  "push_cell width = (\<lambda>(x, y, c) (runs, ex, ey).
     (let e = (x + cell_width width (symbol c), y); pc = to_proto_cell c in
      if y = ey \<and> x = ex \<and> runs \<noteq> []
      then (butlast runs @ [(last runs)\<lparr>run_cells := run_cells (last runs) @ [pc]\<rparr>], e)
      else (runs @ [\<lparr>run_x = x, run_y = y, run_cells = [pc]\<rparr>], e)))"

text \<open>The cells of one row of a full repaint: the trailing half of a wide cell is skipped.\<close>

function row_cells :: "(string \<Rightarrow> nat) \<Rightarrow> buffer \<Rightarrow> nat \<Rightarrow> nat \<Rightarrow> (nat \<times> nat \<times> tui_cell) list" where
  "row_cells width b y x =
     (if x < right (b_area b)
      then (x, y, b_at b x y) # row_cells width b y (x + cell_width width (symbol (b_at b x y)))
      else [])"
  by pat_completeness auto
termination
  by (relation "measure (\<lambda>(w, b, y, x). right (b_area b) - x)") (auto simp: cell_width_def max_def)

declare row_cells.simps [simp del]

definition full_cells :: "(string \<Rightarrow> nat) \<Rightarrow> buffer \<Rightarrow> (nat \<times> nat \<times> tui_cell) list" where
  "full_cells width b =
     concat (map (\<lambda>y. row_cells width b y (ax (b_area b))) [ay (b_area b)..<bottom (b_area b)])"

definition diff_to_frame ::
    "(string \<Rightarrow> nat) \<Rightarrow> (buffer \<Rightarrow> buffer \<Rightarrow> (nat \<times> nat \<times> tui_cell) list)
     \<Rightarrow> buffer option \<Rightarrow> buffer \<Rightarrow> (nat \<times> nat) option \<Rightarrow> frame_update" where
  "diff_to_frame width diff prev next cur =
     (let fl = (case prev of Some p \<Rightarrow> b_area p \<noteq> b_area next | None \<Rightarrow> True);
          pushed = (if fl then full_cells width next
                    else case prev of Some p \<Rightarrow> diff p next | None \<Rightarrow> []);
          (runs, _) = fold (push_cell width) pushed ([], 65535, 65535)
      in \<lparr>full = fl, cells = runs, cursor = cur, cursor_shape = Block, wants_mouse = False\<rparr>)"

section \<open>Reading a frame\<close>

text \<open>What a client paints: the cells of a run stand side by side, each as wide as it is.\<close>

fun run_positions :: "(string \<Rightarrow> nat) \<Rightarrow> nat \<Rightarrow> nat \<Rightarrow> cell list \<Rightarrow> (nat \<times> nat \<times> cell) list" where
  "run_positions width x y [] = []"
| "run_positions width x y (c # cs) = (x, y, c) # run_positions width (x + cell_width width (ch c)) y cs"

definition painted :: "(string \<Rightarrow> nat) \<Rightarrow> cell_run list \<Rightarrow> (nat \<times> nat \<times> cell) list" where
  "painted width runs = concat (map (\<lambda>r. run_positions width (run_x r) (run_y r) (run_cells r)) runs)"

fun run_end :: "(string \<Rightarrow> nat) \<Rightarrow> nat \<Rightarrow> cell list \<Rightarrow> nat" where
  "run_end width x [] = x"
| "run_end width x (c # cs) = run_end width (x + cell_width width (ch c)) cs"

lemma run_positions_append:
  "run_positions width x y (cs @ ds) = run_positions width x y cs @ run_positions width (run_end width x cs) y ds"
  by (induction cs arbitrary: x) auto

lemma run_end_append: "run_end width x (cs @ ds) = run_end width (run_end width x cs) ds"
  by (induction cs arbitrary: x) auto

definition tracks :: "(string \<Rightarrow> nat) \<Rightarrow> cell_run list \<times> (nat \<times> nat) \<Rightarrow> bool" where
  "tracks width = (\<lambda>(runs, ex, ey). runs \<noteq> [] \<longrightarrow>
     run_end width (run_x (last runs)) (run_cells (last runs)) = ex \<and> run_y (last runs) = ey)"

lemma push_cell_tracks: "tracks width s \<Longrightarrow> tracks width (push_cell width p s)"
  by (cases s; cases p) (auto simp: push_cell_def tracks_def Let_def run_end_append to_proto_cell_def)

lemma push_cell_painted:
  "tracks width s \<Longrightarrow> painted width (fst (push_cell width (x, y, c) s)) = painted width (fst s) @ [(x, y, to_proto_cell c)]"
proof -
  assume t: "tracks width s"
  obtain runs ex ey where s: "s = (runs, ex, ey)" by (cases s) auto
  show ?thesis
  proof (cases "y = ey \<and> x = ex \<and> runs \<noteq> []")
    case True
    then obtain rs r where "runs = rs @ [r]" by (cases runs rule: rev_cases) auto
    with True t s show ?thesis
      by (simp add: push_cell_def Let_def painted_def tracks_def run_positions_append)
  next
    case False
    with s show ?thesis by (simp only: push_cell_def Let_def painted_def) (auto)
  qed
qed

lemma fold_push_painted:
  "tracks width s \<Longrightarrow>
   painted width (fst (fold (push_cell width) ps s)) = painted width (fst s) @ map (\<lambda>(x, y, c). (x, y, to_proto_cell c)) ps"
proof (induction ps arbitrary: s)
  case (Cons p ps)
  obtain x y c where p: "p = (x, y, c)" by (cases p) auto
  show ?case
    using Cons.IH [OF push_cell_tracks [OF Cons.prems, of p]] push_cell_painted [OF Cons.prems]
    by (simp add: p)
qed simp

lemma fold_push_nonempty:
  "\<forall>r \<in> set (fst s). run_cells r \<noteq> [] \<Longrightarrow> \<forall>r \<in> set (fst (fold (push_cell width) ps s)). run_cells r \<noteq> []"
proof (induction ps arbitrary: s)
  case (Cons p ps)
  have "\<forall>r \<in> set (fst (push_cell width p s)). run_cells r \<noteq> []"
    using Cons.prems
    by (cases s; cases p) (auto simp: push_cell_def Let_def dest: in_set_butlastD)
  then show ?case using Cons.IH by simp
qed simp

text \<open>A full repaint leaves no column out: every column lies under exactly one painted cell.\<close>

lemma row_cells_cover:
  assumes "x \<le> c" "c < right (b_area b)"
  shows "\<exists>(x', y', t) \<in> set (row_cells width b y x). y' = y \<and> t = b_at b x' y
     \<and> x' \<le> c \<and> c < x' + cell_width width (symbol t)"
  using assms
proof (induction width b y x rule: row_cells.induct)
  case (1 width b y x)
  let ?w = "cell_width width (symbol (b_at b x y))"
  have lt: "x < right (b_area b)" using 1 by simp
  show ?case
  proof (cases "c < x + ?w")
    case True
    with "1.prems" lt show ?thesis by (subst row_cells.simps) auto
  next
    case False
    with 1 lt show ?thesis by (subst row_cells.simps) auto
  qed
qed

lemma row_cells_in: "(x', y', t) \<in> set (row_cells width b y x) \<Longrightarrow> x \<le> x' \<and> x' < right (b_area b) \<and> y' = y \<and> t = b_at b x' y"
proof (induction width b y x rule: row_cells.induct)
  case (1 width b y x)
  from "1.prems" have "x < right (b_area b)"
    by (subst (asm) row_cells.simps) (auto split: if_splits)
  with 1 show ?case by (subst (asm) row_cells.simps) force
qed

section \<open>The properties\<close>

text \<open>What a frame has to say: the changes, or every cell when there is nothing to compare with.\<close>

definition pushed ::
    "(string \<Rightarrow> nat) \<Rightarrow> (buffer \<Rightarrow> buffer \<Rightarrow> (nat \<times> nat \<times> tui_cell) list) \<Rightarrow> buffer option \<Rightarrow> buffer
     \<Rightarrow> (nat \<times> nat \<times> tui_cell) list" where
  "pushed width diff prev next =
     (case prev of
        Some p \<Rightarrow> if b_area p = b_area next then diff p next else full_cells width next
      | None \<Rightarrow> full_cells width next)"

text \<open>
  A frame says exactly what was pushed: painting its runs puts every changed cell, converted,
  at its own coordinates, in order, and no run is empty.
\<close>

theorem frame_paints_the_changes:
  "painted width (cells (diff_to_frame width diff prev next cur))
      = map (\<lambda>(x, y, c). (x, y, to_proto_cell c)) (pushed width diff prev next)
     \<and> list_all (\<lambda>r. run_cells r \<noteq> []) (cells (diff_to_frame width diff prev next cur))
     \<and> full (diff_to_frame width diff prev next cur) = (map_option b_area prev \<noteq> Some (b_area next))"
proof -
  have "tracks width ([], 65535, 65535)" by (simp add: tracks_def)
  note p = fold_push_painted [OF this]
  have ne: "\<forall>r \<in> set (fst (fold (push_cell width) ps ([], 65535, 65535))). run_cells r \<noteq> []" for ps
    by (rule fold_push_nonempty) simp
  show ?thesis
    using p ne by (auto simp: diff_to_frame_def pushed_def Let_def painted_def split_beta list_all_iff split: option.splits)
qed

text \<open>
  A full repaint covers the whole area: every position of the grid lies under a painted
  cell, and that cell is the grid's own at the place where it is painted.
\<close>

theorem full_repaint_covers:
  assumes "ax (b_area b) \<le> x" "x < right (b_area b)" "ay (b_area b) \<le> y" "y < bottom (b_area b)"
  shows "\<exists>x' \<le> x. (x', y, to_proto_cell (b_at b x' y))
           \<in> set (painted width (cells (diff_to_frame width diff None b cur)))
         \<and> x < x' + cell_width width (symbol (b_at b x' y))"
proof -
  have "tracks width ([], 65535, 65535)" by (simp add: tracks_def)
  note p = fold_push_painted [OF this]
  obtain x' where x': "(x', y, b_at b x' y) \<in> set (row_cells width b y (ax (b_area b)))" "x' \<le> x"
    "x < x' + cell_width width (symbol (b_at b x' y))"
    using row_cells_cover [OF assms(1,2), of width y] by auto
  then have "(x', y, b_at b x' y) \<in> set (full_cells width b)"
    using assms(3,4) by (auto simp: full_cells_def)
  then have "(x', y, to_proto_cell (b_at b x' y)) \<in> set (painted width (cells (diff_to_frame width diff None b cur)))"
    using p by (force simp: diff_to_frame_def Let_def split_beta painted_def)
  with x' show ?thesis by blast
qed

theorem full_repaint_covers_witness:
  "\<exists>x' \<le> 1. 1 < x' + cell_width length (symbol \<lparr>symbol = ''ab'', t_fg = Reset, t_bg = Reset, modifier = undefined\<rparr>)"
proof -
  let ?c = "\<lparr>symbol = ''ab'', t_fg = Reset, t_bg = Reset, modifier = undefined\<rparr>"
  let ?b = "\<lparr>b_area = \<lparr>ax = 0, ay = 0, aw = 4, ah = 1\<rparr>, b_at = \<lambda>_ _. ?c\<rparr>"
  have "\<exists>x' \<le> 1. (x', 0, to_proto_cell (b_at ?b x' 0))
           \<in> set (painted length (cells (diff_to_frame length (\<lambda>_ _. []) None ?b None)))
         \<and> 1 < x' + cell_width length (symbol (b_at ?b x' 0))"
    by (rule full_repaint_covers) (simp_all add: right_def bottom_def)
  then show ?thesis by auto
qed

end
