(* ===== verification/Pty_Stream.thy ===== *)
theory Pty_Stream
  imports Names
begin

text \<open>
  The byte-stream part of \<open>crates/butai-server/src/pane/terminal.rs\<close>: the rewriter of cursor
  positioning sequences, and the scanner for the queries and announcements a program writes to
  its terminal, with the fragment it carries from one read to the next. A byte is a \<open>char\<close>.
\<close>

abbreviation ESC :: char where "ESC \<equiv> CHR 0x1B"

section \<open>Rewriting HVP to CUP\<close>

datatype csi_state = Ground | EscSeen | Csi

record hvp =
  hvp_state :: csi_state
  plain :: bool

definition hvp_init :: hvp where
  "hvp_init = \<lparr>hvp_state = Ground, plain = False\<rparr>"

text \<open>A byte that ends a control sequence.\<close>

definition csi_final :: "char \<Rightarrow> bool" where
  "csi_final b \<longleftrightarrow> (let n = (of_char b :: nat) in 0x40 \<le> n \<and> n \<le> 0x7e)"

definition csi_param :: "char \<Rightarrow> bool" where
  "csi_param b \<longleftrightarrow> is_digit b \<or> b = CHR '';''"

text \<open>The loop of \<open>rewrite\<close>, on the rest of the buffer: the rewritten bytes, the count of
  conversions and the state. In \<open>Ground\<close> it jumps to the next escape.\<close>

function rewrite :: "hvp \<Rightarrow> string \<Rightarrow> string \<times> nat \<times> hvp" where
  "rewrite h [] = ([], 0, h)"
| "rewrite h (b # bs) =
     (case hvp_state h of
        Ground \<Rightarrow>
          (case position (\<lambda>c. c = ESC) (b # bs) of
             Some off \<Rightarrow>
               (let (out, n, h') = rewrite (h\<lparr>hvp_state := EscSeen\<rparr>) (drop (Suc off) (b # bs))
                in (take (Suc off) (b # bs) @ out, n, h'))
           | None \<Rightarrow> (b # bs, 0, h))
      | EscSeen \<Rightarrow>
          (let h1 = (if b = CHR ''['' then \<lparr>hvp_state = Csi, plain = True\<rparr>
                     else if b = ESC then h else h\<lparr>hvp_state := Ground\<rparr>);
               (out, n, h') = rewrite h1 bs
           in (b # out, n, h'))
      | Csi \<Rightarrow>
          (let hit = (csi_final b \<and> b = CHR ''f'' \<and> plain h);
               h1 = (if csi_final b then h\<lparr>hvp_state := Ground\<rparr>
                     else if csi_param b then h else h\<lparr>plain := False\<rparr>);
               (out, n, h') = rewrite h1 bs
           in ((if hit then CHR ''H'' else b) # out, (if hit then Suc n else n), h')))"
  by pat_completeness auto
termination
  by (relation "measure (\<lambda>(h, bs). length bs)") auto

text \<open>The reference: one byte at a time.\<close>

definition hvp_byte :: "hvp \<Rightarrow> char \<Rightarrow> char \<times> nat \<times> hvp" where
  "hvp_byte h b =
     (case hvp_state h of
        Ground \<Rightarrow> (b, 0, if b = ESC then h\<lparr>hvp_state := EscSeen\<rparr> else h)
      | EscSeen \<Rightarrow> (b, 0, if b = CHR ''['' then \<lparr>hvp_state = Csi, plain = True\<rparr>
                     else if b = ESC then h else h\<lparr>hvp_state := Ground\<rparr>)
      | Csi \<Rightarrow> if csi_final b
               then (if b = CHR ''f'' \<and> plain h then (CHR ''H'', 1, h\<lparr>hvp_state := Ground\<rparr>)
                     else (b, 0, h\<lparr>hvp_state := Ground\<rparr>))
               else (b, 0, if csi_param b then h else h\<lparr>plain := False\<rparr>))"

fun hvp_bytes :: "hvp \<Rightarrow> string \<Rightarrow> string \<times> nat \<times> hvp" where
  "hvp_bytes h [] = ([], 0, h)"
| "hvp_bytes h (b # bs) =
     (let (c, k, h1) = hvp_byte h b; (out, n, h') = hvp_bytes h1 bs in (c # out, k + n, h'))"

lemma hvp_bytes_no_esc: "hvp_state h = Ground \<Longrightarrow> ESC \<notin> set bs \<Longrightarrow> hvp_bytes h bs = (bs, 0, h)"
  by (induction bs) (auto simp: hvp_byte_def)

lemma hvp_bytes_append:
  "hvp_bytes h (xs @ ys) =
   (let (o1, n1, h1) = hvp_bytes h xs; (o2, n2, h2) = hvp_bytes h1 ys in (o1 @ o2, n1 + n2, h2))"
  by (induction xs arbitrary: h) (auto simp: Let_def split: prod.splits)

lemma rewrite_eq_bytes: "rewrite h bs = hvp_bytes h bs"
proof (induction h bs rule: rewrite.induct)
  case (2 h b bs)
  show ?case
  proof (cases "hvp_state h")
    case Ground
    show ?thesis
    proof (cases "position (\<lambda>c. c = ESC) (b # bs)")
      case None
      then have "ESC \<notin> set (b # bs)" unfolding position_None_iff by auto
      then have "hvp_bytes h (b # bs) = (b # bs, 0, h)" by (rule hvp_bytes_no_esc [OF Ground])
      then show ?thesis using None Ground by simp
    next
      case (Some off)
      then have off: "off < length (b # bs)" "(b # bs) ! off = ESC" "\<forall>j<off. (b # bs) ! j \<noteq> ESC"
        unfolding position_Some_iff by auto
      have split: "b # bs = take off (b # bs) @ ESC # drop (Suc off) (b # bs)"
        using off(1,2) id_take_nth_drop by metis
      have "ESC \<notin> set (take off (b # bs))"
        using off(3) by (auto simp: in_set_conv_nth)
      then have "hvp_bytes h (take off (b # bs)) = (take off (b # bs), 0, h)"
        by (rule hvp_bytes_no_esc [OF Ground])
      then have "hvp_bytes h (b # bs) =
          (let (out, n, h') = hvp_bytes (h\<lparr>hvp_state := EscSeen\<rparr>) (drop (Suc off) (b # bs))
           in (take off (b # bs) @ ESC # out, n, h'))"
        by (subst split) (simp add: hvp_bytes_append hvp_byte_def Ground Let_def split: prod.split)
      moreover have "take (Suc off) (b # bs) = take off (b # bs) @ [ESC]"
        using off(1,2) by (metis take_Suc_conv_app_nth)
      ultimately show ?thesis
        using 2(1) [OF Ground Some]
        by (simp only: rewrite.simps Ground csi_state.case Some option.case) (simp add: Let_def split_beta)
    qed
  next
    case EscSeen
    then show ?thesis using 2(2) [OF EscSeen refl] by (auto simp: hvp_byte_def Let_def split: prod.split)
  next
    case Csi
    then show ?thesis
      using 2(3) [OF Csi refl refl] by (auto simp: hvp_byte_def Let_def split: prod.split)
  qed
qed simp

text \<open>Reads cut the stream anywhere: the bytes that come out and the state are the same.\<close>

definition hvp_feed :: "string \<Rightarrow> string \<times> hvp \<Rightarrow> string \<times> hvp" where
  "hvp_feed bs = (\<lambda>(out, h). let (o', n, h') = rewrite h bs in (out @ o', h'))"

interpretation hvp: chunked hvp_feed
  by unfold_locales
     (auto simp: hvp_feed_def rewrite_eq_bytes hvp_bytes_append Let_def split: prod.splits)

lemma rewrite_shape:
  assumes "rewrite h bs = (out, n, h')"
  shows "list_all2 (\<lambda>a b. a = b \<or> b = CHR ''f'' \<and> a = CHR ''H'') out bs
    \<and> n = length (filter (\<lambda>(a, b). a \<noteq> b) (zip out bs))"
  using assms unfolding rewrite_eq_bytes
proof (induction bs arbitrary: h out n h')
  case (Cons b bs)
  obtain c k h1 where c: "hvp_byte h b = (c, k, h1)" by (cases "hvp_byte h b") auto
  obtain o2 n2 h2 where r: "hvp_bytes h1 bs = (o2, n2, h2)" by (cases "hvp_bytes h1 bs") auto
  from Cons.prems c r have eq: "out = c # o2" "n = k + n2" by auto
  have b: "c = b \<and> k = 0 \<or> b = CHR ''f'' \<and> c = CHR ''H'' \<and> k = 1"
    using c by (auto simp: hvp_byte_def split: csi_state.splits if_splits)
  show ?case
    using Cons.IH [OF r] b unfolding eq by auto
qed simp

lemma rewrite_hvp:
  assumes "list_all csi_param ps" "hvp_state h \<noteq> Csi"
  shows "fst (rewrite h (ESC # ''['' @ ps @ ''f'')) = ESC # ''['' @ ps @ ''H''"
proof -
  have ps: "hvp_bytes \<lparr>hvp_state = Csi, plain = True\<rparr> ps = (ps, 0, \<lparr>hvp_state = Csi, plain = True\<rparr>)"
    using assms(1) by (induction ps) (auto simp: hvp_byte_def csi_param_def csi_final_def is_digit_def Let_def)
  show ?thesis
    using assms(2) ps
    by (cases "hvp_state h") (auto simp: rewrite_eq_bytes hvp_byte_def hvp_bytes_append csi_final_def Let_def)
qed

section \<open>Queries and announcements\<close>

datatype query =
  CursorPos | Status | PrimaryDa | SecondaryDa
  | RemoteAnnounce string string

definition DA2_BUTAI_ID :: nat where
  "DA2_BUTAI_ID = 98"

definition reply :: "query \<Rightarrow> nat \<times> nat \<Rightarrow> string" where
  "reply q cur =
     (case q of
        CursorPos \<Rightarrow> ESC # ''['' @ show_nat (fst cur + 1) @ '';'' @ show_nat (snd cur + 1) @ ''R''
      | Status \<Rightarrow> ESC # ''[0n''
      | PrimaryDa \<Rightarrow> ESC # ''[?1;2c''
      | SecondaryDa \<Rightarrow> ESC # ''[>'' @ show_nat DA2_BUTAI_ID @ '';'' @ show_nat (unat PROTOCOL_VERSION) @ '';0c''
      | RemoteAnnounce h s \<Rightarrow> [])"

text \<open>\<open>std::str::from_utf8\<close>: the well-formed byte sequences of the Unicode standard.\<close>

definition byte_in :: "nat \<Rightarrow> nat \<Rightarrow> char \<Rightarrow> bool" where
  "byte_in lo hi c \<longleftrightarrow> lo \<le> (of_char c :: nat) \<and> (of_char c :: nat) \<le> hi"

fun utf8_ok :: "string \<Rightarrow> bool" where
  "utf8_ok [] \<longleftrightarrow> True"
| "utf8_ok (a # s) \<longleftrightarrow>
     (if byte_in 0 127 a then utf8_ok s
      else if byte_in 0xC2 0xDF a then
        (case s of b # r \<Rightarrow> is_cont b \<and> utf8_ok r | _ \<Rightarrow> False)
      else if byte_in 0xE0 0xEF a then
        (case s of b # c # r \<Rightarrow>
           byte_in (if byte_in 0xE0 0xE0 a then 0xA0 else 0x80) (if byte_in 0xED 0xED a then 0x9F else 0xBF) b
           \<and> is_cont c \<and> utf8_ok r | _ \<Rightarrow> False)
      else if byte_in 0xF0 0xF4 a then
        (case s of b # c # d # r \<Rightarrow>
           byte_in (if byte_in 0xF0 0xF0 a then 0x90 else 0x80) (if byte_in 0xF4 0xF4 a then 0x8F else 0xBF) b
           \<and> is_cont c \<and> is_cont d \<and> utf8_ok r | _ \<Rightarrow> False)
      else False)"

definition BINARIES :: "string list" where
  "BINARIES = [''butai'', ''bmux'']"

fun find_map :: "('a \<Rightarrow> 'b option) \<Rightarrow> 'a list \<Rightarrow> 'b option" where
  "find_map f [] = None"
| "find_map f (x # xs) = (case f x of Some y \<Rightarrow> Some y | None \<Rightarrow> find_map f xs)"

definition strip_apc_prefix :: "string \<Rightarrow> string option" where
  "strip_apc_prefix body =
     find_map (\<lambda>n. Option.bind (strip_prefix n body) (strip_prefix '';'')) BINARIES"

definition parse_apc :: "string \<Rightarrow> query option" where
  "parse_apc body =
     (if \<not> utf8_ok body then None
      else case strip_apc_prefix body of None \<Rightarrow> None
      | Some rest \<Rightarrow> (case strip_prefix ''here;'' rest of None \<Rightarrow> None
        | Some rest \<Rightarrow> (case split_once '';'' rest of None \<Rightarrow> None
          | Some (hint, socket) \<Rightarrow> if hint = [] then None else Some (RemoteAnnounce hint socket))))"

definition MAX_APC_LEN :: nat where
  "MAX_APC_LEN = 4096"

datatype apc_scan = Complete nat "query option" | Incomplete | TooLong

text \<open>The loop of \<open>scan_apc\<close> at index \<open>i\<close> of \<open>body\<close>, with the bytes from there on.\<close>

fun apc_loop :: "string \<Rightarrow> nat \<Rightarrow> string \<Rightarrow> apc_scan" where
  "apc_loop body i [] = (if MAX_APC_LEN < length body then TooLong else Incomplete)"
| "apc_loop body i (c # cs) =
     (if MAX_APC_LEN < i then TooLong
      else if c = CHR 0x07 then Complete (i + 1) (parse_apc (take i body))
      else if c = ESC then
        (case cs of
           [] \<Rightarrow> Incomplete
         | d # _ \<Rightarrow> if d = CHR 0x5C then Complete (i + 2) (parse_apc (take i body)) else Complete i None)
      else apc_loop body (i + 1) cs)"

definition scan_apc :: "string \<Rightarrow> apc_scan" where
  "scan_apc body = apc_loop body 0 body"

definition csi_query :: "char \<Rightarrow> string \<Rightarrow> query option" where
  "csi_query fin params =
     (if fin = CHR ''n'' \<and> params = ''6'' then Some CursorPos
      else if fin = CHR ''n'' \<and> params = ''5'' then Some Status
      else if fin = CHR ''c'' \<and> (params = [] \<or> params = ''0'') then Some PrimaryDa
      else if fin = CHR ''c'' \<and> (params = ''>'' \<or> params = ''>0'') then Some SecondaryDa
      else None)"

definition opt_entry :: "nat \<Rightarrow> query option \<Rightarrow> (nat \<times> query) list" where
  "opt_entry i q = (case q of Some x \<Rightarrow> [(i, x)] | None \<Rightarrow> [])"

text \<open>\<open>scan_queries\<close> from index \<open>i\<close>, on the bytes from there on.\<close>

lemma drop_final_shorter: "dropWhile P body = x # r \<Longrightarrow> length r < length body"
  using length_dropWhile_le [of P body] by simp

function scan :: "nat \<Rightarrow> string \<Rightarrow> (nat \<times> query) list \<times> nat" where
  "scan i [] = ([], i)"
| "scan i (c # rest) =
     (if c \<noteq> ESC then scan (i + 1) rest
      else case rest of
        [] \<Rightarrow> ([], i)
      | d # body \<Rightarrow>
          if d = CHR ''_'' then
            (case scan_apc body of
               Complete e q \<Rightarrow>
                 (let (f, t) = scan (i + 2 + e) (drop e body) in (opt_entry (i + 2 + e) q @ f, t))
             | Incomplete \<Rightarrow> ([], i)
             | TooLong \<Rightarrow> scan (i + 2) body)
          else if d \<noteq> CHR ''['' then scan (i + 1) rest
          else
            (let params = takeWhile (Not \<circ> csi_final) body in
             case dropWhile (Not \<circ> csi_final) body of
               [] \<Rightarrow> ([], i)
             | fin # r \<Rightarrow>
                 (let k = i + 2 + length params + 1; (f, t) = scan k r
                  in (opt_entry k (csi_query fin params) @ f, t))))"
  by pat_completeness auto
termination
  by (relation "measure (\<lambda>(i, bs). length bs)") (auto dest: drop_final_shorter)

definition scan_queries :: "string \<Rightarrow> (nat \<times> query) list \<times> nat" where
  "scan_queries buf = scan 0 buf"

definition set_carry :: "string \<Rightarrow> string" where
  "set_carry tail = (if length tail \<le> 32 then tail else [])"

definition terminal_queries :: "string \<Rightarrow> string \<Rightarrow> (nat \<times> query) list \<times> string" where
  "terminal_queries carry bytes =
     (if carry = [] then
        (let (found, tail) = scan_queries bytes in (found, set_carry (drop tail bytes)))
      else
        (let skip = length carry; joined = carry @ bytes; (found, tail) = scan_queries joined
         in (map (\<lambda>(e, q). (e - skip, q)) found, set_carry (drop tail joined))))"

section \<open>The scan does not depend on how the stream is cut\<close>

text \<open>One round of the scanner: how far it advances and what it finds, or \<open>None\<close> when the
  sequence is not complete.\<close>

definition scan_step :: "string \<Rightarrow> (nat \<times> query option) option" where
  "scan_step buf =
     (case buf of [] \<Rightarrow> None
      | c # rest \<Rightarrow>
          if c \<noteq> ESC then Some (1, None)
          else case rest of [] \<Rightarrow> None
          | d # body \<Rightarrow>
              if d = CHR ''_'' then
                (case scan_apc body of Complete e q \<Rightarrow> Some (2 + e, q) | Incomplete \<Rightarrow> None
                 | TooLong \<Rightarrow> Some (2, None))
              else if d \<noteq> CHR ''['' then Some (1, None)
              else (case dropWhile (Not \<circ> csi_final) body of [] \<Rightarrow> None
                    | fin # r \<Rightarrow> Some (length (takeWhile (Not \<circ> csi_final) body) + 3,
                                   csi_query fin (takeWhile (Not \<circ> csi_final) body))))"

lemma apc_loop_extend:
  assumes "apc_loop body i rest \<noteq> Incomplete" "drop i body = rest" "i \<le> length body"
  shows "apc_loop (body @ ext) i (rest @ ext) = apc_loop body i rest"
  using assms
proof (induction body i rest rule: apc_loop.induct)
  case (1 body i)
  then show ?case by (cases ext) (auto split: if_splits)
next
  case (2 body i c cs)
  then have "i < length body" by (cases "i < length body") auto
  moreover have "drop (i + 1) body = cs" using 2(3) by (metis Suc_eq_plus1 drop_Suc list.sel(3) tl_drop)
  ultimately show ?case using 2 by (cases cs) (auto split: if_splits)
qed

lemma scan_apc_extend: "scan_apc body \<noteq> Incomplete \<Longrightarrow> scan_apc (body @ ext) = scan_apc body"
  unfolding scan_apc_def by (rule apc_loop_extend) simp_all

lemma apc_loop_bound:
  "apc_loop body i rest = Complete e q \<Longrightarrow> drop i body = rest \<Longrightarrow> i \<le> length body \<Longrightarrow> e \<le> length body"
proof (induction body i rest rule: apc_loop.induct)
  case (2 body i c cs)
  then have i: "i < length body" by (cases "i < length body") auto
  have d: "drop (i + 1) body = cs" using 2(3) by (metis Suc_eq_plus1 drop_Suc list.sel(3) tl_drop)
  then have "length body = i + 1 + length cs" using i by auto
  then show ?case using 2 i d by (cases cs) (auto split: if_splits)
qed (simp split: if_splits)

lemma scan_apc_bound: "scan_apc body = Complete e q \<Longrightarrow> e \<le> length body"
  using apc_loop_bound [of body 0 body e q] by (simp add: scan_apc_def)

lemma opt_entry_None [simp]: "opt_entry i None = []"
  by (simp add: opt_entry_def)

lemma span_length:
  assumes "dropWhile P body = x # r"
  shows "length body = length (takeWhile P body) + Suc (length r)"
    and "drop (length (takeWhile P body) + k) body = drop k (x # r)"
proof -
  have b: "body = takeWhile P body @ x # r"
    using takeWhile_dropWhile_id [of P body] assms by simp
  show "length body = length (takeWhile P body) + Suc (length r)"
    by (subst b) simp
  show "drop (length (takeWhile P body) + k) body = drop k (x # r)"
    by (subst (2) b) simp
qed

lemma scan_step_bound: "scan_step buf = Some (k, q) \<Longrightarrow> 1 \<le> k \<and> k \<le> length buf"
  by (auto simp: scan_step_def split: list.splits if_splits apc_scan.splits
      dest: scan_apc_bound span_length(1))

lemma span_extend:
  "dropWhile P body = x # r \<Longrightarrow> takeWhile P (body @ ext) = takeWhile P body \<and> dropWhile P (body @ ext) = x # r @ ext"
proof -
  assume d: "dropWhile P body = x # r"
  then have "\<not> P x" by (metis dropWhile_eq_Cons_conv)
  moreover have "x \<in> set body" using d by (metis list.set_intros(1) set_dropWhileD)
  ultimately show ?thesis using d by (auto simp: takeWhile_append1 dropWhile_append1)
qed

lemma scan_step_extend: "scan_step buf = Some x \<Longrightarrow> scan_step (buf @ ext) = Some x"
  using scan_apc_extend
  by (auto simp: scan_step_def span_extend simp del: dropWhile_eq_Nil_conv
      split: list.splits if_splits apc_scan.splits)

lemma scan_rec:
  "scan i buf = (case scan_step buf of None \<Rightarrow> ([], i)
     | Some (k, q) \<Rightarrow> (let (f, t) = scan (i + k) (drop k buf) in (opt_entry (i + k) q @ f, t)))"
proof (cases buf)
  case (Cons c rest)
  show ?thesis
  proof (cases "c = ESC \<and> rest \<noteq> []")
    case False
    then show ?thesis unfolding Cons by (auto simp: scan_step_def opt_entry_def)
  next
    case True
    then obtain d body where rest: "rest = d # body" by (cases rest) auto
    show ?thesis
    proof (cases "d = CHR ''[''")
      case False
      then show ?thesis using True unfolding Cons rest
        by (auto simp: scan_step_def split: apc_scan.split)
    next
      case brk: True
      show ?thesis
      proof (cases "dropWhile (Not \<circ> csi_final) body")
        case Nil
        then show ?thesis using True brk unfolding Cons rest
          by (simp add: scan_step_def Let_def del: dropWhile_eq_Nil_conv)
      next
        case dw: (Cons fin r)
        have "drop (length (takeWhile (Not \<circ> csi_final) body) + 3) (c # d # body) = r"
          using span_length(2) [OF dw, of 1] by (simp add: numeral_3_eq_3)
        then show ?thesis using True dw brk unfolding Cons rest
          by (simp add: scan_step_def Let_def numeral_3_eq_3)
      qed
    qed
  qed
qed (simp add: scan_step_def)

lemma scan_shift: "scan (i + n) buf = (let (f, t) = scan i buf in (map (\<lambda>(e, q). (e + n, q)) f, t + n))"
proof (induction "length buf" arbitrary: i buf rule: less_induct)
  case less
  show ?case
  proof (cases "scan_step buf")
    case None
    then show ?thesis by (subst (1 2) scan_rec) simp
  next
    case (Some kq)
    obtain k q where kq: "kq = (k, q)" by (cases kq)
    with Some have "1 \<le> k" "k \<le> length buf" using scan_step_bound [of buf k q] by simp_all
    then have "length (drop k buf) < length buf" unfolding length_drop by arith
    from less [OF this, of "i + k"] show ?thesis
      using Some kq
      by (subst (1 2) scan_rec) (auto simp: Let_def opt_entry_def add.assoc add.commute [of n] split: prod.splits option.splits)
  qed
qed

text \<open>Scanning two pieces: the second scan starts at the tail the first one left.\<close>

lemma scan_append:
  "scan i (a @ b) = (let (f, t) = scan i a; (f', t') = scan t (drop (t - i) a @ b) in (f @ f', t'))
   \<and> i \<le> snd (scan i a) \<and> snd (scan i a) \<le> i + length a"
proof (induction "length a" arbitrary: i a rule: less_induct)
  case less
  show ?case
  proof (cases "scan_step a")
    case None
    then have "scan i a = ([], i)" by (subst scan_rec) simp
    then show ?thesis by simp
  next
    case (Some kq)
    obtain k q where kq: "kq = (k, q)" by (cases kq)
    have k: "1 \<le> k" "k \<le> length a" using Some kq scan_step_bound by auto
    then have "length (drop k a) < length a" unfolding length_drop by arith
    note IH = less [OF this, of "i + k"]
    obtain f t where ft: "scan (i + k) (drop k a) = (f, t)" by (cases "scan (i + k) (drop k a)")
    have t: "i + k \<le> t" "t \<le> i + length a" using IH ft k by auto
    have sa: "scan i a = (opt_entry (i + k) q @ f, t)" using Some kq ft by (subst scan_rec) simp
    have "scan_step (a @ b) = Some (k, q)" using Some kq scan_step_extend by simp
    then have "scan i (a @ b) = (let (f, t) = scan (i + k) (drop k a @ b) in (opt_entry (i + k) q @ f, t))"
      using k by (subst scan_rec) simp
    moreover have "drop (t - (i + k)) (drop k a) = drop (t - i) a" using t by simp
    ultimately show ?thesis using IH t by (simp add: sa ft Let_def split: prod.splits)
  qed
qed

section \<open>Reading in pieces\<close>

fun read_all :: "string \<Rightarrow> string list \<Rightarrow> query list" where
  "read_all carry [] = []"
| "read_all carry (r # rs) =
     (let (found, carry') = terminal_queries carry r in map snd found @ read_all carry' rs)"

text \<open>The fragment an unbounded carry would hold after a read.\<close>

definition fragment :: "string \<Rightarrow> string" where
  "fragment buf = drop (snd (scan 0 buf)) buf"

fun fragments_fit :: "string \<Rightarrow> string list \<Rightarrow> bool" where
  "fragments_fit carry [] \<longleftrightarrow> True"
| "fragments_fit carry (r # rs) \<longleftrightarrow>
     length (fragment (carry @ r)) \<le> 32 \<and> fragments_fit (fragment (carry @ r)) rs"

lemma terminal_queries_scan:
  "map snd (fst (terminal_queries carry r)) = map snd (fst (scan 0 (carry @ r)))"
  "snd (terminal_queries carry r) = set_carry (fragment (carry @ r))"
  by (auto simp: terminal_queries_def scan_queries_def fragment_def Let_def split: prod.splits)

lemma scan_queries_append:
  "map snd (fst (scan 0 (a @ b))) = map snd (fst (scan 0 a)) @ map snd (fst (scan 0 (fragment a @ b)))"
proof -
  obtain f t where ft: "scan 0 a = (f, t)" by (cases "scan 0 a")
  have "map snd (fst (scan t buf)) = map snd (fst (scan 0 buf))" for buf
    using scan_shift [of 0 t buf] by (auto simp: Let_def split: prod.splits)
  moreover have "scan 0 (a @ b) = (f @ fst (scan t (drop t a @ b)), snd (scan t (drop t a @ b)))"
    using scan_append [of 0 a b] ft by (simp add: Let_def split_beta)
  ultimately show ?thesis
    using ft by (simp add: fragment_def)
qed

lemma read_all_scan:
  "fragments_fit carry rs \<Longrightarrow> rs \<noteq> [] \<Longrightarrow> read_all carry rs = map snd (fst (scan 0 (carry @ concat rs)))"
proof (induction carry rs rule: read_all.induct)
  case (2 carry r rs)
  obtain found carry' where tq: "terminal_queries carry r = (found, carry')" by (cases "terminal_queries carry r")
  have c': "carry' = fragment (carry @ r)"
    using terminal_queries_scan(2) [of carry r] tq 2(2) by (simp add: set_carry_def)
  have f: "map snd found = map snd (fst (scan 0 (carry @ r)))"
    using terminal_queries_scan(1) [of carry r] tq by simp
  have "map snd (fst (scan 0 ((carry @ r) @ concat rs)))
      = map snd (fst (scan 0 (carry @ r))) @ map snd (fst (scan 0 (fragment (carry @ r) @ concat rs)))"
    by (rule scan_queries_append)
  moreover have "read_all carry' rs = map snd (fst (scan 0 (fragment (carry @ r) @ concat rs)))"
  proof (cases rs)
    case Nil
    have "scan 0 (fragment (carry @ r)) = ([], 0)"
    proof -
      obtain f t where ft: "scan 0 (carry @ r) = (f, t)" by (cases "scan 0 (carry @ r)")
      have "map snd (fst (scan 0 (carry @ r)))
          = map snd (fst (scan 0 (carry @ r))) @ map snd (fst (scan 0 (fragment (carry @ r))))"
        using scan_queries_append [of "carry @ r" "[]"] by simp
      then have e: "fst (scan 0 (fragment (carry @ r))) = []" by simp
      show ?thesis
      proof (cases "scan_step (fragment (carry @ r))")
        case None
        then show ?thesis by (subst scan_rec) simp
      next
        case (Some kq)
        have "snd (scan 0 (carry @ r)) = snd (scan (snd (scan 0 (carry @ r))) (fragment (carry @ r)))"
          using scan_append [of 0 "carry @ r" "[]"] by (auto simp: fragment_def Let_def split: prod.splits)
        also have "\<dots> = snd (scan 0 (fragment (carry @ r))) + snd (scan 0 (carry @ r))"
          using scan_shift [of 0 "snd (scan 0 (carry @ r))" "fragment (carry @ r)"]
          by (auto simp: Let_def split: prod.splits)
        finally have "snd (scan 0 (fragment (carry @ r))) = 0" by simp
        with e show ?thesis by (metis prod.collapse)
      qed
    qed
    then show ?thesis using Nil by simp
  next
    case (Cons a list)
    then show ?thesis using "2.IH" [OF tq [symmetric] refl] 2(2) c' by simp
  qed
  ultimately show ?case using tq f by simp
qed simp

text \<open>A fragment longer than the carry is dropped: an announcement cut by a read is lost.\<close>

definition announcement :: string where
  "announcement = ESC # ''_butai;here;host;/home/u/.butai/butai.sock'' @ [CHR 0x07]"

lemma announcement_whole:
  "read_all [] [announcement] = [RemoteAnnounce ''host'' ''/home/u/.butai/butai.sock'']"
  by code_simp

lemma announcement_cut:
  "read_all [] [take 40 announcement, drop 40 announcement] = []"
  by code_simp

section \<open>Command lines\<close>

definition SSH_VALUE_OPTS :: string where
  "SSH_VALUE_OPTS = ''bcDEeFIiJLlmOoPpQRSWw''"

definition SSH_DROP_FLAGS :: string where
  "SSH_DROP_FLAGS = ''tTNf''"

definition one_of :: "string \<Rightarrow> uchar \<Rightarrow> bool" where
  "one_of cs g \<longleftrightarrow> (\<exists>c \<in> set cs. g = [c])"

fun split_ssh :: "string list \<Rightarrow> string list \<Rightarrow> (string list \<times> string) option" where
  "split_ssh flags [] = None"
| "split_ssh flags (arg # args) =
     (case strip_prefix ''-'' arg of
        None \<Rightarrow> Some (flags, arg)
      | Some body \<Rightarrow>
          if body = [] then None
          else let cs = uchars body;
                   takes_value = one_of SSH_VALUE_OPTS (hd cs);
                   attached = (takes_value \<and> 1 < length cs);
                   keep = (\<not> list_all (one_of SSH_DROP_FLAGS) cs);
                   flags' = (if keep then flags @ [arg] else flags)
               in if takes_value \<and> \<not> attached
                  then (case args of [] \<Rightarrow> None
                        | v # rest \<Rightarrow> split_ssh (if keep then flags' @ [v] else flags') rest)
                  else split_ssh flags' args)"

definition split_ssh_argv :: "string list \<Rightarrow> (string list \<times> string) option" where
  "split_ssh_argv args = split_ssh [] args"

lemma split_ssh_spec:
  "split_ssh flags args = Some (fl, dest) \<Longrightarrow>
   \<exists>pre rest. args = pre @ dest # rest \<and> \<not> starts_with ''-'' dest
     \<and> (\<exists>kept. fl = flags @ kept \<and> subseq kept pre)"
proof (induction flags args rule: split_ssh.induct)
  case (2 flags arg args)
  show ?case
  proof (cases "strip_prefix ''-'' arg")
    case None
    with 2 have "arg # args = [] @ dest # args \<and> \<not> starts_with ''-'' dest \<and> (\<exists>kept. fl = flags @ kept \<and> subseq kept [])"
      by (simp add: starts_with_def)
    then show ?thesis by blast
  next
    case (Some body)
    let ?keep = "\<not> list_all (one_of SSH_DROP_FLAGS) (uchars body)"
    let ?tv = "one_of SSH_VALUE_OPTS (hd (uchars body))"
    let ?fl = "if ?keep then flags @ [arg] else flags"
    have b: "body \<noteq> []" using 2 Some by auto
    show ?thesis
    proof (cases "?tv \<and> \<not> 1 < length (uchars body)")
      case True
      with 2(3) Some b obtain v rest where args: "args = v # rest"
        by (cases args) (auto simp: Let_def)
      have "split_ssh (if ?keep then ?fl @ [v] else ?fl) rest = Some (fl, dest)"
        using 2(3) Some b True args by (simp add: Let_def split: if_splits)
      from 2(1) [OF Some b refl refl refl refl refl _ args this] True
      obtain pre rest' kept where "rest = pre @ dest # rest'" "\<not> starts_with ''-'' dest"
        "fl = (if ?keep then ?fl @ [v] else ?fl) @ kept" "subseq kept pre"
        by auto
      then show ?thesis
        by (intro exI [of _ "arg # v # pre"] exI [of _ rest'])
           (auto simp: args intro!: exI [of _ "if ?keep then arg # v # kept else kept"])
    next
      case False
      have "split_ssh ?fl args = Some (fl, dest)"
        using 2(3) Some b False by (auto simp: Let_def split: if_splits)
      from 2(2) [OF Some b refl refl refl refl refl _ this] False
      obtain pre rest' kept where "args = pre @ dest # rest'" "\<not> starts_with ''-'' dest"
        "fl = ?fl @ kept" "subseq kept pre"
        by auto
      then show ?thesis
        by (intro exI [of _ "arg # pre"] exI [of _ rest'])
           (auto intro!: exI [of _ "if ?keep then arg # kept else kept"])
    qed
  qed
qed simp

text \<open>Two command lines ssh accepts that are read differently: a group of flags that holds a
  flag which must not be reused is kept, and a value option at the end of a group is not seen.\<close>

lemma grouped_flag_kept: "split_ssh_argv [''-At'', ''host''] = Some ([''-At''], ''host'')"
  by code_simp

lemma grouped_value_missed: "split_ssh_argv [''-Ap'', ''2222'', ''host''] = Some ([''-Ap''], ''2222'')"
  by code_simp

definition FG_MAX :: nat where
  "FG_MAX = 512"

definition LOGIN_SHELLS :: "string list" where
  "LOGIN_SHELLS = [''bash'', ''zsh'', ''sh'', ''fish'', ''dash'', ''tcsh'', ''ksh'']"

text \<open>The NUL-separated pieces of a command line, empty ones dropped; \<open>lossy\<close> is the library's
  \<open>String::from_utf8_lossy\<close>.\<close>

definition split_nul :: "(string \<Rightarrow> string) \<Rightarrow> string \<Rightarrow> string list" where
  "split_nul lossy raw = map lossy (filter (\<lambda>s. s \<noteq> []) (split_char CHR 0x00 raw))"

definition display_argv :: "string list \<Rightarrow> string option" where
  "display_argv argv =
     (case argv of
        [] \<Rightarrow> None
      | arg0 # rest \<Rightarrow>
          (let base = (case file_name arg0 of Some n \<Rightarrow> n | None \<Rightarrow> arg0);
               flags_only = list_all (starts_with ''-'') rest
           in if dropWhile (\<lambda>c. c = CHR ''-'') base \<in> set LOGIN_SHELLS \<and> flags_only then None
              else let out = concat (take FG_MAX (uchars (join '' '' argv)))
                   in if trim out = [] then None else Some out))"

section \<open>The properties\<close>

text \<open>
  The rewriter is the byte-at-a-time machine: the jump to the next escape changes nothing.
  Its result does not depend on how the stream is cut into reads, it keeps every byte in its
  place except that an \<open>f\<close> may become an \<open>H\<close>, and it counts exactly those.
\<close>

theorem hvp_rewriter_correct:
  assumes "rewrite h bs = (out, n, h')" "concat xss = concat yss"
  shows "hvp_bytes h bs = (out, n, h')
    \<and> fold hvp_feed xss s = fold hvp_feed yss s
    \<and> list_all2 (\<lambda>a b. a = b \<or> b = CHR ''f'' \<and> a = CHR ''H'') out bs
    \<and> n = length (filter (\<lambda>(a, b). a \<noteq> b) (zip out bs))"
  using hvp.same_stream [OF assms(2)] rewrite_shape [OF assms(1)] rewrite_eq_bytes [of h bs] assms(1)
  by simp

theorem hvp_rewriter_correct_witness:
  "rewrite hvp_init (''x'' @ ESC # ''[3;4f'') = (''x'' @ ESC # ''[3;4H'', 1, hvp_init\<lparr>plain := True\<rparr>)
   \<and> fold hvp_feed [[ESC], ''[3'', '';4f''] ([], hvp_init)
     = fold hvp_feed [ESC # ''[3;4f''] ([], hvp_init)"
proof -
  have r: "rewrite hvp_init (''x'' @ ESC # ''[3;4f'') = (''x'' @ ESC # ''[3;4H'', 1, hvp_init\<lparr>plain := True\<rparr>)"
    by (simp add: rewrite_eq_bytes hvp_byte_def hvp_init_def csi_final_def csi_param_def is_digit_def)
  have "concat [[ESC], ''[3'', '';4f''] = concat [ESC # ''[3;4f'']" by simp
  from hvp_rewriter_correct [OF r this] r show ?thesis by blast
qed

text \<open>
  As long as every unfinished sequence fits the carry, the queries and announcements found
  read by read are those of the whole stream, in order, wherever the reads cut it; and what is
  carried over is never more than 32 bytes.
\<close>

theorem queries_survive_read_boundaries:
  assumes "fragments_fit [] rs" "rs \<noteq> []"
  shows "read_all [] rs = map snd (fst (scan_queries (concat rs)))
     \<and> length (snd (terminal_queries carry r)) \<le> 32"
  using read_all_scan [OF assms]
  by (simp add: scan_queries_def terminal_queries_scan set_carry_def)

theorem queries_survive_read_boundaries_witness:
  "read_all [] [''ab'' @ [ESC], ''[6'', ''nq''] = [CursorPos]"
proof -
  have "fragments_fit [] [''ab'' @ [ESC], ''[6'', ''nq'']" by code_simp
  from queries_survive_read_boundaries [OF this, of "[]" "[]"]
  have "read_all [] [''ab'' @ [ESC], ''[6'', ''nq''] = map snd (fst (scan_queries (''ab'' @ ESC # ''[6nq'')))" by simp
  moreover have "map snd (fst (scan_queries (''ab'' @ ESC # ''[6nq''))) = [CursorPos]" by code_simp
  ultimately show ?thesis by simp
qed

text \<open>
  The destination read off an ssh command line is one of its arguments and no option, and
  the flags kept for dialling again are arguments that stand before it, in their order.
\<close>

theorem ssh_destination:
  assumes "split_ssh_argv args = Some (fl, dest)"
  shows "\<exists>pre rest. args = pre @ dest # rest \<and> \<not> starts_with ''-'' dest \<and> subseq fl pre"
  using split_ssh_spec [of "[]" args fl dest] assms by (auto simp: split_ssh_argv_def)

theorem ssh_destination_witness:
  "\<exists>pre rest. [''-p'', ''2222'', ''-t'', ''host'', ''ls''] = pre @ ''host'' # rest \<and> subseq [''-p'', ''2222''] pre"
proof -
  have "split_ssh_argv [''-p'', ''2222'', ''-t'', ''host'', ''ls''] = Some ([''-p'', ''2222''], ''host'')"
    by code_simp
  from ssh_destination [OF this] show ?thesis by blast
qed

end
