(* ===== verification/Footer.thy ===== *)
theory Footer
  imports Pty_Stream
begin

text \<open>
  How \<open>crates/butai-server/src/pane/terminal.rs\<close> reads an agent's state off the bottom of its
  screen: the marker tables, the shape of a menu's cursor row, the band of rows that is scanned,
  and the two signals. Lines come in trimmed and lowercased, as the callers make them; a
  configured pattern is a compiled regular expression of the library, here a predicate.
\<close>

definition BUSY_MARKERS :: "string list" where
  "BUSY_MARKERS =
     [''esc to interrupt'', ''escape to interrupt'', ''ctrl+c to interrupt'', ''ctrl-c to interrupt'',
      ''^c to interrupt'', ''esc to cancel'', ''ctrl+c to cancel'', ''ctrl-c to cancel'',
      ''ctrl+c to stop'', ''ctrl-c to stop'']"

definition BUSY_LINE_STARTS :: "string list" where
  "BUSY_LINE_STARTS = [''running in the background'']"

definition FOOTER_SCAN_ROWS :: nat where
  "FOOTER_SCAN_ROWS = 8"

definition PROMPT_MARKERS :: "string list" where
  "PROMPT_MARKERS =
     [''(y/n)'', ''[y/n]'', ''(y/n/a)'', ''(yes/no)'', ''(y)es/(n)o'', ''press enter to continue'',
      ''press any key to continue'', ''enter to select'', ''enter to confirm'', ''enter to choose'',
      ''tab to amend'']"

definition QUESTION_MARKERS :: "string list" where
  "QUESTION_MARKERS = [''do you want to'', ''do you want me to'', ''proceed?'']"

text \<open>Box-drawing characters, a bar, a blank and a tab; each entry is one code point.\<close>

definition GUTTER_CHARS :: "string list" where
  "GUTTER_CHARS =
     [[CHR 0xE2, CHR 0x94, CHR 0x82], [CHR 0xE2, CHR 0x94, CHR 0x83], [CHR 0xE2, CHR 0x95, CHR 0x91],
      ''|'', [CHR 0xE2, CHR 0x95, CHR 0x8E], [CHR 0xE2, CHR 0x94, CHR 0x86], [CHR 0xE2, CHR 0x96, CHR 0x8C],
      '' '', [CHR 0x09]]"

definition CURSOR_GLYPHS :: "string list" where
  "CURSOR_GLYPHS =
     [[CHR 0xE2, CHR 0x9D, CHR 0xAF], [CHR 0xE2, CHR 0x96, CHR 0xB6], [CHR 0xE2, CHR 0x9E, CHR 0xA4],
      [CHR 0xE2, CHR 0x80, CHR 0xBA], ''>'', ''*'']"

definition strip_gutter :: "string \<Rightarrow> string" where
  "strip_gutter line = concat (dropWhile (\<lambda>g. g \<in> set GUTTER_CHARS) (uchars line))"

definition prompt_chrome :: "string \<Rightarrow> bool" where
  "prompt_chrome line = list_ex (\<lambda>m. contains m line) PROMPT_MARKERS"

definition numbered_option :: "string \<Rightarrow> bool" where
  "numbered_option line =
     (case uchars (strip_gutter line) of
        [c] # d # _ \<Rightarrow> is_digit c \<and> (d = ''.'' \<or> d = '')'')
      | _ \<Rightarrow> False)"

definition selected_option :: "string \<Rightarrow> bool" where
  "selected_option line =
     (case find_map (\<lambda>g. strip_prefix g (strip_gutter line)) CURSOR_GLYPHS of
        None \<Rightarrow> False
      | Some rest \<Rightarrow>
          (case strip_prefix '' '' rest of
             None \<Rightarrow> False
           | Some rest \<Rightarrow>
               (let rest = trim_start rest
                in numbered_option rest \<or> starts_with ''yes'' rest \<or> starts_with ''no'' rest)))"

text \<open>The band: up to eight rows ending at the last row with anything on it.\<close>

fun written_end :: "string list \<Rightarrow> nat" where
  "written_end [] = 0"
| "written_end (r # rs) =
     (let e = written_end rs in if 0 < e then Suc e else if trim_end r = [] then 0 else 1)"

definition footer_window :: "string list \<Rightarrow> nat \<times> nat" where
  "footer_window rows = (let e = written_end rows in (e - FOOTER_SCAN_ROWS, e))"

record detect =
  d_waiting :: "(string \<Rightarrow> bool) option"
  d_busy :: "(string \<Rightarrow> bool) option"

record footer_signals =
  fs_busy :: bool
  fs_prompt :: bool

definition busy_line :: "string \<Rightarrow> bool" where
  "busy_line l \<longleftrightarrow> list_ex (\<lambda>m. contains m l) BUSY_MARKERS
     \<or> list_ex (\<lambda>m. starts_with m (strip_gutter l)) BUSY_LINE_STARTS"

definition busy_signal :: "detect \<Rightarrow> string list \<Rightarrow> bool" where
  "busy_signal d ls =
     list_ex (case d_busy d of Some re \<Rightarrow> re | None \<Rightarrow> busy_line) (filter (Not \<circ> prompt_chrome) ls)"

definition prompt_signal :: "detect \<Rightarrow> bool \<Rightarrow> string list \<Rightarrow> bool" where
  "prompt_signal d busy dialog =
     (case d_waiting d of
        Some re \<Rightarrow> list_ex re dialog
      | None \<Rightarrow>
          (let chrome = (list_ex prompt_chrome dialog \<or> list_ex selected_option dialog);
               asked = (list_ex (\<lambda>l. list_ex (\<lambda>m. contains m l) QUESTION_MARKERS) dialog
                        \<and> list_ex numbered_option dialog)
           in chrome \<or> (asked \<and> \<not> busy)))"

definition read_signals :: "detect \<Rightarrow> string list \<Rightarrow> string list \<Rightarrow> footer_signals" where
  "read_signals d ls dialog =
     (let b = busy_signal d ls in \<lparr>fs_busy = b, fs_prompt = prompt_signal d b dialog\<rparr>)"

section \<open>Facts\<close>

lemma written_end_le: "written_end rows \<le> length rows"
  by (induction rows) (auto simp: Let_def)

lemma written_end_blank: "i < length rows \<Longrightarrow> written_end rows \<le> i \<Longrightarrow> trim_end (rows ! i) = []"
proof (induction rows arbitrary: i)
  case (Cons r rs)
  then show ?case by (cases i) (auto simp: Let_def split: if_splits)
qed simp

lemma written_end_last: "0 < written_end rows \<Longrightarrow> trim_end (rows ! (written_end rows - 1)) \<noteq> []"
proof (induction rows)
  case (Cons r rs)
  then show ?case by (auto simp: Let_def nth_Cons split: if_splits nat.splits)
qed simp

text \<open>
  The scanned band ends at the last row with anything on it, holds at most eight rows, and
  leaves out no written row below it; a blank screen gives an empty band.
\<close>

theorem footer_band:
  assumes "footer_window rows = (s, e)"
  shows "s \<le> e \<and> e \<le> length rows \<and> e - s \<le> 8
    \<and> (\<forall>i. e \<le> i \<and> i < length rows \<longrightarrow> trim_end (rows ! i) = [])
    \<and> (0 < e \<longrightarrow> trim_end (rows ! (e - 1)) \<noteq> [] \<and> s < e)
    \<and> (s = 0 \<or> e - s = 8)"
proof -
  from assms have "e = written_end rows" "s = e - 8"
    by (auto simp: footer_window_def FOOTER_SCAN_ROWS_def Let_def)
  then show ?thesis
    using written_end_le [of rows] written_end_blank [of _ rows] written_end_last [of rows] by auto
qed

theorem footer_band_witness:
  "footer_window [''a'', ''b'', [], []] = (0, 2) \<and> trim_end ([''a'', ''b'', [], []] ! 1) \<noteq> []"
proof -
  have "footer_window [''a'', ''b'', [], []] = (0, 2)" by code_simp
  from footer_band [OF this] show ?thesis using \<open>footer_window _ = _\<close> by simp
qed

text \<open>
  A row of dialog chrome is never read as work: with such rows removed the busy signal is
  the same, and rows that are all chrome never make it. Without an override the prompt signal
  is raised by any chrome or highlighted option, whether or not a working marker is up, while a
  question in words is believed only when none is.
\<close>

theorem dialog_chrome_vetoes_busy:
  "busy_signal d ls = busy_signal d (filter (Not \<circ> prompt_chrome) ls)
   \<and> (list_all prompt_chrome ls \<longrightarrow> \<not> fs_busy (read_signals d ls dialog))
   \<and> (d_waiting d = None \<and> (list_ex prompt_chrome dialog \<or> list_ex selected_option dialog)
        \<longrightarrow> fs_prompt (read_signals d ls dialog))
   \<and> (d_waiting d = None \<and> fs_prompt (read_signals d ls dialog)
        \<and> \<not> list_ex prompt_chrome dialog \<and> \<not> list_ex selected_option dialog
        \<longrightarrow> \<not> fs_busy (read_signals d ls dialog) \<and> list_ex numbered_option dialog)"
proof -
  have "filter (Not \<circ> prompt_chrome) ls = []" if "list_all prompt_chrome ls"
    using that by (simp add: filter_empty_conv list_all_iff)
  then show ?thesis
    by (auto simp: busy_signal_def read_signals_def prompt_signal_def Let_def o_def)
qed

theorem dialog_chrome_vetoes_busy_witness:
  "fs_prompt (read_signals \<lparr>d_waiting = None, d_busy = None\<rparr> [''enter to select - esc to cancel''] [''enter to select - esc to cancel''])
   \<and> \<not> fs_busy (read_signals \<lparr>d_waiting = None, d_busy = None\<rparr> [''enter to select - esc to cancel''] [''enter to select - esc to cancel''])
   \<and> busy_line ''enter to select - esc to cancel''"
proof -
  let ?l = "''enter to select - esc to cancel''"
  have "prompt_chrome ?l" by code_simp
  moreover have "busy_line ?l" by code_simp
  ultimately show ?thesis
    using dialog_chrome_vetoes_busy [of "\<lparr>d_waiting = None, d_busy = None\<rparr>" "[?l]" "[?l]"] by simp
qed

end
