(* ===== verification/Pane.thy ===== *)
theory Pane
  imports Footer Input_Encode
begin

text \<open>
  A terminal pane of \<open>crates/butai-server/src/pane/terminal.rs\<close> and the dispatch of
  \<open>pane/mod.rs\<close>: the ring of recent output and its dump on disk, feeding a read to the emulator
  with the replies to its queries, the clocks that tell work from a repaint, attention and the
  bell, scrolling, input, resizing and titles.

  The VT emulator is library code: the record \<open>emu\<close> holds the operations the pane calls and what
  it reads back. Time is in milliseconds and an argument; the bytes written to the program are
  collected in \<open>written\<close>. Starting the child and its threads is not modelled.
\<close>

section \<open>Recent output\<close>

record ring =
  r_buf :: string
  r_cap :: nat

definition ring_new :: "nat \<Rightarrow> ring" where
  "ring_new cap = \<lparr>r_buf = [], r_cap = cap\<rparr>"

definition ring_push :: "string \<Rightarrow> ring \<Rightarrow> ring" where
  "ring_push bytes h =
     (if r_cap h = 0 then h
      else let bytes = (if r_cap h < length bytes then drop (length bytes - r_cap h) bytes else bytes);
               overflow = (length (r_buf h) + length bytes) - r_cap h
           in h\<lparr>r_buf := drop overflow (r_buf h) @ bytes\<rparr>)"

definition snapshot :: "ring \<Rightarrow> string" where
  "snapshot h = r_buf h"

definition ring_ok :: "ring \<Rightarrow> bool" where
  "ring_ok h \<longleftrightarrow> length (r_buf h) \<le> r_cap h"

lemma ring_push_take_last: "ring_ok h \<Longrightarrow> ring_push bs h = h\<lparr>r_buf := take_last (r_cap h) (r_buf h @ bs)\<rparr>"
proof (cases "r_cap h < length bs")
  case True
  assume "ring_ok h"
  have "take_last (r_cap h) (r_buf h @ bs) = take_last (r_cap h) bs"
    using True by (simp add: take_last_append)
  with \<open>ring_ok h\<close> show ?thesis using True by (cases h) (auto simp: ring_push_def take_last_def ring_ok_def)
next
  case False
  assume "ring_ok h"
  then show ?thesis using False by (cases h) (auto simp: ring_push_def take_last_def ring_ok_def)
qed

lemma ring_push_ok: "ring_ok h \<Longrightarrow> ring_ok (ring_push bs h) \<and> r_cap (ring_push bs h) = r_cap h"
  by (simp add: ring_push_take_last) (simp add: ring_ok_def)

text \<open>A ring is kept within its bound by construction; on such rings the push is chunked.\<close>

typedef bounded_ring = "{h :: ring. ring_ok h}"
  by (rule exI [of _ "ring_new 0"]) (simp add: ring_ok_def ring_new_def)

setup_lifting type_definition_bounded_ring

lift_definition bring_push :: "string \<Rightarrow> bounded_ring \<Rightarrow> bounded_ring" is ring_push
  by (simp add: ring_push_ok)

lemma ring_push_append:
  assumes "ring_ok h"
  shows "ring_push (xs @ ys) h = ring_push ys (ring_push xs h)"
proof -
  have "ring_push ys (ring_push xs h) = (ring_push xs h)\<lparr>r_buf := take_last (r_cap (ring_push xs h)) (r_buf (ring_push xs h) @ ys)\<rparr>"
    by (rule ring_push_take_last) (simp add: ring_push_ok assms)
  then show ?thesis by (simp add: ring_push_take_last [OF assms] take_last_take_last)
qed

lemma ring_push_nil: "ring_ok h \<Longrightarrow> ring_push [] h = h"
  by (simp add: ring_push_take_last ring_ok_def)

lemma bring_push_nil: "bring_push [] h = h"
  by transfer (rule ring_push_nil)

lemma bring_push_append: "bring_push (xs @ ys) h = bring_push ys (bring_push xs h)"
  by transfer (rule ring_push_append)

interpretation ring: chunked bring_push
  by unfold_locales (rule bring_push_nil bring_push_append)+

lemma fold_ring_push:
  "ring_ok h \<Longrightarrow> fold ring_push xss h = ring_push (concat xss) h"
proof (induction xss arbitrary: h)
  case Nil
  then show ?case by (simp add: ring_push_nil)
next
  case (Cons xs xss)
  then show ?case by (simp add: ring_push_append ring_push_ok)
qed

section \<open>Dumps\<close>

record pane_dump =
  pd_cols :: nat
  pd_rows :: nat
  pd_bytes :: string

definition u16_max :: nat where "u16_max = 2 ^ 16 - 1"

definition DUMP_MAGIC :: string where
  "DUMP_MAGIC = ''butai-dump 1 ''"

definition encode_dump :: "nat \<Rightarrow> nat \<Rightarrow> string \<Rightarrow> string" where
  "encode_dump cols rows bytes =
     DUMP_MAGIC @ (show_nat cols @ '' '' @ show_nat rows @ [CHR 0x0A]) @ bytes"

definition decode_dump :: "string \<Rightarrow> pane_dump option" where
  "decode_dump raw =
     (case strip_prefix DUMP_MAGIC raw of
        None \<Rightarrow> None
      | Some rest \<Rightarrow>
          (case position (\<lambda>b. b = CHR 0x0A) rest of
             None \<Rightarrow> None
           | Some nl \<Rightarrow>
               if \<not> utf8_ok (take nl rest) then None
               else (case split_whitespace (take nl rest) of
                 a # b # _ \<Rightarrow>
                   (case parse_uint u16_max a of None \<Rightarrow> None
                    | Some cols \<Rightarrow> (case parse_uint u16_max b of None \<Rightarrow> None
                      | Some rows \<Rightarrow>
                          if cols = 0 \<or> rows = 0 then None
                          else Some \<lparr>pd_cols = cols, pd_rows = rows, pd_bytes = drop (Suc nl) rest\<rparr>))
               | _ \<Rightarrow> None)))"

definition store_dump :: "pane_dump \<Rightarrow> string" where
  "store_dump d = encode_dump (pd_cols d) (pd_rows d) (pd_bytes d)"

definition dump_ok :: "pane_dump \<Rightarrow> bool" where
  "dump_ok d \<longleftrightarrow> 1 \<le> pd_cols d \<and> pd_cols d \<le> u16_max \<and> 1 \<le> pd_rows d \<and> pd_rows d \<le> u16_max"

lemma no_newline_visible: "list_all visible a \<Longrightarrow> CHR 0x0A \<notin> set a"
  by (auto simp: list_all_iff visible_def)

lemma utf8_ok_ascii: "list_all is_ascii s \<Longrightarrow> utf8_ok s"
  by (induction s) (auto simp: is_ascii_def byte_in_def)

lemma position_append_first: "P x \<Longrightarrow> \<forall>y \<in> set a. \<not> P y \<Longrightarrow> position P (a @ x # b) = Some (length a)"
  by (induction a) auto

lemma decode_store_dump: "dump_ok d \<Longrightarrow> decode_dump (store_dump d) = Some d"
proof -
  assume ok: "dump_ok d"
  let ?line = "show_nat (pd_cols d) @ '' '' @ show_nat (pd_rows d)"
  have vis: "list_all visible (show_nat n)" for n by (rule digits_visible)
  have nl: "\<forall>y \<in> set ?line. y \<noteq> CHR 0x0A"
    using no_newline_visible [OF vis] by auto
  have "position (\<lambda>b. b = CHR 0x0A) (?line @ CHR 0x0A # pd_bytes d) = Some (length ?line)"
    using nl by (intro position_append_first) auto
  moreover have "take (length ?line) (?line @ CHR 0x0A # pd_bytes d) = ?line"
    "drop (Suc (length ?line)) (?line @ CHR 0x0A # pd_bytes d) = pd_bytes d"
    by simp_all
  moreover have "utf8_ok ?line"
  proof (rule utf8_ok_ascii)
    have "is_ascii c" if "c \<in> set (show_nat n)" for c n
      using vis [of n] that by (auto simp: list_all_iff visible_ascii)
    moreover have "is_ascii CHR '' ''" by (simp add: is_ascii_def)
    ultimately show "list_all is_ascii ?line" by (auto simp: list_all_iff)
  qed
  moreover have "split_whitespace ?line = [show_nat (pd_cols d), show_nat (pd_rows d)]"
    by (rule split_whitespace_two) (simp_all add: vis)
  moreover have "strip_prefix DUMP_MAGIC (store_dump d) = Some (?line @ CHR 0x0A # pd_bytes d)"
    by (simp add: store_dump_def encode_dump_def)
  ultimately show ?thesis
    using ok by (simp add: decode_dump_def parse_show_nat dump_ok_def)
qed

interpretation dump: codec store_dump decode_dump dump_ok
  by unfold_locales (rule decode_store_dump)

section \<open>The pane\<close>

definition WORKING_WINDOW :: nat where "WORKING_WINDOW = 2000"
definition WORKING_MIN_SPAN :: nat where "WORKING_MIN_SPAN = 1000"
definition WHEEL_LINES :: int where "WHEEL_LINES = 3"

datatype mouse_kind = Click | WheelUp | WheelDown

datatype attention = Waiting | Working | Idle

record 'v emu =
  em_new :: "nat \<Rightarrow> nat \<Rightarrow> nat \<Rightarrow> 'v"
  em_feed :: "string \<Rightarrow> 'v \<Rightarrow> 'v"
  em_resize :: "nat \<Rightarrow> nat \<Rightarrow> 'v \<Rightarrow> 'v"
  em_scroll :: "int \<Rightarrow> 'v \<Rightarrow> 'v"
  em_scroll_reset :: "'v \<Rightarrow> 'v"
  em_offset :: "'v \<Rightarrow> nat"
  em_bells :: "'v \<Rightarrow> nat"
  em_title :: "'v \<Rightarrow> string"
  em_cursor :: "'v \<Rightarrow> (nat \<times> nat) option"
  em_cursor_pos :: "'v \<Rightarrow> nat \<times> nat"
  em_mouse :: "'v \<Rightarrow> bool"
  em_modes :: "'v \<Rightarrow> encode_modes"
  em_grid :: "'v \<Rightarrow> nat \<Rightarrow> nat \<Rightarrow> string list"
  em_text_rows :: "'v \<Rightarrow> nat \<Rightarrow> string list"
  em_lower :: "string \<Rightarrow> string"

record 'v tpane =
  emulator :: 'v
  exit_status :: "nat option"
  command_label :: string
  label_fixed :: bool
  last_output :: nat
  started_at :: nat
  work_since :: "nat option"
  bells_acked :: nat
  t_rows :: nat
  t_cols :: nat
  query_carry :: string
  t_hvp :: hvp
  t_detect :: detect
  history :: ring
  announcements :: "(string \<times> string) list"
  parked_footer :: "string list option"
  written :: string

definition clean_row :: "'v emu \<Rightarrow> string \<Rightarrow> string" where
  "clean_row em l = em_lower em (trim_end l)"

definition sync_parked_footer :: "'v emu \<Rightarrow> 'v tpane \<Rightarrow> 'v tpane" where
  "sync_parked_footer em t =
     (if em_offset em (emulator t) = 0 then t\<lparr>parked_footer := None\<rparr>
      else t\<lparr>parked_footer := Some (map (clean_row em) (em_text_rows em (emulator t) FOOTER_SCAN_ROWS))\<rparr>)"

definition RESET_MODES :: string where
  "RESET_MODES = concat (map (\<lambda>m. ESC # ''[?'' @ m @ ''l'')
     [''1'', ''9'', ''1000'', ''1002'', ''1003'', ''1006'', ''2004''])"

definition replay :: "'v emu \<Rightarrow> pane_dump \<Rightarrow> 'v tpane \<Rightarrow> 'v tpane" where
  "replay em saved t =
     (let v = em_resize em (pd_rows saved) (pd_cols saved) (emulator t);
          v = em_feed em (pd_bytes saved) v;
          v = em_feed em RESET_MODES v;
          v = em_resize em (t_rows t) (t_cols t) v
      in t\<lparr>emulator := v, history := ring_push (pd_bytes saved) (history t)\<rparr>)"

definition term_new ::
    "'v emu \<Rightarrow> nat \<Rightarrow> string \<Rightarrow> string option \<Rightarrow> detect option \<Rightarrow> nat \<Rightarrow> nat \<Rightarrow> nat \<Rightarrow> nat
     \<Rightarrow> pane_dump option \<Rightarrow> 'v tpane" where
  "term_new em now cmd_label fixed det rows cols scrollback restore_bytes rep =
     (let t = \<lparr>emulator = em_new em rows cols scrollback, exit_status = None,
               command_label = (case fixed of Some l \<Rightarrow> l | None \<Rightarrow> cmd_label),
               label_fixed = (fixed \<noteq> None), last_output = now, started_at = now, work_since = None,
               bells_acked = 0, t_rows = rows, t_cols = cols, query_carry = [], t_hvp = hvp_init,
               t_detect = (case det of Some d \<Rightarrow> d | None \<Rightarrow> \<lparr>d_waiting = None, d_busy = None\<rparr>),
               history = ring_new restore_bytes, announcements = [], parked_footer = None, written = []\<rparr>
      in case rep of Some saved \<Rightarrow> replay em saved t | None \<Rightarrow> t)"

text \<open>The feed is split at every query, so that a cursor report is sampled where it was asked.\<close>

fun feed_split ::
    "'v emu \<Rightarrow> string \<Rightarrow> nat \<Rightarrow> (nat \<times> query) list \<Rightarrow> 'v \<Rightarrow> string \<Rightarrow> (string \<times> string) list
     \<Rightarrow> 'v \<times> string \<times> (string \<times> string) list" where
  "feed_split em bytes fed [] v out ann = (em_feed em (drop fed bytes) v, out, ann)"
| "feed_split em bytes fed ((e, q) # qs) v out ann =
     (let v' = em_feed em (drop fed (take e bytes)) v
      in feed_split em bytes e qs v' (out @ reply q (em_cursor_pos em v'))
           (case q of RemoteAnnounce h s \<Rightarrow> ann @ [(h, s)] | _ \<Rightarrow> ann))"

definition feed_answering_queries :: "'v emu \<Rightarrow> string \<Rightarrow> 'v tpane \<Rightarrow> string \<times> 'v tpane" where
  "feed_answering_queries em bytes t =
     (let (queries, carry) = terminal_queries (query_carry t) bytes in
      if queries = [] then ([], t\<lparr>emulator := em_feed em bytes (emulator t), query_carry := carry\<rparr>)
      else let (v, out, ann) = feed_split em bytes 0 queries (emulator t) [] (announcements t)
           in (out, t\<lparr>emulator := v, query_carry := carry, announcements := ann\<rparr>))"

definition feed_output :: "'v emu \<Rightarrow> nat \<Rightarrow> string \<Rightarrow> 'v tpane \<Rightarrow> 'v tpane" where
  "feed_output em now bytes t =
     (let (bytes, n, h) = rewrite (t_hvp t) bytes;
          t = t\<lparr>t_hvp := h, history := ring_push bytes (history t)\<rparr>;
          (out, t) = feed_answering_queries em bytes t;
          t = t\<lparr>written := written t @ out\<rparr>;
          t = (if work_since t = None \<or> WORKING_WINDOW \<le> now - last_output t
               then t\<lparr>work_since := Some now\<rparr> else t);
          t = t\<lparr>last_output := now\<rparr>
      in sync_parked_footer em t)"

definition take_announcements :: "'v tpane \<Rightarrow> (string \<times> string) list \<times> 'v tpane" where
  "take_announcements t = (announcements t, t\<lparr>announcements := []\<rparr>)"

definition grid_rows :: "'v emu \<Rightarrow> 'v tpane \<Rightarrow> string list" where
  "grid_rows em t = map (clean_row em) (em_grid em (emulator t) (t_rows t) (t_cols t))"

definition footer_lines :: "'v emu \<Rightarrow> 'v tpane \<Rightarrow> string list" where
  "footer_lines em t =
     (case parked_footer t of Some p \<Rightarrow> p
      | None \<Rightarrow> drop (length (grid_rows em t) - FOOTER_SCAN_ROWS) (grid_rows em t))"

definition dialog_lines :: "'v emu \<Rightarrow> 'v tpane \<Rightarrow> string list" where
  "dialog_lines em t =
     (let rows = (case parked_footer t of Some p \<Rightarrow> p | None \<Rightarrow> grid_rows em t);
          (s, e) = footer_window rows
      in drop s (take e rows))"

definition footer_signals :: "'v emu \<Rightarrow> 'v tpane \<Rightarrow> footer_signals" where
  "footer_signals em t =
     (if exit_status t \<noteq> None then \<lparr>fs_busy = False, fs_prompt = False\<rparr>
      else read_signals (t_detect t) (footer_lines em t) (dialog_lines em t))"

definition bell_pending :: "'v emu \<Rightarrow> 'v tpane \<Rightarrow> bool" where
  "bell_pending em t \<longleftrightarrow> bells_acked t < em_bells em (emulator t)"

definition acknowledge :: "'v emu \<Rightarrow> 'v tpane \<Rightarrow> 'v tpane" where
  "acknowledge em t = t\<lparr>bells_acked := em_bells em (emulator t)\<rparr>"

definition sustained_output :: "nat \<Rightarrow> 'v tpane \<Rightarrow> bool" where
  "sustained_output now t \<longleftrightarrow>
     (case work_since t of None \<Rightarrow> False
      | Some start \<Rightarrow> now - last_output t < WORKING_WINDOW \<and> WORKING_MIN_SPAN \<le> last_output t - start)"

definition attention_of :: "'v emu \<Rightarrow> nat \<Rightarrow> 'v tpane \<Rightarrow> attention" where
  "attention_of em now t =
     (if exit_status t \<noteq> None then Idle
      else let s = footer_signals em t in
        if bell_pending em t \<or> fs_prompt s then Waiting
        else if fs_busy s \<or> sustained_output now t then Working
        else Idle)"

definition age :: "nat \<Rightarrow> 'v tpane \<Rightarrow> nat" where
  "age now t = now - started_at t"

definition send_mouse :: "mouse_kind \<Rightarrow> nat \<Rightarrow> nat \<Rightarrow> 'v tpane \<Rightarrow> 'v tpane" where
  "send_mouse k x y t =
     (let at = show_nat (x + 1) @ '';'' @ show_nat (y + 1);
          bytes = (case k of
             Click \<Rightarrow> (ESC # ''[<0;'' @ at @ ''M'') @ (ESC # ''[<0;'' @ at @ ''m'')
           | WheelUp \<Rightarrow> ESC # ''[<64;'' @ at @ ''M''
           | WheelDown \<Rightarrow> ESC # ''[<65;'' @ at @ ''M'')
      in t\<lparr>written := written t @ bytes\<rparr>)"

definition scroll_lines :: "'v emu \<Rightarrow> int \<Rightarrow> 'v tpane \<Rightarrow> 'v tpane" where
  "scroll_lines em delta t = sync_parked_footer em (t\<lparr>emulator := em_scroll em (- delta) (emulator t)\<rparr>)"

definition scroll_to_live :: "'v emu \<Rightarrow> 'v tpane \<Rightarrow> 'v tpane" where
  "scroll_to_live em t = t\<lparr>emulator := em_scroll_reset em (emulator t), parked_footer := None\<rparr>"

definition scroll_page :: "'v emu \<Rightarrow> int \<Rightarrow> 'v tpane \<Rightarrow> 'v tpane" where
  "scroll_page em pages t = scroll_lines em (pages * int (max (t_rows t - 1) 1)) t"

definition type_bytes :: "'v emu \<Rightarrow> string \<Rightarrow> 'v tpane \<Rightarrow> 'v tpane" where
  "type_bytes em bytes t =
     (if bytes = [] then t
      else (let t = scroll_to_live em t in t\<lparr>written := written t @ bytes\<rparr>))"

definition handle_input :: "'v emu \<Rightarrow> input_event \<Rightarrow> 'v tpane \<Rightarrow> 'v tpane" where
  "handle_input em ev t =
     (case ev of
        Key k \<Rightarrow> type_bytes em (encode_key k (em_modes em (emulator t))) t
      | Paste s \<Rightarrow> type_bytes em (encode_paste s (em_modes em (emulator t))) t
      | ScrollUp x y \<Rightarrow> scroll_lines em (- WHEEL_LINES) t
      | ScrollDown x y \<Rightarrow> scroll_lines em WHEEL_LINES t
      | _ \<Rightarrow> t)"

definition term_resize :: "'v emu \<Rightarrow> nat \<Rightarrow> nat \<Rightarrow> 'v tpane \<Rightarrow> 'v tpane" where
  "term_resize em rows cols t =
     (if rows = 0 \<or> cols = 0 \<or> (rows = t_rows t \<and> cols = t_cols t) then t
      else sync_parked_footer em
             (t\<lparr>t_rows := rows, t_cols := cols, emulator := em_resize em rows cols (emulator t)\<rparr>))"

definition with_exit :: "nat option \<Rightarrow> string \<Rightarrow> string" where
  "with_exit st base =
     (case st of None \<Rightarrow> base
      | Some c \<Rightarrow> if c = 0 then base @ '' [exited]'' else base @ '' [exited '' @ show_nat c @ '']'')"

definition title :: "'v emu \<Rightarrow> 'v tpane \<Rightarrow> string" where
  "title em t =
     (let osc = em_title em (emulator t)
      in with_exit (exit_status t) (if label_fixed t \<or> osc = [] then command_label t else osc))"

definition agent_title :: "'v emu \<Rightarrow> 'v tpane \<Rightarrow> string" where
  "agent_title em t =
     (let osc = em_title em (emulator t)
      in with_exit (exit_status t) (if trim osc = [] then command_label t else osc))"

definition term_cursor :: "'v emu \<Rightarrow> 'v tpane \<Rightarrow> (nat \<times> nat) option" where
  "term_cursor em t = (if exit_status t \<noteq> None then None else em_cursor em (emulator t))"

definition mark_exited :: "nat \<Rightarrow> 'v tpane \<Rightarrow> 'v tpane" where
  "mark_exited st t = t\<lparr>exit_status := Some st\<rparr>"

section \<open>What feeding does\<close>

lemma sync_parked_frame [simp]:
  "history (sync_parked_footer em t) = history t" "t_hvp (sync_parked_footer em t) = t_hvp t"
  "emulator (sync_parked_footer em t) = emulator t" "work_since (sync_parked_footer em t) = work_since t"
  "last_output (sync_parked_footer em t) = last_output t" "exit_status (sync_parked_footer em t) = exit_status t"
  "bells_acked (sync_parked_footer em t) = bells_acked t" "written (sync_parked_footer em t) = written t"
  "query_carry (sync_parked_footer em t) = query_carry t" "announcements (sync_parked_footer em t) = announcements t"
  "t_rows (sync_parked_footer em t) = t_rows t" "t_cols (sync_parked_footer em t) = t_cols t"
  "started_at (sync_parked_footer em t) = started_at t"
  by (simp_all add: sync_parked_footer_def)

lemma feed_answering_frame:
  assumes "feed_answering_queries em bytes t = (out, t')"
  shows "history t' = history t" "t_hvp t' = t_hvp t" "work_since t' = work_since t"
    "last_output t' = last_output t" "exit_status t' = exit_status t" "bells_acked t' = bells_acked t"
    "written t' = written t" "t_rows t' = t_rows t" "t_cols t' = t_cols t" "started_at t' = started_at t"
  using assms by (auto simp: feed_answering_queries_def Let_def split: prod.splits if_splits)

lemma feed_output_history:
  "history (feed_output em now bytes t) = ring_push (fst (rewrite (t_hvp t) bytes)) (history t)"
  "t_hvp (feed_output em now bytes t) = snd (snd (rewrite (t_hvp t) bytes))"
  by (auto simp: feed_output_def Let_def feed_answering_frame split: prod.splits)

lemma feed_output_clock:
  "last_output (feed_output em now bytes t) = now"
  "work_since (feed_output em now bytes t) =
     (if work_since t = None \<or> WORKING_WINDOW \<le> now - last_output t then Some now else work_since t)"
  "exit_status (feed_output em now bytes t) = exit_status t"
  "bells_acked (feed_output em now bytes t) = bells_acked t"
  "t_rows (feed_output em now bytes t) = t_rows t" "t_cols (feed_output em now bytes t) = t_cols t"
  "started_at (feed_output em now bytes t) = started_at t"
  by (auto simp: feed_output_def Let_def feed_answering_frame split: prod.splits)

fun feed_reads :: "'v emu \<Rightarrow> (nat \<times> string) list \<Rightarrow> 'v tpane \<Rightarrow> 'v tpane" where
  "feed_reads em [] t = t"
| "feed_reads em ((now, bytes) # rs) t = feed_reads em rs (feed_output em now bytes t)"

lemma feed_reads_history:
  "ring_ok (history t) \<Longrightarrow>
   history (feed_reads em rs t) = ring_push (fst (rewrite (t_hvp t) (concat (map snd rs)))) (history t)"
proof (induction em rs t rule: feed_reads.induct)
  case (1 em t)
  then show ?case by (simp add: ring_push_nil)
next
  case (2 em now bytes rs t)
  let ?t = "feed_output em now bytes t" and ?rest = "concat (map snd rs)"
  have ok: "ring_ok (history ?t)" using 2(2) by (simp add: feed_output_history ring_push_ok)
  have "fst (rewrite (t_hvp t) (bytes @ ?rest)) = fst (rewrite (t_hvp t) bytes) @ fst (rewrite (t_hvp ?t) ?rest)"
    by (simp add: rewrite_eq_bytes hvp_bytes_append feed_output_history Let_def split_beta)
  then show ?case
    using 2(1) [OF ok] ring_push_append [OF 2(2)] by (simp add: feed_output_history)
qed

text \<open>The queries of a read come in the order of their ends.\<close>

lemma scan_ends: "sorted (map fst (fst (scan i buf))) \<and> (\<forall>e \<in> set (map fst (fst (scan i buf))). i < e)"
proof (induction "length buf" arbitrary: i buf rule: less_induct)
  case less
  show ?case
  proof (cases "scan_step buf")
    case None
    then show ?thesis by (subst (1 2) scan_rec) simp
  next
    case (Some kq)
    obtain k q where kq: "kq = (k, q)" by (cases kq)
    with Some have k: "1 \<le> k" "k \<le> length buf" using scan_step_bound by auto
    then have "length (drop k buf) < length buf" unfolding length_drop by arith
    note IH = less [OF this, of "i + k"]
    have "scan i buf = (opt_entry (i + k) q @ fst (scan (i + k) (drop k buf)), snd (scan (i + k) (drop k buf)))"
      using Some kq by (subst scan_rec) (simp add: split_beta)
    then show ?thesis
      using IH k by (cases q) (auto simp: opt_entry_def sorted_append less_imp_le)
  qed
qed

lemma terminal_queries_sorted: "sorted (map fst (fst (terminal_queries carry bytes)))"
proof -
  have mono: "sorted xs \<Longrightarrow> sorted (map (\<lambda>e. e - k) xs)" for xs :: "nat list" and k
    by (induction xs) (auto simp: diff_le_mono)
  have "sorted (map (\<lambda>e. e - length carry) (map fst (fst (scan 0 (carry @ bytes)))))"
    by (rule mono) (rule conjunct1 [OF scan_ends])
  then show ?thesis
    using scan_ends [of 0 bytes]
    by (auto simp: terminal_queries_def scan_queries_def Let_def split_beta o_def)
qed

definition feeds_in_order :: "'v emu \<Rightarrow> bool" where
  "feeds_in_order em \<longleftrightarrow> (\<forall>a b v. em_feed em (a @ b) v = em_feed em b (em_feed em a v))"

lemma feed_split_emulator:
  "feeds_in_order em \<Longrightarrow> sorted (fed # map fst qs) \<Longrightarrow>
   fst (feed_split em bytes fed qs v out ann) = em_feed em (drop fed bytes) v"
proof (induction em bytes fed qs v out ann rule: feed_split.induct)
  case (2 em bytes fed e q qs v out ann)
  have "drop fed (take e bytes) @ drop e bytes = drop fed bytes"
  proof -
    have "drop fed bytes = drop fed (take e bytes @ drop e bytes)" by simp
    also have "\<dots> = drop fed (take e bytes) @ drop (fed - length (take e bytes)) (drop e bytes)"
      by (rule drop_append)
    also have "drop (fed - length (take e bytes)) (drop e bytes) = drop e bytes"
      using 2(3) by (cases "e \<le> length bytes") auto
    finally show ?thesis by simp
  qed
  then show ?case
    using 2 by (simp add: Let_def feeds_in_order_def) metis
qed simp

lemma feed_output_emulator:
  "feeds_in_order em \<Longrightarrow>
   emulator (feed_output em now bytes t) = em_feed em (fst (rewrite (t_hvp t) bytes)) (emulator t)"
proof -
  assume o: "feeds_in_order em"
  have "emulator (snd (feed_answering_queries em b u)) = em_feed em b (emulator u)" for b u
  proof -
    let ?qs = "fst (terminal_queries (query_carry u) b)"
    have "sorted (0 # map fst ?qs)" using terminal_queries_sorted by simp
    then have "fst (feed_split em b 0 ?qs (emulator u) [] (announcements u)) = em_feed em b (emulator u)"
      using feed_split_emulator [OF o, of 0 ?qs b] by simp
    then show ?thesis by (auto simp: feed_answering_queries_def Let_def split_beta)
  qed
  then show ?thesis by (simp add: feed_output_def Let_def split_beta)
qed

section \<open>The properties\<close>

text \<open>A trivial emulator for the witnesses: its state is what it was fed.\<close>

definition demo_emu :: "string emu" where
  "demo_emu = \<lparr>em_new = \<lambda>_ _ _. [], em_feed = \<lambda>bs v. v @ bs, em_resize = \<lambda>_ _ v. v, em_scroll = \<lambda>_ v. v,
     em_scroll_reset = \<lambda>v. v, em_offset = \<lambda>_. 0, em_bells = \<lambda>v. length (filter (\<lambda>c. c = CHR 0x07) v),
     em_title = \<lambda>_. [], em_cursor = \<lambda>_. None, em_cursor_pos = \<lambda>_. (0, 0), em_mouse = \<lambda>_. False,
     em_modes = \<lambda>_. \<lparr>application_cursor_keys = False, bracketed_paste = False\<rparr>,
     em_grid = \<lambda>_ _ _. [], em_text_rows = \<lambda>_ _. [], em_lower = \<lambda>s. s\<rparr>"

definition demo_term :: "string tpane" where
  "demo_term = term_new demo_emu 0 ''sh'' None None 24 80 100 4 None"

text \<open>
  C40. What a pane keeps for a restart is the last bytes of its normalized output that fit the
  budget, whatever reads the output came in.
\<close>

theorem history_is_last_output:
  assumes "ring_ok (history t)"
  shows "snapshot (history (feed_reads em rs t))
     = take_last (r_cap (history t)) (snapshot (history t) @ fst (rewrite (t_hvp t) (concat (map snd rs))))"
  by (simp add: feed_reads_history [OF assms] ring_push_take_last [OF assms] snapshot_def)

theorem history_is_last_output_witness:
  "snapshot (history (feed_reads demo_emu [(1, ''abc''), (2, ''def'')] demo_term)) = ''cdef''"
proof -
  have "ring_ok (history demo_term)" by (simp add: demo_term_def term_new_def ring_ok_def ring_new_def Let_def)
  from history_is_last_output [OF this, of demo_emu "[(1, ''abc''), (2, ''def'')]"]
  show ?thesis
    by (simp add: demo_term_def term_new_def ring_new_def snapshot_def take_last_def hvp_init_def Let_def)
qed

text \<open>
  A dump written for a pane reads back with its geometry and its bytes, whatever the bytes
  are; two dumps that differ in either are stored differently.
\<close>

theorem dump_roundtrip:
  assumes "dump_ok d" "dump_ok d'"
  shows "decode_dump (store_dump d) = Some d \<and> (store_dump d = store_dump d' \<longrightarrow> d = d')"
  using dump.dec_enc [OF assms(1)] dump.enc_inj [OF assms] by blast

theorem dump_roundtrip_witness:
  "decode_dump (encode_dump 80 24 (ESC # ''[2J x'')) = Some \<lparr>pd_cols = 80, pd_rows = 24, pd_bytes = ESC # ''[2J x''\<rparr>"
proof -
  have "dump_ok \<lparr>pd_cols = 80, pd_rows = 24, pd_bytes = ESC # ''[2J x''\<rparr>"
    by (simp add: dump_ok_def u16_max_def)
  from dump_roundtrip [OF this this] show ?thesis by (simp add: store_dump_def)
qed

text \<open>
  Splitting the feed to answer queries changes nothing on the screen: an emulator that takes
  its input in order ends where feeding the whole normalized read would have left it.
\<close>

theorem answering_queries_keeps_screen:
  assumes "\<forall>a b v. em_feed em (a @ b) v = em_feed em b (em_feed em a v)"
  shows "emulator (feed_output em now bytes t) = em_feed em (fst (rewrite (t_hvp t) bytes)) (emulator t)"
  using assms by (intro feed_output_emulator) (simp add: feeds_in_order_def)

theorem answering_queries_keeps_screen_witness:
  "emulator (feed_output demo_emu 5 (''a'' @ ESC # ''[6nb'') demo_term) = ''a'' @ ESC # ''[6nb''"
proof -
  have "\<forall>a b v. em_feed demo_emu (a @ b) v = em_feed demo_emu b (em_feed demo_emu a v)"
    by (simp add: demo_emu_def)
  from answering_queries_keeps_screen [OF this, of 5 "''a'' @ ESC # ''[6nb''" demo_term]
  have "emulator (feed_output demo_emu 5 (''a'' @ ESC # ''[6nb'') demo_term)
      = em_feed demo_emu (fst (rewrite (t_hvp demo_term) (''a'' @ ESC # ''[6nb''))) (emulator demo_term)" .
  also have "\<dots> = ''a'' @ ESC # ''[6nb''" by code_simp
  finally show ?thesis .
qed

text \<open>
  One burst of output after a lull, a repaint answering a resize, is never taken for work,
  however soon it is looked at; a dead pane wants nothing; looking at a pane silences its bell.
\<close>

theorem repaint_is_not_work:
  assumes "work_since t = None \<or> 2000 \<le> now - last_output t"
  shows "\<not> sustained_output now' (feed_output em now bytes t)
    \<and> attention_of em now' (mark_exited st t) = Idle
    \<and> \<not> bell_pending em (acknowledge em t)"
  using assms
  by (auto simp: sustained_output_def feed_output_clock WORKING_WINDOW_def WORKING_MIN_SPAN_def
      attention_of_def mark_exited_def bell_pending_def acknowledge_def)

theorem repaint_is_not_work_witness:
  "\<not> sustained_output 10 (feed_output demo_emu 9 ''x'' demo_term)"
proof -
  have "work_since demo_term = None \<or> 2000 \<le> 9 - last_output demo_term"
    by (simp add: demo_term_def term_new_def Let_def)
  from repaint_is_not_work [OF this] show ?thesis by blast
qed

end
