(* ===== verification/Workspace.thy ===== *)
theory Workspace
  imports Names
begin

text \<open>
  \<open>crates/butai-server/src/workbench.rs\<close>: a workspace, the panes in its slots and what is kept
  about each, and dropping a pane from every slot; and from \<open>core.rs\<close> the scan of a process's
  output for its ready marker. The hash maps keyed by pane are maps.
\<close>

section \<open>The workspace\<close>

record proc_meta =
  pm_name :: string
  pm_command :: string
  pm_ready :: "string option"
  ready_seen :: bool
  ready_carry :: string

record agent_meta =
  am_name :: string
  session_id :: "string option"
  spoke :: bool

record workspace =
  ws_id :: session_id
  ws_name :: string
  ws_cwd :: path
  agents :: "pane_id list"
  agent_meta_of :: "pane_id \<Rightarrow> agent_meta option"
  processes :: "pane_id list"
  proc_meta_of :: "pane_id \<Rightarrow> proc_meta option"
  docker_logs :: "pane_id option"
  changes :: "pane_id option"
  stage :: "pane_id option"
  stage_size :: "(nat \<times> nat) option"
  ws_autostart :: "string list"

definition ws_new :: "session_id \<Rightarrow> string \<Rightarrow> path \<Rightarrow> workspace" where
  "ws_new i name cwd =
     \<lparr>ws_id = i, ws_name = name, ws_cwd = cwd, agents = [], agent_meta_of = Map.empty, processes = [],
      proc_meta_of = Map.empty, docker_logs = None, changes = None, stage = None, stage_size = None,
      ws_autostart = []\<rparr>"

definition opt_list :: "'a option \<Rightarrow> 'a list" where
  "opt_list x = (case x of None \<Rightarrow> [] | Some y \<Rightarrow> [y])"

definition all_panes :: "workspace \<Rightarrow> pane_id list" where
  "all_panes w = agents w @ processes w @ opt_list (docker_logs w) @ opt_list (changes w)"

definition first_of :: "'a list \<Rightarrow> 'a option" where
  "first_of xs = (case xs of [] \<Rightarrow> None | x # _ \<Rightarrow> Some x)"

definition or_else :: "'a option \<Rightarrow> 'a option \<Rightarrow> 'a option" where
  "or_else a b = (case a of Some x \<Rightarrow> Some x | None \<Rightarrow> b)"

text \<open>Each slot in turn: whether it held the pane, and the workspace without it there.\<close>

definition forget_agent :: "pane_id \<Rightarrow> workspace \<Rightarrow> bool \<times> workspace" where
  "forget_agent p w =
     (case position (\<lambda>q. q = p) (agents w) of
        Some i \<Rightarrow> (True, w\<lparr>agents := remove_nth i (agents w), agent_meta_of := (agent_meta_of w)(p := None)\<rparr>)
      | None \<Rightarrow> (False, w))"

definition forget_process :: "pane_id \<Rightarrow> workspace \<Rightarrow> bool \<times> workspace" where
  "forget_process p w =
     (case position (\<lambda>q. q = p) (processes w) of
        Some i \<Rightarrow> (True, w\<lparr>processes := remove_nth i (processes w), proc_meta_of := (proc_meta_of w)(p := None)\<rparr>)
      | None \<Rightarrow> (False, w))"

definition forget_pane :: "pane_id \<Rightarrow> workspace \<Rightarrow> bool \<times> workspace" where
  "forget_pane p w =
     (let (h1, w) = forget_agent p w;
          (h2, w) = forget_process p w;
          h3 = (docker_logs w = Some p);
          w = (if h3 then w\<lparr>docker_logs := None\<rparr> else w);
          h4 = (changes w = Some p);
          w = (if h4 then w\<lparr>changes := None\<rparr> else w);
          w = (if stage w = Some p
               then w\<lparr>stage := or_else (first_of (processes w)) (first_of (agents w))\<rparr> else w)
      in (h1 \<or> h2 \<or> h3 \<or> h4, w))"

definition ws_session_info :: "workspace \<Rightarrow> nat \<Rightarrow> session_info" where
  "ws_session_info w n =
     \<lparr>si_id = ws_id w, si_name = ws_name w, si_windows = 1, attached_clients = n, si_cwd = ws_cwd w\<rparr>"

section \<open>Well-formedness\<close>

definition wf_ws :: "workspace \<Rightarrow> bool" where
  "wf_ws w \<longleftrightarrow>
     distinct (all_panes w) \<and> dom (agent_meta_of w) = set (agents w)
     \<and> dom (proc_meta_of w) = set (processes w)
     \<and> (\<forall>p. stage w = Some p \<longrightarrow> p \<in> set (agents w) \<union> set (processes w))"

lemma opt_list_simps [simp]: "opt_list None = []" "opt_list (Some x) = [x]"
  by (simp_all add: opt_list_def)

lemma set_opt_list [simp]: "set (opt_list x) = set_option x"
  by (cases x) auto

lemma remove1_opt_list: "remove1 p (opt_list x) = opt_list (if x = Some p then None else x)"
  by (cases x) auto

lemma or_else_simps [simp]: "or_else None b = b" "or_else (Some x) b = Some x"
  by (simp_all add: or_else_def)

lemma first_of_simps [simp]: "first_of [] = None" "first_of (x # xs) = Some x"
  by (simp_all add: first_of_def)

lemma first_of_mem: "first_of xs = Some x \<Longrightarrow> x \<in> set xs"
  by (cases xs) auto

lemma wf_ws_new: "wf_ws (ws_new i n c)"
  by (simp add: wf_ws_def ws_new_def all_panes_def)

lemma forget_agent_simps:
  "fst (forget_agent p w) \<longleftrightarrow> p \<in> set (agents w)"
  "agents (snd (forget_agent p w)) = remove1 p (agents w)"
  "p \<in> set (agents w) \<or> agent_meta_of w p = None \<Longrightarrow>
   agent_meta_of (snd (forget_agent p w)) = (agent_meta_of w)(p := None)"
  "processes (snd (forget_agent p w)) = processes w"
  "proc_meta_of (snd (forget_agent p w)) = proc_meta_of w"
  "docker_logs (snd (forget_agent p w)) = docker_logs w" "changes (snd (forget_agent p w)) = changes w"
  "stage (snd (forget_agent p w)) = stage w" "ws_id (snd (forget_agent p w)) = ws_id w"
  "ws_cwd (snd (forget_agent p w)) = ws_cwd w" "ws_name (snd (forget_agent p w)) = ws_name w"
  "stage_size (snd (forget_agent p w)) = stage_size w"
  by (auto simp: forget_agent_def remove_nth_position position_Some_iff remove1_idem split: option.splits)

lemma forget_process_simps:
  "fst (forget_process p w) \<longleftrightarrow> p \<in> set (processes w)"
  "processes (snd (forget_process p w)) = remove1 p (processes w)"
  "p \<in> set (processes w) \<or> proc_meta_of w p = None \<Longrightarrow>
   proc_meta_of (snd (forget_process p w)) = (proc_meta_of w)(p := None)"
  "agents (snd (forget_process p w)) = agents w"
  "agent_meta_of (snd (forget_process p w)) = agent_meta_of w"
  "docker_logs (snd (forget_process p w)) = docker_logs w" "changes (snd (forget_process p w)) = changes w"
  "stage (snd (forget_process p w)) = stage w" "ws_id (snd (forget_process p w)) = ws_id w"
  "ws_cwd (snd (forget_process p w)) = ws_cwd w" "ws_name (snd (forget_process p w)) = ws_name w"
  "stage_size (snd (forget_process p w)) = stage_size w"
  by (auto simp: forget_process_def remove_nth_position position_Some_iff remove1_idem split: option.splits)

lemma forget_pane_simps:
  "fst (forget_pane p w) \<longleftrightarrow> p \<in> set (all_panes w)"
  "agents (snd (forget_pane p w)) = remove1 p (agents w)"
  "processes (snd (forget_pane p w)) = remove1 p (processes w)"
  "docker_logs (snd (forget_pane p w)) = (if docker_logs w = Some p then None else docker_logs w)"
  "changes (snd (forget_pane p w)) = (if changes w = Some p then None else changes w)"
  "stage (snd (forget_pane p w)) =
     (if stage w = Some p then or_else (first_of (remove1 p (processes w))) (first_of (remove1 p (agents w)))
      else stage w)"
  "ws_id (snd (forget_pane p w)) = ws_id w" "ws_cwd (snd (forget_pane p w)) = ws_cwd w"
  "ws_name (snd (forget_pane p w)) = ws_name w" "stage_size (snd (forget_pane p w)) = stage_size w"
  "p \<in> set (agents w) \<or> agent_meta_of w p = None \<Longrightarrow>
   agent_meta_of (snd (forget_pane p w)) = (agent_meta_of w)(p := None)"
  "p \<in> set (processes w) \<or> proc_meta_of w p = None \<Longrightarrow>
   proc_meta_of (snd (forget_pane p w)) = (proc_meta_of w)(p := None)"
  by (auto simp: forget_pane_def Let_def forget_agent_simps forget_process_simps all_panes_def split_beta
      split: option.splits)

lemma set_all_panes:
  "set (all_panes w) = set (agents w) \<union> set (processes w) \<union> set_option (docker_logs w) \<union> set_option (changes w)"
  by (auto simp: all_panes_def opt_list_def split: option.splits)

lemma forget_pane_all_panes:
  assumes "wf_ws w"
  shows "all_panes (snd (forget_pane p w)) = remove1 p (all_panes w)"
proof -
  have d: "distinct (all_panes w)" using assms by (simp add: wf_ws_def)
  show ?thesis
    using d by (auto simp: all_panes_def forget_pane_simps remove1_append remove1_opt_list remove1_idem)
qed

lemma wf_forget_pane: "wf_ws w \<Longrightarrow> wf_ws (snd (forget_pane p w))"
proof -
  assume wf: "wf_ws w"
  have d: "distinct (agents w)" "distinct (processes w)" using wf by (simp_all add: wf_ws_def all_panes_def)
  have am: "agent_meta_of (snd (forget_pane p w)) = (agent_meta_of w)(p := None)"
    using wf by (intro forget_pane_simps) (auto simp: wf_ws_def)
  have pm: "proc_meta_of (snd (forget_pane p w)) = (proc_meta_of w)(p := None)"
    using wf by (intro forget_pane_simps) (auto simp: wf_ws_def)
  have st: "q \<in> set (agents (snd (forget_pane p w))) \<union> set (processes (snd (forget_pane p w)))"
    if "stage (snd (forget_pane p w)) = Some q" for q
  proof (cases "stage w = Some p")
    case True
    with that have "first_of (remove1 p (processes w)) = Some q \<or> first_of (remove1 p (agents w)) = Some q"
      by (auto simp: forget_pane_simps or_else_def split: option.splits)
    then show ?thesis by (auto simp: forget_pane_simps dest!: first_of_mem)
  next
    case False
    with that have "stage w = Some q" "q \<noteq> p" by (auto simp: forget_pane_simps)
    with wf show ?thesis by (auto simp: wf_ws_def forget_pane_simps)
  qed
  have "distinct (all_panes (snd (forget_pane p w)))"
    using wf by (simp add: forget_pane_all_panes distinct_remove1 wf_ws_def)
  then show ?thesis
    using wf d am pm st unfolding wf_ws_def by (auto simp: forget_pane_simps)
qed

section \<open>The ready marker\<close>

text \<open>The tail kept for the next burst: the shortest one, cut between code points, that is long
  enough to complete a split marker.\<close>

fun keep_tail :: "nat \<Rightarrow> string list \<Rightarrow> string" where
  "keep_tail keep [] = []"
| "keep_tail keep (g # gs) =
     (if gs \<noteq> [] \<and> keep \<le> length (concat gs) then keep_tail keep gs else concat (g # gs))"

definition ready_scan :: "(string \<Rightarrow> string) \<Rightarrow> string \<Rightarrow> proc_meta \<Rightarrow> proc_meta" where
  "ready_scan lossy bytes m =
     (if ready_seen m then m
      else case pm_ready m of
        None \<Rightarrow> m
      | Some ready \<Rightarrow>
          (let window = ready_carry m @ lossy bytes; m = m\<lparr>ready_carry := []\<rparr>
           in if contains ready window then m\<lparr>ready_seen := True\<rparr>
              else if 1 < length ready
              then m\<lparr>ready_carry := keep_tail (length ready - 1) (uchars window)\<rparr>
              else m))"

lemma concat_singles [simp]: "concat (map (\<lambda>c. [c]) w) = w"
  by (induction w) auto

lemma keep_tail_ascii: "1 \<le> keep \<Longrightarrow> keep_tail keep (map (\<lambda>c. [c]) w) = take_last keep w"
proof (induction w)
  case (Cons c w)
  show ?case
  proof (cases "w \<noteq> [] \<and> keep \<le> length w")
    case True
    then have "take_last keep (c # w) = take_last keep w"
      using take_last_append [of keep "[c]" w] by simp
    with True Cons show ?thesis by simp
  next
    case False
    with Cons.prems have "length (c # w) \<le> keep" by (cases w) auto
    with False show ?thesis by auto
  qed
qed (simp add: take_last_def)

lemma contains_append_left: "contains p a \<Longrightarrow> contains p (a @ b)"
  by (auto simp: contains_iff) (metis append.assoc)

lemma contains_append_right: "contains p b \<Longrightarrow> contains p (a @ b)"
  by (auto simp: contains_iff) (metis append.assoc)

text \<open>A marker that is not in what came before is in the stream exactly when it is in the kept
  tail with the new burst.\<close>

lemma contains_take_last:
  assumes "\<not> contains p a" "p \<noteq> []"
  shows "contains p (a @ b) \<longleftrightarrow> contains p (take_last (length p - 1) a @ b)"
proof
  assume "contains p (a @ b)"
  then obtain x y where xy: "a @ b = x @ p @ y" by (auto simp: contains_iff)
  have "\<not> length (x @ p) \<le> length a"
  proof
    assume "length (x @ p) \<le> length a"
    then have "take (length a) (x @ p @ y) = (x @ p) @ take (length a - length (x @ p)) y" by simp
    moreover have "take (length a) (a @ b) = a" by simp
    ultimately have "a = (x @ p) @ take (length a - length (x @ p)) y" unfolding xy by (simp only:)
    then have "a = x @ p @ take (length a - length (x @ p)) y" by simp
    then have "contains p a" unfolding contains_iff by blast
    with assms(1) show False by simp
  qed
  then have l: "length a < length x + length p" by simp
  let ?n = "length a - (length p - 1)"
  have n: "?n \<le> length x" using l assms(2) by (cases p) auto
  have "drop ?n (a @ b) = take_last (length p - 1) a @ b" by (simp add: take_last_def)
  moreover have "drop ?n (x @ p @ y) = drop ?n x @ p @ y" using n by simp
  ultimately have "take_last (length p - 1) a @ b = drop ?n x @ p @ y" using xy by simp
  then show "contains p (take_last (length p - 1) a @ b)" unfolding contains_iff by blast
next
  assume c: "contains p (take_last (length p - 1) a @ b)"
  obtain z where "a = z @ take_last (length p - 1) a"
    using suffix_take_last by (metis suffix_def)
  then have "a @ b = z @ (take_last (length p - 1) a @ b)" by (metis append.assoc)
  with c show "contains p (a @ b)" by (metis contains_append_right)
qed

definition lossy_ok :: "(string \<Rightarrow> string) \<Rightarrow> bool" where
  "lossy_ok lossy \<longleftrightarrow> (\<forall>s. list_all is_ascii s \<longrightarrow> lossy s = s)"

text \<open>What the row knows after the bursts \<open>bs\<close>, over ASCII output.\<close>

definition tracks_ready :: "string \<Rightarrow> string \<Rightarrow> proc_meta \<Rightarrow> bool" where
  "tracks_ready ready stream m \<longleftrightarrow>
     pm_ready m = Some ready
     \<and> (ready_seen m \<longrightarrow> contains ready stream)
     \<and> (\<not> ready_seen m \<longrightarrow> \<not> contains ready stream \<and> ready_carry m = take_last (length ready - 1) stream)"

lemma ready_scan_tracks:
  assumes t: "tracks_ready ready stream m" and l: "lossy_ok lossy" and ne: "ready \<noteq> []"
    and a: "list_all is_ascii stream" "list_all is_ascii bytes"
  shows "tracks_ready ready (stream @ bytes) (ready_scan lossy bytes m)"
proof (cases "ready_seen m")
  case True
  with t show ?thesis by (auto simp: tracks_ready_def ready_scan_def contains_append_left)
next
  case False
  let ?w = "take_last (length ready - 1) stream @ bytes"
  have m: "pm_ready m = Some ready" "\<not> contains ready stream" "ready_carry m = take_last (length ready - 1) stream"
    using t False by (simp_all add: tracks_ready_def)
  have lb: "lossy bytes = bytes" using l a(2) by (simp add: lossy_ok_def)
  have iff: "contains ready (stream @ bytes) \<longleftrightarrow> contains ready ?w"
    by (rule contains_take_last [OF m(2) ne])
  have "list_all is_ascii ?w" using a by (auto simp: list_all_iff take_last_def dest: in_set_dropD)
  then have u: "uchars ?w = map (\<lambda>c. [c]) ?w" by (rule uchars_ascii)
  have tl: "take_last (length ready - 1) ?w = take_last (length ready - 1) (stream @ bytes)"
    by (rule take_last_take_last)
  show ?thesis
  proof (cases "1 < length ready")
    case True
    then have kt: "keep_tail (length ready - 1) (uchars ?w) = take_last (length ready - 1) ?w"
      unfolding u by (intro keep_tail_ascii) simp
    show ?thesis
      unfolding tracks_ready_def ready_scan_def Let_def iff
      using False m True kt tl by (simp add: lb)
  next
    case one: False
    then have z: "length ready - 1 = 0" by simp
    show ?thesis
      unfolding tracks_ready_def ready_scan_def Let_def iff
      using False m one by (simp add: lb)
  qed
qed

lemma ready_scan_bursts:
  assumes "lossy_ok lossy" "ready \<noteq> []" "list_all (list_all is_ascii) bs" "list_all is_ascii s"
    and "tracks_ready ready s m"
  shows "tracks_ready ready (s @ concat bs) (fold (ready_scan lossy) bs m)"
  using assms(3-5)
proof (induction bs arbitrary: s m)
  case (Cons b bs)
  have "tracks_ready ready (s @ b) (ready_scan lossy b m)"
    using Cons.prems by (intro ready_scan_tracks assms(1,2)) auto
  moreover have "list_all is_ascii (s @ b)" using Cons.prems by simp
  ultimately show ?case using Cons.IH [of "s @ b"] Cons.prems by simp
qed simp

section \<open>The properties\<close>

text \<open>
  A process row turns ready exactly when its marker has appeared in its output, however the
  output was cut into bursts (for ASCII output, which the decoder leaves as it is).
\<close>

theorem ready_marker_across_bursts:
  assumes "\<forall>s. list_all is_ascii s \<longrightarrow> lossy s = s" "ready \<noteq> []" "list_all (list_all is_ascii) bs"
    and "pm_ready m = Some ready" "\<not> ready_seen m" "ready_carry m = []"
  shows "ready_seen (fold (ready_scan lossy) bs m) \<longleftrightarrow> contains ready (concat bs)"
proof -
  have "\<not> contains ready []" using assms(2) by (auto simp: contains_iff)
  then have "tracks_ready ready [] m" using assms by (simp add: tracks_ready_def take_last_def)
  then have "tracks_ready ready ([] @ concat bs) (fold (ready_scan lossy) bs m)"
    using assms by (intro ready_scan_bursts) (simp_all add: lossy_ok_def)
  then show ?thesis by (auto simp: tracks_ready_def)
qed

theorem ready_marker_across_bursts_witness:
  "ready_seen (fold (ready_scan (\<lambda>s. s)) [''serv'', ''er rea'', ''dy on 80'']
     \<lparr>pm_name = ''web'', pm_command = ''run'', pm_ready = Some ''ready'', ready_seen = False, ready_carry = []\<rparr>)"
proof -
  let ?m = "\<lparr>pm_name = ''web'', pm_command = ''run'', pm_ready = Some ''ready'', ready_seen = False, ready_carry = []\<rparr>"
  let ?bs = "[''serv'', ''er rea'', ''dy on 80'']"
  have a: "list_all (list_all is_ascii) ?bs" by code_simp
  have c: "contains ''ready'' (concat ?bs)" by code_simp
  show ?thesis
    using ready_marker_across_bursts [of "\<lambda>s. s" "''ready''" ?bs ?m] a c by simp
qed

text \<open>
  Dropping a pane takes it out of every slot and its record with it, keeps the workspace
  well formed, and leaves the stage on a pane the workspace still has: the first process, else
  the first agent, else nothing.
\<close>

theorem forget_pane_correct:
  assumes "wf_ws w"
  shows "wf_ws (snd (forget_pane p w))
    \<and> all_panes (snd (forget_pane p w)) = remove1 p (all_panes w)
    \<and> p \<notin> set (all_panes (snd (forget_pane p w)))
    \<and> (fst (forget_pane p w) \<longleftrightarrow> p \<in> set (all_panes w))
    \<and> (stage w = Some p \<longrightarrow> stage (snd (forget_pane p w))
         = or_else (first_of (processes (snd (forget_pane p w)))) (first_of (agents (snd (forget_pane p w)))))"
proof -
  have "distinct (all_panes w)" using assms by (simp add: wf_ws_def)
  then have "p \<notin> set (remove1 p (all_panes w))" by simp
  then show ?thesis
    using wf_forget_pane [OF assms, of p] forget_pane_all_panes [OF assms, of p]
    by (simp add: forget_pane_simps)
qed

theorem forget_pane_correct_witness:
  "stage (snd (forget_pane 2 ((ws_new 1 ''t'' ''/tmp'')\<lparr>agents := [1], processes := [2], stage := Some 2,
     agent_meta_of := [1 \<mapsto> \<lparr>am_name = ''a'', session_id = None, spoke = False\<rparr>],
     proc_meta_of := [2 \<mapsto> \<lparr>pm_name = ''shell'', pm_command = ''sh'', pm_ready = None, ready_seen = True, ready_carry = []\<rparr>]\<rparr>)))
   = Some 1"
proof -
  let ?w = "(ws_new 1 ''t'' ''/tmp'')\<lparr>agents := [1], processes := [2], stage := Some 2,
     agent_meta_of := [1 \<mapsto> \<lparr>am_name = ''a'', session_id = None, spoke = False\<rparr>],
     proc_meta_of := [2 \<mapsto> \<lparr>pm_name = ''shell'', pm_command = ''sh'', pm_ready = None, ready_seen = True, ready_carry = []\<rparr>]\<rparr>"
  have "wf_ws ?w" by (simp add: wf_ws_def ws_new_def all_panes_def)
  from forget_pane_correct [OF this, of 2] show ?thesis
    by (simp add: forget_pane_simps)
qed

end
