(* ===== verification/Agent_Track.thy ===== *)
theory Agent_Track
  imports Pane
begin

text \<open>
  The agent status machine and the notification feed of \<open>crates/butai-server/src/core.rs\<close>
  (\<open>AgentTrack\<close>, \<open>update_agent_tracking\<close>, \<open>push_notification\<close>, \<open>notifications_since\<close>) with
  the vocabulary of \<open>butai-protocol/src/api.rs\<close>. One call of \<open>track_step\<close> is one look of the
  loop body at one agent; the loop over the agents that are due is in the daemon's core. Instants
  are milliseconds.
\<close>

section \<open>One agent's track\<close>

datatype agent_state = AWaiting | AWorking | AFinished | AIdle | AExited

definition AGENT_CHECK_MIN :: nat where "AGENT_CHECK_MIN = 1000"
definition AGENT_CHECK_MAX :: nat where "AGENT_CHECK_MAX = 30000"
definition AGENT_SETTLE :: nat where "AGENT_SETTLE = 3000"
definition MIN_TURN :: nat where "MIN_TURN = 3000"
definition NOTIF_HISTORY :: nat where "NOTIF_HISTORY = 256"

record agent_track =
  at_state :: agent_state
  at_exited :: "nat option"
  quiet_since :: "nat option"
  working_since :: "nat option"
  saw_marker :: bool
  seeded :: bool
  unread :: bool
  backoff :: nat
  next_check :: nat

definition track_new :: "nat \<Rightarrow> agent_track" where
  "track_new now =
     \<lparr>at_state = AIdle, at_exited = None, quiet_since = None, working_since = None, saw_marker = False,
      seeded = False, unread = False, backoff = AGENT_CHECK_MIN, next_check = now\<rparr>"

definition end_run :: "agent_track \<Rightarrow> agent_track" where
  "end_run t = t\<lparr>quiet_since := None, working_since := None, saw_marker := False\<rparr>"

text \<open>What one look at a pane reads.\<close>

record signals =
  sg_exited :: "nat option"
  sg_marker :: bool
  sg_sustained :: bool
  sg_prompt :: bool
  sg_bell :: bool

definition sg_waiting :: "signals \<Rightarrow> bool" where
  "sg_waiting s \<longleftrightarrow> sg_bell s \<or> sg_prompt s"

definition sg_busy :: "signals \<Rightarrow> bool" where
  "sg_busy s \<longleftrightarrow> sg_marker s \<or> sg_sustained s"

definition signals_of :: "'v emu \<Rightarrow> nat \<Rightarrow> 'v tpane \<Rightarrow> signals" where
  "signals_of em now t =
     (let f = Pane.footer_signals em t
      in \<lparr>sg_exited = exit_status t, sg_marker = fs_busy f, sg_sustained = sustained_output now t,
          sg_prompt = fs_prompt f, sg_bell = bell_pending em t\<rparr>)"

definition is_due :: "nat \<Rightarrow> agent_track option \<Rightarrow> bool" where
  "is_due now tr = (case tr of None \<Rightarrow> True | Some t \<Rightarrow> next_check t \<le> now)"

definition next_state :: "nat \<Rightarrow> signals \<Rightarrow> agent_track \<Rightarrow> agent_state \<times> agent_track" where
  "next_state now s t =
     (let prev = at_state t in
      if sg_exited s \<noteq> None then (AExited, end_run t)
      else if sg_waiting s then (AWaiting, end_run t)
      else if sg_busy s then
        (let t = t\<lparr>quiet_since := None\<rparr>;
             t = (if prev \<noteq> AWorking then t\<lparr>working_since := Some now, saw_marker := False\<rparr> else t);
             t = t\<lparr>saw_marker := saw_marker t \<or> sg_marker s\<rparr>
         in (AWorking, t))
      else (case prev of
        AWorking \<Rightarrow>
          (let q = (case quiet_since t of Some q \<Rightarrow> q | None \<Rightarrow> now);
               t = t\<lparr>quiet_since := Some q\<rparr>
           in if AGENT_SETTLE \<le> now - q
              then (let ran = q - (case working_since t of Some w \<Rightarrow> w | None \<Rightarrow> q);
                        real = saw_marker t \<or> MIN_TURN \<le> ran
                    in (if real then AFinished else AIdle, end_run t))
              else (AWorking, t))
      | AWaiting \<Rightarrow> (AIdle, end_run t)
      | other \<Rightarrow> (other, end_run t)))"

definition track_step :: "nat \<Rightarrow> signals \<Rightarrow> agent_track \<Rightarrow> agent_track" where
  "track_step now s t =
     (let prev = at_state t; seeded_before = seeded t;
          (new_state, t) = next_state now s t;
          t = (if seeded_before \<and> new_state \<noteq> prev \<and> new_state \<in> {AFinished, AExited}
               then t\<lparr>unread := True\<rparr> else t);
          t = t\<lparr>at_state := new_state, at_exited := sg_exited s, seeded := True\<rparr>;
          settling = (new_state = AWorking \<and> quiet_since t \<noteq> None);
          stable = (new_state = prev \<and> new_state \<noteq> AWorking \<and> \<not> settling);
          t = t\<lparr>backoff := (if stable then min (backoff t * 2) AGENT_CHECK_MAX else AGENT_CHECK_MIN)\<rparr>
      in t\<lparr>next_check := now + backoff t\<rparr>)"

definition touch :: "nat \<Rightarrow> agent_track \<Rightarrow> agent_track" where
  "touch now t = t\<lparr>backoff := AGENT_CHECK_MIN, next_check := now\<rparr>"

definition look_at :: "agent_track \<Rightarrow> agent_track" where
  "look_at t = t\<lparr>unread := False\<rparr>"

section \<open>The notification feed\<close>

datatype notification_kind = NWaiting | NFinished | NExited

record notification =
  n_seq :: nat
  n_at :: nat
  n_ws :: session_id
  n_ws_name :: string
  n_pane :: pane_id
  n_title :: string
  n_kind :: notification_kind
  n_exited :: "nat option"

text \<open>The edge that is worth telling, seen from the track before the look.\<close>

definition notify_kind :: "agent_track \<Rightarrow> agent_state \<Rightarrow> nat option \<Rightarrow> notification_kind option" where
  "notify_kind before new_state exited =
     (if seeded before \<and> exited = None
      then if new_state = AWaiting \<and> at_state before \<noteq> AWaiting then Some NWaiting
           else if new_state = AFinished \<and> at_state before \<noteq> AFinished then Some NFinished
           else None
      else None)"

record feed =
  notifications :: "notification list"
  notif_seq :: nat

definition push_notification ::
    "nat \<Rightarrow> session_id \<Rightarrow> string \<Rightarrow> pane_id \<Rightarrow> string \<Rightarrow> notification_kind \<Rightarrow> nat option \<Rightarrow> feed \<Rightarrow> feed" where
  "push_notification at ws ws_name pane ttl kind exited f =
     (let f = f\<lparr>notif_seq := notif_seq f + 1\<rparr>;
          note = \<lparr>n_seq = notif_seq f, n_at = at, n_ws = ws, n_ws_name = ws_name, n_pane = pane,
                  n_title = ttl, n_kind = kind, n_exited = exited\<rparr>;
          f = (if NOTIF_HISTORY \<le> length (notifications f)
               then f\<lparr>notifications := tl (notifications f)\<rparr> else f)
      in f\<lparr>notifications := notifications f @ [note]\<rparr>)"

definition notifications_since :: "nat \<Rightarrow> feed \<Rightarrow> nat \<times> notification list" where
  "notifications_since since f = (notif_seq f, filter (\<lambda>n. since < n_seq n) (notifications f))"


section \<open>What a look changes\<close>

lemma end_run_simps [simp]:
  "quiet_since (end_run t) = None" "working_since (end_run t) = None" "\<not> saw_marker (end_run t)"
  "unread (end_run t) = unread t" "backoff (end_run t) = backoff t" "seeded (end_run t) = seeded t"
  "at_state (end_run t) = at_state t" "next_check (end_run t) = next_check t"
  by (simp_all add: end_run_def)

lemma next_state_gone:
  "sg_exited s \<noteq> None \<Longrightarrow> next_state now s t = (AExited, end_run t)"
  "sg_exited s = None \<Longrightarrow> sg_waiting s \<Longrightarrow> next_state now s t = (AWaiting, end_run t)"
  by (simp_all add: next_state_def Let_def)

text \<open>\<open>next_state\<close> only moves the run's bookkeeping.\<close>

lemma next_state_frame:
  "unread (snd (next_state now s t)) = unread t" "backoff (snd (next_state now s t)) = backoff t"
  "seeded (snd (next_state now s t)) = seeded t" "at_state (snd (next_state now s t)) = at_state t"
  by (auto simp: next_state_def Let_def split: agent_state.splits option.splits)

lemma track_step_simps:
  "at_state (track_step now s t) = fst (next_state now s t)"
  "at_exited (track_step now s t) = sg_exited s" "seeded (track_step now s t)"
  "quiet_since (track_step now s t) = quiet_since (snd (next_state now s t))"
  "working_since (track_step now s t) = working_since (snd (next_state now s t))"
  "saw_marker (track_step now s t) = saw_marker (snd (next_state now s t))"
  "unread (track_step now s t) \<longleftrightarrow> unread t \<or>
     (seeded t \<and> fst (next_state now s t) \<noteq> at_state t \<and> fst (next_state now s t) \<in> {AFinished, AExited})"
  by (auto simp: track_step_def Let_def split_beta next_state_frame)

lemma track_step_backoff:
  "backoff (track_step now s t) =
     (if fst (next_state now s t) = at_state t \<and> fst (next_state now s t) \<noteq> AWorking
      then min (backoff t * 2) AGENT_CHECK_MAX else AGENT_CHECK_MIN)"
  "next_check (track_step now s t) = now + backoff (track_step now s t)"
  by (auto simp: track_step_def Let_def split_beta next_state_frame)

text \<open>The looks of an agent in order, each at its time.\<close>

type_synonym look = "nat \<times> signals"

definition run_looks :: "look list \<Rightarrow> agent_track \<Rightarrow> agent_track" where
  "run_looks ls t = fold (\<lambda>(now, s). track_step now s) ls t"

lemma run_looks_simps [simp]:
  "run_looks [] t = t" "run_looks (ls @ [l]) t = track_step (fst l) (snd l) (run_looks ls t)"
  by (simp_all add: run_looks_def split_beta)

definition quiet_look :: "look \<Rightarrow> bool" where
  "quiet_look l \<longleftrightarrow> sg_exited (snd l) = None \<and> \<not> sg_waiting (snd l) \<and> \<not> sg_busy (snd l)"

definition busy_look :: "look \<Rightarrow> bool" where
  "busy_look l \<longleftrightarrow> sg_exited (snd l) = None \<and> \<not> sg_waiting (snd l) \<and> sg_busy (snd l)"

text \<open>
  The looks since a working run began: \<open>run\<close> opens and closes on a busy look with nothing but
  busy and quiet ones between, and \<open>lull\<close> holds the quiet looks after it.
\<close>

definition in_run :: "look list \<Rightarrow> look list \<Rightarrow> agent_track \<Rightarrow> bool" where
  "in_run run lull t \<longleftrightarrow>
     run \<noteq> [] \<and> busy_look (hd run) \<and> list_all (\<lambda>l. busy_look l \<or> quiet_look l) run
     \<and> list_all quiet_look lull
     \<and> working_since t = Some (fst (hd run))
     \<and> saw_marker t = list_ex (\<lambda>l. sg_marker (snd l)) run
     \<and> quiet_since t = (if lull = [] then None else Some (fst (hd lull)))"

definition track_inv :: "look list \<Rightarrow> agent_track \<Rightarrow> bool" where
  "track_inv ls t \<longleftrightarrow>
     (if at_state t = AWorking then \<exists>pre run lull. ls = pre @ run @ lull \<and> in_run run lull t
      else quiet_since t = None \<and> working_since t = None \<and> \<not> saw_marker t)"

lemma quiet_no_marker: "quiet_look l \<Longrightarrow> \<not> sg_marker (snd l)"
  by (auto simp: quiet_look_def sg_busy_def)

lemma track_inv_step:
  assumes "track_inv ls t"
  shows "track_inv (ls @ [(now, s)]) (track_step now s t)"
proof -
  consider (gone) "sg_exited s \<noteq> None \<or> sg_waiting s" | (busy) "busy_look (now, s)" | (quiet) "quiet_look (now, s)"
    by (cases "sg_exited s = None"; cases "sg_waiting s"; cases "sg_busy s")
       (auto simp: busy_look_def quiet_look_def)
  then show ?thesis
  proof cases
    case gone
    then have "\<exists>st. st \<noteq> AWorking \<and> next_state now s t = (st, end_run t)"
      by (cases "sg_exited s = None") (auto simp: next_state_gone)
    then show ?thesis by (auto simp: track_inv_def track_step_simps)
  next
    case busy
    then have b: "sg_exited s = None" "\<not> sg_waiting s" "sg_busy s" by (simp_all add: busy_look_def)
    show ?thesis
    proof (cases "at_state t = AWorking")
      case True
      then obtain pre run lull where r: "ls = pre @ run @ lull" "in_run run lull t"
        using assms by (auto simp: track_inv_def)
      have "in_run (run @ lull @ [(now, s)]) [] (track_step now s t)"
        using r busy b True quiet_no_marker
        by (auto simp: in_run_def track_step_simps next_state_def Let_def list_all_iff list_ex_iff)
      then have "\<exists>pre run lull. ls @ [(now, s)] = pre @ run @ lull \<and> in_run run lull (track_step now s t)"
        using r by (intro exI [of _ pre] exI [of _ "run @ lull @ [(now, s)]"] exI [of _ "[]"]) simp
      moreover have "at_state (track_step now s t) = AWorking"
        using b by (simp add: track_step_simps next_state_def Let_def)
      ultimately show ?thesis by (simp add: track_inv_def)
    next
      case False
      have "in_run [(now, s)] [] (track_step now s t)"
        using busy b False by (auto simp: in_run_def track_step_simps next_state_def Let_def)
      then have "\<exists>pre run lull. ls @ [(now, s)] = pre @ run @ lull \<and> in_run run lull (track_step now s t)"
        by (intro exI [of _ ls] exI [of _ "[(now, s)]"] exI [of _ "[]"]) simp
      moreover have "at_state (track_step now s t) = AWorking"
        using b by (simp add: track_step_simps next_state_def Let_def)
      ultimately show ?thesis by (simp add: track_inv_def)
    qed
  next
    case quiet
    then have b: "sg_exited s = None" "\<not> sg_waiting s" "\<not> sg_busy s" by (simp_all add: quiet_look_def)
    show ?thesis
    proof (cases "at_state t = AWorking \<and> at_state (track_step now s t) = AWorking")
      case True
      then obtain pre run lull where r: "ls = pre @ run @ lull" "in_run run lull t"
        using assms by (auto simp: track_inv_def)
      have "in_run run (lull @ [(now, s)]) (track_step now s t)"
        using r quiet b True
        by (auto simp: in_run_def track_step_simps next_state_def Let_def split: if_splits)
      then have "\<exists>pre run lull. ls @ [(now, s)] = pre @ run @ lull \<and> in_run run lull (track_step now s t)"
        using r by (intro exI [of _ pre] exI [of _ run] exI [of _ "lull @ [(now, s)]"]) simp
      then show ?thesis using True by (simp add: track_inv_def)
    next
      case False
      then show ?thesis
        using b by (auto simp: track_inv_def track_step_simps next_state_def Let_def split: agent_state.splits)
    qed
  qed
qed

lemma track_inv_run: "track_inv ls (run_looks ls (track_new t0))"
proof (induction ls rule: rev_induct)
  case Nil
  then show ?case by (simp add: track_inv_def track_new_def)
next
  case (snoc l ls)
  then show ?case using track_inv_step [OF snoc.IH, of "fst l" "snd l"] by simp
qed


section \<open>What the feed keeps\<close>

lemma push_notification_simps:
  "notif_seq (push_notification at ws wn p ttl k e f) = Suc (notif_seq f)"
  "notifications (push_notification at ws wn p ttl k e f) =
     (if NOTIF_HISTORY \<le> length (notifications f) then tl (notifications f) else notifications f)
     @ [\<lparr>n_seq = Suc (notif_seq f), n_at = at, n_ws = ws, n_ws_name = wn, n_pane = p, n_title = ttl,
         n_kind = k, n_exited = e\<rparr>]"
  by (simp_all add: push_notification_def Let_def)

text \<open>What a client asks the feed to carry, without the number the feed gives it.\<close>

record news =
  nw_at :: nat
  nw_ws :: session_id
  nw_ws_name :: string
  nw_pane :: pane_id
  nw_title :: string
  nw_kind :: notification_kind
  nw_exited :: "nat option"

definition push_news :: "news \<Rightarrow> feed \<Rightarrow> feed" where
  "push_news n = push_notification (nw_at n) (nw_ws n) (nw_ws_name n) (nw_pane n) (nw_title n) (nw_kind n) (nw_exited n)"

definition numbered :: "nat \<Rightarrow> news \<Rightarrow> notification" where
  "numbered i n = \<lparr>n_seq = i, n_at = nw_at n, n_ws = nw_ws n, n_ws_name = nw_ws_name n, n_pane = nw_pane n,
     n_title = nw_title n, n_kind = nw_kind n, n_exited = nw_exited n\<rparr>"

definition empty_feed :: feed where
  "empty_feed = \<lparr>notifications = [], notif_seq = 0\<rparr>"

definition number_all :: "news list \<Rightarrow> notification list" where
  "number_all ns = map (\<lambda>i. numbered (Suc i) (ns ! i)) [0..<length ns]"

lemma length_number_all [simp]: "length (number_all ns) = length ns"
  by (simp add: number_all_def)

lemma number_all_snoc: "number_all (ns @ [n]) = number_all ns @ [numbered (Suc (length ns)) n]"
  by (auto simp: number_all_def nth_append)

lemma take_last_snoc:
  "0 < k \<Longrightarrow> take_last k (xs @ [x]) = (if k \<le> length (take_last k xs) then tl (take_last k xs) else take_last k xs) @ [x]"
proof (cases "k \<le> length xs")
  case True
  assume "0 < k"
  moreover have "tl (drop (length xs - k) xs) = drop (Suc (length xs - k)) xs" by (simp add: drop_Suc drop_tl)
  moreover have "Suc (length xs) - k = Suc (length xs - k)" using True by simp
  moreover have "Suc (length xs - k) \<le> length xs" using True \<open>0 < k\<close> by simp
  ultimately show ?thesis using True by (simp add: take_last_def)
next
  case False
  assume "0 < k"
  then show ?thesis using False by (simp add: take_last_def)
qed

lemma feed_after: "fold push_news ns empty_feed = \<lparr>notifications = take_last NOTIF_HISTORY (number_all ns), notif_seq = length ns\<rparr>"
proof (induction ns rule: rev_induct)
  case Nil
  then show ?case by (simp add: empty_feed_def number_all_def)
next
  case (snoc n ns)
  have "0 < NOTIF_HISTORY" by (simp add: NOTIF_HISTORY_def)
  then show ?case
    unfolding fold_append comp_apply snoc.IH number_all_snoc take_last_snoc [OF \<open>0 < NOTIF_HISTORY\<close>]
    by (simp add: push_news_def push_notification_def numbered_def Let_def)
qed

lemma filter_number_all: "filter (\<lambda>n. s < n_seq n) (number_all ns) = drop s (number_all ns)"
proof (induction ns rule: rev_induct)
  case (snoc n ns)
  show ?case
    unfolding number_all_snoc filter_append snoc.IH by (auto simp: numbered_def)
qed (simp add: number_all_def)

lemma filter_drop_number_all:
  "filter (\<lambda>n. s < n_seq n) (drop d (number_all ns)) = drop (max s d) (number_all ns)"
proof -
  have "drop d (number_all ns) = filter (\<lambda>n. d < n_seq n) (number_all ns)" by (rule filter_number_all [symmetric])
  then have "filter (\<lambda>n. s < n_seq n) (drop d (number_all ns)) = filter (\<lambda>n. max s d < n_seq n) (number_all ns)"
    by (simp add: conj_commute)
  then show ?thesis by (simp only: filter_number_all)
qed

section \<open>The properties\<close>

text \<open>
  C39. An agent is called finished only at the end of a turn: its looks then end in a run that opens
  on a busy look \<open>(w, _)\<close> with only busy and quiet looks after it, then a lull of quiet looks, no
  exit, question or bell among them, that has lasted the settle time; and either a busy marker was
  on screen during the run or the run went on for the minimum turn before the lull.
\<close>

theorem finished_is_a_turn:
  assumes "at_state (run_looks ls (track_new t0)) \<noteq> AFinished"
    and "at_state (run_looks (ls @ [(now, s)]) (track_new t0)) = AFinished"
  shows "\<exists>pre run lull. ls = pre @ run @ lull \<and> run \<noteq> [] \<and> lull \<noteq> [] \<and> busy_look (hd run)
    \<and> list_all (\<lambda>l. busy_look l \<or> quiet_look l) run
    \<and> list_all quiet_look (lull @ [(now, s)])
    \<and> fst (hd lull) + 3000 \<le> now
    \<and> (list_ex (\<lambda>l. sg_marker (snd l)) run \<or> fst (hd run) + 3000 \<le> fst (hd lull))"
proof -
  let ?t = "run_looks ls (track_new t0)"
  have st: "fst (next_state now s ?t) = AFinished" using assms(2) by (simp add: track_step_simps)
  have q: "quiet_look (now, s)" and w: "at_state ?t = AWorking"
    using st assms(1) by (auto simp: next_state_def quiet_look_def Let_def split: if_splits agent_state.splits)
  then obtain pre run lull where r: "ls = pre @ run @ lull" "in_run run lull ?t"
    using track_inv_run [of ls t0] by (auto simp: track_inv_def)
  have f: "AGENT_SETTLE \<le> now - (case quiet_since ?t of Some q \<Rightarrow> q | None \<Rightarrow> now)"
    "saw_marker ?t \<or> MIN_TURN \<le> (case quiet_since ?t of Some q \<Rightarrow> q | None \<Rightarrow> now) - fst (hd run)"
    using st q w r(2) by (auto simp: next_state_def quiet_look_def in_run_def Let_def split: if_splits)
  then have l: "lull \<noteq> []" using r(2) by (auto simp: in_run_def AGENT_SETTLE_def)
  then have "quiet_since ?t = Some (fst (hd lull))" using r(2) by (simp add: in_run_def)
  with f have "fst (hd lull) + 3000 \<le> now" "saw_marker ?t \<or> fst (hd run) + 3000 \<le> fst (hd lull)"
    by (auto simp: AGENT_SETTLE_def MIN_TURN_def)
  then show ?thesis using r l q by (auto simp: in_run_def)
qed

definition demo_looks :: "look list" where
  "demo_looks = [(0, \<lparr>sg_exited = None, sg_marker = True, sg_sustained = False, sg_prompt = False, sg_bell = False\<rparr>),
     (1000, \<lparr>sg_exited = None, sg_marker = False, sg_sustained = False, sg_prompt = False, sg_bell = False\<rparr>)]"

theorem finished_is_a_turn_witness:
  "\<exists>pre run lull. demo_looks = pre @ run @ lull \<and> run \<noteq> [] \<and> lull \<noteq> [] \<and> fst (hd lull) + 3000 \<le> (4000 :: nat)"
proof -
  let ?s = "\<lparr>sg_exited = None, sg_marker = False, sg_sustained = False, sg_prompt = False, sg_bell = False\<rparr>"
  have "at_state (run_looks demo_looks (track_new 0)) \<noteq> AFinished"
    "at_state (run_looks (demo_looks @ [(4000, ?s)]) (track_new 0)) = AFinished"
    by code_simp+
  from finished_is_a_turn [OF this] show ?thesis by blast
qed

text \<open>
  The unread mark is exact: after any looks it is set if and only if the agent crossed into
  finished or exited, after the look that only takes the baseline, since the user last looked.
\<close>

theorem unread_is_exact:
  "unread (run_looks ls (look_at t)) \<longleftrightarrow>
     (\<exists>xs l ys. ls = xs @ l # ys \<and> seeded (run_looks xs (look_at t))
        \<and> at_state (run_looks (xs @ [l]) (look_at t)) \<noteq> at_state (run_looks xs (look_at t))
        \<and> at_state (run_looks (xs @ [l]) (look_at t)) \<in> {AFinished, AExited})"
proof (induction ls rule: rev_induct)
  case Nil
  then show ?case by (simp add: look_at_def)
next
  case (snoc x ls)
  let ?edge = "\<lambda>xs l. seeded (run_looks xs (look_at t))
        \<and> at_state (run_looks (xs @ [l]) (look_at t)) \<noteq> at_state (run_looks xs (look_at t))
        \<and> at_state (run_looks (xs @ [l]) (look_at t)) \<in> {AFinished, AExited}"
  have "unread (run_looks (ls @ [x]) (look_at t)) \<longleftrightarrow> unread (run_looks ls (look_at t)) \<or> ?edge ls x"
    by (simp add: track_step_simps)
  moreover have "(\<exists>xs l ys. ls @ [x] = xs @ l # ys \<and> ?edge xs l) \<longleftrightarrow> (\<exists>xs l ys. ls = xs @ l # ys \<and> ?edge xs l) \<or> ?edge ls x"
  proof
    assume "\<exists>xs l ys. ls @ [x] = xs @ l # ys \<and> ?edge xs l"
    then obtain xs l ys where e: "ls @ [x] = xs @ l # ys" "?edge xs l" by blast
    show "(\<exists>xs l ys. ls = xs @ l # ys \<and> ?edge xs l) \<or> ?edge ls x"
    proof (cases ys rule: rev_cases)
      case Nil
      with e show ?thesis by simp
    next
      case (snoc zs z)
      with e have "ls = xs @ l # zs" by simp
      with e(2) show ?thesis by blast
    qed
  next
    assume "(\<exists>xs l ys. ls = xs @ l # ys \<and> ?edge xs l) \<or> ?edge ls x"
    then show "\<exists>xs l ys. ls @ [x] = xs @ l # ys \<and> ?edge xs l"
    proof
      assume "\<exists>xs l ys. ls = xs @ l # ys \<and> ?edge xs l"
      then obtain xs l ys where "ls = xs @ l # ys" "?edge xs l" by blast
      then have "ls @ [x] = xs @ l # (ys @ [x]) \<and> ?edge xs l" by simp
      then show ?thesis by blast
    qed blast
  qed
  ultimately show ?case using snoc.IH by simp
qed

text \<open>
  A client that asks the feed for what came after \<open>since\<close> gets, in order, every notification
  after it that is among the last 256, and the head to ask from next; no number is given twice.
\<close>

theorem feed_answers_in_order:
  "notifications_since since (fold push_news ns empty_feed) =
     (length ns, drop (max since (length ns - 256)) (number_all ns))"
  unfolding feed_after notifications_since_def take_last_def
  by (simp add: filter_drop_number_all NOTIF_HISTORY_def)

text \<open>
  No agent is left unlooked at for longer than thirty seconds: the next look a track asks for
  is between one and thirty seconds after the last, and one second after it while the agent works,
  settles or has just changed.
\<close>

theorem next_look_is_near:
  assumes "ls \<noteq> []"
  shows "next_check (run_looks ls (track_new t0)) \<in> {fst (last ls) + 1000 .. fst (last ls) + 30000}
    \<and> (at_state (run_looks ls (track_new t0)) = AWorking
         \<or> at_state (run_looks ls (track_new t0)) \<noteq> at_state (run_looks (butlast ls) (track_new t0))
       \<longrightarrow> next_check (run_looks ls (track_new t0)) = fst (last ls) + 1000)"
proof -
  have b: "1000 \<le> backoff (run_looks ls (track_new t0)) \<and> backoff (run_looks ls (track_new t0)) \<le> 30000" for ls
  proof (induction ls rule: rev_induct)
    case Nil
    then show ?case by (simp add: track_new_def AGENT_CHECK_MIN_def)
  next
    case (snoc l ls)
    then show ?case by (auto simp: track_step_backoff AGENT_CHECK_MIN_def AGENT_CHECK_MAX_def)
  qed
  obtain ks l where "ls = ks @ [l]" using assms by (cases ls rule: rev_cases) auto
  then show ?thesis
    using b [of ls] by (auto simp: track_step_backoff track_step_simps AGENT_CHECK_MIN_def)
qed

theorem next_look_is_near_witness:
  "next_check (run_looks demo_looks (track_new 0)) \<in> {2000 .. 31000}"
  using next_look_is_near [of demo_looks 0] by (simp add: demo_looks_def)

end
