(* ===== verification/Selection.thy ===== *)
theory Selection
  imports Frame_Diff
begin

text \<open>
  Text selection over a pane's frame, from \<open>crates/butai-server/src/core.rs\<close>: which cells a drag
  covers (\<open>clamp_point\<close>, \<open>selection_span\<close>), the text copied from them (\<open>extract_selection\<close>) and
  the cells drawn reversed (\<open>highlight_selection\<close>). Coordinates are \<open>u16\<close> in the source and
  bounded by the frame here.
\<close>

definition selection_span :: "area \<Rightarrow> nat \<times> nat \<Rightarrow> nat \<times> nat \<Rightarrow> nat \<Rightarrow> nat \<times> nat" where
  "selection_span a s e y =
     (let lst = right a - 1 in
      if snd s = snd e then (min (fst s) (fst e), max (fst s) (fst e))
      else if y = snd s then (fst s, lst)
      else if y = snd e then (ax a, fst e)
      else (ax a, lst))"

definition clamp_point :: "area \<Rightarrow> nat \<times> nat \<Rightarrow> nat \<times> nat" where
  "clamp_point a p = (clamp (ax a) (right a - 1) (fst p), clamp (ay a) (bottom a - 1) (snd p))"

text \<open>The ends of the drag inside the frame, the earlier one in reading order first.\<close>

definition sel_ends :: "area \<Rightarrow> nat \<times> nat \<Rightarrow> nat \<times> nat \<Rightarrow> (nat \<times> nat) \<times> (nat \<times> nat)" where
  "sel_ends ar a b =
     (let a = clamp_point ar a; b = clamp_point ar b
      in if snd a < snd b \<or> snd a = snd b \<and> fst a \<le> fst b then (a, b) else (b, a))"

definition sel_row :: "buffer \<Rightarrow> nat \<times> nat \<Rightarrow> nat \<times> nat \<Rightarrow> nat \<Rightarrow> string" where
  "sel_row b s e y =
     (let (x0, x1) = selection_span (b_area b) s e y
      in dropWhile_end (\<lambda>c. c = CHR '' '')
           (concat (map (\<lambda>x. let sy = symbol (b_at b x y) in if sy = [] then '' '' else sy) [x0..<Suc x1])))"

definition extract_selection :: "buffer \<Rightarrow> nat \<times> nat \<Rightarrow> nat \<times> nat \<Rightarrow> string" where
  "extract_selection buf a b =
     (if aw (b_area buf) = 0 \<or> ah (b_area buf) = 0 then []
      else let (s, e) = sel_ends (b_area buf) a b
           in join [CHR 0x0A] (map (sel_row buf s e) [snd s..<Suc (snd e)]))"

text \<open>A cell of the selection is reversed where the frame has one.\<close>

definition reverse_cell :: "nat \<times> nat \<Rightarrow> buffer \<Rightarrow> buffer" where
  "reverse_cell = (\<lambda>(x, y) b.
     (let ar = b_area b in
      if ax ar \<le> x \<and> x < right ar \<and> ay ar \<le> y \<and> y < bottom ar
      then b\<lparr>b_at := (\<lambda>x' y'. if x' = x \<and> y' = y
                            then (b_at b x y)\<lparr>modifier := (modifier (b_at b x y))\<lparr>reverse := True\<rparr>\<rparr>
                            else b_at b x' y')\<rparr>
      else b))"

definition sel_cells :: "area \<Rightarrow> nat \<times> nat \<Rightarrow> nat \<times> nat \<Rightarrow> (nat \<times> nat) list" where
  "sel_cells ar s e =
     concat (map (\<lambda>y. let (x0, x1) = selection_span ar s e y in map (\<lambda>x. (x, y)) [x0..<Suc x1])
              [snd s..<Suc (snd e)])"

definition highlight_selection :: "buffer \<Rightarrow> nat \<times> nat \<Rightarrow> nat \<times> nat \<Rightarrow> buffer" where
  "highlight_selection buf a b =
     (if aw (b_area buf) = 0 \<or> ah (b_area buf) = 0 then buf
      else let (s, e) = sel_ends (b_area buf) a b
           in fold reverse_cell (sel_cells (b_area buf) s e) buf)"

section \<open>Facts\<close>

lemma clamp_point_in:
  assumes "aw ar \<noteq> 0" "ah ar \<noteq> 0"
  shows "ax ar \<le> fst (clamp_point ar p)" "fst (clamp_point ar p) < right ar"
    "ay ar \<le> snd (clamp_point ar p)" "snd (clamp_point ar p) < bottom ar"
  using assms by (auto simp: clamp_point_def clamp_def right_def bottom_def)

lemma sel_ends_sym: "sel_ends ar a b = sel_ends ar b a"
  by (cases "clamp_point ar a"; cases "clamp_point ar b") (auto simp: sel_ends_def Let_def)

lemma sel_ends_in:
  assumes "aw ar \<noteq> 0" "ah ar \<noteq> 0" "sel_ends ar a b = (s, e)"
  shows "ax ar \<le> fst s" "fst s < right ar" "ay ar \<le> snd s" "snd e < bottom ar"
    "ax ar \<le> fst e" "fst e < right ar" "snd s \<le> snd e"
  using assms clamp_point_in [OF assms(1,2), of a] clamp_point_in [OF assms(1,2), of b]
  unfolding sel_ends_def Let_def by (auto split: if_splits)

text \<open>The cells of a selection are those between its ends in reading order.\<close>

lemma span_between:
  assumes "aw ar \<noteq> 0" "ah ar \<noteq> 0" "sel_ends ar a b = (s, e)"
  shows "(x, y) \<in> set (sel_cells ar s e) \<longleftrightarrow>
    ax ar \<le> x \<and> x < right ar \<and> (snd s < y \<or> snd s = y \<and> fst s \<le> x) \<and> (y < snd e \<or> y = snd e \<and> x \<le> fst e)"
proof -
  note i = sel_ends_in [OF assms]
  have o: "snd s = snd e \<Longrightarrow> fst s \<le> fst e"
    using assms(3) by (auto simp: sel_ends_def Let_def split: if_splits)
  have "(x, y) \<in> set (sel_cells ar s e) \<longleftrightarrow>
    snd s \<le> y \<and> y \<le> snd e \<and> fst (selection_span ar s e y) \<le> x \<and> x \<le> snd (selection_span ar s e y)"
  proof -
    have row: "set (let (x0, x1) = selection_span ar s e z in map (\<lambda>x. (x, z)) [x0..<Suc x1])
        = {(x, w). w = z \<and> fst (selection_span ar s e z) \<le> x \<and> x \<le> snd (selection_span ar s e z)}" for z
      by (auto simp: split_beta Let_def less_Suc_eq_le simp del: upt_Suc)
    have "set (sel_cells ar s e) = (\<Union>z \<in> {snd s..snd e}. {(x, w). w = z \<and> fst (selection_span ar s e z) \<le> x \<and> x \<le> snd (selection_span ar s e z)})"
      unfolding sel_cells_def set_concat set_map image_image row set_upt atLeastLessThanSuc_atLeastAtMost ..
    then show ?thesis by auto
  qed
  also have "\<dots> \<longleftrightarrow> ax ar \<le> x \<and> x < right ar \<and> (snd s < y \<or> snd s = y \<and> fst s \<le> x) \<and> (y < snd e \<or> y = snd e \<and> x \<le> fst e)"
    using i o unfolding selection_span_def Let_def by (cases "snd s = snd e"; cases "y = snd s"; cases "y = snd e") auto
  finally show ?thesis .
qed

lemma reverse_cell_area [simp]: "b_area (reverse_cell p b) = b_area b"
  by (auto simp: reverse_cell_def Let_def split: prod.splits)

lemma fold_reverse_area [simp]: "b_area (fold reverse_cell ps b) = b_area b"
  by (induction ps arbitrary: b) auto

definition in_area :: "area \<Rightarrow> nat \<Rightarrow> nat \<Rightarrow> bool" where
  "in_area ar x y \<longleftrightarrow> ax ar \<le> x \<and> x < right ar \<and> ay ar \<le> y \<and> y < bottom ar"

definition reversed_cell :: "tui_cell \<Rightarrow> tui_cell" where
  "reversed_cell c = c\<lparr>modifier := (modifier c)\<lparr>reverse := True\<rparr>\<rparr>"

lemma fold_reverse_at:
  "b_at (fold reverse_cell ps b) x y =
     (if (x, y) \<in> set ps \<and> in_area (b_area b) x y then reversed_cell (b_at b x y) else b_at b x y)"
proof (induction ps arbitrary: b)
  case (Cons p ps)
  have step: "b_at (reverse_cell p b) x y =
      (if (x, y) = p \<and> in_area (b_area b) x y then reversed_cell (b_at b x y) else b_at b x y)"
    by (cases p) (simp add: reverse_cell_def in_area_def reversed_cell_def Let_def)
  have idem: "reversed_cell (reversed_cell k) = reversed_cell k" for k by (simp add: reversed_cell_def)
  show ?case
    by (simp add: Cons.IH step idem)
qed simp

section \<open>The property\<close>

text \<open>
  The cells drawn reversed are exactly those that lie between the two ends of the drag in
  reading order, both ends held inside the frame; every other cell keeps its look. Which end the
  drag started at makes no difference, to what is drawn or to what is copied.
\<close>

theorem selection_is_between_its_ends:
  assumes "aw (b_area buf) \<noteq> 0" "ah (b_area buf) \<noteq> 0" "sel_ends (b_area buf) a b = (s, e)"
  shows "b_at (highlight_selection buf a b) x y =
      (if ax (b_area buf) \<le> x \<and> x < right (b_area buf)
          \<and> (snd s < y \<or> snd s = y \<and> fst s \<le> x) \<and> (y < snd e \<or> y = snd e \<and> x \<le> fst e)
       then reversed_cell (b_at buf x y) else b_at buf x y)
    \<and> highlight_selection buf b a = highlight_selection buf a b
    \<and> extract_selection buf b a = extract_selection buf a b"
proof -
  have "in_area (b_area buf) x y" if "(x, y) \<in> set (sel_cells (b_area buf) s e)"
    using that sel_ends_in [OF assms] by (auto simp: span_between [OF assms] in_area_def)
  then show ?thesis
    using assms by (auto simp: highlight_selection_def extract_selection_def fold_reverse_at
        span_between [OF assms] sel_ends_sym [of "b_area buf" b a])
qed

theorem selection_is_between_its_ends_witness:
  "extract_selection \<lparr>b_area = \<lparr>ax = 0, ay = 0, aw = 4, ah = 2\<rparr>,
     b_at = (\<lambda>x y. \<lparr>symbol = [''abcdefgh'' ! (4 * y + x)], t_fg = Reset, t_bg = Reset,
       modifier = \<lparr>bold = False, dim = False, italic = False, underline = False, reverse = False, crossed_out = False\<rparr>\<rparr>)\<rparr>
     (1, 1) (2, 0) = ''cd'' @ [CHR 0x0A] @ ''ef''"
proof -
  let ?b = "\<lparr>b_area = \<lparr>ax = 0, ay = 0, aw = 4, ah = 2\<rparr>,
     b_at = (\<lambda>x y. \<lparr>symbol = [''abcdefgh'' ! (4 * y + x)], t_fg = Reset, t_bg = Reset,
       modifier = \<lparr>bold = False, dim = False, italic = False, underline = False, reverse = False, crossed_out = False\<rparr>\<rparr>)\<rparr>"
  have h: "aw (b_area ?b) \<noteq> 0" "ah (b_area ?b) \<noteq> 0" "sel_ends (b_area ?b) (2, 0) (1, 1) = ((2, 0), (1, 1))"
    by (simp_all add: sel_ends_def clamp_point_def clamp_def right_def bottom_def Let_def)
  have "extract_selection ?b (2, 0) (1, 1) = ''cd'' @ [CHR 0x0A] @ ''ef''" by code_simp
  then show ?thesis using selection_is_between_its_ends [OF h, of 0 0] by simp
qed

end
