(* ===== verification/Git_Op.thy ===== *)
theory Git_Op
  imports Protocol
begin

text \<open>
  Running git for a client: the operations of \<open>butai-protocol/src/api.rs\<close> (\<open>GitOp\<close>,
  \<open>RepoState\<close>), the validation of every user-supplied value and the argument vectors of
  \<open>crates/butai-server/src/git_op.rs\<close> and \<open>git_worktree.rs\<close> (\<open>valid_path\<close>), and
  \<open>take_lines\<close>, which cuts git's progress output. A refusal is the message of the source, in
  which \<open>dbg\<close> is Rust's quoting \<open>{:?}\<close>. Starting git, its timeouts and its pipes are not
  modelled.
\<close>

section \<open>Operations\<close>

datatype repo_state = RClean | RMerge | RRebase | RCherryPick | RRevert | RBisect | RUnknown

datatype reset_mode = Soft | Mixed | Hard

datatype sequence_action = SContinue | SAbort | SSkip

datatype git_op =
  Fetch "string option" bool bool
  | Pull "string option" "string option" bool bool
  | Push "string option" "string option" bool bool
  | Stash "string option" bool
  | StashApply nat bool
  | StashDrop nat
  | Amend "string option"
  | Reset_To "string option" reset_mode
  | Revert string
  | CherryPick string
  | Merge string bool
  | Rebase string
  | Sequence sequence_action
  | Tag string "string option" "string option"
  | TagDelete string
  | WorktreeAdd path "string option" bool
  | WorktreeRemove path bool
  | WorktreePrune
  | RemoteAdd string string
  | RemoteRemove string

fun kind :: "git_op \<Rightarrow> string" where
  "kind (Fetch _ _ _) = ''fetch''"
| "kind (Pull _ _ _ _) = ''pull''"
| "kind (Push _ _ _ _) = ''push''"
| "kind (Stash _ _) = ''stash''"
| "kind (StashApply _ pop) = (if pop then ''stash pop'' else ''stash apply'')"
| "kind (StashDrop _) = ''stash drop''"
| "kind (Amend _) = ''amend''"
| "kind (Reset_To _ _) = ''reset''"
| "kind (Revert _) = ''revert''"
| "kind (CherryPick _) = ''cherry-pick''"
| "kind (Merge _ _) = ''merge''"
| "kind (Rebase _) = ''rebase''"
| "kind (Sequence SContinue) = ''continue''"
| "kind (Sequence SAbort) = ''abort''"
| "kind (Sequence SSkip) = ''skip''"
| "kind (Tag _ _ _) = ''tag''"
| "kind (TagDelete _) = ''tag delete''"
| "kind (WorktreeAdd _ _ _) = ''worktree add''"
| "kind (WorktreeRemove _ _) = ''worktree remove''"
| "kind WorktreePrune = ''worktree prune''"
| "kind (RemoteAdd _ _) = ''remote add''"
| "kind (RemoteRemove _) = ''remote remove''"

section \<open>Validation\<close>

type_synonym 'a checked = "string + 'a"

text \<open>The operator \<open>?\<close>: a refusal ends the function, a value goes on.\<close>

fun and_then :: "'a checked \<Rightarrow> ('a \<Rightarrow> 'b checked) \<Rightarrow> 'b checked" where
  "and_then (Inl e) f = Inl e"
| "and_then (Inr x) f = f x"

definition is_control :: "char \<Rightarrow> bool" where
  "is_control c \<longleftrightarrow> (of_char c :: nat) < 0x20 \<or> c = CHR 0x7F"

definition not_an_option :: "(string \<Rightarrow> string) \<Rightarrow> string \<Rightarrow> string \<Rightarrow> unit checked" where
  "not_an_option dbg what s =
     (if starts_with ''-'' s then Inl (what @ '' may not start with '' @ [CHR 0x27] @ ''-'' @ [CHR 0x27] @ '': '' @ dbg s)
      else if s = [] then Inl (''empty '' @ what)
      else if 255 < length s then Inl (what @ '' is too long'')
      else if list_ex is_control s then Inl (what @ '' contains a control character'')
      else Inr ())"

definition ends_with :: "string \<Rightarrow> string \<Rightarrow> bool" where
  "ends_with p s \<longleftrightarrow> strip_suffix p s \<noteq> None"

definition quoted :: "string \<Rightarrow> string" where
  "quoted s = [CHR 0x27] @ s @ [CHR 0x27]"

definition valid_ref_name :: "(string \<Rightarrow> string) \<Rightarrow> string \<Rightarrow> string checked" where
  "valid_ref_name dbg s = and_then (not_an_option dbg ''branch name'' s) (\<lambda>_.
     (let bad = (\<lambda>why. Inl (''invalid branch name '' @ dbg s @ '': '' @ why)) in
      if contains ''..'' s then bad (''contains '' @ quoted ''..'')
      else if contains (''@'' @ ''{'') s then bad (''contains '' @ quoted (''@'' @ ''{''))
      else if s = ''@'' then bad (''is '' @ quoted ''@'')
      else if contains ''//'' s then bad (''contains '' @ quoted ''//'')
      else if starts_with ''/'' s \<or> ends_with ''/'' s then bad (''starts or ends with '' @ quoted ''/'')
      else if ends_with ''.'' s then bad (''ends with '' @ quoted ''.'')
      else if ends_with ''.lock'' s then bad (''ends with '' @ quoted ''.lock'')
      else if list_ex (\<lambda>part. part = [] \<or> starts_with ''.'' part) (split_char CHR ''/'' s)
      then bad ''has an empty or dot-leading component''
      else if list_ex (\<lambda>c. c \<in> set ('' ~^:?*['' @ [CHR 0x5C])) s
      then bad (''contains one of '' @ quoted ('' ~^:?*['' @ [CHR 0x5C]))
      else Inr s))"

definition valid_remote :: "(string \<Rightarrow> string) \<Rightarrow> string \<Rightarrow> string checked" where
  "valid_remote dbg s = and_then (not_an_option dbg ''remote name'' s) (\<lambda>_.
     if list_ex (\<lambda>c. c = CHR '':'') s then Inl (''remote must be a configured name, not a URL: '' @ dbg s)
     else case valid_ref_name dbg s of Inl _ \<Rightarrow> Inl (''invalid remote name '' @ dbg s) | Inr x \<Rightarrow> Inr x)"

definition SCHEMES :: "string list" where
  "SCHEMES = [''https://'', ''http://'', ''ssh://'', ''git://'', ''file://'', ''git+ssh://'']"

text \<open>The part after the last \<open>@\<close>, as \<open>rsplit('@').next()\<close> gives it.\<close>

definition after_at :: "string \<Rightarrow> string" where
  "after_at h = rev (takeWhile (\<lambda>c. c \<noteq> CHR ''@'') (rev h))"

definition host_ok :: "string \<Rightarrow> bool" where
  "host_ok h \<longleftrightarrow> after_at h \<noteq> []
     \<and> list_all (\<lambda>c. is_alnum c \<or> c = CHR ''.'' \<or> c = CHR ''-'' \<or> c = CHR ''_'') (after_at h)"

definition valid_remote_url :: "(string \<Rightarrow> string) \<Rightarrow> string \<Rightarrow> string checked" where
  "valid_remote_url dbg s = and_then (not_an_option dbg ''remote url'' s) (\<lambda>_.
     if 2048 < length s then Inl ''remote url is too long''
     else if list_ex uws (uchars s) then Inl (''remote url contains whitespace: '' @ dbg s)
     else case split_once ''::'' s of
       Some (before, _) \<Rightarrow> Inl (''refusing a transport helper '' @ dbg before @ '' in '' @ dbg s)
     | None \<Rightarrow>
         if list_ex (\<lambda>p. starts_with p s) SCHEMES then
           (case split_once ''://'' s of
              Some (_, rest) \<Rightarrow> if rest = [] then Inl (''remote url has no host: '' @ dbg s) else Inr s
            | None \<Rightarrow> Inl (''remote url has no host: '' @ dbg s))
         else if starts_with ''/'' s then Inr s
         else case split_once '':'' s of
           Some (host, p) \<Rightarrow>
             if host_ok host \<and> p \<noteq> [] \<and> \<not> list_ex (\<lambda>c. c = CHR '':'') p then Inr s
             else Inl (''unsupported remote url '' @ dbg s)
         | None \<Rightarrow> Inl (''unsupported remote url '' @ dbg s))"

definition valid_rev :: "(string \<Rightarrow> string) \<Rightarrow> string \<Rightarrow> string checked" where
  "valid_rev dbg s = and_then (not_an_option dbg ''revision'' s) (\<lambda>_.
     if list_ex (\<lambda>c. c \<in> set ('' ;|&$'' @ [CHR 0x60, CHR 0x0A])) s then Inl (''invalid revision '' @ dbg s)
     else Inr s)"

definition valid_show_rev :: "(string \<Rightarrow> string) \<Rightarrow> string \<Rightarrow> string checked" where
  "valid_show_rev dbg s = and_then (not_an_option dbg ''revision'' s) (\<lambda>_.
     if s \<noteq> [] \<and> length s \<le> 100 \<and> list_all (\<lambda>c. is_alnum c \<or> c \<in> set (''_-./~^@'' @ ''{}'')) s then Inr s
     else Inl (''bad revision '' @ dbg s))"

definition valid_path :: "(string \<Rightarrow> string) \<Rightarrow> string \<Rightarrow> string checked" where
  "valid_path dbg s =
     (if starts_with ''-'' s then Inl (''worktree path may not start with '' @ quoted ''-'' @ '': '' @ dbg s)
      else if s = [] then Inl ''empty worktree path''
      else if 4096 < length s then Inl ''worktree path is too long''
      else if list_ex is_control s then Inl (''worktree path contains a control character: '' @ dbg s)
      else if \<not> starts_with ''/'' s then Inl (''worktree path must be absolute: '' @ dbg s)
      else Inr s)"

section \<open>Argument vectors\<close>

definition stash_ref :: "nat \<Rightarrow> string" where
  "stash_ref i = ''stash'' @ [CHR 0x40, CHR 0x7B] @ show_nat i @ ''}''"

text \<open>An optional flag, and an optional value that has to pass its check.\<close>

definition flag :: "bool \<Rightarrow> string \<Rightarrow> string list" where
  "flag b f = (if b then [f] else [])"

definition opt_arg :: "(string \<Rightarrow> string checked) \<Rightarrow> string option \<Rightarrow> string list checked" where
  "opt_arg check v = (case v of None \<Rightarrow> Inr [] | Some s \<Rightarrow> and_then (check s) (\<lambda>x. Inr [x]))"

text \<open>A remote, and the branch that is only taken beside one.\<close>

definition remote_and_branch ::
    "(string \<Rightarrow> string) \<Rightarrow> string option \<Rightarrow> string option \<Rightarrow> string list checked" where
  "remote_and_branch dbg remote branch =
     (case remote of
        None \<Rightarrow> Inr []
      | Some r \<Rightarrow> and_then (valid_remote dbg r) (\<lambda>r.
          and_then (opt_arg (valid_ref_name dbg) branch) (\<lambda>b. Inr (r # b))))"

definition message_arg ::
    "(string \<Rightarrow> string) \<Rightarrow> string \<Rightarrow> string list \<Rightarrow> string option \<Rightarrow> string list checked" where
  "message_arg dbg what flags m =
     (case m of None \<Rightarrow> Inr []
      | Some x \<Rightarrow> and_then (not_an_option dbg what x) (\<lambda>_. Inr (flags @ [''-m'', x])))"

definition prepend :: "string list \<Rightarrow> string list checked \<Rightarrow> string list checked" where
  "prepend xs r = and_then r (\<lambda>ys. Inr (xs @ ys))"

fun reset_flag :: "reset_mode \<Rightarrow> string" where
  "reset_flag Soft = ''--soft''"
| "reset_flag Mixed = ''--mixed''"
| "reset_flag Hard = ''--hard''"

fun argv :: "(string \<Rightarrow> string) \<Rightarrow> git_op \<Rightarrow> string list checked" where
  "argv dbg (Fetch remote everything prune) =
     prepend ([''fetch'', ''--progress''] @ flag prune ''--prune'')
       (if everything then Inr [''--all''] else opt_arg (valid_remote dbg) remote)"
| "argv dbg (Pull remote branch rebase ff_only) =
     prepend ([''pull'', ''--progress''] @ flag rebase ''--rebase'' @ flag ff_only ''--ff-only'')
       (remote_and_branch dbg remote branch)"
| "argv dbg (Push remote branch set_upstream lease) =
     prepend ([''push'', ''--progress''] @ flag lease ''--force-with-lease'' @ flag set_upstream ''--set-upstream'')
       (if remote = None \<and> set_upstream then Inl ''--set-upstream needs a remote''
        else remote_and_branch dbg remote branch)"
| "argv dbg (Stash msg untracked) =
     prepend ([''stash'', ''push''] @ flag untracked ''--include-untracked'') (message_arg dbg ''stash message'' [] msg)"
| "argv dbg (StashApply i pop) = Inr [''stash'', if pop then ''pop'' else ''apply'', stash_ref i]"
| "argv dbg (StashDrop i) = Inr [''stash'', ''drop'', stash_ref i]"
| "argv dbg (Amend msg) =
     prepend [''commit'', ''--amend'']
       (case msg of None \<Rightarrow> Inr [''--no-edit''] | Some m \<Rightarrow> message_arg dbg ''commit message'' [] msg)"
| "argv dbg (Reset_To r md) = prepend [''reset'', reset_flag md] (opt_arg (valid_rev dbg) r)"
| "argv dbg (Revert r) = prepend [''revert'', ''--no-edit''] (opt_arg (valid_rev dbg) (Some r))"
| "argv dbg (CherryPick r) = prepend [''cherry-pick''] (opt_arg (valid_rev dbg) (Some r))"
| "argv dbg (Merge b no_ff) =
     prepend ([''merge'', ''--no-edit''] @ flag no_ff ''--no-ff'') (opt_arg (valid_rev dbg) (Some b))"
| "argv dbg (Rebase onto) = prepend [''rebase''] (opt_arg (valid_rev dbg) (Some onto))"
| "argv dbg (Sequence a) =
     Inl (''internal: a '' @ (case a of SContinue \<Rightarrow> ''Continue'' | SAbort \<Rightarrow> ''Abort'' | SSkip \<Rightarrow> ''Skip'')
          @ '' needs the repository state to name its subcommand'')"
| "argv dbg (Tag n r msg) =
     prepend [''tag''] (and_then (message_arg dbg ''tag message'' [''-a''] msg) (\<lambda>m.
       and_then (valid_ref_name dbg n) (\<lambda>n.
         and_then (opt_arg (valid_rev dbg) r) (\<lambda>r. Inr (m @ n # r)))))"
| "argv dbg (TagDelete n) = prepend [''tag'', ''-d''] (opt_arg (valid_ref_name dbg) (Some n))"
| "argv dbg (WorktreeAdd p branch new_branch) =
     prepend [''worktree'', ''add'']
       (and_then
          (if new_branch
           then (case branch of None \<Rightarrow> Inl ''a new worktree branch needs a name''
                 | Some b \<Rightarrow> and_then (valid_ref_name dbg b) (\<lambda>b. Inr [''-b'', b]))
           else Inr []) (\<lambda>nb.
        and_then (valid_path dbg p) (\<lambda>p.
          and_then (if new_branch then Inr [] else opt_arg (valid_rev dbg) branch) (\<lambda>b.
            Inr (nb @ [''--'', p] @ b)))))"
| "argv dbg (WorktreeRemove p force) =
     prepend ([''worktree'', ''remove''] @ flag force ''--force'' @ [''--'']) (opt_arg (valid_path dbg) (Some p))"
| "argv dbg WorktreePrune = Inr [''worktree'', ''prune'']"
| "argv dbg (RemoteAdd n url) =
     prepend [''remote'', ''add'', ''--'']
       (and_then (valid_remote dbg n) (\<lambda>n. and_then (valid_remote_url dbg url) (\<lambda>u. Inr [n, u])))"
| "argv dbg (RemoteRemove n) = prepend [''remote'', ''remove''] (opt_arg (valid_remote dbg) (Some n))"

definition EM_DASH :: string where "EM_DASH = [CHR 0xE2, CHR 0x80, CHR 0x94]"

fun sequence_argv :: "repo_state \<Rightarrow> sequence_action \<Rightarrow> string list checked" where
  "sequence_argv st a =
     and_then (case st of
        RMerge \<Rightarrow> Inr ''merge'' | RRebase \<Rightarrow> Inr ''rebase'' | RCherryPick \<Rightarrow> Inr ''cherry-pick''
      | RRevert \<Rightarrow> Inr ''revert'' | RClean \<Rightarrow> Inl ''nothing in progress''
      | RBisect \<Rightarrow> Inl ''bisect is not driven from here''
      | RUnknown \<Rightarrow> Inl (''git is in a state butai does not recognise '' @ EM_DASH @ '' use a shell'')) (\<lambda>cmd.
     and_then (case a of
        SContinue \<Rightarrow> Inr ''--continue'' | SAbort \<Rightarrow> Inr ''--abort''
      | SSkip \<Rightarrow> if st = RMerge then Inl ''a merge has nothing to skip'' else Inr ''--skip'') (\<lambda>verb.
     Inr [cmd, verb]))"

text \<open>The validation of an operation: \<open>start_git_op\<close>'s choice between the two.\<close>

definition op_args :: "(string \<Rightarrow> string) \<Rightarrow> repo_state \<Rightarrow> git_op \<Rightarrow> string list checked" where
  "op_args dbg st op = (case op of Sequence a \<Rightarrow> sequence_argv st a | _ \<Rightarrow> argv dbg op)"


section \<open>Progress\<close>

text \<open>Every complete line of what was read so far, ended by CR or LF alike, and what is left.\<close>

definition ends_line :: "char \<Rightarrow> bool" where
  "ends_line c \<longleftrightarrow> c = CHR 0x0D \<or> c = CHR 0x0A"

fun cut_lines :: "string \<Rightarrow> string \<Rightarrow> string list \<times> string" where
  "cut_lines acc [] = ([], acc)"
| "cut_lines acc (c # cs) =
     (if ends_line c then (let (ls, rest) = cut_lines [] cs in (trim_end acc # ls, rest))
      else cut_lines (acc @ [c]) cs)"

definition take_lines :: "string \<Rightarrow> string list \<times> string" where
  "take_lines partial =
     (let (ls, rest) = cut_lines [] partial in (ls, if 8192 < length rest then [] else rest))"

lemma cut_lines_append:
  "cut_lines acc (a @ b) =
     (let (ls, r) = cut_lines acc a; (ls', r') = cut_lines r b in (ls @ ls', r'))"
  by (induction acc a rule: cut_lines.induct) (auto simp: Let_def split_beta)

lemma cut_lines_rest: "list_all (Not \<circ> ends_line) r \<Longrightarrow> cut_lines acc (r @ b) = cut_lines (acc @ r) b"
  by (induction r arbitrary: acc) auto

lemma cut_lines_no_end: "list_all (Not \<circ> ends_line) acc \<Longrightarrow> list_all (Not \<circ> ends_line) (snd (cut_lines acc s))"
  by (induction acc s rule: cut_lines.induct) (auto simp: Let_def split_beta)

text \<open>Reading in two pieces finds the lines of the whole, unless an unfinished line outgrew its bound.\<close>

lemma take_lines_pieces:
  assumes "length (snd (cut_lines [] a)) \<le> 8192"
  shows "take_lines (a @ b) =
    (let (ls, r) = take_lines a; (ls', r') = take_lines (r @ b) in (ls @ ls', r'))"
proof -
  have e: "cut_lines [] (snd (cut_lines [] a) @ b) = cut_lines (snd (cut_lines [] a)) b"
    using cut_lines_rest [OF cut_lines_no_end [of "[]" a], of "[]" b] by simp
  show ?thesis
    unfolding take_lines_def cut_lines_append [of "[]" a b] using assms
    by (simp add: Let_def split_beta e)
qed

section \<open>What reaches git\<close>

text \<open>A word that git cannot take for an option, and the flags the daemon writes itself.\<close>

definition data_word :: "string \<Rightarrow> bool" where
  "data_word s \<longleftrightarrow> s \<noteq> [] \<and> \<not> starts_with ''-'' s \<and> \<not> list_ex is_control s"

definition GIT_FLAGS :: "string list" where
  "GIT_FLAGS = [''--progress'', ''--prune'', ''--all'', ''--rebase'', ''--ff-only'', ''--force-with-lease'',
     ''--set-upstream'', ''--include-untracked'', ''-m'', ''--amend'', ''--no-edit'', ''--soft'', ''--mixed'',
     ''--hard'', ''--no-ff'', ''-a'', ''-d'', ''-b'', ''--'', ''--force'', ''--continue'', ''--abort'', ''--skip'']"

definition GIT_COMMANDS :: "string list" where
  "GIT_COMMANDS = [''fetch'', ''pull'', ''push'', ''stash'', ''commit'', ''reset'', ''revert'', ''cherry-pick'',
     ''merge'', ''rebase'', ''tag'', ''worktree'', ''remote'']"

definition git_word :: "string \<Rightarrow> bool" where
  "git_word s \<longleftrightarrow> s \<in> set GIT_FLAGS \<or> data_word s"

text \<open>A check of a user's value: what passes is the value itself, and it is data.\<close>

locale argument_check =
  fixes check :: "string \<Rightarrow> string checked"
  assumes check_data: "check s = Inr x \<Longrightarrow> x = s \<and> data_word s"
begin

lemma opt_arg_data: "opt_arg check v = Inr ys \<Longrightarrow> list_all git_word ys"
  by (cases v) (auto simp: opt_arg_def git_word_def elim!: and_then.elims dest!: check_data)

lemma check_word: "check s = Inr x \<Longrightarrow> git_word x"
  by (auto simp: git_word_def dest: check_data)

end

lemma and_then_Inr: "and_then r f = Inr y \<longleftrightarrow> (\<exists>x. r = Inr x \<and> f x = Inr y)"
  by (cases r) auto

lemma not_an_option_data: "not_an_option dbg what s = Inr u \<Longrightarrow> data_word s"
  by (auto simp: not_an_option_def data_word_def split: if_splits)

interpretation ref_name: argument_check "valid_ref_name dbg" for dbg
  by unfold_locales (auto simp: valid_ref_name_def and_then_Inr Let_def dest: not_an_option_data split: if_splits)

interpretation remote_name: argument_check "valid_remote dbg" for dbg
  by unfold_locales
     (auto simp: valid_remote_def and_then_Inr dest: not_an_option_data ref_name.check_data split: if_splits sum.splits)

interpretation remote_url: argument_check "valid_remote_url dbg" for dbg
  by unfold_locales
     (auto simp: valid_remote_url_def and_then_Inr dest: not_an_option_data split: if_splits option.splits)

interpretation revision: argument_check "valid_rev dbg" for dbg
  by unfold_locales (auto simp: valid_rev_def and_then_Inr dest: not_an_option_data split: if_splits)

interpretation shown: argument_check "valid_show_rev dbg" for dbg
  by unfold_locales (auto simp: valid_show_rev_def and_then_Inr dest: not_an_option_data split: if_splits)

interpretation worktree_path: argument_check "valid_path dbg" for dbg
  by unfold_locales (auto simp: valid_path_def data_word_def split: if_splits)

lemma git_word_lit [simp]:
  "list_all git_word (flag b f) \<longleftrightarrow> (b \<longrightarrow> git_word f)"
  by (simp add: flag_def)

lemma visible_not_control: "visible c \<Longrightarrow> \<not> is_control c"
  by (auto simp: visible_def is_control_def)

lemma stash_ref_data: "data_word (stash_ref i)"
proof -
  have "\<not> list_ex is_control (show_nat i)"
    using digits_visible [of i] visible_not_control by (auto simp: list_all_iff list_ex_iff)
  then show ?thesis by (simp add: stash_ref_def data_word_def starts_with_code is_control_def)
qed

lemma git_words_fixed:
  "list_all git_word (GIT_FLAGS @ GIT_COMMANDS @ [''push'', ''pop'', ''apply'', ''drop'', ''add'', ''remove'', ''prune''])"
  by code_simp


lemma prepend_Inr: "prepend xs r = Inr a \<longleftrightarrow> (\<exists>ys. r = Inr ys \<and> a = xs @ ys)"
  by (auto simp: prepend_def and_then_Inr)

lemma fixed_words [simp]:
  "git_word ''--progress''" "git_word ''--prune''" "git_word ''--all''" "git_word ''--rebase''"
  "git_word ''--ff-only''" "git_word ''--force-with-lease''" "git_word ''--set-upstream''"
  "git_word ''--include-untracked''" "git_word ''-m''" "git_word ''--amend''" "git_word ''--no-edit''"
  "git_word ''--soft''" "git_word ''--mixed''" "git_word ''--hard''" "git_word ''--no-ff''" "git_word ''-a''"
  "git_word ''-d''" "git_word ''-b''" "git_word ''--''" "git_word ''--force''" "git_word ''fetch''"
  "git_word ''--continue''" "git_word ''--abort''" "git_word ''--skip''"
  "git_word ''pull''" "git_word ''push''" "git_word ''stash''" "git_word ''commit''" "git_word ''reset''"
  "git_word ''revert''" "git_word ''cherry-pick''" "git_word ''merge''" "git_word ''rebase''" "git_word ''tag''"
  "git_word ''worktree''" "git_word ''remote''" "git_word ''pop''" "git_word ''apply''" "git_word ''drop''"
  "git_word ''add''" "git_word ''remove''" "git_word ''prune''"
  using git_words_fixed by (simp_all only: GIT_FLAGS_def GIT_COMMANDS_def list.pred_inject append.simps)

lemma message_arg_words:
  "list_all git_word flags \<Longrightarrow> message_arg dbg what flags m = Inr ys \<Longrightarrow> list_all git_word ys"
  by (auto simp: message_arg_def and_then_Inr git_word_def [of "the m"] split: option.splits
      dest: not_an_option_data) (auto simp: git_word_def dest: not_an_option_data)

lemma remote_and_branch_words: "remote_and_branch dbg r b = Inr ys \<Longrightarrow> list_all git_word ys"
  by (auto simp: remote_and_branch_def and_then_Inr split: option.splits
      dest: remote_name.check_word ref_name.opt_arg_data)

lemmas arg_words = remote_name.opt_arg_data ref_name.opt_arg_data revision.opt_arg_data
  worktree_path.opt_arg_data remote_name.check_word ref_name.check_word worktree_path.check_word
  remote_url.check_word remote_and_branch_words

lemma argv_words: "argv dbg op = Inr a \<Longrightarrow> list_all git_word a"
proof (cases op)
  case (Reset_To r md)
  assume "argv dbg op = Inr a"
  with Reset_To show ?thesis by (cases md) (auto simp: prepend_Inr dest: arg_words)
next
  case (StashApply i pop)
  assume "argv dbg op = Inr a"
  with StashApply show ?thesis using stash_ref_data [of i] by (cases pop) (auto simp: git_word_def [of "stash_ref i"])
next
  case (StashDrop i)
  assume "argv dbg op = Inr a"
  with StashDrop show ?thesis using stash_ref_data [of i] by (auto simp: git_word_def [of "stash_ref i"])
qed (auto simp: prepend_Inr and_then_Inr split: if_splits option.splits dest: arg_words
      dest!: message_arg_words [rotated])

lemma sequence_argv_words: "sequence_argv st a = Inr ws \<Longrightarrow> list_all git_word ws"
  by (cases st; cases a) (auto simp: and_then_Inr)


lemma argv_command: "argv dbg op = Inr a \<Longrightarrow> a \<noteq> [] \<and> hd a \<in> set GIT_COMMANDS"
  by (cases op) (auto simp: prepend_Inr and_then_Inr GIT_COMMANDS_def split: if_splits option.splits)

lemma sequence_command: "sequence_argv st a = Inr ws \<Longrightarrow> ws \<noteq> [] \<and> hd ws \<in> set GIT_COMMANDS"
  by (cases st; cases a) (auto simp: and_then_Inr GIT_COMMANDS_def)

text \<open>
  What the checks refuse and let through against what they are for. A message given to \<open>-m\<close> is
  refused when it has a body, although it \<open>can hold anything a commit message can\<close>; a URL longer
  than 255 bytes is refused by the option check before the limit of 2048 that is meant for it; and
  a URL whose scheme is not on the list of transports is let through as \<open>host:path\<close>.
\<close>

lemma amend_body_refused: "\<exists>e. argv dbg (Amend (Some (''fix'' @ [CHR 0x0A, CHR 0x0A] @ ''why''))) = Inl e"
  by (simp add: prepend_def message_arg_def not_an_option_def starts_with_code is_control_def)

lemma long_url_refused: "256 \<le> length u \<Longrightarrow> valid_remote_url dbg (''https://'' @ u) = Inl ''remote url is too long''"
  by (simp add: valid_remote_url_def not_an_option_def starts_with_code)

lemma unlisted_scheme_accepted: "valid_remote_url id ''hg://example.org/repo'' = Inr ''hg://example.org/repo''"
  by code_simp

section \<open>The properties\<close>

text \<open>
  C38. Every argument vector the daemon hands to git starts with one of thirteen subcommands, and
  each of its words is either a flag the daemon wrote itself or a word git cannot read as an
  option: not empty, not starting with a dash, free of control characters. So no value a client
  sends is ever taken for an option.
\<close>

theorem argv_is_safe:
  assumes "op_args dbg st op = Inr a"
  shows "a \<noteq> [] \<and> hd a \<in> set GIT_COMMANDS
    \<and> list_all (\<lambda>s. s \<in> set GIT_FLAGS \<or> (s \<noteq> [] \<and> \<not> starts_with ''-'' s \<and> \<not> list_ex is_control s)) a"
proof (cases "\<exists>x. op = Sequence x")
  case True
  with assms obtain x where "sequence_argv st x = Inr a" by (auto simp: op_args_def)
  then show ?thesis
    using sequence_command sequence_argv_words by (fastforce simp: git_word_def data_word_def list_all_iff)
next
  case False
  with assms have "argv dbg op = Inr a" by (auto simp: op_args_def split: git_op.splits)
  then show ?thesis using argv_command argv_words by (fastforce simp: git_word_def data_word_def list_all_iff)
qed

theorem argv_is_safe_witness:
  "list_all (\<lambda>s. s \<in> set GIT_FLAGS \<or> (s \<noteq> [] \<and> \<not> starts_with ''-'' s \<and> \<not> list_ex is_control s))
     [''push'', ''--progress'', ''--set-upstream'', ''origin'', ''feature/x'']"
proof -
  have "op_args id RClean (Push (Some ''origin'') (Some ''feature/x'') True False)
      = Inr [''push'', ''--progress'', ''--set-upstream'', ''origin'', ''feature/x'']"
    by code_simp
  from argv_is_safe [OF this] show ?thesis by blast
qed

text \<open>
  A remote is only ever added under a name without a colon and with a URL without whitespace
  and without the form \<open>helper::address\<close> that would have git run a transport helper.
\<close>

theorem remote_add_without_helper:
  assumes "op_args dbg st (RemoteAdd n url) = Inr a"
  shows "a = [''remote'', ''add'', ''--'', n, url] \<and> \<not> contains ''::'' url
    \<and> \<not> list_ex uws (uchars url) \<and> CHR '':'' \<notin> set n \<and> data_word url"
proof -
  obtain x u where x: "valid_remote dbg n = Inr x" and u: "valid_remote_url dbg url = Inr u"
    and a: "a = [''remote'', ''add'', ''--'', x, u]"
    using assms by (auto simp: op_args_def prepend_Inr and_then_Inr)
  have "x = n" "u = url" "data_word url"
    using remote_name.check_data [OF x] remote_url.check_data [OF u] by auto
  moreover have "CHR '':'' \<notin> set n"
    using x by (auto simp: valid_remote_def and_then_Inr list_ex_iff split: if_splits)
  moreover have "\<not> contains ''::'' url \<and> \<not> list_ex uws (uchars url)"
    using u by (auto simp: valid_remote_url_def and_then_Inr contains_def split: if_splits option.splits)
  ultimately show ?thesis using a by blast
qed

theorem remote_add_without_helper_witness:
  "\<not> contains ''::'' ''git@example.org:me/repo.git''"
proof -
  have "op_args id RClean (RemoteAdd ''origin'' ''git@example.org:me/repo.git'')
      = Inr [''remote'', ''add'', ''--'', ''origin'', ''git@example.org:me/repo.git'']"
    by code_simp
  from remote_add_without_helper [OF this] show ?thesis by blast
qed

end
