(* ===== verification/Core_State.thy ===== *)
theory Core_State
  imports Agent_Track Workspace Frame_Diff Git_Op Base64
begin

text \<open>
  The state of the daemon's core, \<open>crates/butai-server/src/core.rs\<close>: \<open>ServerCore\<close>,
  \<open>ClientState\<close> and the configuration it reads, with the smallest operations on them: sending,
  detaching, sizing and looking at a pane.

  What the core calls outside itself is the record \<open>env\<close>, handed to every operation: the
  emulator, starting a child, opening a repository, the kernel's random bytes, the file system
  and the clock, which is read once per event. A hash map whose order the code never relies on is
  a map; a search over \<open>workspaces.values()\<close> is a search in the order of the tabs, which is the
  same search whenever at most one workspace matches. What a client was sent and which
  children were started are logs, \<open>sent\<close> and \<open>launched\<close>; the files of the session are the
  fields \<open>disk_session\<close> and \<open>disk_dumps\<close>.
\<close>

section \<open>Configuration\<close>

record agent_def =
  ad_name :: string
  ad_command :: string
  ad_args :: "string list"
  ad_resume_args :: "string list"
  ad_env :: "(string \<times> string) list"
  ad_waiting :: "string option"
  ad_busy :: "string option"

record config =
  cfg_shell :: "string option"
  cfg_exit_when_empty :: bool
  cfg_scrollback :: nat
  cfg_restore_bytes :: nat
  cfg_agents :: "agent_def list"

definition config_agent :: "string \<Rightarrow> config \<Rightarrow> agent_def option" where
  "config_agent n cfg = find (\<lambda>a. ad_name a = n) (cfg_agents cfg)"

record proc_def =
  pdef_name :: string
  pdef_cmd :: string
  pdef_ready :: "string option"

record ws_file =
  wf_processes :: "proc_def list"
  wf_autostart :: "string list"

section \<open>What lies outside\<close>

record ('v, 'g) env =
  e_emu :: "'v emu"
  e_render :: "'v \<Rightarrow> nat \<Rightarrow> nat \<Rightarrow> buffer"
  e_width :: "string \<Rightarrow> nat"
  e_diff :: "buffer \<Rightarrow> buffer \<Rightarrow> (nat \<times> nat \<times> tui_cell) list"
  e_lossy :: "string \<Rightarrow> string"
  e_debug :: "string \<Rightarrow> string"
  e_debug_char :: "char \<Rightarrow> string"
  e_random :: "pane_id \<Rightarrow> u8 list"
  e_spawn :: "pane_id \<Rightarrow> string option"
  e_compile :: "string \<Rightarrow> string option \<Rightarrow> string option \<Rightarrow> detect"
  e_dial :: "pane_id \<Rightarrow> (string list \<times> string) option"
  e_git_open :: "path \<Rightarrow> 'g option"
  e_git_root :: "'g \<Rightarrow> path"
  e_git_apply :: "'g \<Rightarrow> 'g \<Rightarrow> 'g"
  e_git_state :: "'g \<Rightarrow> repo_state"
  e_git_changes :: "'g \<Rightarrow> nat"
  e_git_conflicts :: "'g \<Rightarrow> nat"
  e_ws_file :: "path \<Rightarrow> ws_file"
  e_is_dir :: "path \<Rightarrow> bool"
  e_config :: "config \<times> string list"
  e_env_shell :: "string option"
  e_platform_shell :: string
  e_current_dir :: "path option"
  e_butai_dir :: path
  e_store_ok :: bool
  e_dir_ok :: "string \<Rightarrow> bool"
  e_dump_ok :: "string \<Rightarrow> string \<Rightarrow> bool"
  e_scratch_error :: "path \<Rightarrow> string option"
  e_now :: nat
  e_at_ms :: nat

definition config_shell :: "('v, 'g) env \<Rightarrow> config \<Rightarrow> string" where
  "config_shell env cfg =
     (case cfg_shell cfg of Some s \<Rightarrow> s
      | None \<Rightarrow> (case e_env_shell env of Some s \<Rightarrow> s | None \<Rightarrow> e_platform_shell env))"

section \<open>The state\<close>

datatype core_mode = Standalone | Daemon

datatype (pane_v: 'v, pane_g: 'g) pane_state = PTerm "'v tpane" | PGit 'g

record client =
  cl_session :: "session_id option"
  cl_pane :: "pane_id option"
  cl_cols :: nat
  cl_rows :: nat
  cl_control :: bool
  cl_last_frame :: "buffer option"
  cl_sel_anchor :: "(nat \<times> nat) option"
  cl_sel :: "((nat \<times> nat) \<times> (nat \<times> nat)) option"

record persisted_agent =
  pa_agent :: string
  pa_dump :: string
  pa_session_id :: "string option"
  pa_spoke :: bool

record persisted_process =
  pp_name :: string
  pp_command :: string
  pp_ready :: "string option"
  pp_dump :: string

record persisted_workspace =
  pw_name :: string
  pw_cwd :: path
  pw_key :: string
  pw_agents :: "persisted_agent list"
  pw_processes :: "persisted_process list"
  pw_stage :: "string option"

record git_op_state =
  go_ws :: session_id
  go_seq :: nat
  go_kind :: string
  go_running :: bool
  go_progress :: string
  go_result :: "(string + string) option"
  go_cancel :: bool

record launch =
  l_pane :: pane_id
  l_ws :: session_id
  l_cwd :: path
  l_program :: "string option"
  l_args :: "string list"
  l_env :: "(string \<times> string) list"
  l_via_shell :: bool
  l_size :: "nat \<times> nat"

record git_op_dto =
  gd_ws :: session_id
  gd_seq :: nat
  gd_kind :: string
  gd_running :: bool
  gd_progress :: string
  gd_ok :: "bool option"
  gd_summary :: string

definition to_dto :: "git_op_state \<Rightarrow> git_op_dto" where
  "to_dto s =
     \<lparr>gd_ws = go_ws s, gd_seq = go_seq s, gd_kind = go_kind s, gd_running = go_running s,
      gd_progress = go_progress s,
      gd_ok = map_option (\<lambda>r. case r of Inr _ \<Rightarrow> True | Inl _ \<Rightarrow> False) (go_result s),
      gd_summary = (case go_result s of Some (Inr m) \<Rightarrow> m | Some (Inl e) \<Rightarrow> e | None \<Rightarrow> [])\<rparr>"

record ws_summary =
  su_id :: session_id
  su_name :: string
  su_cwd :: path
  su_agents :: nat
  su_waiting :: nat
  su_working :: nat
  su_finished :: nat
  su_exited :: nat
  su_questions :: nat
  su_unread :: nat
  su_processes :: nat
  su_changes :: nat
  su_conflicts :: nat
  su_repo_state :: repo_state
  su_attached :: nat
  su_autostart :: "string list"

datatype api_event =
  EvNotification notification
  | EvGitOp git_op_dto
  | EvWorkspaces "ws_summary list"
  | EvRemoteAnnounce pane_id string string string "string list"

record ('v, 'g) core =
  mode :: core_mode
  cfg :: config
  workspaces :: "session_id \<Rightarrow> workspace option"
  ws_order :: "session_id list"
  panes :: "pane_id \<Rightarrow> ('v, 'g) pane_state option"
  clients :: "(client_id \<times> client) list"
  next_pane :: nat
  next_ws :: nat
  dirty :: bool
  anim :: nat
  wants_anim :: bool
  fast_anim :: nat
  wants_fast_anim :: bool
  had_client :: bool
  had_workspace :: bool
  shutdown :: bool
  agent_alerted :: "pane_id set"
  agent_tracks :: "pane_id \<Rightarrow> agent_track option"
  core_feed :: feed
  session_store :: "path option"
  restoring :: bool
  git_refreshing :: "pane_id set"
  git_refresh_again :: "pane_id set"
  git_ops :: "path \<Rightarrow> git_op_state option"
  git_op_seq :: nat
  repo_probing :: "session_id set"
  repo_probe_next :: "session_id \<Rightarrow> (nat \<times> nat) option"
  resume_retry :: "pane_id set"
  put_seq :: nat
  deferred :: "persisted_workspace list"
  disk_session :: "persisted_workspace list option"
  disk_dumps :: "string \<Rightarrow> (string \<Rightarrow> string option) option"
  scratch_files :: "(path \<times> string \<times> u8 list) list"
  sent :: "(client_id \<times> server_msg) list"
  launched :: "launch list"
  scans :: "pane_id list"
  probes :: "session_id list"
  api_log :: "api_event list"

definition core_new :: "config \<Rightarrow> core_mode \<Rightarrow> ('v, 'g) core" where
  "core_new cf md =
     \<lparr>mode = md, cfg = cf, workspaces = Map.empty, ws_order = [], panes = Map.empty, clients = [],
      next_pane = 1, next_ws = 1, dirty = False, anim = 0, wants_anim = False, fast_anim = 0,
      wants_fast_anim = False, had_client = False, had_workspace = False, shutdown = False,
      agent_alerted = {}, agent_tracks = Map.empty, core_feed = empty_feed, session_store = None,
      restoring = False, git_refreshing = {}, git_refresh_again = {}, git_ops = Map.empty,
      git_op_seq = 0, repo_probing = {}, repo_probe_next = Map.empty, resume_retry = {}, put_seq = 0,
      deferred = [], disk_session = None, disk_dumps = Map.empty, scratch_files = [], sent = [],
      launched = [], scans = [], probes = [], api_log = []\<rparr>"

section \<open>Clients\<close>

definition client_of :: "client_id \<Rightarrow> ('v, 'g) core \<Rightarrow> client option" where
  "client_of i c = map_of (clients c) i"

definition upd_client :: "client_id \<Rightarrow> (client \<Rightarrow> client) \<Rightarrow> ('v, 'g) core \<Rightarrow> ('v, 'g) core" where
  "upd_client i f c = c\<lparr>clients := map (\<lambda>(j, k). (j, if j = i then f k else k)) (clients c)\<rparr>"

definition drop_client :: "client_id \<Rightarrow> ('v, 'g) core \<Rightarrow> ('v, 'g) core" where
  "drop_client i c = c\<lparr>clients := filter (\<lambda>(j, k). j \<noteq> i) (clients c)\<rparr>"

definition client_new :: client where
  "client_new = \<lparr>cl_session = None, cl_pane = None, cl_cols = 80, cl_rows = 24, cl_control = False,
     cl_last_frame = None, cl_sel_anchor = None, cl_sel = None\<rparr>"

definition send :: "client_id \<Rightarrow> server_msg \<Rightarrow> ('v, 'g) core \<Rightarrow> ('v, 'g) core" where
  "send i m c = (if client_of i c = None then c else c\<lparr>sent := sent c @ [(i, m)]\<rparr>)"

definition report_error :: "client_id \<Rightarrow> string \<Rightarrow> ('v, 'g) core \<Rightarrow> ('v, 'g) core" where
  "report_error i msg = send i (Error msg)"

definition detach :: "client_id \<Rightarrow> string \<Rightarrow> ('v, 'g) core \<Rightarrow> ('v, 'g) core" where
  "detach i reason c = drop_client i (send i (Detached reason) c)"

text \<open>Everything a client was sent, in order.\<close>

definition received :: "client_id \<Rightarrow> ('v, 'g) core \<Rightarrow> server_msg list" where
  "received i c = map snd (filter (\<lambda>(j, m). j = i) (sent c))"

section \<open>Workspaces and panes\<close>

definition all_ws :: "('v, 'g) core \<Rightarrow> workspace list" where
  "all_ws c = List.map_filter (workspaces c) (ws_order c)"

definition find_ws :: "(workspace \<Rightarrow> bool) \<Rightarrow> ('v, 'g) core \<Rightarrow> workspace option" where
  "find_ws P c = find P (all_ws c)"

definition upd_ws :: "session_id \<Rightarrow> (workspace \<Rightarrow> workspace) \<Rightarrow> ('v, 'g) core \<Rightarrow> ('v, 'g) core" where
  "upd_ws sid f c =
     (case workspaces c sid of None \<Rightarrow> c
      | Some w \<Rightarrow> c\<lparr>workspaces := (workspaces c)(sid := Some (f w))\<rparr>)"

definition upd_term :: "pane_id \<Rightarrow> ('v tpane \<Rightarrow> 'v tpane) \<Rightarrow> ('v, 'g) core \<Rightarrow> ('v, 'g) core" where
  "upd_term p f c =
     (case panes c p of Some (PTerm t) \<Rightarrow> c\<lparr>panes := (panes c)(p := Some (PTerm (f t)))\<rparr> | _ \<Rightarrow> c)"

definition term_of :: "pane_id \<Rightarrow> ('v, 'g) core \<Rightarrow> 'v tpane option" where
  "term_of p c = (case panes c p of Some (PTerm t) \<Rightarrow> Some t | _ \<Rightarrow> None)"

definition has_pane :: "pane_id \<Rightarrow> ('v, 'g) core \<Rightarrow> bool" where
  "has_pane p c \<longleftrightarrow> panes c p \<noteq> None"

definition upd_track :: "pane_id \<Rightarrow> (agent_track \<Rightarrow> agent_track) \<Rightarrow> ('v, 'g) core \<Rightarrow> ('v, 'g) core" where
  "upd_track p f c = c\<lparr>agent_tracks := (agent_tracks c)(p := map_option f (agent_tracks c p))\<rparr>"

definition alloc_pane_id :: "('v, 'g) core \<Rightarrow> pane_id \<times> ('v, 'g) core" where
  "alloc_pane_id c = (next_pane c, c\<lparr>next_pane := next_pane c + 1\<rparr>)"

definition attached_count :: "session_id \<Rightarrow> ('v, 'g) core \<Rightarrow> nat" where
  "attached_count sid c = length (filter (\<lambda>(i, k). cl_session k = Some sid \<and> \<not> cl_control k) (clients c))"

definition ws_info :: "session_id \<Rightarrow> ('v, 'g) core \<Rightarrow> session_info option" where
  "ws_info sid c =
     (let n = length (filter (\<lambda>(i, k). cl_session k = Some sid) (clients c))
      in map_option (\<lambda>w. ws_session_info w n) (workspaces c sid))"

section \<open>Looking and sizing\<close>

definition touch_agent :: "('v, 'g) env \<Rightarrow> pane_id \<Rightarrow> ('v, 'g) core \<Rightarrow> ('v, 'g) core" where
  "touch_agent env p = upd_track p (touch (e_now env))"

definition look_at_pane :: "('v, 'g) env \<Rightarrow> pane_id \<Rightarrow> ('v, 'g) core \<Rightarrow> ('v, 'g) core" where
  "look_at_pane env p c = upd_track p look_at (upd_term p (acknowledge (e_emu env)) c)"

definition resize_pane :: "('v, 'g) env \<Rightarrow> pane_id \<Rightarrow> nat \<Rightarrow> nat \<Rightarrow> ('v, 'g) core \<Rightarrow> ('v, 'g) core" where
  "resize_pane env p rows cols = upd_term p (term_resize (e_emu env) rows cols)"

definition size_pane_for_viewer ::
    "('v, 'g) env \<Rightarrow> pane_id \<Rightarrow> nat \<Rightarrow> nat \<Rightarrow> ('v, 'g) core \<Rightarrow> ('v, 'g) core" where
  "size_pane_for_viewer env p rows cols c =
     (let rows = max rows 2; cols = max cols 2;
          c = resize_pane env p rows cols c
      in case find_ws (\<lambda>w. p \<in> set (all_panes w)) c of
           None \<Rightarrow> c
         | Some w \<Rightarrow> upd_ws (ws_id w) (\<lambda>w. w\<lparr>stage_size := Some (rows, cols)\<rparr>) c)"

definition UNWATCHED_PANE_SIZE :: "nat \<times> nat" where
  "UNWATCHED_PANE_SIZE = (24, 80)"

definition stage_size_of :: "session_id \<Rightarrow> ('v, 'g) core \<Rightarrow> nat \<times> nat" where
  "stage_size_of sid c =
     (case workspaces c sid of
        Some w \<Rightarrow> (case stage_size w of Some (r, k) \<Rightarrow> (max r 2, max k 2) | None \<Rightarrow> UNWATCHED_PANE_SIZE)
      | None \<Rightarrow> UNWATCHED_PANE_SIZE)"

definition watch_pane :: "('v, 'g) env \<Rightarrow> client_id \<Rightarrow> pane_id \<Rightarrow> ('v, 'g) core \<Rightarrow> ('v, 'g) core" where
  "watch_pane env i p c =
     (case client_of i c of None \<Rightarrow> c
      | Some k \<Rightarrow>
          if cl_pane k = None then send i (Error ''watch is only valid on a pane connection'') c
          else if \<not> has_pane p c then send i (Error (''no pane '' @ show_nat p)) c
          else let cols = cl_cols k; rows = cl_rows k;
                   c = upd_client i (\<lambda>k. k\<lparr>cl_pane := Some p, cl_last_frame := None\<rparr>) c;
                   c = size_pane_for_viewer env p rows cols c;
                   c = look_at_pane env p c
               in c\<lparr>dirty := True\<rparr>)"

definition resize_client :: "('v, 'g) env \<Rightarrow> client_id \<Rightarrow> nat \<Rightarrow> nat \<Rightarrow> ('v, 'g) core \<Rightarrow> ('v, 'g) core" where
  "resize_client env i cols rows c =
     (case client_of i c of None \<Rightarrow> c
      | Some k \<Rightarrow>
          (let c = upd_client i (\<lambda>k. k\<lparr>cl_cols := cols, cl_rows := rows, cl_last_frame := None\<rparr>) c;
               c = (case cl_pane k of Some p \<Rightarrow> size_pane_for_viewer env p rows cols c | None \<Rightarrow> c)
           in c\<lparr>dirty := True\<rparr>))"

end
