(* ===== verification/Core_Persist.thy ===== *)
theory Core_Persist
  imports Core_State
begin

text \<open>
  What outlives a daemon, from \<open>core.rs\<close>: the open workspaces with their agents and processes
  (\<open>persist_session\<close>), the recent output of their panes (\<open>capture_panes\<close>, \<open>write_dump\<close>) and
  forgetting both. The store is the value the JSON file holds and the dumps are a map from a
  workspace's key to its files; \<open>e_store_ok\<close>, \<open>e_dir_ok\<close> and \<open>e_dump_ok\<close> say which writes the
  file system accepts.
\<close>

section \<open>The saved session\<close>

text \<open>\<open>enumerate\<close> followed by \<open>filter_map\<close>, as both lists of a saved workspace are made.\<close>

fun enum_map :: "(nat \<Rightarrow> 'a \<Rightarrow> 'b option) \<Rightarrow> nat \<Rightarrow> 'a list \<Rightarrow> 'b list" where
  "enum_map f i [] = []"
| "enum_map f i (x # xs) =
     (case f i x of None \<Rightarrow> enum_map f (Suc i) xs | Some y \<Rightarrow> y # enum_map f (Suc i) xs)"

definition persist_agent :: "workspace \<Rightarrow> nat \<Rightarrow> pane_id \<Rightarrow> persisted_agent option" where
  "persist_agent w i p = map_option
     (\<lambda>m. \<lparr>pa_agent = am_name m, pa_dump = agent_dump i, pa_session_id = session_id m, pa_spoke = spoke m\<rparr>)
     (agent_meta_of w p)"

definition persist_process :: "workspace \<Rightarrow> nat \<Rightarrow> pane_id \<Rightarrow> persisted_process option" where
  "persist_process w i p = map_option
     (\<lambda>m. \<lparr>pp_name = pm_name m, pp_command = pm_command m, pp_ready = pm_ready m, pp_dump = proc_dump i\<rparr>)
     (proc_meta_of w p)"

definition persist_stage :: "workspace \<Rightarrow> string option" where
  "persist_stage w =
     (case stage w of None \<Rightarrow> None
      | Some s \<Rightarrow> or_else (map_option agent_dump (position (\<lambda>p. p = s) (agents w)))
                    (map_option proc_dump (position (\<lambda>p. p = s) (processes w))))"

definition persist_ws :: "workspace \<Rightarrow> persisted_workspace" where
  "persist_ws w =
     \<lparr>pw_name = ws_name w, pw_cwd = ws_cwd w, pw_key = workspace_key (ws_cwd w),
      pw_agents = enum_map (persist_agent w) 0 (agents w),
      pw_processes = enum_map (persist_process w) 0 (processes w), pw_stage = persist_stage w\<rparr>"

definition live_session :: "('v, 'g) core \<Rightarrow> persisted_workspace list" where
  "live_session c = map persist_ws (all_ws c)"

definition session_state :: "('v, 'g) core \<Rightarrow> persisted_workspace list" where
  "session_state c =
     (let live = live_session c
      in live @ filter (\<lambda>d. \<not> list_ex (\<lambda>w. pw_cwd w = pw_cwd d) live) (deferred c))"

definition persist_session :: "('v, 'g) env \<Rightarrow> ('v, 'g) core \<Rightarrow> ('v, 'g) core" where
  "persist_session env c =
     (if session_store c = None then c
      else if restoring c then c
      else if shutdown c then c
      else if e_store_ok env then c\<lparr>disk_session := Some (session_state c)\<rparr> else c)"

section \<open>The panes' output\<close>

text \<open>The bytes a dump of the pane would hold, and whether it was written.\<close>

definition dump_bytes :: "pane_id \<Rightarrow> ('v, 'g) core \<Rightarrow> string option" where
  "dump_bytes p c =
     (case term_of p c of None \<Rightarrow> None
      | Some t \<Rightarrow> if snapshot (history t) = [] then None
                  else Some (encode_dump (t_cols t) (t_rows t) (snapshot (history t))))"

definition write_dump ::
    "('v, 'g) env \<Rightarrow> ('v, 'g) core \<Rightarrow> string \<Rightarrow> string \<Rightarrow> pane_id \<Rightarrow> (string \<times> string) option" where
  "write_dump env c key fname p =
     (case dump_bytes p c of None \<Rightarrow> None
      | Some b \<Rightarrow> if e_dump_ok env key fname then Some (fname, b) else None)"

text \<open>What the directory of a workspace holds after the pass: what was written, the rest pruned.\<close>

definition ws_dumps :: "('v, 'g) env \<Rightarrow> ('v, 'g) core \<Rightarrow> workspace \<Rightarrow> (string \<times> string) list" where
  "ws_dumps env c w =
     (let key = workspace_key (ws_cwd w)
      in enum_map (\<lambda>i. write_dump env c key (agent_dump i)) 0 (agents w)
         @ enum_map (\<lambda>i. write_dump env c key (proc_dump i)) 0 (processes w))"

definition capture_ws ::
    "('v, 'g) env \<Rightarrow> ('v, 'g) core \<Rightarrow> workspace
     \<Rightarrow> (string \<Rightarrow> (string \<Rightarrow> string option) option) \<times> string set
     \<Rightarrow> (string \<Rightarrow> (string \<Rightarrow> string option) option) \<times> string set" where
  "capture_ws env c w = (\<lambda>(dumps, live).
     (let key = workspace_key (ws_cwd w)
      in if e_dir_ok env key then (dumps(key := Some (map_of (ws_dumps env c w))), insert key live)
         else (dumps, live)))"

definition capture_panes :: "('v, 'g) env \<Rightarrow> ('v, 'g) core \<Rightarrow> ('v, 'g) core" where
  "capture_panes env c =
     (if restoring c \<or> cfg_restore_bytes (cfg c) = 0 then c
      else if session_store c = None then c
      else let (dumps, live) = fold (capture_ws env c) (all_ws c) (disk_dumps c, {});
               live = live \<union> {k \<in> pw_key ` set (deferred c). k \<noteq> []}
           in c\<lparr>disk_dumps := (\<lambda>k. if k \<in> live then dumps k else None)\<rparr>)"

definition snapshot_for_restart :: "('v, 'g) env \<Rightarrow> ('v, 'g) core \<Rightarrow> ('v, 'g) core" where
  "snapshot_for_restart env c = capture_panes env (persist_session env c)"

definition forget_session :: "('v, 'g) env \<Rightarrow> ('v, 'g) core \<Rightarrow> ('v, 'g) core" where
  "forget_session env c =
     (let c = (if session_store c \<noteq> None \<and> e_store_ok env
               then c\<lparr>disk_session := None, disk_dumps := Map.empty\<rparr> else c)
      in c\<lparr>deferred := []\<rparr>)"

text \<open>A saved pane's output, as \<open>read_dump\<close> and \<open>decode_dump\<close> read it back.\<close>

definition read_dump :: "string \<Rightarrow> string \<Rightarrow> ('v, 'g) core \<Rightarrow> string option" where
  "read_dump key fname c =
     (case disk_dumps c key of None \<Rightarrow> None
      | Some files \<Rightarrow> (case files fname of None \<Rightarrow> None | Some b \<Rightarrow> if b = [] then None else Some b))"

definition saved_output :: "string \<Rightarrow> string \<Rightarrow> ('v, 'g) core \<Rightarrow> pane_dump option" where
  "saved_output key fname c = (case read_dump key fname c of None \<Rightarrow> None | Some raw \<Rightarrow> decode_dump raw)"

section \<open>Facts\<close>

lemma persist_session_frame [core_frame]:
  "workspaces (persist_session env c) = workspaces c" "ws_order (persist_session env c) = ws_order c"
  "panes (persist_session env c) = panes c" "clients (persist_session env c) = clients c"
  "next_pane (persist_session env c) = next_pane c" "next_ws (persist_session env c) = next_ws c"
  "shutdown (persist_session env c) = shutdown c" "restoring (persist_session env c) = restoring c"
  "session_store (persist_session env c) = session_store c" "deferred (persist_session env c) = deferred c"
  "sent (persist_session env c) = sent c" "launched (persist_session env c) = launched c"
  "cfg (persist_session env c) = cfg c" "disk_dumps (persist_session env c) = disk_dumps c"
  "git_refreshing (persist_session env c) = git_refreshing c"
  "git_refresh_again (persist_session env c) = git_refresh_again c" "scans (persist_session env c) = scans c"
  "agent_tracks (persist_session env c) = agent_tracks c" "core_feed (persist_session env c) = core_feed c"
  "resume_retry (persist_session env c) = resume_retry c" "git_ops (persist_session env c) = git_ops c"
  "git_op_seq (persist_session env c) = git_op_seq c"
  by (simp_all add: persist_session_def)

lemma capture_panes_frame [core_frame]:
  "workspaces (capture_panes env c) = workspaces c" "ws_order (capture_panes env c) = ws_order c"
  "panes (capture_panes env c) = panes c" "clients (capture_panes env c) = clients c"
  "next_pane (capture_panes env c) = next_pane c" "next_ws (capture_panes env c) = next_ws c"
  "shutdown (capture_panes env c) = shutdown c" "restoring (capture_panes env c) = restoring c"
  "session_store (capture_panes env c) = session_store c" "deferred (capture_panes env c) = deferred c"
  "sent (capture_panes env c) = sent c" "launched (capture_panes env c) = launched c"
  "cfg (capture_panes env c) = cfg c" "disk_session (capture_panes env c) = disk_session c"
  "git_refreshing (capture_panes env c) = git_refreshing c"
  "git_refresh_again (capture_panes env c) = git_refresh_again c" "scans (capture_panes env c) = scans c"
  by (simp_all add: capture_panes_def split_beta Let_def)

lemma enum_map_all:
  "(\<And>i x. x \<in> set xs \<Longrightarrow> f i x = Some (g i x)) \<Longrightarrow> enum_map f i xs = map (\<lambda>(j, x). g j x) (enumerate i xs)"
  by (induction xs arbitrary: i) auto

text \<open>Once the daemon is stopping, the store is frozen.\<close>

lemma persist_session_frozen: "shutdown c \<Longrightarrow> persist_session env c = c"
  by (simp add: persist_session_def)

end
