(* ===== verification/Core_Launch.thy ===== *)
theory Core_Launch
  imports Core_Persist
begin

text \<open>
  Starting panes, from \<open>core.rs\<close>: the argument vector of an agent with its conversation
  (\<open>expand_args\<close>, \<open>assigns_session\<close>, \<open>fresh_launch\<close>), \<open>spawn_terminal_replaying\<close>,
  \<open>spawn_agent_restoring\<close>, \<open>spawn_process\<close>, \<open>new_process\<close>, and the git rail of a workspace
  (\<open>request_git_refresh\<close> and the arrival of a scan or a probe). A child that cannot be started
  gives the error \<open>e_spawn\<close> names; a started one is recorded in \<open>launched\<close>.
\<close>

section \<open>Argument vectors\<close>

definition SESSION_PLACEHOLDER :: string where
  "SESSION_PLACEHOLDER = ''{session_id}''"

function replace_all :: "'a list \<Rightarrow> 'a list \<Rightarrow> 'a list \<Rightarrow> 'a list" where
  "replace_all p r s =
     (if p = [] then s
      else case strip_prefix p s of
        Some rest \<Rightarrow> r @ replace_all p r rest
      | None \<Rightarrow> (case s of [] \<Rightarrow> [] | c # cs \<Rightarrow> c # replace_all p r cs))"
  by pat_completeness auto
termination
  by (relation "measure (\<lambda>(p, r, s). length s)") (auto simp: strip_prefix_iff)

declare replace_all.simps [simp del]

definition needs_session :: "string list \<Rightarrow> bool" where
  "needs_session args = list_ex (contains SESSION_PLACEHOLDER) args"

definition expand_args :: "string list \<Rightarrow> string option \<Rightarrow> string list option" where
  "expand_args args sid =
     (if \<not> needs_session args then Some args
      else map_option (\<lambda>i. map (replace_all SESSION_PLACEHOLDER i) args) sid)"

definition assigns_session :: "agent_def \<Rightarrow> bool" where
  "assigns_session a = needs_session (ad_args a @ ad_resume_args a)"

definition fresh_launch :: "('v, 'g) env \<Rightarrow> pane_id \<Rightarrow> agent_def \<Rightarrow> string option \<times> string list" where
  "fresh_launch env n a =
     (let i = (if assigns_session a then Some (uuid_v4 (e_random env n)) else None);
          args = (case expand_args (ad_args a) i of Some x \<Rightarrow> x | None \<Rightarrow> ad_args a)
      in (i, args))"

section \<open>Starting a child\<close>

text \<open>What the label of a pane is made from: a launcher's own name is fixed.\<close>

datatype child =
  Shell
  | CommandLine string
  | Program string "string list" "(string \<times> string) list" string detect

definition shell_label :: "string \<Rightarrow> string" where
  "shell_label sh = (case file_name sh of Some n \<Rightarrow> n | None \<Rightarrow> sh)"

definition child_label :: "string \<Rightarrow> child \<Rightarrow> string" where
  "child_label sh kid = (case kid of Shell \<Rightarrow> shell_label sh | CommandLine cmd \<Rightarrow> cmd | Program prog _ _ _ _ \<Rightarrow> prog)"

definition launch_of ::
    "string \<Rightarrow> pane_id \<Rightarrow> session_id \<Rightarrow> path \<Rightarrow> child \<Rightarrow> nat \<times> nat \<Rightarrow> launch" where
  "launch_of sh p sid cwd kid dims =
     \<lparr>l_pane = p, l_ws = sid, l_cwd = cwd,
      l_program = (case kid of Shell \<Rightarrow> None | CommandLine cmd \<Rightarrow> Some cmd | Program prog _ _ _ _ \<Rightarrow> Some prog),
      l_args = (case kid of Program _ args _ _ _ \<Rightarrow> args | _ \<Rightarrow> []),
      l_env = (case kid of Program _ _ envs _ _ \<Rightarrow> envs | _ \<Rightarrow> []),
      l_via_shell = (case kid of CommandLine _ \<Rightarrow> True | _ \<Rightarrow> False), l_size = dims\<rparr>"

definition spawn_terminal_replaying ::
    "('v, 'g) env \<Rightarrow> session_id \<Rightarrow> path \<Rightarrow> child \<Rightarrow> nat \<times> nat \<Rightarrow> pane_dump option \<Rightarrow> ('v, 'g) core
     \<Rightarrow> (string + pane_id) \<times> ('v, 'g) core" where
  "spawn_terminal_replaying env sid cwd kid dims rep c =
     (let (p, c) = alloc_pane_id c; sh = config_shell env (cfg c) in
      case e_spawn env p of
        Some err \<Rightarrow> (Inl err, c)
      | None \<Rightarrow>
          (let t = term_new (e_emu env) (e_now env) (child_label sh kid)
                     (case kid of Program _ _ _ l _ \<Rightarrow> Some l | _ \<Rightarrow> None)
                     (case kid of Program _ _ _ _ d \<Rightarrow> Some d | _ \<Rightarrow> None)
                     (fst dims) (snd dims) (cfg_scrollback (cfg c)) (cfg_restore_bytes (cfg c)) rep
           in (Inr p, c\<lparr>panes := (panes c)(p := Some (PTerm t)),
                        launched := launched c @ [launch_of sh p sid cwd kid dims]\<rparr>)))"

definition set_stage :: "pane_id \<Rightarrow> workspace \<Rightarrow> workspace" where
  "set_stage p w = w\<lparr>stage := Some p\<rparr>"

definition add_agent :: "pane_id \<Rightarrow> agent_meta \<Rightarrow> workspace \<Rightarrow> workspace" where
  "add_agent p m w = w\<lparr>agents := agents w @ [p], agent_meta_of := (agent_meta_of w)(p := Some m)\<rparr>"

definition add_process :: "pane_id \<Rightarrow> proc_meta \<Rightarrow> workspace \<Rightarrow> workspace" where
  "add_process p m w = w\<lparr>processes := processes w @ [p], proc_meta_of := (proc_meta_of w)(p := Some m)\<rparr>"

text \<open>The conversation and the arguments of an agent, and whether it reopens a conversation.\<close>

definition agent_launch ::
    "('v, 'g) env \<Rightarrow> pane_id \<Rightarrow> agent_def \<Rightarrow> string option \<Rightarrow> bool \<Rightarrow> string option \<times> string list \<times> bool" where
  "agent_launch env n a session spk =
     (let reopening = session \<noteq> None \<and> spk \<and> ad_resume_args a \<noteq> [];
          fresh = (let (i, args) = fresh_launch env n a in (i, args, False))
      in if reopening
         then (case expand_args (ad_resume_args a) session of
                 Some args \<Rightarrow> (session, args, True) | None \<Rightarrow> fresh)
         else fresh)"

definition spawn_agent_restoring ::
    "('v, 'g) env \<Rightarrow> session_id \<Rightarrow> string \<Rightarrow> pane_dump option \<Rightarrow> string option \<Rightarrow> bool \<Rightarrow> bool
     \<Rightarrow> ('v, 'g) core \<Rightarrow> (string + pane_id) \<times> ('v, 'g) core" where
  "spawn_agent_restoring env sid nm rep session spk background c =
     (case config_agent nm (cfg c) of
        None \<Rightarrow> (Inl (''no agent named '' @ e_debug env nm @ '' in config''), c)
      | Some a \<Rightarrow>
         (case workspaces c sid of
            None \<Rightarrow> (Inl ''workspace gone'', c)
          | Some w \<Rightarrow>
             (let dims = stage_size_of sid c;
                  det = e_compile env (ad_name a) (ad_waiting a) (ad_busy a);
                  (conv, args, resumed) = agent_launch env (next_pane c) a session spk;
                  (r, c) = spawn_terminal_replaying env sid (ws_cwd w)
                             (Program (ad_command a) args (ad_env a) (ad_name a) det) dims rep c
              in case r of
                   Inl err \<Rightarrow> (Inl err, c)
                 | Inr p \<Rightarrow>
                    (let c = upd_ws sid (\<lambda>w.
                               let w = add_agent p \<lparr>am_name = ad_name a, session_id = conv, spoke = resumed\<rparr> w
                               in if background then w else set_stage p w) c;
                         c = (if resumed then c\<lparr>resume_retry := insert p (resume_retry c)\<rparr> else c);
                         c = c\<lparr>agent_tracks := (agent_tracks c)(p := Some (track_new (e_now env)))\<rparr>;
                         c = persist_session env c
                     in (Inr p, c\<lparr>dirty := True\<rparr>)))))"

definition spawn_agent ::
    "('v, 'g) env \<Rightarrow> session_id \<Rightarrow> string \<Rightarrow> ('v, 'g) core \<Rightarrow> (string + pane_id) \<times> ('v, 'g) core" where
  "spawn_agent env sid nm = spawn_agent_restoring env sid nm None None False False"

definition spawn_process ::
    "('v, 'g) env \<Rightarrow> session_id \<Rightarrow> path \<Rightarrow> proc_meta \<Rightarrow> bool \<Rightarrow> pane_dump option \<Rightarrow> ('v, 'g) core
     \<Rightarrow> (string + pane_id) \<times> ('v, 'g) core" where
  "spawn_process env sid cwd m on_stage rep c =
     (let kid = (if pm_command m = config_shell env (cfg c) then Shell else CommandLine (pm_command m));
          (r, c) = spawn_terminal_replaying env sid cwd kid (stage_size_of sid c) rep c
      in case r of
           Inl err \<Rightarrow> (Inl err, c)
         | Inr p \<Rightarrow>
            (let c = upd_ws sid (\<lambda>w. let w = add_process p m w in if on_stage then set_stage p w else w) c
             in (Inr p, c\<lparr>dirty := True\<rparr>)))"

definition new_process ::
    "('v, 'g) env \<Rightarrow> session_id \<Rightarrow> string \<Rightarrow> string option \<Rightarrow> ('v, 'g) core
     \<Rightarrow> (string + pane_id) \<times> ('v, 'g) core" where
  "new_process env sid nm cmd c =
     (case workspaces c sid of
        None \<Rightarrow> (Inl ''workspace gone'', c)
      | Some w \<Rightarrow>
         spawn_process env sid (ws_cwd w)
           \<lparr>pm_name = nm, pm_command = (case cmd of Some x \<Rightarrow> x | None \<Rightarrow> config_shell env (cfg c)),
            pm_ready = None, ready_seen = (cmd = None), ready_carry = []\<rparr> True None c)"

section \<open>The git rail\<close>

definition REPO_PROBE_MIN :: nat where "REPO_PROBE_MIN = 2000"
definition REPO_PROBE_MAX :: nat where "REPO_PROBE_MAX = 60000"

definition request_git_refresh :: "pane_id \<Rightarrow> ('v, 'g) core \<Rightarrow> ('v, 'g) core" where
  "request_git_refresh p c =
     (case panes c p of
        Some (PGit g) \<Rightarrow>
          if p \<in> git_refreshing c then c\<lparr>git_refresh_again := insert p (git_refresh_again c)\<rparr>
          else c\<lparr>git_refreshing := insert p (git_refreshing c), scans := scans c @ [p]\<rparr>
      | _ \<Rightarrow> c)"

text \<open>\<open>Event::GitRefreshed\<close>: the scan's answer, and the scan that was asked for meanwhile.\<close>

definition git_refreshed :: "('v, 'g) env \<Rightarrow> pane_id \<Rightarrow> 'g \<Rightarrow> ('v, 'g) core \<Rightarrow> ('v, 'g) core" where
  "git_refreshed env p snap c =
     (let c = c\<lparr>git_refreshing := git_refreshing c - {p}\<rparr>;
          c = (case panes c p of
                 Some (PGit g) \<Rightarrow> c\<lparr>panes := (panes c)(p := Some (PGit (e_git_apply env snap g))), dirty := True\<rparr>
               | _ \<Rightarrow> c)
      in if p \<in> git_refresh_again c
         then request_git_refresh p (c\<lparr>git_refresh_again := git_refresh_again c - {p}\<rparr>) else c)"

definition attach_new_repos :: "('v, 'g) env \<Rightarrow> ('v, 'g) core \<Rightarrow> ('v, 'g) core" where
  "attach_new_repos env c =
     (let due = filter (\<lambda>w. changes w = None \<and> ws_id w \<notin> repo_probing c
                            \<and> (case repo_probe_next c (ws_id w) of None \<Rightarrow> True | Some (at, _) \<Rightarrow> at \<le> e_now env))
                  (all_ws c)
      in c\<lparr>repo_probing := repo_probing c \<union> ws_id ` set due, probes := probes c @ map ws_id due\<rparr>)"

definition on_repo_probed :: "('v, 'g) env \<Rightarrow> session_id \<Rightarrow> 'g option \<Rightarrow> ('v, 'g) core \<Rightarrow> ('v, 'g) core" where
  "on_repo_probed env sid git c =
     (let c = c\<lparr>repo_probing := repo_probing c - {sid}\<rparr> in
      case git of
        None \<Rightarrow>
          (let nxt = (case repo_probe_next c sid of
                        Some (_, b) \<Rightarrow> min (b * 2) REPO_PROBE_MAX | None \<Rightarrow> REPO_PROBE_MIN)
           in c\<lparr>repo_probe_next := (repo_probe_next c)(sid := Some (e_now env + nxt, nxt))\<rparr>)
      | Some g \<Rightarrow>
          (let c = c\<lparr>repo_probe_next := (repo_probe_next c)(sid := None)\<rparr> in
           case workspaces c sid of
             None \<Rightarrow> c
           | Some w \<Rightarrow>
               if changes w \<noteq> None then c
               else (let (p, c) = alloc_pane_id c;
                         c = c\<lparr>panes := (panes c)(p := Some (PGit g))\<rparr>;
                         c = upd_ws sid (\<lambda>w. w\<lparr>changes := Some p\<rparr>) c;
                         c = request_git_refresh p c
                     in c\<lparr>dirty := True\<rparr>)))"

end
