(* ===== verification/Core_Life.thy ===== *)
theory Core_Life
  imports Core_Launch
begin

text \<open>
  The life of workspaces and panes, from \<open>core.rs\<close>: opening a workspace afresh or from what a
  previous daemon saved, closing one, a pane's exit and the one clean start of an agent that could
  not reopen its conversation, restoring a session and stopping the daemon.
\<close>

section \<open>Opening a workspace\<close>

definition shell_meta :: "string \<Rightarrow> proc_meta" where
  "shell_meta sh = \<lparr>pm_name = ''shell'', pm_command = sh, pm_ready = None, ready_seen = True, ready_carry = []\<rparr>"

definition open_shell ::
    "('v, 'g) env \<Rightarrow> workspace \<Rightarrow> ('v, 'g) core \<Rightarrow> (string + workspace \<times> pane_id option) \<times> ('v, 'g) core" where
  "open_shell env w c =
     (let sh = config_shell env (cfg c);
          (r, c) = spawn_terminal_replaying env (ws_id w) (ws_cwd w) Shell UNWATCHED_PANE_SIZE None c
      in case r of Inl err \<Rightarrow> (Inl err, c)
         | Inr p \<Rightarrow> (Inr (set_stage p (add_process p (shell_meta sh) w), Some p), c))"

definition open_changes :: "('v, 'g) env \<Rightarrow> workspace \<Rightarrow> ('v, 'g) core \<Rightarrow> workspace \<times> ('v, 'g) core" where
  "open_changes env w c =
     (case e_git_open env (ws_cwd w) of
        None \<Rightarrow> (w, c)
      | Some g \<Rightarrow>
         (let (p, c) = alloc_pane_id c;
              c = c\<lparr>panes := (panes c)(p := Some (PGit g))\<rparr>
          in (w\<lparr>changes := Some p\<rparr>, request_git_refresh p c)))"

definition install_ws :: "workspace \<Rightarrow> ('v, 'g) core \<Rightarrow> ('v, 'g) core" where
  "install_ws w c =
     c\<lparr>workspaces := (workspaces c)(ws_id w := Some w), ws_order := ws_order c @ [ws_id w],
       had_workspace := True, deferred := filter (\<lambda>d. pw_cwd d \<noteq> ws_cwd w) (deferred c)\<rparr>"

text \<open>The processes and agents of the workspace file; one that does not start is only logged.\<close>

definition start_file_process ::
    "('v, 'g) env \<Rightarrow> session_id \<Rightarrow> path \<Rightarrow> proc_def \<Rightarrow> ('v, 'g) core \<Rightarrow> ('v, 'g) core" where
  "start_file_process env sid cwd d c =
     snd (spawn_process env sid cwd
       \<lparr>pm_name = pdef_name d, pm_command = pdef_cmd d, pm_ready = pdef_ready d, ready_seen = False,
        ready_carry = []\<rparr> False None c)"

definition start_file_agent :: "('v, 'g) env \<Rightarrow> session_id \<Rightarrow> string \<Rightarrow> ('v, 'g) core \<Rightarrow> ('v, 'g) core" where
  "start_file_agent env sid nm c = snd (spawn_agent env sid nm c)"

definition start_file ::
    "('v, 'g) env \<Rightarrow> session_id \<Rightarrow> path \<Rightarrow> pane_id option \<Rightarrow> ws_file \<Rightarrow> ('v, 'g) core \<Rightarrow> ('v, 'g) core" where
  "start_file env sid cwd shell_pane file c =
     (let c = fold (start_file_process env sid cwd) (wf_processes file) c;
          c = fold (start_file_agent env sid) (wf_autostart file) c
      in case shell_pane of Some p \<Rightarrow> upd_ws sid (set_stage p) c | None \<Rightarrow> c)"

text \<open>What a previous daemon had running; the pane whose dump held the stage is remembered.\<close>

definition rebuild_process ::
    "('v, 'g) env \<Rightarrow> session_id \<Rightarrow> path \<Rightarrow> persisted_workspace \<Rightarrow> persisted_process
     \<Rightarrow> pane_id option \<times> ('v, 'g) core \<Rightarrow> pane_id option \<times> ('v, 'g) core" where
  "rebuild_process env sid cwd saved p = (\<lambda>(staged, c).
     (let m = \<lparr>pm_name = pp_name p, pm_command = pp_command p, pm_ready = pp_ready p,
               ready_seen = (pp_ready p = None), ready_carry = []\<rparr>;
          (r, c) = spawn_process env sid cwd m False (saved_output (pw_key saved) (pp_dump p) c) c
      in (case r of
            Inr q \<Rightarrow> if pw_stage saved = Some (pp_dump p) then Some q else staged
          | Inl _ \<Rightarrow> staged, c)))"

definition rebuild_agent ::
    "('v, 'g) env \<Rightarrow> session_id \<Rightarrow> persisted_workspace \<Rightarrow> persisted_agent
     \<Rightarrow> pane_id option \<times> ('v, 'g) core \<Rightarrow> pane_id option \<times> ('v, 'g) core" where
  "rebuild_agent env sid saved a = (\<lambda>(staged, c).
     (let (r, c) = spawn_agent_restoring env sid (pa_agent a) (saved_output (pw_key saved) (pa_dump a) c)
                     (pa_session_id a) (pa_spoke a) False c
      in (case r of
            Inr q \<Rightarrow> if pw_stage saved = Some (pa_dump a) then Some q else staged
          | Inl _ \<Rightarrow> staged, c)))"

definition rebuild_workspace_panes ::
    "('v, 'g) env \<Rightarrow> session_id \<Rightarrow> path \<Rightarrow> persisted_workspace \<Rightarrow> ('v, 'g) core \<Rightarrow> ('v, 'g) core" where
  "rebuild_workspace_panes env sid cwd saved c =
     (if session_store c = None then c
      else let (staged, c) = fold (rebuild_process env sid cwd saved) (pw_processes saved) (None, c);
               (staged, c) = fold (rebuild_agent env sid saved) (pw_agents saved) (staged, c)
           in upd_ws sid (\<lambda>w. case or_else staged (first_of (processes w)) of
                Some p \<Rightarrow> set_stage p w | None \<Rightarrow> w) c)"

definition rebuilding :: "persisted_workspace option \<Rightarrow> persisted_workspace option" where
  "rebuilding saved =
     (case saved of Some s \<Rightarrow> if pw_processes s = [] then None else Some s | None \<Rightarrow> None)"

definition create_workspace_restoring ::
    "('v, 'g) env \<Rightarrow> string \<Rightarrow> path \<Rightarrow> persisted_workspace option \<Rightarrow> ('v, 'g) core
     \<Rightarrow> (string + session_id) \<times> ('v, 'g) core" where
  "create_workspace_restoring env nm cwd saved c =
     (let sid = next_ws c; c = c\<lparr>next_ws := next_ws c + 1\<rparr>;
          cwd = (if cwd = [] then ''/'' else cwd);
          file = e_ws_file env cwd;
          w = (ws_new sid nm cwd)\<lparr>ws_autostart := wf_autostart file\<rparr>;
          (r, c) = (if rebuilding saved = None then open_shell env w c else (Inr (w, None), c))
      in case r of
           Inl err \<Rightarrow> (Inl err, c)
         | Inr (w, shell_pane) \<Rightarrow>
            (let (w, c) = open_changes env w c;
                 c = install_ws w c;
                 c = (case rebuilding saved of
                        Some s \<Rightarrow> rebuild_workspace_panes env sid cwd s c
                      | None \<Rightarrow> start_file env sid cwd shell_pane file c);
                 c = c\<lparr>dirty := True\<rparr>
             in (Inr sid, persist_session env c)))"

definition create_workspace ::
    "('v, 'g) env \<Rightarrow> string \<Rightarrow> path \<Rightarrow> ('v, 'g) core \<Rightarrow> (string + session_id) \<times> ('v, 'g) core" where
  "create_workspace env nm cwd = create_workspace_restoring env nm cwd None"

text \<open>The first free name, counting from 2; one more try than there are workspaces is enough.\<close>

fun name_loop :: "nat \<Rightarrow> string \<Rightarrow> string list \<Rightarrow> nat \<Rightarrow> string \<Rightarrow> string" where
  "name_loop 0 base used n nm = nm"
| "name_loop (Suc fuel) base used n nm =
     (if nm \<in> set used then name_loop fuel base used (n + 1) (base @ ''-'' @ show_nat n) else nm)"

definition workspace_for_cwd ::
    "('v, 'g) env \<Rightarrow> path \<Rightarrow> ('v, 'g) core \<Rightarrow> (string + session_id) \<times> ('v, 'g) core" where
  "workspace_for_cwd env dir c =
     (case find_ws (\<lambda>w. ws_cwd w = dir) c of
        Some w \<Rightarrow> (Inr (ws_id w), c)
      | None \<Rightarrow>
          (let used = map ws_name (all_ws c); base = default_ws_name dir
           in create_workspace env (name_loop (length used + 1) base used 2 base) dir c))"

section \<open>Closing\<close>

definition drop_panes :: "pane_id list \<Rightarrow> ('v, 'g) core \<Rightarrow> ('v, 'g) core" where
  "drop_panes ps c =
     c\<lparr>panes := (\<lambda>p. if p \<in> set ps then None else panes c p),
       git_refreshing := git_refreshing c - set ps, git_refresh_again := git_refresh_again c - set ps\<rparr>"

definition rehome :: "client_id \<Rightarrow> ('v, 'g) core \<Rightarrow> ('v, 'g) core" where
  "rehome i c =
     (if ws_order c = [] then detach i ''workspace closed'' c
      else upd_client i (\<lambda>k. k\<lparr>cl_session := Some (last (ws_order c)), cl_last_frame := None\<rparr>) c)"

definition kill_workspace :: "('v, 'g) env \<Rightarrow> session_id \<Rightarrow> ('v, 'g) core \<Rightarrow> ('v, 'g) core" where
  "kill_workspace env sid c =
     (case workspaces c sid of
        None \<Rightarrow> c
      | Some w \<Rightarrow>
         (let c = c\<lparr>workspaces := (workspaces c)(sid := None), ws_order := filter (\<lambda>s. s \<noteq> sid) (ws_order c)\<rparr>;
              c = persist_session env c;
              c = c\<lparr>repo_probe_next := (repo_probe_next c)(sid := None)\<rparr>;
              c = drop_panes (all_panes w) c;
              orphaned = map fst (filter (\<lambda>(i, k). cl_session k = Some sid) (clients c));
              c = fold rehome orphaned c
          in c\<lparr>dirty := True\<rparr>))"

definition drop_pane :: "('v, 'g) env \<Rightarrow> session_id \<Rightarrow> pane_id \<Rightarrow> ('v, 'g) core \<Rightarrow> ('v, 'g) core" where
  "drop_pane env sid p c =
     (let c = upd_ws sid (\<lambda>w. snd (forget_pane p w)) c;
          c = c\<lparr>panes := (panes c)(p := None), resume_retry := resume_retry c - {p}\<rparr>
      in persist_session env c)"

definition notify ::
    "('v, 'g) env \<Rightarrow> workspace \<Rightarrow> pane_id \<Rightarrow> string \<Rightarrow> notification_kind \<Rightarrow> nat option \<Rightarrow> ('v, 'g) core
     \<Rightarrow> ('v, 'g) core" where
  "notify env w p ttl nkind exited c =
     (let f = push_notification (e_at_ms env) (ws_id w) (ws_name w) p ttl nkind exited (core_feed c)
      in c\<lparr>core_feed := f, api_log := api_log c @ [EvNotification (last (notifications f))]\<rparr>)"

section \<open>A pane's exit\<close>

definition FRESH_START_NOTE :: string where
  "FRESH_START_NOTE =
     [CHR 0x0D, CHR 0x0A, CHR 0x1B] @ ''[33m[butai] could not reopen this conversation ''
     @ [CHR 0xE2, CHR 0x80, CHR 0x94] @ '' started a fresh one'' @ [CHR 0x1B] @ ''[0m'' @ [CHR 0x0D, CHR 0x0A]"

definition RESUME_RETRY_WINDOW :: nat where "RESUME_RETRY_WINDOW = 10000"

text \<open>The pane's place among the agents after the fresh one was appended.\<close>

definition move_agent :: "pane_id \<Rightarrow> nat \<Rightarrow> workspace \<Rightarrow> workspace" where
  "move_agent p idx w =
     (case position (\<lambda>q. q = p) (agents w) of
        None \<Rightarrow> w
      | Some cur \<Rightarrow> w\<lparr>agents := insert_nth (min idx (length (agents w) - 1)) p (remove_nth cur (agents w))\<rparr>)"

definition retry_failed_resume ::
    "('v, 'g) env \<Rightarrow> pane_id \<Rightarrow> nat \<Rightarrow> ('v, 'g) core \<Rightarrow> bool \<times> ('v, 'g) core" where
  "retry_failed_resume env p status c =
     (if status = 0 \<or> p \<notin> resume_retry c then (False, c)
      else let c = c\<lparr>resume_retry := resume_retry c - {p}\<rparr> in
        case term_of p c of
          None \<Rightarrow> (False, c)
        | Some t \<Rightarrow>
          if RESUME_RETRY_WINDOW \<le> age (e_now env) t then (False, c)
          else (case find_ws (\<lambda>w. p \<in> set (agents w)) c of
            None \<Rightarrow> (False, c)
          | Some w \<Rightarrow>
            (case (position (\<lambda>q. q = p) (agents w), agent_meta_of w p) of
               (Some idx, Some m) \<Rightarrow>
                 (let saved = map_option (\<lambda>b. b @ FRESH_START_NOTE) (dump_bytes p c);
                      sid = ws_id w; was_staged = (stage w = Some p); prior_stage = stage w;
                      c = drop_pane env sid p c;
                      rep = (case saved of None \<Rightarrow> None | Some b \<Rightarrow> decode_dump b);
                      (r, c) = spawn_agent_restoring env sid (am_name m) rep None False False c
                  in case r of
                       Inl err \<Rightarrow> (True, c)
                     | Inr q \<Rightarrow>
                        (let c = upd_ws sid (\<lambda>w.
                                   let w = move_agent q idx w
                                   in if \<not> was_staged
                                      then (case prior_stage of
                                              Some s \<Rightarrow> if s \<noteq> p then set_stage s w else w
                                            | None \<Rightarrow> w)
                                      else w) c;
                             msg = am_name m @ '': could not reopen its conversation ''
                                   @ [CHR 0xE2, CHR 0x80, CHR 0x94] @ '' started a fresh one'';
                             watching = map fst (filter (\<lambda>(i, k). cl_session k = Some sid) (clients c));
                             c = fold (\<lambda>i. report_error i msg) watching c;
                             c = persist_session env c
                         in (True, c\<lparr>dirty := True\<rparr>)))
             | _ \<Rightarrow> (False, c))))"

definition is_shell_row :: "workspace \<Rightarrow> pane_id \<Rightarrow> bool" where
  "is_shell_row w p = (case proc_meta_of w p of Some m \<Rightarrow> pm_name m = ''shell'' | None \<Rightarrow> False)"

definition agent_exited ::
    "('v, 'g) env \<Rightarrow> workspace \<Rightarrow> pane_id \<Rightarrow> nat \<Rightarrow> ('v, 'g) core \<Rightarrow> ('v, 'g) core" where
  "agent_exited env w p status c =
     (if status = 0 then drop_pane env (ws_id w) p c
      else let sd = (case agent_tracks c p of Some tr \<Rightarrow> seeded tr | None \<Rightarrow> False);
               c = (if sd then (case term_of p c of
                      Some t \<Rightarrow> notify env w p (agent_title (e_emu env) t) NExited (Some status) c
                    | None \<Rightarrow> c) else c)
           in upd_track p (\<lambda>tr. tr\<lparr>at_exited := Some status\<rparr>) c)"

definition on_pane_exited :: "('v, 'g) env \<Rightarrow> pane_id \<Rightarrow> nat \<Rightarrow> ('v, 'g) core \<Rightarrow> ('v, 'g) core" where
  "on_pane_exited env p status c =
     (let c = upd_term p (mark_exited status) c;
          (retried, c) = retry_failed_resume env p status c
      in if retried then c
         else let c = c\<lparr>resume_retry := resume_retry c - {p}\<rparr> in
         case find_ws (\<lambda>w. p \<in> set (agents w)) c of
           Some w \<Rightarrow> (agent_exited env w p status c)\<lparr>dirty := True\<rparr>
         | None \<Rightarrow>
            (case find_ws (\<lambda>w. agents w = [] \<and> processes w = [p] \<and> is_shell_row w p) c of
               Some w \<Rightarrow> (kill_workspace env (ws_id w) c)\<lparr>dirty := True\<rparr>
             | None \<Rightarrow>
                (case find_ws (\<lambda>w. p \<in> set (processes w)) c of
                   Some w \<Rightarrow> (if is_shell_row w p \<or> status = 0 then drop_pane env (ws_id w) p c else c)\<lparr>dirty := True\<rparr>
                 | None \<Rightarrow> c\<lparr>dirty := True\<rparr>)))"

section \<open>Restoring and stopping\<close>

definition restore_ws :: "('v, 'g) env \<Rightarrow> persisted_workspace \<Rightarrow> ('v, 'g) core \<Rightarrow> ('v, 'g) core" where
  "restore_ws env pw c =
     (if \<not> e_is_dir env (pw_cwd pw) then c\<lparr>deferred := deferred c @ [pw]\<rparr>
      else if find_ws (\<lambda>w. ws_cwd w = pw_cwd pw) c \<noteq> None then c
      else (let (r, c) = create_workspace_restoring env (pw_name pw) (pw_cwd pw) (Some pw) c
            in case r of Inl err \<Rightarrow> c\<lparr>deferred := deferred c @ [pw]\<rparr> | Inr sid \<Rightarrow> c))"

definition restore_session :: "('v, 'g) env \<Rightarrow> ('v, 'g) core \<Rightarrow> ('v, 'g) core" where
  "restore_session env c =
     (if session_store c = None then c
      else case disk_session c of
        None \<Rightarrow> c
      | Some pws \<Rightarrow>
          if pws = [] then c
          else let c = fold (restore_ws env) pws (c\<lparr>restoring := True\<rparr>)
               in persist_session env (c\<lparr>restoring := False\<rparr>))"

definition teardown :: "('v, 'g) env \<Rightarrow> ('v, 'g) core \<Rightarrow> ('v, 'g) core" where
  "teardown env c =
     (let c = c\<lparr>shutdown := True\<rparr>;
          c = fold (\<lambda>i. detach i DETACH_SERVER_SHUTDOWN) (map fst (clients c)) c
      in fold (kill_workspace env) (ws_order c) c)"

definition kill_server :: "('v, 'g) env \<Rightarrow> bool \<Rightarrow> ('v, 'g) core \<Rightarrow> ('v, 'g) core" where
  "kill_server env clear c =
     teardown env (if clear then forget_session env c else snapshot_for_restart env c)"

definition should_exit :: "('v, 'g) core \<Rightarrow> bool" where
  "should_exit c =
     (case mode c of
        Standalone \<Rightarrow> had_client c \<and> clients c = []
      | Daemon \<Rightarrow> cfg_exit_when_empty (cfg c) \<and> had_workspace c \<and> ws_order c = [])"

end
