(* ===== verification/Core_Io.thy ===== *)
theory Core_Io
  imports Core_Life Selection
begin

text \<open>
  Input, output and rendering, from \<open>core.rs\<close>: a client's keys, paste and mouse on the pane it
  streams, the text selection it drags, the frame it is sent, the bell, and a burst of a program's
  output with the announcements in it.
\<close>

section \<open>The bell\<close>

definition check_needs :: "('v, 'g) env \<Rightarrow> pane_id \<Rightarrow> ('v, 'g) core \<Rightarrow> bool" where
  "check_needs env p c =
     (case term_of p c of None \<Rightarrow> False | Some t \<Rightarrow> attention_of (e_emu env) (e_now env) t = Waiting)"

definition views :: "session_id \<Rightarrow> pane_id list \<Rightarrow> client \<Rightarrow> bool" where
  "views sid ps k \<longleftrightarrow> \<not> cl_control k
     \<and> (cl_session k = Some sid \<or> (case cl_pane k of Some p \<Rightarrow> p \<in> set ps | None \<Rightarrow> False))"

definition ring_bell :: "session_id \<Rightarrow> ('v, 'g) core \<Rightarrow> ('v, 'g) core" where
  "ring_bell sid c =
     (let ps = (case workspaces c sid of Some w \<Rightarrow> all_panes w | None \<Rightarrow> [])
      in c\<lparr>sent := sent c @ map (\<lambda>(i, k). (i, Bell)) (filter (\<lambda>(i, k). views sid ps k) (clients c))\<rparr>)"

definition check_agent_bell :: "('v, 'g) env \<Rightarrow> pane_id \<Rightarrow> ('v, 'g) core \<Rightarrow> ('v, 'g) core" where
  "check_agent_bell env p c =
     (let needs = check_needs env p c in
      case find_ws (\<lambda>w. p \<in> set (agents w)) c of
        None \<Rightarrow> c
      | Some w \<Rightarrow>
          if needs
          then (if p \<in> agent_alerted c then c
                else ring_bell (ws_id w) (c\<lparr>agent_alerted := insert p (agent_alerted c)\<rparr>))
          else c\<lparr>agent_alerted := agent_alerted c - {p}\<rparr>)"

section \<open>A program's output\<close>

definition on_remote_announce ::
    "('v, 'g) env \<Rightarrow> pane_id \<Rightarrow> string \<times> string \<Rightarrow> ('v, 'g) core \<Rightarrow> ('v, 'g) core" where
  "on_remote_announce env p = (\<lambda>(hint, socket) c.
     (let (args, target) = (case (if term_of p c = None then None else e_dial env p) of
                              Some d \<Rightarrow> d | None \<Rightarrow> ([], []))
      in c\<lparr>api_log := api_log c @ [EvRemoteAnnounce p hint socket target args]\<rparr>))"

definition scan_ready :: "('v, 'g) env \<Rightarrow> pane_id \<Rightarrow> string \<Rightarrow> ('v, 'g) core \<Rightarrow> ('v, 'g) core" where
  "scan_ready env p bytes c =
     (case find_ws (\<lambda>w. proc_meta_of w p \<noteq> None) c of
        None \<Rightarrow> c
      | Some w \<Rightarrow> upd_ws (ws_id w) (\<lambda>w. w\<lparr>proc_meta_of :=
          (proc_meta_of w)(p := map_option (ready_scan (e_lossy env) bytes) (proc_meta_of w p))\<rparr>) c)"

definition on_pty_output :: "('v, 'g) env \<Rightarrow> pane_id \<Rightarrow> string \<Rightarrow> ('v, 'g) core \<Rightarrow> ('v, 'g) core" where
  "on_pty_output env p bytes c =
     (let c = scan_ready env p bytes c;
          (ann, c) = (case term_of p c of
             None \<Rightarrow> ([], c)
           | Some t \<Rightarrow>
              (let (ann, t) = take_announcements (feed_output (e_emu env) (e_now env) bytes t)
               in (ann, c\<lparr>panes := (panes c)(p := Some (PTerm t)), dirty := True\<rparr>)));
          c = fold (on_remote_announce env p) ann c;
          c = check_agent_bell env p c
      in touch_agent env p c)"

section \<open>Input\<close>

definition is_speech :: "input_event \<Rightarrow> bool" where
  "is_speech ev = (case ev of Key _ \<Rightarrow> True | Paste _ \<Rightarrow> True | _ \<Rightarrow> False)"

definition note_agent_spoken ::
    "('v, 'g) env \<Rightarrow> pane_id \<Rightarrow> input_event \<Rightarrow> ('v, 'g) core \<Rightarrow> ('v, 'g) core" where
  "note_agent_spoken env p ev c =
     (if \<not> is_speech ev then c
      else case find_ws (\<lambda>w. agent_meta_of w p \<noteq> None) c of
        None \<Rightarrow> c
      | Some w \<Rightarrow>
         (case agent_meta_of w p of
            None \<Rightarrow> c
          | Some m \<Rightarrow>
             (let c = upd_ws (ws_id w) (\<lambda>w. w\<lparr>agent_meta_of := (agent_meta_of w)(p := Some (m\<lparr>spoke := True\<rparr>))\<rparr>) c
              in if spoke m then c else persist_session env c)))"

definition wants_mouse_of :: "('v, 'g) env \<Rightarrow> pane_id \<Rightarrow> ('v, 'g) core \<Rightarrow> bool" where
  "wants_mouse_of env p c =
     (case term_of p c of None \<Rightarrow> False | Some t \<Rightarrow> em_mouse (e_emu env) (emulator t))"

definition pane_mouse_down ::
    "('v, 'g) env \<Rightarrow> client_id \<Rightarrow> pane_id \<Rightarrow> nat \<Rightarrow> nat \<Rightarrow> bool \<Rightarrow> ('v, 'g) core \<Rightarrow> ('v, 'g) core" where
  "pane_mouse_down env i p x y al c =
     (if wants_mouse_of env p c \<and> \<not> al then (upd_term p (send_mouse Click x y) c)\<lparr>dirty := True\<rparr>
      else (upd_client i (\<lambda>k. k\<lparr>cl_sel_anchor := Some (x, y), cl_sel := None\<rparr>) c)\<lparr>dirty := True\<rparr>)"

definition pane_mouse_drag ::
    "('v, 'g) env \<Rightarrow> client_id \<Rightarrow> pane_id \<Rightarrow> nat \<Rightarrow> nat \<Rightarrow> bool \<Rightarrow> ('v, 'g) core \<Rightarrow> ('v, 'g) core" where
  "pane_mouse_drag env i p x y al c =
     (if \<not> al \<and> wants_mouse_of env p c then c
      else case client_of i c of
        None \<Rightarrow> c
      | Some k \<Rightarrow>
         (case cl_sel_anchor k of
            None \<Rightarrow> c
          | Some a \<Rightarrow> (upd_client i (\<lambda>k. k\<lparr>cl_sel := Some (a, (x, y))\<rparr>) c)\<lparr>dirty := True\<rparr>))"

definition pane_wheel ::
    "('v, 'g) env \<Rightarrow> pane_id \<Rightarrow> nat \<Rightarrow> nat \<Rightarrow> bool \<Rightarrow> ('v, 'g) core \<Rightarrow> ('v, 'g) core" where
  "pane_wheel env p x y up c =
     (if wants_mouse_of env p c
      then (upd_term p (send_mouse (if up then WheelUp else WheelDown) x y) c)\<lparr>dirty := True\<rparr>
      else (upd_term p (scroll_lines (e_emu env) (if up then - WHEEL_LINES else WHEEL_LINES)) c)\<lparr>dirty := True\<rparr>)"

definition finish_selection :: "client_id \<Rightarrow> ('v, 'g) core \<Rightarrow> ('v, 'g) core" where
  "finish_selection i c =
     (let c = (case client_of i c of
                 None \<Rightarrow> c
               | Some k \<Rightarrow>
                  (case cl_sel k of
                     None \<Rightarrow> c
                   | Some (a, b) \<Rightarrow>
                      (let txt = (case cl_last_frame k of Some f \<Rightarrow> extract_selection f a b | None \<Rightarrow> [])
                       in if trim txt \<noteq> [] then send i (SetClipboard txt) c else c)));
          c = upd_client i (\<lambda>k. k\<lparr>cl_sel := None, cl_sel_anchor := None\<rparr>) c
      in c\<lparr>dirty := True\<rparr>)"

definition route_pane_input ::
    "('v, 'g) env \<Rightarrow> client_id \<Rightarrow> pane_id \<Rightarrow> input_event \<Rightarrow> ('v, 'g) core \<Rightarrow> ('v, 'g) core" where
  "route_pane_input env i p ev c =
     (let c = (case client_of i c of
                 Some k \<Rightarrow> resize_pane env p (max (cl_rows k) 2) (max (cl_cols k) 2) c | None \<Rightarrow> c)
      in if \<not> has_pane p c then detach i ''pane closed'' c
         else case ev of
           MouseDown x y al b \<Rightarrow> if b = BtnLeft then pane_mouse_down env i p x y al c else c
         | MouseDrag x y al \<Rightarrow> pane_mouse_drag env i p x y al c
         | MouseUp x y \<Rightarrow> finish_selection i c
         | ScrollUp x y \<Rightarrow> pane_wheel env p x y True c
         | ScrollDown x y \<Rightarrow> pane_wheel env p x y False c
         | _ \<Rightarrow>
            (let c = note_agent_spoken env p ev c
             in (upd_term p (handle_input (e_emu env) ev) c)\<lparr>dirty := True\<rparr>))"

definition route_input ::
    "('v, 'g) env \<Rightarrow> client_id \<Rightarrow> input_event \<Rightarrow> ('v, 'g) core \<Rightarrow> ('v, 'g) core" where
  "route_input env i ev c =
     (case (case client_of i c of Some k \<Rightarrow> cl_pane k | None \<Rightarrow> None) of
        None \<Rightarrow> report_error i (''input needs a pane '' @ [CHR 0xE2, CHR 0x80, CHR 0x94]
                 @ '' attach to one, or send a command'') c
      | Some p \<Rightarrow> route_pane_input env i p ev c)"

section \<open>Rendering\<close>

definition render_pane_client :: "('v, 'g) env \<Rightarrow> client_id \<Rightarrow> ('v, 'g) core \<Rightarrow> ('v, 'g) core" where
  "render_pane_client env i c =
     (case client_of i c of
        None \<Rightarrow> c
      | Some k \<Rightarrow>
         (case cl_pane k of
            None \<Rightarrow> c
          | Some p \<Rightarrow>
             (let cols = max (cl_cols k) 2; rows = max (cl_rows k) 2 in
              case panes c p of
                None \<Rightarrow> detach i ''pane closed'' c
              | Some (PGit g) \<Rightarrow>
                  detach i ''pane has no screen''
                    (send i (Error (''that pane has no screen '' @ [CHR 0xE2, CHR 0x80, CHR 0x94]
                       @ '' read it from /v1/* instead'')) c)
              | Some (PTerm t) \<Rightarrow>
                  (let buf = e_render env (emulator t) rows cols;
                       buf = (case cl_sel k of Some (a, b) \<Rightarrow> highlight_selection buf a b | None \<Rightarrow> buf);
                       upd = (diff_to_frame (e_width env) (e_diff env) (cl_last_frame k) buf
                                (term_cursor (e_emu env) t))
                             \<lparr>wants_mouse := em_mouse (e_emu env) (emulator t)\<rparr>;
                       c = upd_client i (\<lambda>k. k\<lparr>cl_last_frame := Some buf\<rparr>) c
                   in if full upd \<or> cells upd \<noteq> [] \<or> cursor upd \<noteq> None
                      then send i (Frame upd) c else c))))"

definition render_all :: "('v, 'g) env \<Rightarrow> ('v, 'g) core \<Rightarrow> ('v, 'g) core" where
  "render_all env c =
     fold (render_pane_client env)
       (map fst (filter (\<lambda>(i, k). \<not> cl_control k \<and> cl_pane k \<noteq> None) (clients c))) c"

end
