(* ===== verification/Core_Serve.thy ===== *)
theory Core_Serve
  imports Core_Io "HOL-Library.List_Lexorder" "HOL-Library.Char_ord"
begin

text \<open>
  What clients ask of the core, \<open>core.rs\<close>: attaching (\<open>attach_client\<close>), the commands
  (\<open>exec_command\<close>), pasted files (\<open>put_file\<close>, \<open>prune_scratch\<close>) and the message dispatch
  \<open>handle_client_msg\<close>.
\<close>

section \<open>Pasted files\<close>

definition SCRATCH_KEEP :: nat where "SCRATCH_KEEP = 32"

text \<open>The parent of a file's path: all before its last slash.\<close>

definition parent_dir :: "path \<Rightarrow> path option" where
  "parent_dir p =
     (let r = dropWhile (\<lambda>c. c \<noteq> CHR ''/'') (rev p)
      in if p = [] \<or> p = ''/'' then None
         else if r = [] then Some []
         else Some (if tl r = [] then ''/'' else rev (tl r)))"

definition scratch_dir :: "('v, 'g) env \<Rightarrow> session_id \<Rightarrow> ('v, 'g) core \<Rightarrow> path option" where
  "scratch_dir env sid c =
     (let root = (case session_store c of
                    Some store \<Rightarrow> join_path (case parent_dir store of Some d \<Rightarrow> d | None \<Rightarrow> ''.'') ''scratch''
                  | None \<Rightarrow> join_path (e_butai_dir env) ''scratch'')
      in map_option (\<lambda>w. join_path root (workspace_key (ws_cwd w))) (workspaces c sid))"

definition put_file_ws :: "client_id \<Rightarrow> ('v, 'g) core \<Rightarrow> session_id option" where
  "put_file_ws i c =
     (case client_of i c of None \<Rightarrow> None
      | Some k \<Rightarrow>
         (case cl_session k of Some sid \<Rightarrow> Some sid
          | None \<Rightarrow> (case cl_pane k of None \<Rightarrow> None
             | Some p \<Rightarrow> map_option ws_id (find_ws (\<lambda>w. p \<in> set (all_panes w)) c))))"

type_synonym scratch = "(path \<times> string \<times> u8 list) list"

definition prune_scratch :: "path \<Rightarrow> scratch \<Rightarrow> scratch" where
  "prune_scratch dir fs =
     (let names = map (\<lambda>(d, n, b). n) (filter (\<lambda>(d, n, b). d = dir) fs) in
      if length names \<le> SCRATCH_KEEP then fs
      else let doomed = take (length names - SCRATCH_KEEP) (sort names)
           in filter (\<lambda>(d, n, b). \<not> (d = dir \<and> n \<in> set doomed)) fs)"

definition write_scratch :: "path \<Rightarrow> string \<Rightarrow> u8 list \<Rightarrow> scratch \<Rightarrow> scratch" where
  "write_scratch dir n b fs = filter (\<lambda>(d, m, x). \<not> (d = dir \<and> m = n)) fs @ [(dir, n, b)]"

definition b64_message :: "('v, 'g) env \<Rightarrow> b64_error \<Rightarrow> string" where
  "b64_message env e =
     (case e of Invalid_character b \<Rightarrow> ''invalid base64 character '' @ e_debug_char env b
      | Truncated \<Rightarrow> ''truncated base64'')"

definition put_limit :: string where
  "put_limit = ''file too large (limit '' @ show_nat (MAX_PUT_FILE_BYTES div 1024 div 1024) @ '' MiB)''"

definition put_file ::
    "('v, 'g) env \<Rightarrow> client_id \<Rightarrow> string \<Rightarrow> string \<Rightarrow> ('v, 'g) core \<Rightarrow> (string + path) \<times> ('v, 'g) core" where
  "put_file env i nm data c =
     (case put_file_ws i c of
        None \<Rightarrow> (Inl ''no workspace to paste into'', c)
      | Some sid \<Rightarrow>
         if MAX_PUT_FILE_BYTES < length data div 4 * 3 then (Inl put_limit, c)
         else case Base64.decode data of
           Inl e \<Rightarrow> (Inl (b64_message env e), c)
         | Inr bytes \<Rightarrow>
            if bytes = [] then (Inl ''empty file'', c)
            else if MAX_PUT_FILE_BYTES < length bytes then (Inl put_limit, c)
            else (case scratch_dir env sid c of
              None \<Rightarrow> (Inl ''no workspace to paste into'', c)
            | Some dir \<Rightarrow>
               (case e_scratch_error env dir of
                  Some e \<Rightarrow> (Inl (dir @ '': '' @ e), c)
                | None \<Rightarrow>
                   (let c = c\<lparr>put_seq := put_seq c + 1\<rparr>;
                        n = pad6 (put_seq c) @ ''-'' @ scratch_name nm;
                        p = join_path dir n
                    in case e_scratch_error env p of
                         Some e \<Rightarrow> (Inl (p @ '': '' @ e), c)
                       | None \<Rightarrow>
                          (let c = c\<lparr>scratch_files := prune_scratch dir (write_scratch dir n bytes (scratch_files c))\<rparr>
                           in (Inr p, route_input env i (Paste p) c))))))"

section \<open>Attaching\<close>

definition SERVER_VERSION :: "string option" where
  "SERVER_VERSION = Some ''1.3.0''"

definition server_hello :: "session_info option \<Rightarrow> server_msg" where
  "server_hello info = SHello PROTOCOL_VERSION info SERVER_VERSION"

definition attach_pane ::
    "('v, 'g) env \<Rightarrow> client_id \<Rightarrow> nat \<Rightarrow> nat \<Rightarrow> pane_id \<Rightarrow> ('v, 'g) core \<Rightarrow> ('v, 'g) core" where
  "attach_pane env i cols rows p c =
     (if \<not> has_pane p c then detach i ''no such pane'' (send i (Error (''no pane '' @ show_nat p)) c)
      else let c = upd_client i (\<lambda>k. k\<lparr>cl_pane := Some p, cl_session := None, cl_cols := cols, cl_rows := rows,
                                       cl_last_frame := None\<rparr>) c;
               c = size_pane_for_viewer env p rows cols c;
               c = look_at_pane env p c;
               c = send i (server_hello None) c
           in c\<lparr>dirty := True\<rparr>)"

text \<open>Which workspace a session target names: the reason of a refusal, or the workspace.\<close>

definition attach_target_ws ::
    "('v, 'g) env \<Rightarrow> attach_target \<Rightarrow> path \<Rightarrow> ('v, 'g) core \<Rightarrow> (string \<times> string + session_id) \<times> ('v, 'g) core" where
  "attach_target_ws env target cwd c =
     (let failed = (\<lambda>r. case r of
            (Inl e, c) \<Rightarrow> (Inl (''failed to create workspace: '' @ e, ''workspace create failed''), c)
          | (Inr sid, c) \<Rightarrow> (Inr sid, c)) in
      case target of
        AttachTo n \<Rightarrow>
          (case find_ws (\<lambda>w. ws_name w = n) c of
             Some w \<Rightarrow> (Inr (ws_id w), c)
           | None \<Rightarrow> (Inl (''no workspace named '' @ e_debug env n, ''no such workspace''), c))
      | AttachNew n _ \<Rightarrow>
          (let nm = (case n of Some x \<Rightarrow> x | None \<Rightarrow> default_ws_name cwd) in
           if find_ws (\<lambda>w. ws_name w = nm) c \<noteq> None
           then (Inl (''workspace '' @ e_debug env nm @ '' already exists'', ''duplicate workspace''), c)
           else failed (create_workspace env nm cwd c))
      | _ \<Rightarrow>
          (if cwd \<noteq> [] \<and> cwd \<noteq> ''/'' then failed (workspace_for_cwd env cwd c)
           else if ws_order c \<noteq> [] then (Inr (last (ws_order c)), c)
           else failed (create_workspace env (default_ws_name cwd) cwd c)))"

definition attach_client ::
    "('v, 'g) env \<Rightarrow> client_id \<Rightarrow> nat \<Rightarrow> nat \<Rightarrow> attach_target \<Rightarrow> path \<Rightarrow> ('v, 'g) core \<Rightarrow> ('v, 'g) core" where
  "attach_client env i cols rows target cwd c =
     (case target of
        Control \<Rightarrow> send i (server_hello None) (upd_client i (\<lambda>k. k\<lparr>cl_control := True\<rparr>) c)
      | PaneTarget p \<Rightarrow> attach_pane env i cols rows p c
      | _ \<Rightarrow>
         (let (r, c) = attach_target_ws env target cwd c in
          case r of
            Inl (msg, reason) \<Rightarrow> detach i reason (send i (Error msg) c)
          | Inr sid \<Rightarrow>
             (let info = ws_info sid c;
                  c = upd_client i (\<lambda>k. k\<lparr>cl_session := Some sid, cl_cols := cols, cl_rows := rows,
                                          cl_last_frame := None\<rparr>) c;
                  c = send i (server_hello info) c
              in c\<lparr>dirty := True\<rparr>)))"

section \<open>Commands\<close>

definition report_result ::
    "client_id \<Rightarrow> (string + 'a) \<times> ('v, 'g) core \<Rightarrow> ('v, 'g) core" where
  "report_result i r = (case r of (Inl e, c) \<Rightarrow> report_error i e c | (Inr _, c) \<Rightarrow> c)"

definition scroll_target :: "client_id \<Rightarrow> ('v, 'g) core \<Rightarrow> pane_id option" where
  "scroll_target i c =
     (case client_of i c of None \<Rightarrow> None
      | Some k \<Rightarrow> or_else (cl_pane k)
          (case cl_session k of None \<Rightarrow> None
           | Some sid \<Rightarrow> (case workspaces c sid of None \<Rightarrow> None | Some w \<Rightarrow> stage w)))"

definition FIXED_RAILS :: string where
  "FIXED_RAILS = ''the workbench has fixed rails, not free panes '' @ EM_DASH
     @ '' Alt-a/p/g/e focus them, Alt-l resizes, the agent picker and :process fill them''"

definition OWN_VIEW :: string where
  "OWN_VIEW = ''the workbench has fixed rails, not free panes '' @ EM_DASH
     @ '' and menus, zoom and the agent panel are each client'' @ [CHR 0x27]
     @ ''s own view, drawn from /v1/*''"

definition OPEN_FILE :: string where
  "OPEN_FILE = ''opening a file is the client'' @ [CHR 0x27] @ ''s '' @ EM_DASH
     @ '' read it from /v1/workspaces/{id}/file and draw it''"

definition THEMES :: string where
  "THEMES = ''themes are the client'' @ [CHR 0x27] @ ''s '' @ EM_DASH @ '' the daemon sends a program''
     @ [CHR 0x27] @ ''s own colours and nothing else''"

definition PINNED :: string where
  "PINNED = ''the pinned agent is the client'' @ [CHR 0x27] @ ''s '' @ EM_DASH
     @ '' set `[general] default_agent` in your own config''"

definition exec_command ::
    "('v, 'g) env \<Rightarrow> client_id \<Rightarrow> command \<Rightarrow> ('v, 'g) core \<Rightarrow> ('v, 'g) core" where
  "exec_command env i cmd c =
     (let sid = (case client_of i c of Some k \<Rightarrow> cl_session k | None \<Rightarrow> None) in
      case cmd of
        SpawnAgent n \<Rightarrow> (case sid of Some s \<Rightarrow> report_result i (spawn_agent env s n c) | None \<Rightarrow> c)
      | NewProcess n cl \<Rightarrow> (case sid of Some s \<Rightarrow> report_result i (new_process env s n (Some cl) c) | None \<Rightarrow> c)
      | ClosePane \<Rightarrow>
          (case sid of None \<Rightarrow> c
           | Some s \<Rightarrow>
              (case (case workspaces c s of Some w \<Rightarrow> stage w | None \<Rightarrow> None) of
                 Some p \<Rightarrow> (drop_pane env s p c)\<lparr>dirty := True\<rparr>
               | None \<Rightarrow> c))
      | ScrollPage pages \<Rightarrow>
          (case scroll_target i c of None \<Rightarrow> c
           | Some p \<Rightarrow> if has_pane p c then (upd_term p (scroll_page (e_emu env) pages) c)\<lparr>dirty := True\<rparr> else c)
      | RenameWindow n \<Rightarrow>
          (case sid of None \<Rightarrow> c
           | Some s \<Rightarrow> if workspaces c s = None then c
                       else (upd_ws s (\<lambda>w. w\<lparr>ws_name := n\<rparr>) c)\<lparr>dirty := True\<rparr>)
      | NewSession n _ \<Rightarrow>
          (let cwd = (case e_current_dir env of Some d \<Rightarrow> d | None \<Rightarrow> ''/'');
               nm = (case n of Some x \<Rightarrow> x | None \<Rightarrow> default_ws_name cwd)
           in case create_workspace env nm cwd c of
                (Inr s, c) \<Rightarrow> (upd_client i (\<lambda>k. k\<lparr>cl_session := Some s, cl_last_frame := None\<rparr>) c)\<lparr>dirty := True\<rparr>
              | (Inl e, c) \<Rightarrow> report_error i e c)
      | KillSession n \<Rightarrow>
          (case find_ws (\<lambda>w. ws_name w = n) c of
             Some w \<Rightarrow> send i Ok (kill_workspace env (ws_id w) c)
           | None \<Rightarrow> report_error i (''no workspace named '' @ e_debug env n) c)
      | ListSessions \<Rightarrow> send i (SessionList (List.map_filter (\<lambda>s. ws_info s c) (ws_order c))) c
      | KillServer \<Rightarrow> kill_server env False c
      | KillServerClear \<Rightarrow> kill_server env True c
      | ListAgents \<Rightarrow> send i (AgentList (map ad_name (cfg_agents (cfg c)))) c
      | ReloadConfig \<Rightarrow>
          (let c = fold (\<lambda>w. report_error i (''config: '' @ w)) (snd (e_config env)) c
           in c\<lparr>cfg := fst (e_config env), dirty := True\<rparr>)
      | PasteImage \<Rightarrow> send i ReadClipboardImage c
      | PutFile n d \<Rightarrow>
          (case put_file env i n d c of
             (Inr p, c) \<Rightarrow> send i (FilePut p) c
           | (Inl e, c) \<Rightarrow> report_error i e c)
      | SplitPane _ _ \<Rightarrow> report_error i FIXED_RAILS c
      | FocusDir _ \<Rightarrow> report_error i FIXED_RAILS c
      | FocusPane _ \<Rightarrow> report_error i FIXED_RAILS c
      | ResizePane _ _ \<Rightarrow> report_error i FIXED_RAILS c
      | NewWindow \<Rightarrow> report_error i FIXED_RAILS c
      | NextWindow \<Rightarrow> report_error i FIXED_RAILS c
      | PrevWindow \<Rightarrow> report_error i FIXED_RAILS c
      | SelectWindow _ \<Rightarrow> report_error i FIXED_RAILS c
      | ApplyLayout _ \<Rightarrow> report_error i FIXED_RAILS c
      | GitMenu \<Rightarrow> report_error i OWN_VIEW c
      | ZoomToggle \<Rightarrow> report_error i OWN_VIEW c
      | ToggleAllAgents \<Rightarrow> report_error i OWN_VIEW c
      | OpenFile _ \<Rightarrow> report_error i OPEN_FILE c
      | SetTheme _ \<Rightarrow> report_error i THEMES c
      | ListThemes \<Rightarrow> report_error i THEMES c
      | SetDefaultAgent _ \<Rightarrow> report_error i PINNED c)"

definition clip_notice :: "string \<Rightarrow> string" where
  "clip_notice msg =
     (if MAX_NOTICE_CHARS < length (uchars msg)
      then concat (take MAX_NOTICE_CHARS (uchars msg)) @ [CHR 0xE2, CHR 0x80, CHR 0xA6] else msg)"

definition handle_client_msg ::
    "('v, 'g) env \<Rightarrow> client_id \<Rightarrow> client_msg \<Rightarrow> ('v, 'g) core \<Rightarrow> ('v, 'g) core" where
  "handle_client_msg env i msg c =
     (case msg of
        Hello ver enc cols rows target cwd \<Rightarrow>
          if ver \<noteq> PROTOCOL_VERSION
          then detach i ''protocol mismatch''
                 (send i (Error (''protocol version mismatch: client '' @ show_nat (unat ver)
                    @ '', server '' @ show_nat (unat PROTOCOL_VERSION))) c)
          else attach_client env i cols rows target cwd c
      | Input ev \<Rightarrow> route_input env i ev c
      | Resize cols rows \<Rightarrow> resize_client env i cols rows c
      | Command cmd \<Rightarrow> exec_command env i cmd c
      | Watch p \<Rightarrow> watch_pane env i p c
      | Notice m \<Rightarrow> report_error i (clip_notice m) c
      | Detach \<Rightarrow> detach i ''detached'' c)"

end
