(* ===== verification/Core_Api.thy ===== *)
theory Core_Api
  imports Core_Serve
begin

text \<open>
  The requests the core answers itself, \<open>core.rs\<close>: the summaries of the workspaces, killing,
  starting and restarting panes, input and acknowledgement, index work under the one-writer lock
  (\<open>api_git\<close>) and the git operations that hold that lock (\<open>start_git_op\<close> and its progress and
  end). \<open>api_log\<close> is what a subscriber of the event stream is sent; the telemetry in it is not
  modelled.
\<close>

section \<open>Summaries\<close>

definition agent_state_of :: "pane_id \<Rightarrow> ('v, 'g) core \<Rightarrow> agent_state" where
  "agent_state_of p c = (case agent_tracks c p of Some tr \<Rightarrow> at_state tr | None \<Rightarrow> AIdle)"

text \<open>\<open>agent_dto\<close>, as much of it as the counts read: the state, the question and the unread mark.\<close>

definition agent_dto :: "('v, 'g) env \<Rightarrow> pane_id \<Rightarrow> ('v, 'g) core \<Rightarrow> (agent_state \<times> bool \<times> bool) option" where
  "agent_dto env p c =
     (case term_of p c of None \<Rightarrow> None
      | Some t \<Rightarrow> Some (agent_state_of p c, fs_prompt (Pane.footer_signals (e_emu env) t),
          case agent_tracks c p of Some tr \<Rightarrow> unread tr | None \<Rightarrow> False))"

definition count_agents ::
    "('v, 'g) env \<Rightarrow> ('v, 'g) core \<Rightarrow> workspace \<Rightarrow> (agent_state \<times> bool \<times> bool \<Rightarrow> bool) \<Rightarrow> nat" where
  "count_agents env c w P =
     length (filter (\<lambda>p. case agent_dto env p c of Some d \<Rightarrow> P d | None \<Rightarrow> False) (agents w))"

definition git_pane :: "workspace \<Rightarrow> ('v, 'g) core \<Rightarrow> 'g option" where
  "git_pane w c =
     (case changes w of None \<Rightarrow> None
      | Some p \<Rightarrow> (case panes c p of Some (PGit g) \<Rightarrow> Some g | _ \<Rightarrow> None))"

definition ws_summary_of :: "('v, 'g) env \<Rightarrow> ('v, 'g) core \<Rightarrow> workspace \<Rightarrow> ws_summary" where
  "ws_summary_of env c w =
     \<lparr>su_id = ws_id w, su_name = ws_name w, su_cwd = ws_cwd w, su_agents = length (agents w),
      su_waiting = count_agents env c w (\<lambda>(s, _, _). s = AWaiting),
      su_working = count_agents env c w (\<lambda>(s, _, _). s = AWorking),
      su_finished = count_agents env c w (\<lambda>(s, _, _). s = AFinished),
      su_exited = count_agents env c w (\<lambda>(s, _, _). s = AExited),
      su_questions = count_agents env c w (\<lambda>(_, q, _). q),
      su_unread = count_agents env c w (\<lambda>(_, _, u). u),
      su_processes = length (processes w),
      su_changes = (case git_pane w c of Some g \<Rightarrow> e_git_changes env g | None \<Rightarrow> 0),
      su_conflicts = (case git_pane w c of Some g \<Rightarrow> e_git_conflicts env g | None \<Rightarrow> 0),
      su_repo_state = (case git_pane w c of Some g \<Rightarrow> e_git_state env g | None \<Rightarrow> RClean),
      su_attached = attached_count (ws_id w) c, su_autostart = ws_autostart w\<rparr>"

definition build_ws_summaries :: "('v, 'g) env \<Rightarrow> ('v, 'g) core \<Rightarrow> ws_summary list" where
  "build_ws_summaries env c = map (ws_summary_of env c) (all_ws c)"

definition broadcast :: "api_event \<Rightarrow> ('v, 'g) core \<Rightarrow> ('v, 'g) core" where
  "broadcast ev c = c\<lparr>api_log := api_log c @ [ev]\<rparr>"

section \<open>Git operations\<close>

definition git_root :: "('v, 'g) env \<Rightarrow> session_id \<Rightarrow> ('v, 'g) core \<Rightarrow> path option" where
  "git_root env sid c =
     (case workspaces c sid of None \<Rightarrow> None | Some w \<Rightarrow> map_option (e_git_root env) (git_pane w c))"

definition git_write_locked :: "('v, 'g) env \<Rightarrow> session_id \<Rightarrow> ('v, 'g) core \<Rightarrow> string option" where
  "git_write_locked env sid c =
     (case git_root env sid c of None \<Rightarrow> None
      | Some root \<Rightarrow> (case git_ops c root of Some s \<Rightarrow> if go_running s then Some (go_kind s) else None | None \<Rightarrow> None))"

datatype git_refusal = NoRepo session_id | Busy string | Invalid string

definition refusal_text :: "git_refusal \<Rightarrow> string" where
  "refusal_text r =
     (case r of NoRepo sid \<Rightarrow> ''workspace '' @ show_nat sid @ '' is not a git repository''
      | Busy k \<Rightarrow> ''a git operation is already running: '' @ k
      | Invalid e \<Rightarrow> e)"

definition start_git_op ::
    "('v, 'g) env \<Rightarrow> session_id \<Rightarrow> git_op \<Rightarrow> ('v, 'g) core \<Rightarrow> (git_refusal + git_op_dto \<times> string list) \<times> ('v, 'g) core" where
  "start_git_op env sid op c =
     (case git_root env sid c of
        None \<Rightarrow> (Inl (NoRepo sid), c)
      | Some root \<Rightarrow>
         (case git_write_locked env sid c of
            Some k \<Rightarrow> (Inl (Busy k), c)
          | None \<Rightarrow>
             (let st = (case workspaces c sid of None \<Rightarrow> RClean
                        | Some w \<Rightarrow> (case git_pane w c of Some g \<Rightarrow> e_git_state env g | None \<Rightarrow> RClean))
              in case op_args (e_debug env) st op of
                   Inl e \<Rightarrow> (Inl (Invalid e), c)
                 | Inr args \<Rightarrow>
                    (let c = c\<lparr>git_op_seq := git_op_seq c + 1\<rparr>;
                         s = \<lparr>go_ws = sid, go_seq = git_op_seq c, go_kind = kind op, go_running = True,
                              go_progress = [], go_result = None, go_cancel = True\<rparr>;
                         c = c\<lparr>git_ops := (git_ops c)(root := Some s)\<rparr>
                     in (Inr (to_dto s, args), broadcast (EvGitOp (to_dto s)) c)))))"

definition cancel_git_op ::
    "('v, 'g) env \<Rightarrow> session_id \<Rightarrow> ('v, 'g) core \<Rightarrow> git_op_dto option \<times> ('v, 'g) core" where
  "cancel_git_op env sid c =
     (case git_root env sid c of None \<Rightarrow> (None, c)
      | Some root \<Rightarrow>
         (case git_ops c root of None \<Rightarrow> (None, c)
          | Some s \<Rightarrow>
             if \<not> go_running s then (None, c)
             else (Some (to_dto s), c\<lparr>git_ops := (git_ops c)(root := Some (s\<lparr>go_cancel := False\<rparr>))\<rparr>)))"

definition git_op_status :: "('v, 'g) env \<Rightarrow> session_id \<Rightarrow> ('v, 'g) core \<Rightarrow> git_op_dto option" where
  "git_op_status env sid c =
     (case git_root env sid c of None \<Rightarrow> None | Some root \<Rightarrow> map_option to_dto (git_ops c root))"

definition on_git_progress ::
    "('v, 'g) env \<Rightarrow> session_id \<Rightarrow> nat \<Rightarrow> string \<Rightarrow> ('v, 'g) core \<Rightarrow> ('v, 'g) core" where
  "on_git_progress env sid sq line c =
     (case git_root env sid c of None \<Rightarrow> c
      | Some root \<Rightarrow>
         (case git_ops c root of None \<Rightarrow> c
          | Some s \<Rightarrow>
             if go_seq s \<noteq> sq then c
             else let s = s\<lparr>go_progress := line\<rparr>
                  in broadcast (EvGitOp (to_dto s)) (c\<lparr>git_ops := (git_ops c)(root := Some s), dirty := True\<rparr>)))"

definition on_git_op_done ::
    "path \<Rightarrow> session_id \<Rightarrow> nat \<Rightarrow> string + string \<Rightarrow> ('v, 'g) core \<Rightarrow> ('v, 'g) core" where
  "on_git_op_done root sid sq result c =
     (case git_ops c root of None \<Rightarrow> c
      | Some s \<Rightarrow>
         if go_seq s \<noteq> sq then c
         else let s = s\<lparr>go_running := False, go_cancel := False, go_progress := [], go_result := Some result\<rparr>;
                  c = c\<lparr>git_ops := (git_ops c)(root := Some s)\<rparr>;
                  c = (case workspaces c sid of None \<Rightarrow> c
                       | Some w \<Rightarrow> (case changes w of Some p \<Rightarrow> request_git_refresh p c | None \<Rightarrow> c))
              in broadcast (EvGitOp (to_dto s)) (c\<lparr>dirty := True\<rparr>))"

section \<open>Requests\<close>

text \<open>The function of \<open>GitIndex\<close> is the work on the repository: staging, committing, a branch or a
  patch. A started operation is answered from its own task, with its result or, as here, as accepted.\<close>

datatype 'g api_request =
  ListWorkspaces
  | GitRun session_id git_op
  | GitIndex session_id "'g \<Rightarrow> string + 'g"
  | GitOpStatus session_id
  | GitOpCancel session_id
  | AgentTypes
  | Notifications nat
  | KillWorkspace session_id
  | ApiSpawnAgent session_id string bool
  | ApiNewProcess session_id string string
  | RestartProcess session_id pane_id
  | KillPane session_id pane_id
  | PaneInput session_id pane_id input_event
  | AckPane session_id pane_id

datatype api_reply =
  ROk
  | RCreated session_id
  | RNotFound string
  | RBadRequest string
  | RBusy string
  | RError string
  | RWorkspaces "ws_summary list"
  | RGitOp git_op_dto
  | RAccepted git_op_dto
  | RAgentTypes "string list"
  | RNotifications "nat \<times> notification list"

definition no_ws :: "session_id \<Rightarrow> api_reply" where
  "no_ws sid = RNotFound (''no workspace '' @ show_nat sid)"

definition no_pane_in :: "pane_id \<Rightarrow> session_id \<Rightarrow> api_reply" where
  "no_pane_in p sid = RNotFound (''no pane '' @ show_nat p @ '' in workspace '' @ show_nat sid)"

definition api_git ::
    "('v, 'g) env \<Rightarrow> session_id \<Rightarrow> ('g \<Rightarrow> string + 'g) \<Rightarrow> ('v, 'g) core \<Rightarrow> api_reply \<times> ('v, 'g) core" where
  "api_git env sid f c =
     (case workspaces c sid of
        None \<Rightarrow> (no_ws sid, c)
      | Some w \<Rightarrow>
         (case changes w of
            None \<Rightarrow> (RNotFound (refusal_text (NoRepo sid)), c)
          | Some p \<Rightarrow>
             (case git_write_locked env sid c of
                Some k \<Rightarrow> (RBusy (refusal_text (Busy k)), c)
              | None \<Rightarrow>
                 (case panes c p of
                    Some (PGit g) \<Rightarrow>
                      (case f g of
                         Inl e \<Rightarrow> (RBadRequest e, c)
                       | Inr g \<Rightarrow>
                          (let c = request_git_refresh p (c\<lparr>panes := (panes c)(p := Some (PGit g))\<rparr>)
                           in (ROk, c\<lparr>dirty := True\<rparr>)))
                  | _ \<Rightarrow> (RError ''git pane missing'', c)))))"

definition api_restart_process ::
    "('v, 'g) env \<Rightarrow> session_id \<Rightarrow> pane_id \<Rightarrow> ('v, 'g) core \<Rightarrow> api_reply \<times> ('v, 'g) core" where
  "api_restart_process env sid p c =
     (case workspaces c sid of
        None \<Rightarrow> (no_ws sid, c)
      | Some w \<Rightarrow>
         (case proc_meta_of w p of
            None \<Rightarrow> (RNotFound (''no process pane '' @ show_nat p @ '' in workspace '' @ show_nat sid), c)
          | Some m \<Rightarrow>
             (let c = upd_ws sid (\<lambda>w. snd (forget_pane p w)) c;
                  c = c\<lparr>panes := (panes c)(p := None)\<rparr>;
                  (r, c) = spawn_process env sid (ws_cwd w) (m\<lparr>ready_seen := False, ready_carry := []\<rparr>) False None c
              in case r of Inr q \<Rightarrow> (ROk, c) | Inl e \<Rightarrow> (RError e, c))))"

text \<open>The pane of a request has to be one of the workspace's.\<close>

definition with_pane ::
    "session_id \<Rightarrow> pane_id \<Rightarrow> (('v, 'g) core \<Rightarrow> api_reply \<times> ('v, 'g) core) \<Rightarrow> ('v, 'g) core \<Rightarrow> api_reply \<times> ('v, 'g) core" where
  "with_pane sid p f c =
     (case workspaces c sid of
        None \<Rightarrow> (no_ws sid, c)
      | Some w \<Rightarrow> if p \<notin> set (all_panes w) then (no_pane_in p sid, c) else f c)"

definition pane_input ::
    "('v, 'g) env \<Rightarrow> pane_id \<Rightarrow> input_event \<Rightarrow> ('v, 'g) core \<Rightarrow> api_reply \<times> ('v, 'g) core" where
  "pane_input env p ev c =
     (let c = note_agent_spoken env p ev c in
      if \<not> has_pane p c then (RNotFound (''no pane '' @ show_nat p), c)
      else let c = look_at_pane env p c
           in (ROk, (upd_term p (handle_input (e_emu env) ev) c)\<lparr>dirty := True\<rparr>))"

definition ack_pane :: "('v, 'g) env \<Rightarrow> pane_id \<Rightarrow> ('v, 'g) core \<Rightarrow> api_reply \<times> ('v, 'g) core" where
  "ack_pane env p c =
     (case panes c p of
        Some (PTerm t) \<Rightarrow> (ROk, (look_at_pane env p c)\<lparr>dirty := True\<rparr>)
      | Some (PGit g) \<Rightarrow> (ROk, c)
      | None \<Rightarrow> (RNotFound (''no pane '' @ show_nat p), c))"

definition spawn_reply :: "(string + 'a) \<times> ('v, 'g) core \<Rightarrow> api_reply \<times> ('v, 'g) core" where
  "spawn_reply r = (case r of (Inr _, c) \<Rightarrow> (ROk, c) | (Inl e, c) \<Rightarrow> (RBadRequest e, c))"

definition handle_api :: "('v, 'g) env \<Rightarrow> 'g api_request \<Rightarrow> ('v, 'g) core \<Rightarrow> api_reply \<times> ('v, 'g) core" where
  "handle_api env req c =
     (case req of
        ListWorkspaces \<Rightarrow> (RWorkspaces (build_ws_summaries env c), c)
      | GitRun sid op \<Rightarrow>
          (case start_git_op env sid op c of
             (Inr (d, _), c) \<Rightarrow> (RAccepted d, c)
           | (Inl r, c) \<Rightarrow> (case r of NoRepo _ \<Rightarrow> RNotFound (refusal_text r) | Busy _ \<Rightarrow> RBusy (refusal_text r)
                            | Invalid _ \<Rightarrow> RBadRequest (refusal_text r), c))
      | GitIndex sid f \<Rightarrow> api_git env sid f c
      | GitOpStatus sid \<Rightarrow>
          (case git_op_status env sid c of
             Some d \<Rightarrow> (RGitOp d, c)
           | None \<Rightarrow> (RNotFound (''no git operation for workspace '' @ show_nat sid), c))
      | GitOpCancel sid \<Rightarrow>
          (case cancel_git_op env sid c of
             (Some d, c) \<Rightarrow> (RGitOp d, c)
           | (None, c) \<Rightarrow> (RNotFound (''nothing running for workspace '' @ show_nat sid), c))
      | AgentTypes \<Rightarrow> (RAgentTypes (map ad_name (cfg_agents (cfg c))), c)
      | Notifications since \<Rightarrow> (RNotifications (notifications_since since (core_feed c)), c)
      | KillWorkspace sid \<Rightarrow> if workspaces c sid = None then (no_ws sid, c) else (ROk, kill_workspace env sid c)
      | ApiSpawnAgent sid n background \<Rightarrow>
          if workspaces c sid = None then (no_ws sid, c)
          else spawn_reply (spawn_agent_restoring env sid n None None False background c)
      | ApiNewProcess sid n cl \<Rightarrow>
          if workspaces c sid = None then (no_ws sid, c)
          else spawn_reply (new_process env sid n (if trim cl = [] then None else Some cl) c)
      | RestartProcess sid p \<Rightarrow> api_restart_process env sid p c
      | KillPane sid p \<Rightarrow> with_pane sid p (\<lambda>c. (ROk, (drop_pane env sid p c)\<lparr>dirty := True\<rparr>)) c
      | PaneInput sid p ev \<Rightarrow> with_pane sid p (pane_input env p ev) c
      | AckPane sid p \<Rightarrow> with_pane sid p (ack_pane env p) c)"

definition structural :: "'g api_request \<Rightarrow> bool" where
  "structural req \<longleftrightarrow>
     (case req of KillPane _ _ \<Rightarrow> True | KillWorkspace _ \<Rightarrow> True | ApiSpawnAgent _ _ _ \<Rightarrow> True
      | ApiNewProcess _ _ _ \<Rightarrow> True | RestartProcess _ _ \<Rightarrow> True | _ \<Rightarrow> False)"

definition succeeded :: "api_reply \<Rightarrow> bool" where
  "succeeded r \<longleftrightarrow> (case r of ROk \<Rightarrow> True | RCreated _ \<Rightarrow> True | _ \<Rightarrow> False)"

definition serve_api :: "('v, 'g) env \<Rightarrow> 'g api_request \<Rightarrow> ('v, 'g) core \<Rightarrow> api_reply \<times> ('v, 'g) core" where
  "serve_api env req c =
     (let (r, c) = handle_api env req c
      in (r, if structural req \<and> succeeded r then broadcast (EvWorkspaces (build_ws_summaries env c)) c else c))"

definition new_workspace_resolved ::
    "('v, 'g) env \<Rightarrow> string option \<Rightarrow> string + path \<Rightarrow> ('v, 'g) core \<Rightarrow> api_reply \<times> ('v, 'g) core" where
  "new_workspace_resolved env n cwd c =
     (case cwd of
        Inl e \<Rightarrow> (RBadRequest e, c)
      | Inr d \<Rightarrow>
         (let nm = (case n of Some x \<Rightarrow> if trim x = [] then default_ws_name d else x | None \<Rightarrow> default_ws_name d)
          in case create_workspace env nm d c of
               (Inr sid, c) \<Rightarrow> (RCreated sid, broadcast (EvWorkspaces (build_ws_summaries env c)) c)
             | (Inl e, c) \<Rightarrow> (RError e, c)))"

end
