(* ===== verification/Core_Step.thy ===== *)
theory Core_Step
  imports Core_Api
begin

text \<open>
  The loop of the core, \<open>core.rs\<close>: the look at every agent that is due
  (\<open>update_agent_tracking\<close>), the dispatch of an event (\<open>handle\<close>) and the steps the loop of
  \<open>run\<close> takes. One step handles one event with the clock and the outside of that moment, renders,
  or feeds one burst of output; the loop ends once the daemon is stopping or has nothing left to
  serve.
\<close>

section \<open>Looking at the agents\<close>

definition live_agents :: "('v, 'g) core \<Rightarrow> (pane_id \<times> workspace) list" where
  "live_agents c =
     filter (\<lambda>(p, w). term_of p c \<noteq> None) (concat (map (\<lambda>w. map (\<lambda>p. (p, w)) (agents w)) (all_ws c)))"

definition look_at_agent ::
    "('v, 'g) env \<Rightarrow> pane_id \<times> workspace \<Rightarrow> ('v, 'g) core \<Rightarrow> ('v, 'g) core" where
  "look_at_agent env = (\<lambda>(p, w) c.
     (case term_of p c of
        None \<Rightarrow> c
      | Some t \<Rightarrow>
         (let before = (case agent_tracks c p of Some tr \<Rightarrow> tr | None \<Rightarrow> track_new (e_now env));
              after = track_step (e_now env) (signals_of (e_emu env) (e_now env) t) before;
              c = c\<lparr>agent_tracks := (agent_tracks c)(p := Some after)\<rparr>
          in case notify_kind before (at_state after) (exit_status t) of
               Some k \<Rightarrow> notify env w p (agent_title (e_emu env) t) k None c
             | None \<Rightarrow> c)))"

definition update_agent_tracking :: "('v, 'g) env \<Rightarrow> ('v, 'g) core \<Rightarrow> ('v, 'g) core" where
  "update_agent_tracking env c =
     (let live = live_agents c;
          due = filter (\<lambda>(p, w). is_due (e_now env) (agent_tracks c p)) live;
          ps = set (map fst live);
          c = c\<lparr>agent_tracks := agent_tracks c |` ps, resume_retry := resume_retry c \<inter> ps\<rparr>
      in fold (look_at_agent env) due c)"

section \<open>Events\<close>

datatype 'g event =
  ClientConnected client_id
  | FromClient client_id client_msg
  | ClientGone client_id
  | PaneExited pane_id nat
  | GitRefreshed pane_id 'g
  | RepoProbed session_id "'g option"
  | Sys
  | Api "'g api_request"
  | NewWorkspaceResolved "string option" "string + path"
  | WorkspaceWritten session_id
  | Tick nat
  | FastTick nat
  | GitOpProgress session_id nat string
  | GitOpDone path session_id nat "string + string"
  | Shutdown

definition on_sys :: "('v, 'g) env \<Rightarrow> ('v, 'g) core \<Rightarrow> ('v, 'g) core" where
  "on_sys env c =
     (let c = fold request_git_refresh (List.map_filter changes (all_ws c)) c;
          c = attach_new_repos env c;
          c = update_agent_tracking env (c\<lparr>dirty := True\<rparr>);
          c = capture_panes env (persist_session env c)
      in broadcast (EvWorkspaces (build_ws_summaries env c)) c)"

definition connect :: "client_id \<Rightarrow> ('v, 'g) core \<Rightarrow> ('v, 'g) core" where
  "connect i c = (drop_client i c)\<lparr>had_client := True, clients := clients (drop_client i c) @ [(i, client_new)]\<rparr>"

definition handle :: "('v, 'g) env \<Rightarrow> 'g event \<Rightarrow> ('v, 'g) core \<Rightarrow> ('v, 'g) core" where
  "handle env ev c =
     (case ev of
        ClientConnected i \<Rightarrow> connect i c
      | FromClient i msg \<Rightarrow> handle_client_msg env i msg c
      | ClientGone i \<Rightarrow> drop_client i c
      | PaneExited p status \<Rightarrow> on_pane_exited env p status c
      | GitRefreshed p snap \<Rightarrow> git_refreshed env p snap c
      | RepoProbed sid git \<Rightarrow> on_repo_probed env sid git c
      | Sys \<Rightarrow> on_sys env c
      | Api req \<Rightarrow> snd (serve_api env req c)
      | NewWorkspaceResolved n cwd \<Rightarrow> snd (new_workspace_resolved env n cwd c)
      | WorkspaceWritten sid \<Rightarrow> if workspaces c sid = None then c else c\<lparr>dirty := True\<rparr>
      | Tick phase \<Rightarrow> (let c = c\<lparr>anim := phase\<rparr> in if wants_anim c then c\<lparr>dirty := True\<rparr> else c)
      | FastTick phase \<Rightarrow> (let c = c\<lparr>fast_anim := phase\<rparr> in if wants_fast_anim c then c\<lparr>dirty := True\<rparr> else c)
      | GitOpProgress sid sq line \<Rightarrow> on_git_progress env sid sq line c
      | GitOpDone root sid sq result \<Rightarrow> on_git_op_done root sid sq result c
      | Shutdown \<Rightarrow> kill_server env False c)"

definition running :: "('v, 'g) core \<Rightarrow> bool" where
  "running c \<longleftrightarrow> \<not> shutdown c \<and> \<not> should_exit c"

inductive step :: "('v, 'g) core \<Rightarrow> ('v, 'g) core \<Rightarrow> bool" where
  step_event: "\<not> shutdown c \<Longrightarrow> step c (handle env ev c)"
| step_output: "\<not> shutdown c \<Longrightarrow> step c (on_pty_output env p bytes c)"
| step_render: "running c \<Longrightarrow> dirty c \<Longrightarrow> step c ((render_all env c)\<lparr>dirty := False\<rparr>)"

inductive_cases step_cases: "step c c'"
inductive_simps step_from: "step c c'"

text \<open>A daemon starts by restoring its session, and then takes steps.\<close>

inductive reachable :: "('v, 'g) core \<Rightarrow> bool" where
  start: "reachable (restore_session env
     ((core_new cf md)\<lparr>session_store := store, disk_session := saved, disk_dumps := dumps\<rparr>))"
| later: "reachable c \<Longrightarrow> step c c' \<Longrightarrow> reachable c'"

end
