(* ===== verification/Core_Inv.thy ===== *)
theory Core_Inv
  imports Core_Step
begin

text \<open>
  The invariant of the core. The tabs are the open workspaces, each well formed; no pane is in two
  of them, none is live outside all of them, and every identifier in use was given out before;
  rails hold the kind of pane they are for; a client's session is open; and a scan is owed only
  where one is running. \<open>inv E\<close> is the invariant while the panes \<open>E\<close>, just started, wait for a
  workspace. Every operation of the core is shown to keep it, most of them because they do not
  touch the \<open>shape\<close> it speaks of.
\<close>

section \<open>The shape of a state\<close>

datatype pane_kind = KTerm | KGit

definition kind_of :: "('v, 'g) pane_state \<Rightarrow> pane_kind" where
  "kind_of s = (case s of PTerm _ \<Rightarrow> KTerm | PGit _ \<Rightarrow> KGit)"

definition kinds :: "('v, 'g) core \<Rightarrow> pane_id \<Rightarrow> pane_kind option" where
  "kinds c p = map_option kind_of (panes c p)"

definition sessions :: "('v, 'g) core \<Rightarrow> (client_id \<times> session_id option) list" where
  "sessions c = map (\<lambda>(i, k). (i, cl_session k)) (clients c)"

type_synonym shape =
  "(session_id \<Rightarrow> workspace option) \<times> session_id list \<times> (pane_id \<Rightarrow> pane_kind option) \<times> nat \<times> nat
   \<times> (client_id \<times> session_id option) list \<times> pane_id set \<times> pane_id set"

definition shape :: "('v, 'g) core \<Rightarrow> shape" where
  "shape c = (workspaces c, ws_order c, kinds c, next_pane c, next_ws c, sessions c, git_refreshing c,
              git_refresh_again c)"

definition ws_panes :: "('v, 'g) core \<Rightarrow> pane_id set" where
  "ws_panes c = (\<Union>w \<in> ran (workspaces c). set (all_panes w))"

definition rails_ok :: "(pane_id \<Rightarrow> pane_kind option) \<Rightarrow> workspace \<Rightarrow> bool" where
  "rails_ok kd w \<longleftrightarrow>
     (\<forall>p \<in> set (agents w) \<union> set (processes w). kd p = Some KTerm)
     \<and> (\<forall>p. changes w = Some p \<longrightarrow> kd p = Some KGit) \<and> docker_logs w = None"

definition inv :: "pane_id set \<Rightarrow> ('v, 'g) core \<Rightarrow> bool" where
  "inv E c \<longleftrightarrow>
     distinct (ws_order c) \<and> set (ws_order c) = dom (workspaces c)
     \<and> (\<forall>sid w. workspaces c sid = Some w \<longrightarrow> ws_id w = sid \<and> wf_ws w \<and> sid < next_ws c \<and> rails_ok (kinds c) w)
     \<and> (\<forall>s t v w. workspaces c s = Some v \<and> workspaces c t = Some w \<and> s \<noteq> t
          \<longrightarrow> set (all_panes v) \<inter> set (all_panes w) = {})
     \<and> dom (panes c) = ws_panes c \<union> E \<and> ws_panes c \<inter> E = {}
     \<and> (\<forall>p \<in> dom (panes c). p < next_pane c)
     \<and> (\<forall>i s. (i, Some s) \<in> set (sessions c) \<longrightarrow> s \<in> dom (workspaces c))
     \<and> distinct (map fst (sessions c))
     \<and> git_refresh_again c \<subseteq> git_refreshing c"

lemma dom_kinds [simp]: "dom (kinds c) = dom (panes c)"
  by (auto simp: kinds_def dom_def)

lemma kinds_ws [simp]:
  "kinds (c\<lparr>workspaces := x\<rparr>) = kinds c" "kinds (c\<lparr>ws_order := y\<rparr>) = kinds c" "kinds (c\<lparr>next_ws := z\<rparr>) = kinds c"
  by (simp_all add: kinds_def fun_eq_iff)

lemma kinds_term: "kinds c p = Some KTerm \<longleftrightarrow> term_of p c \<noteq> None"
  by (auto simp: kinds_def kind_of_def term_of_def split: option.splits pane_state.splits)

lemma inv_shape: "shape c = shape d \<Longrightarrow> inv E c \<Longrightarrow> inv E d"
proof -
  assume s: "shape c = shape d" and i: "inv E c"
  have e: "workspaces c = workspaces d" "ws_order c = ws_order d" "kinds c = kinds d"
    "next_pane c = next_pane d" "next_ws c = next_ws d" "sessions c = sessions d"
    "git_refreshing c = git_refreshing d" "git_refresh_again c = git_refresh_again d"
    using s by (simp_all add: shape_def)
  have "dom (panes c) = dom (panes d)" using e(3) by (metis dom_kinds)
  then show ?thesis using i e by (simp add: inv_def ws_panes_def)
qed

section \<open>What leaves the shape alone\<close>

named_theorems same_shape \<open>operations that keep the shape of the core\<close>

lemma shape_fields [same_shape]:
  "shape (c\<lparr>dirty := x1\<rparr>) = shape c" "shape (c\<lparr>anim := x2\<rparr>) = shape c" "shape (c\<lparr>fast_anim := x3\<rparr>) = shape c"
  "shape (c\<lparr>had_client := x4\<rparr>) = shape c" "shape (c\<lparr>shutdown := x5\<rparr>) = shape c"
  "shape (c\<lparr>agent_alerted := x6\<rparr>) = shape c" "shape (c\<lparr>agent_tracks := x7\<rparr>) = shape c"
  "shape (c\<lparr>core_feed := x8\<rparr>) = shape c" "shape (c\<lparr>restoring := x9\<rparr>) = shape c"
  "shape (c\<lparr>git_ops := x10\<rparr>) = shape c" "shape (c\<lparr>git_op_seq := x11\<rparr>) = shape c"
  "shape (c\<lparr>repo_probing := x12\<rparr>) = shape c" "shape (c\<lparr>repo_probe_next := x13\<rparr>) = shape c"
  "shape (c\<lparr>resume_retry := x14\<rparr>) = shape c" "shape (c\<lparr>put_seq := x15\<rparr>) = shape c"
  "shape (c\<lparr>deferred := x16\<rparr>) = shape c" "shape (c\<lparr>disk_session := x17\<rparr>) = shape c"
  "shape (c\<lparr>disk_dumps := x18\<rparr>) = shape c" "shape (c\<lparr>scratch_files := x19\<rparr>) = shape c"
  "shape (c\<lparr>sent := x20\<rparr>) = shape c" "shape (c\<lparr>launched := x21\<rparr>) = shape c" "shape (c\<lparr>scans := x22\<rparr>) = shape c"
  "shape (c\<lparr>probes := x23\<rparr>) = shape c" "shape (c\<lparr>api_log := x24\<rparr>) = shape c" "shape (c\<lparr>cfg := x25\<rparr>) = shape c"
  "shape (c\<lparr>had_workspace := x26\<rparr>) = shape c"
  by (simp_all add: shape_def kinds_def sessions_def fun_eq_iff)

lemma inv_fields [simp]:
  "inv E (c\<lparr>dirty := x1\<rparr>) = inv E c" "inv E (c\<lparr>anim := x2\<rparr>) = inv E c" "inv E (c\<lparr>fast_anim := x3\<rparr>) = inv E c"
  "inv E (c\<lparr>had_client := x4\<rparr>) = inv E c" "inv E (c\<lparr>shutdown := x5\<rparr>) = inv E c"
  "inv E (c\<lparr>agent_alerted := x6\<rparr>) = inv E c" "inv E (c\<lparr>agent_tracks := x7\<rparr>) = inv E c"
  "inv E (c\<lparr>core_feed := x8\<rparr>) = inv E c" "inv E (c\<lparr>restoring := x9\<rparr>) = inv E c"
  "inv E (c\<lparr>git_ops := x10\<rparr>) = inv E c" "inv E (c\<lparr>git_op_seq := x11\<rparr>) = inv E c"
  "inv E (c\<lparr>repo_probing := x12\<rparr>) = inv E c" "inv E (c\<lparr>repo_probe_next := x13\<rparr>) = inv E c"
  "inv E (c\<lparr>resume_retry := x14\<rparr>) = inv E c" "inv E (c\<lparr>put_seq := x15\<rparr>) = inv E c"
  "inv E (c\<lparr>deferred := x16\<rparr>) = inv E c" "inv E (c\<lparr>disk_session := x17\<rparr>) = inv E c"
  "inv E (c\<lparr>disk_dumps := x18\<rparr>) = inv E c" "inv E (c\<lparr>scratch_files := x19\<rparr>) = inv E c"
  "inv E (c\<lparr>sent := x20\<rparr>) = inv E c" "inv E (c\<lparr>launched := x21\<rparr>) = inv E c" "inv E (c\<lparr>scans := x22\<rparr>) = inv E c"
  "inv E (c\<lparr>probes := x23\<rparr>) = inv E c" "inv E (c\<lparr>api_log := x24\<rparr>) = inv E c" "inv E (c\<lparr>cfg := x25\<rparr>) = inv E c"
  "inv E (c\<lparr>had_workspace := x26\<rparr>) = inv E c"
  by (simp_all add: inv_def ws_panes_def kinds_def [abs_def] sessions_def)

lemma shape_send [same_shape]: "shape (send i m c) = shape c"
  by (simp add: send_def same_shape)

lemma shape_report [same_shape]: "shape (report_error i m c) = shape c"
  by (simp add: report_error_def same_shape)

lemma shape_fold_report [same_shape]: "shape (fold (\<lambda>x. report_error (f x) (g x)) xs c) = shape c"
  by (induction xs arbitrary: c) (simp_all add: same_shape)

lemma shape_upd_term [same_shape]: "shape (upd_term p f c) = shape c"
  by (auto simp: upd_term_def shape_def kinds_def sessions_def fun_eq_iff kind_of_def
      split: option.splits pane_state.splits)

lemma shape_upd_track [same_shape]: "shape (upd_track p f c) = shape c"
  by (simp add: upd_track_def same_shape)

lemma shape_upd_client [same_shape]:
  "(\<And>k. cl_session (f k) = cl_session k) \<Longrightarrow> shape (upd_client i f c) = shape c"
  by (auto simp: upd_client_def shape_def kinds_def sessions_def fun_eq_iff)

lemma shape_look [same_shape]: "shape (look_at_pane env p c) = shape c"
  by (simp add: look_at_pane_def same_shape)

lemma shape_touch [same_shape]: "shape (touch_agent env p c) = shape c"
  by (simp add: touch_agent_def same_shape)

lemma shape_persist [same_shape]: "shape (persist_session env c) = shape c"
  by (simp add: persist_session_def same_shape)

lemma shape_capture [same_shape]: "shape (capture_panes env c) = shape c"
  by (simp add: capture_panes_def same_shape split_beta Let_def)

lemma shape_snapshot [same_shape]: "shape (snapshot_for_restart env c) = shape c"
  by (simp add: snapshot_for_restart_def same_shape)

lemma shape_forget [same_shape]: "shape (forget_session env c) = shape c"
  by (simp add: forget_session_def same_shape Let_def)

lemma shape_notify [same_shape]: "shape (notify env w p t k x c) = shape c"
  by (simp add: notify_def same_shape Let_def)

lemma shape_broadcast [same_shape]: "shape (broadcast e c) = shape c"
  by (simp add: broadcast_def same_shape)

lemma shape_ring_bell [same_shape]: "shape (ring_bell sid c) = shape c"
  by (simp add: ring_bell_def same_shape Let_def)

lemma shape_check_bell [same_shape]: "shape (check_agent_bell env p c) = shape c"
  by (simp add: check_agent_bell_def same_shape Let_def split: option.splits)

lemma shape_announce [same_shape]: "shape (on_remote_announce env p a c) = shape c"
  by (simp add: on_remote_announce_def same_shape Let_def split_beta)

lemma shape_fold:
  "(\<And>x c. shape (f x c) = shape c) \<Longrightarrow> shape (fold f xs c) = shape c"
  by (induction xs arbitrary: c) simp_all


lemma inv_same: "shape c = shape d \<Longrightarrow> inv E c \<longleftrightarrow> inv E d"
  using inv_shape [of c d] inv_shape [of d c] by auto

lemma inv_ops [simp]:
  "inv E (send i m c) = inv E c" "inv E (report_error i e c) = inv E c" "inv E (upd_term p f c) = inv E c"
  "inv E (upd_track p g c) = inv E c" "inv E (look_at_pane env p c) = inv E c" "inv E (touch_agent env p c) = inv E c"
  "inv E (persist_session env c) = inv E c" "inv E (capture_panes env c) = inv E c"
  "inv E (snapshot_for_restart env c) = inv E c" "inv E (forget_session env c) = inv E c"
  "inv E (notify env w p t k x c) = inv E c" "inv E (broadcast ev c) = inv E c" "inv E (ring_bell sid c) = inv E c"
  "inv E (check_agent_bell env p c) = inv E c" "inv E (on_remote_announce env p a c) = inv E c"
  by (rule inv_same, rule same_shape)+

lemma inv_upd_client [simp]: "(\<And>k. cl_session (f k) = cl_session k) \<Longrightarrow> inv E (upd_client i f c) = inv E c"
  by (rule inv_same, rule same_shape)

section \<open>The parts of the invariant\<close>

lemma invI:
  assumes "distinct (ws_order c)" "set (ws_order c) = dom (workspaces c)"
    and "\<And>sid w. workspaces c sid = Some w \<Longrightarrow> ws_id w = sid \<and> wf_ws w \<and> sid < next_ws c \<and> rails_ok (kinds c) w"
    and "\<And>s t v w. workspaces c s = Some v \<Longrightarrow> workspaces c t = Some w \<Longrightarrow> s \<noteq> t
          \<Longrightarrow> set (all_panes v) \<inter> set (all_panes w) = {}"
    and "dom (panes c) = ws_panes c \<union> E" "ws_panes c \<inter> E = {}"
    and "\<And>p. p \<in> dom (panes c) \<Longrightarrow> p < next_pane c"
    and "\<And>i s. (i, Some s) \<in> set (sessions c) \<Longrightarrow> s \<in> dom (workspaces c)"
    and "distinct (map fst (sessions c))" "git_refresh_again c \<subseteq> git_refreshing c"
  shows "inv E c"
  unfolding inv_def using assms(1,2,5,6,9,10) assms(3,4,7,8)
  by (intro conjI allI impI ballI) (assumption | blast)+

lemma invD:
  assumes "inv E c"
  shows "distinct (ws_order c)" "set (ws_order c) = dom (workspaces c)"
    and "dom (panes c) = ws_panes c \<union> E" "ws_panes c \<inter> E = {}"
    and "p \<in> dom (panes c) \<Longrightarrow> p < next_pane c"
    and "(i, Some s) \<in> set (sessions c) \<Longrightarrow> s \<in> dom (workspaces c)"
    and "distinct (map fst (sessions c))" "git_refresh_again c \<subseteq> git_refreshing c"
    and "workspaces c a = Some v \<Longrightarrow> workspaces c b = Some w \<Longrightarrow> a \<noteq> b \<Longrightarrow> set (all_panes v) \<inter> set (all_panes w) = {}"
  using assms unfolding inv_def by blast+

lemma inv_wsD:
  assumes "inv E c" "workspaces c sid = Some w"
  shows "ws_id w = sid" "wf_ws w" "sid < next_ws c" "rails_ok (kinds c) w" "sid \<in> set (ws_order c)"
    "set (all_panes w) \<subseteq> dom (panes c)" "set (all_panes w) \<inter> E = {}"
proof -
  show "ws_id w = sid" "wf_ws w" "sid < next_ws c" "rails_ok (kinds c) w" "sid \<in> set (ws_order c)"
    using assms by (auto simp: inv_def)
  have "set (all_panes w) \<subseteq> ws_panes c" using assms(2) by (auto simp: ws_panes_def ran_def)
  then show "set (all_panes w) \<subseteq> dom (panes c)" "set (all_panes w) \<inter> E = {}"
    using assms(1) by (auto simp: inv_def)
qed

lemma ws_panes_iff: "p \<in> ws_panes c \<longleftrightarrow> (\<exists>sid w. workspaces c sid = Some w \<and> p \<in> set (all_panes w))"
  by (auto simp: ws_panes_def ran_def)

lemma set_map_filter_iff: "y \<in> set (List.map_filter f xs) \<longleftrightarrow> (\<exists>x \<in> set xs. f x = Some y)"
  by (force simp: List.map_filter_def)

lemma all_ws_iff: "inv E c \<Longrightarrow> w \<in> set (all_ws c) \<longleftrightarrow> (\<exists>sid. workspaces c sid = Some w)"
  unfolding all_ws_def set_map_filter_iff by (auto simp: inv_def)

lemma find_ws_Some:
  assumes "inv E c" "find_ws P c = Some w"
  shows "P w" "workspaces c (ws_id w) = Some w"
proof -
  have "P w" and w: "w \<in> set (all_ws c)"
    using assms(2) unfolding find_ws_def find_Some_iff by (metis nth_mem)+
  then show "P w" "workspaces c (ws_id w) = Some w"
    using assms(1) by (auto simp: all_ws_iff dest: inv_wsD(1))
qed

lemma ws_panes_upd:
  assumes w: "workspaces c sid = Some w" and more: "set (all_panes w) \<subseteq> set (all_panes v)"
  shows "ws_panes (c\<lparr>workspaces := (workspaces c)(sid := Some v)\<rparr>) = ws_panes c \<union> set (all_panes v)"
    (is "ws_panes ?d = _")
proof (rule set_eqI)
  fix p
  show "p \<in> ws_panes ?d \<longleftrightarrow> p \<in> ws_panes c \<union> set (all_panes v)"
  proof
    assume "p \<in> ws_panes ?d"
    then obtain s u where "workspaces ?d s = Some u" "p \<in> set (all_panes u)" unfolding ws_panes_iff by blast
    then show "p \<in> ws_panes c \<union> set (all_panes v)" by (cases "s = sid") (auto simp: ws_panes_iff)
  next
    assume "p \<in> ws_panes c \<union> set (all_panes v)"
    then consider (new) "p \<in> set (all_panes v)" | (old) s u where "s \<noteq> sid" "workspaces c s = Some u" "p \<in> set (all_panes u)"
      using w more by (auto simp: ws_panes_iff) (metis option.inject subsetD)
    then show "p \<in> ws_panes ?d"
    proof cases
      case new
      then show ?thesis unfolding ws_panes_iff by (intro exI [of _ sid] exI [of _ v]) simp
    next
      case old
      then show ?thesis unfolding ws_panes_iff by (intro exI [of _ s] exI [of _ u]) simp
    qed
  qed
qed

text \<open>Workspaces stay apart when one of them takes panes no other has.\<close>

lemma apart_upd:
  assumes apart: "\<And>s t v u. m s = Some v \<Longrightarrow> m t = Some u \<Longrightarrow> s \<noteq> t \<Longrightarrow> A v \<inter> A u = {}"
    and new: "\<And>r x. m r = Some x \<Longrightarrow> r \<noteq> sid \<Longrightarrow> A y \<inter> A x = {}"
    and at: "(m(sid := Some y)) s = Some v" "(m(sid := Some y)) t = Some u" "s \<noteq> t"
  shows "A v \<inter> A u = {}"
proof (cases "s = sid")
  case True
  then have "v = y" "m t = Some u" "t \<noteq> sid" using at by (auto split: if_splits)
  then show ?thesis using new by simp
next
  case s: False
  show ?thesis
  proof (cases "t = sid")
    case True
    then have "u = y" "m s = Some v" using at s by (auto split: if_splits)
    then show ?thesis using new s by (simp add: Int_commute)
  next
    case False
    then have "m s = Some v" "m t = Some u" using at s by (auto split: if_splits)
    then show ?thesis using at(3) by (rule apart)
  qed
qed

text \<open>
  One workspace changes and gains the panes \<open>N\<close> of those that wait: all an operation has to
  show is that the new workspace is well formed and its rails hold the right kind of pane.
\<close>

lemma inv_upd_ws:
  assumes i: "inv E c" and w: "workspaces c sid = Some w"
    and f: "ws_id (f w) = sid" "wf_ws (f w)" "rails_ok (kinds c) (f w)"
      "set (all_panes (f w)) = set (all_panes w) \<union> N" "N \<subseteq> E"
  shows "inv (E - N) (upd_ws sid f c)"
proof -
  let ?d = "c\<lparr>workspaces := (workspaces c)(sid := Some (f w))\<rparr>"
  have d: "upd_ws sid f c = ?d" by (simp add: upd_ws_def w)
  have "set (all_panes w) \<subseteq> ws_panes c" using w by (auto simp: ws_panes_def ran_def)
  then have panes: "ws_panes ?d = ws_panes c \<union> N" using ws_panes_upd [OF w, of "f w"] f(4) by auto
  have dom: "dom (workspaces ?d) = dom (workspaces c)" using w by auto
  have s: "sessions ?d = sessions c" by (simp add: sessions_def)
  show ?thesis
    unfolding d
  proof (rule invI)
    fix r v
    assume a: "workspaces ?d r = Some v"
    show "ws_id v = r \<and> wf_ws v \<and> r < next_ws ?d \<and> rails_ok (kinds ?d) v"
      using a f(1-3) inv_wsD [OF i, of r] w by (cases "r = sid") auto
  next
    fix r t v u
    assume a: "workspaces ?d r = Some v" "workspaces ?d t = Some u" "r \<noteq> t"
    have new: "set (all_panes (f w)) \<inter> set (all_panes x) = {}" if "workspaces c q = Some x" "q \<noteq> sid" for q x
      using invD(9) [OF i w that(1)] that(2) inv_wsD(7) [OF i that(1)] f(4,5) by blast
    show "set (all_panes v) \<inter> set (all_panes u) = {}"
      by (rule apart_upd [of "workspaces c" "\<lambda>w. set (all_panes w)" sid "f w", OF invD(9) [OF i] new])
         (use a in simp_all)
  next
    fix i' s'
    assume "(i', Some s') \<in> set (sessions ?d)"
    then show "s' \<in> dom (workspaces ?d)" unfolding s dom by (rule invD(6) [OF i])
  next
    show "dom (panes ?d) = ws_panes ?d \<union> (E - N)" "ws_panes ?d \<inter> (E - N) = {}"
      unfolding panes using invD(3,4) [OF i] f(5) by auto
  next
    show "set (ws_order ?d) = dom (workspaces ?d)" unfolding dom using invD(2) [OF i] by simp
  next
    show "distinct (map fst (sessions ?d))" unfolding s by (rule invD(7) [OF i])
  next
    fix p
    assume "p \<in> dom (panes ?d)"
    then show "p < next_pane ?d" using invD(5) [OF i, of p] by simp
  qed (use invD(1,8) [OF i] in simp_all)
qed

lemma inv_upd_ws_same:
  assumes "inv E c"
    and "\<And>w. workspaces c sid = Some w \<Longrightarrow> wf_ws w \<Longrightarrow> ws_id (f w) = ws_id w \<and> wf_ws (f w)
      \<and> set (agents (f w)) = set (agents w) \<and> set (processes (f w)) = set (processes w)
      \<and> changes (f w) = changes w \<and> docker_logs (f w) = docker_logs w"
  shows "inv E (upd_ws sid f c)"
proof (cases "workspaces c sid")
  case None
  then show ?thesis using assms(1) by (simp add: upd_ws_def)
next
  case (Some w)
  note s = assms(2) [OF Some inv_wsD(2) [OF assms(1) Some]]
  have "inv (E - {}) (upd_ws sid f c)"
  proof (rule inv_upd_ws [OF assms(1) Some])
    show "rails_ok (kinds c) (f w)" using s inv_wsD(4) [OF assms(1) Some] by (simp add: rails_ok_def)
  qed (use s inv_wsD(1) [OF assms(1) Some] in \<open>auto simp: set_all_panes\<close>)
  then show ?thesis by simp
qed


section \<open>Identifiers\<close>

interpretation ids: id_supply next_pane alloc_pane_id "\<lambda>c. dom (panes c)"
  by unfold_locales (simp_all add: alloc_pane_id_def)

lemma inv_fresh: "inv E c \<Longrightarrow> ids.fresh c"
  unfolding ids.fresh_def by (auto dest: invD(5))

lemma next_pane_unused: "inv E c \<Longrightarrow> next_pane c \<notin> dom (panes c)"
  using ids.alloc_fresh [OF inv_fresh] by (simp add: ids.alloc_id)

lemma rails_ok_mono:
  "rails_ok kd w \<Longrightarrow> (\<And>p. p \<in> set (all_panes w) \<Longrightarrow> kd' p = kd p) \<Longrightarrow> rails_ok kd' w"
  by (auto simp: rails_ok_def set_all_panes)

lemma inv_alloc: "inv E c \<Longrightarrow> inv E (c\<lparr>next_pane := Suc (next_pane c)\<rparr>)"
proof -
  assume i: "inv E c"
  have e: "kinds (c\<lparr>next_pane := Suc (next_pane c)\<rparr>) = kinds c" by (simp add: kinds_def fun_eq_iff)
  have "p < Suc (next_pane c)" if "p \<in> dom (panes c)" for p using invD(5) [OF i that] by simp
  then show ?thesis
    using i unfolding inv_def e by (simp add: ws_panes_def sessions_def)
qed

lemma inv_new_pane:
  assumes i: "inv E c"
  shows "inv (insert (next_pane c) E) (c\<lparr>next_pane := Suc (next_pane c), panes := (panes c)(next_pane c := Some s)\<rparr>)"
    (is "inv _ ?d")
proof -
  let ?p = "next_pane c"
  note fresh = next_pane_unused [OF i]
  have k: "kinds ?d q = kinds c q" if "q \<noteq> ?p" for q using that by (simp add: kinds_def)
  have w: "ws_panes ?d = ws_panes c" "sessions ?d = sessions c" by (simp_all add: ws_panes_def sessions_def)
  show ?thesis
  proof (rule invI)
    fix sid v
    assume "workspaces ?d sid = Some v"
    then have a: "workspaces c sid = Some v" by simp
    have "q \<noteq> ?p" if "q \<in> set (all_panes v)" for q using inv_wsD(6) [OF i a] fresh that by blast
    then have "rails_ok (kinds ?d) v" by (intro rails_ok_mono [OF inv_wsD(4) [OF i a]] k)
    then show "ws_id v = sid \<and> wf_ws v \<and> sid < next_ws ?d \<and> rails_ok (kinds ?d) v"
      using inv_wsD(1-3) [OF i a] by simp
  next
    fix q
    assume "q \<in> dom (panes ?d)"
    then have "q = ?p \<or> q \<in> dom (panes c)" by (auto split: if_splits)
    then show "q < next_pane ?d"
    proof
      assume "q \<in> dom (panes c)"
      from invD(5) [OF i this] show ?thesis by simp
    qed simp
  next
    have "?p \<notin> ws_panes c" using fresh invD(3) [OF i] by blast
    then show "dom (panes ?d) = ws_panes ?d \<union> insert ?p E" "ws_panes ?d \<inter> insert ?p E = {}"
      unfolding w using invD(3,4) [OF i] by auto
  next
    fix j t
    assume "(j, Some t) \<in> set (sessions ?d)"
    then show "t \<in> dom (workspaces ?d)" using invD(6) [OF i] unfolding w by simp
  qed (use invD(1,2,8) [OF i] invD(7) [OF i] invD(9) [OF i] in \<open>simp_all add: w\<close>)
qed

section \<open>Starting panes\<close>

lemma spawn_terminal_fields:
  "workspaces (snd (spawn_terminal_replaying env sid cwd kid dims rep c)) = workspaces c"
  "ws_order (snd (spawn_terminal_replaying env sid cwd kid dims rep c)) = ws_order c"
  "clients (snd (spawn_terminal_replaying env sid cwd kid dims rep c)) = clients c"
  "next_ws (snd (spawn_terminal_replaying env sid cwd kid dims rep c)) = next_ws c"
  "cfg (snd (spawn_terminal_replaying env sid cwd kid dims rep c)) = cfg c"
  "next_pane (snd (spawn_terminal_replaying env sid cwd kid dims rep c)) = Suc (next_pane c)"
  "session_store (snd (spawn_terminal_replaying env sid cwd kid dims rep c)) = session_store c"
  "deferred (snd (spawn_terminal_replaying env sid cwd kid dims rep c)) = deferred c"
  "disk_dumps (snd (spawn_terminal_replaying env sid cwd kid dims rep c)) = disk_dumps c"
  "disk_session (snd (spawn_terminal_replaying env sid cwd kid dims rep c)) = disk_session c"
  "restoring (snd (spawn_terminal_replaying env sid cwd kid dims rep c)) = restoring c"
  "shutdown (snd (spawn_terminal_replaying env sid cwd kid dims rep c)) = shutdown c"
  by (auto simp: spawn_terminal_replaying_def alloc_pane_id_def Let_def split: option.splits)

lemma inv_spawn_terminal:
  assumes i: "inv E c" and r: "spawn_terminal_replaying env sid cwd kid dims rep c = (r, d)"
  shows "(\<exists>e. r = Inl e) \<Longrightarrow> inv E d"
    and "r = Inr p \<Longrightarrow> inv (insert p E) d \<and> p = next_pane c \<and> p \<notin> dom (panes c) \<and> kinds d p = Some KTerm"
proof -
  show "inv E d" if "\<exists>e. r = Inl e"
    using r that inv_alloc [OF i]
    by (auto simp: spawn_terminal_replaying_def alloc_pane_id_def Let_def split: option.splits)
  show "inv (insert p E) d \<and> p = next_pane c \<and> p \<notin> dom (panes c) \<and> kinds d p = Some KTerm" if "r = Inr p"
    using r that inv_new_pane [OF i] next_pane_unused [OF i]
    by (auto simp: spawn_terminal_replaying_def alloc_pane_id_def Let_def kinds_def kind_of_def split: option.splits)
qed


lemma add_row:
  assumes "wf_ws w" "p \<notin> set (all_panes w)"
  shows "wf_ws (add_agent p m w)" "wf_ws (add_process p n w)"
    "wf_ws (set_stage p (add_agent p m w))" "wf_ws (set_stage p (add_process p n w))"
  using assms by (auto simp: wf_ws_def add_agent_def add_process_def set_stage_def all_panes_def)

lemma add_row_panes:
  "set (all_panes (add_agent p m w)) = insert p (set (all_panes w))"
  "set (all_panes (add_process p n w)) = insert p (set (all_panes w))"
  "set (all_panes (set_stage q w)) = set (all_panes w)"
  "ws_id (add_agent p m w) = ws_id w" "ws_id (add_process p n w) = ws_id w" "ws_id (set_stage q w) = ws_id w"
  by (auto simp: set_all_panes add_agent_def add_process_def set_stage_def)

lemma add_row_rails:
  "rails_ok kd w \<Longrightarrow> kd p = Some KTerm \<Longrightarrow> rails_ok kd (add_agent p m w)"
  "rails_ok kd w \<Longrightarrow> kd p = Some KTerm \<Longrightarrow> rails_ok kd (add_process p n w)"
  "rails_ok kd (set_stage q w) \<longleftrightarrow> rails_ok kd w"
  by (auto simp: rails_ok_def add_agent_def add_process_def set_stage_def)

lemma upd_ws_fields [simp]:
  "kinds (upd_ws sid f c) = kinds c" "panes (upd_ws sid f c) = panes c" "ws_order (upd_ws sid f c) = ws_order c"
  "next_pane (upd_ws sid f c) = next_pane c" "clients (upd_ws sid f c) = clients c" "cfg (upd_ws sid f c) = cfg c"
  "next_ws (upd_ws sid f c) = next_ws c" "session_store (upd_ws sid f c) = session_store c"
  "deferred (upd_ws sid f c) = deferred c" "disk_dumps (upd_ws sid f c) = disk_dumps c"
  "restoring (upd_ws sid f c) = restoring c" "dom (workspaces (upd_ws sid f c)) = dom (workspaces c)"
  by (auto simp: upd_ws_def split: option.splits)

text \<open>A pane that was just started joins a rail of its workspace.\<close>

lemma inv_join:
  assumes i: "inv (insert p E) c" "p \<notin> E" and w: "workspaces c sid = Some w" and k: "kinds c p = Some KTerm"
    and f: "f w = add_agent p m w \<or> f w = set_stage p (add_agent p m w)
      \<or> f w = add_process p n w \<or> f w = set_stage p (add_process p n w)"
  shows "inv E (upd_ws sid f c)"
proof -
  note iw = inv_wsD [OF i(1) w]
  have p: "p \<notin> set (all_panes w)" using iw(7) by simp
  have "inv (insert p E - {p}) (upd_ws sid f c)"
    by (rule inv_upd_ws [OF i(1) w])
       (use f p iw k in \<open>auto simp: add_row_panes add_row_rails intro: add_row\<close>)
  then show ?thesis using i(2) by simp
qed

lemma inv_spawn_agent:
  assumes i: "inv E c" and "spawn_agent_restoring env sid nm rep session spk background c = (r, d)"
  shows "inv E d"
proof (cases "config_agent nm (cfg c)")
  case None
  then show ?thesis using assms by (simp add: spawn_agent_restoring_def)
next
  case (Some a)
  show ?thesis
  proof (cases "workspaces c sid")
    case None
    then show ?thesis using assms Some by (simp add: spawn_agent_restoring_def)
  next
    case w: (Some w)
    obtain conv args resumed where l: "agent_launch env (next_pane c) a session spk = (conv, args, resumed)"
      by (metis prod_cases3)
    obtain x b where s: "spawn_terminal_replaying env sid (ws_cwd w) (Program (ad_command a) args (ad_env a) (ad_name a)
        (e_compile env (ad_name a) (ad_waiting a) (ad_busy a))) (stage_size_of sid c) rep c = (x, b)"
      by (metis surj_pair)
    show ?thesis
    proof (cases x)
      case (Inl e)
      then have "inv E b" using inv_spawn_terminal(1) [OF i s] by blast
      then show ?thesis using assms(2) Some w l s Inl by (simp add: spawn_agent_restoring_def Let_def)
    next
      case (Inr p)
      from inv_spawn_terminal(2) [OF i s this]
      have b: "inv (insert p E) b" "p \<notin> dom (panes c)" "kinds b p = Some KTerm" by blast+
      have "p \<notin> E" using b(2) invD(3) [OF i] by blast
      moreover have "workspaces b sid = Some w" using w s spawn_terminal_fields(1) by (metis snd_conv)
      ultimately have "inv E (upd_ws sid (\<lambda>w. let w = add_agent p \<lparr>am_name = ad_name a, session_id = conv, spoke = resumed\<rparr> w
                               in if background then w else set_stage p w) b)"
        using b by (intro inv_join [where m = "\<lparr>am_name = ad_name a, session_id = conv, spoke = resumed\<rparr>"]) (auto simp: Let_def)
      then show ?thesis
        using assms(2) Some w l s Inr
        by (auto simp: spawn_agent_restoring_def Let_def split: if_splits)
    qed
  qed
qed

lemma inv_spawn_process:
  assumes i: "inv E c" and w: "workspaces c sid = Some w" and "spawn_process env sid cwd m st rep c = (r, d)"
  shows "inv E d"
proof -
  obtain x b where s: "spawn_terminal_replaying env sid cwd
      (if pm_command m = config_shell env (cfg c) then Shell else CommandLine (pm_command m)) (stage_size_of sid c) rep c = (x, b)"
    by (metis surj_pair)
  show ?thesis
  proof (cases x)
    case (Inl e)
    then have "inv E b" using inv_spawn_terminal(1) [OF i s] by blast
    then show ?thesis using assms(3) s Inl by (simp add: spawn_process_def Let_def)
  next
    case (Inr p)
    from inv_spawn_terminal(2) [OF i s this]
    have b: "inv (insert p E) b" "p \<notin> dom (panes c)" "kinds b p = Some KTerm" by blast+
    have "p \<notin> E" using b(2) invD(3) [OF i] by blast
    moreover have "workspaces b sid = Some w" using w s spawn_terminal_fields(1) by (metis snd_conv)
    ultimately have "inv E (upd_ws sid (\<lambda>w. let w = add_process p m w in if st then set_stage p w else w) b)"
      using b by (intro inv_join [where n = m]) (auto simp: Let_def)
    then show ?thesis using assms(3) s Inr by (auto simp: spawn_process_def Let_def split: if_splits)
  qed
qed

end
