(* ===== verification/Core_Safe.thy ===== *)
theory Core_Safe
  imports Core_Inv
begin

text \<open>
  Every step of the core keeps its invariant: dropping a pane, opening, closing and restoring a
  workspace, a pane's exit, and then each handler in turn.
\<close>

section \<open>Scans\<close>

lemma inv_refreshing:
  "inv E c \<Longrightarrow> again \<subseteq> refr \<Longrightarrow> inv E (c\<lparr>git_refreshing := refr, git_refresh_again := again\<rparr>)"
  unfolding inv_def by (simp add: ws_panes_def kinds_def [abs_def] sessions_def)

lemma inv_request_refresh: "inv E c \<Longrightarrow> inv E (request_git_refresh p c)"
proof -
  assume i: "inv E c"
  note s = invD(8) [OF i]
  have "inv E (c\<lparr>git_refresh_again := insert p (git_refresh_again c)\<rparr>)" if "p \<in> git_refreshing c"
    using inv_refreshing [OF i, of "insert p (git_refresh_again c)" "git_refreshing c"] s that by simp
  moreover have "inv E (c\<lparr>git_refreshing := insert p (git_refreshing c)\<rparr>)"
    using inv_refreshing [OF i, of "git_refresh_again c" "insert p (git_refreshing c)"] s by auto
  ultimately show ?thesis
    using i by (auto simp: request_git_refresh_def split: option.splits pane_state.splits)
qed

lemma inv_fold_refresh: "inv E c \<Longrightarrow> inv E (fold request_git_refresh ps c)"
  by (induction ps arbitrary: c) (simp_all add: inv_request_refresh)

lemma inv_set_git:
  assumes "inv E c" "panes c p = Some (PGit g)"
  shows "inv E (c\<lparr>panes := (panes c)(p := Some (PGit h))\<rparr>)"
proof -
  have "shape (c\<lparr>panes := (panes c)(p := Some (PGit h))\<rparr>) = shape c"
  proof -
    have "kinds (c\<lparr>panes := (panes c)(p := Some (PGit h))\<rparr>) = kinds c"
      by (rule ext) (simp add: kinds_def kind_of_def assms(2))
    then show ?thesis by (simp add: shape_def sessions_def)
  qed
  from inv_same [OF this] show ?thesis using assms(1) by simp
qed

lemma panes_again_commute:
  "c\<lparr>panes := x, dirty := y, git_refresh_again := z\<rparr> = c\<lparr>git_refresh_again := z, panes := x, dirty := y\<rparr>"
  by (cases c) simp

lemma inv_git_refreshed: "inv E c \<Longrightarrow> inv E (git_refreshed env p snap c)"
proof -
  assume i: "inv E c"
  let ?again = "git_refresh_again c"
  let ?d = "c\<lparr>git_refreshing := git_refreshing c - {p}, git_refresh_again := ?again - {p}\<rparr>"
  note s = invD(8) [OF i]
  have d: "inv E ?d" by (rule inv_refreshing [OF i]) (use s in auto)
  have eq: "git_refreshed env p snap c =
      (if p \<in> ?again then request_git_refresh p else id)
        (case panes c p of
           Some (PGit g) \<Rightarrow> ?d\<lparr>panes := (panes ?d)(p := Some (PGit (e_git_apply env snap g))), dirty := True\<rparr>
         | _ \<Rightarrow> ?d)"
    by (cases "panes c p"; cases "p \<in> ?again") (simp_all add: git_refreshed_def Let_def panes_again_commute split: pane_state.split)
  show ?thesis
    unfolding eq using d inv_set_git [OF d]
    by (auto intro!: inv_request_refresh split: option.splits pane_state.splits)
qed

section \<open>Dropping a pane\<close>

lemma rails_forget: "rails_ok kd w \<Longrightarrow> rails_ok kd (snd (forget_pane p w))"
  using set_remove1_subset [of p "agents w"] set_remove1_subset [of p "processes w"]
  unfolding rails_ok_def forget_pane_simps by auto

lemma set_forget:
  "wf_ws w \<Longrightarrow> set (all_panes (snd (forget_pane p w))) = set (all_panes w) - {p}"
  by (simp add: forget_pane_all_panes wf_ws_def)

lemma ws_panes_drop:
  assumes w: "workspaces c sid = Some w" and v: "set (all_panes u) = set (all_panes w) - {p}"
    and only: "\<And>r v. workspaces c r = Some v \<Longrightarrow> r \<noteq> sid \<Longrightarrow> p \<notin> set (all_panes v)"
  shows "ws_panes (c\<lparr>workspaces := (workspaces c)(sid := Some u), panes := x\<rparr>) = ws_panes c - {p}"
    (is "ws_panes ?d = _")
proof (rule set_eqI)
  fix q
  show "q \<in> ws_panes ?d \<longleftrightarrow> q \<in> ws_panes c - {p}"
  proof
    assume "q \<in> ws_panes ?d"
    then obtain r v where r: "workspaces ?d r = Some v" "q \<in> set (all_panes v)" unfolding ws_panes_iff by blast
    show "q \<in> ws_panes c - {p}"
      using r v w only [of r v] by (cases "r = sid") (auto simp: ws_panes_iff)
  next
    assume "q \<in> ws_panes c - {p}"
    then have "q \<in> ws_panes c" and q: "q \<noteq> p" by simp_all
    then obtain r v where r: "workspaces c r = Some v" "q \<in> set (all_panes v)" unfolding ws_panes_iff by blast
    show "q \<in> ws_panes ?d"
      using r v w q unfolding ws_panes_iff
      by (cases "r = sid") (auto intro!: exI [of _ r])
  qed
qed

lemma inv_drop:
  assumes i: "inv E c" and w: "workspaces c sid = Some w" and p: "p \<in> set (all_panes w)"
  shows "inv E (c\<lparr>workspaces := (workspaces c)(sid := Some (snd (forget_pane p w))), panes := (panes c)(p := None)\<rparr>)"
    (is "inv E ?d")
proof -
  note iw = inv_wsD [OF i w]
  let ?w = "snd (forget_pane p w)"
  have s: "set (all_panes ?w) = set (all_panes w) - {p}" by (rule set_forget [OF iw(2)])
  have only: "p \<notin> set (all_panes v)" if "workspaces c r = Some v" "r \<noteq> sid" for r v
    using invD(9) [OF i w that(1)] that(2) p by blast
  have k: "kinds ?d q = kinds c q" if "q \<noteq> p" for q using that by (simp add: kinds_def)
  have panes: "ws_panes ?d = ws_panes c - {p}" by (rule ws_panes_drop [OF w s only])
  have sess: "sessions ?d = sessions c" by (simp add: sessions_def)
  show ?thesis
  proof (rule invI)
    fix r v
    assume a: "workspaces ?d r = Some v"
    show "ws_id v = r \<and> wf_ws v \<and> r < next_ws ?d \<and> rails_ok (kinds ?d) v"
    proof (cases "r = sid")
      case True
      then have v: "v = ?w" using a by simp
      have "rails_ok (kinds ?d) ?w"
        by (rule rails_ok_mono [OF rails_forget [OF iw(4), of p]]) (use s k in auto)
      then show ?thesis using True v iw(1,3) wf_forget_pane [OF iw(2)] by (simp add: forget_pane_simps)
    next
      case False
      then have b: "workspaces c r = Some v" using a by simp
      have "rails_ok (kinds ?d) v"
        by (rule rails_ok_mono [OF inv_wsD(4) [OF i b]]) (metis k only [OF b False])
      then show ?thesis using inv_wsD(1-3) [OF i b] by simp
    qed
  next
    fix r t v u
    assume a: "workspaces ?d r = Some v" "workspaces ?d t = Some u" "r \<noteq> t"
    have new: "set (all_panes ?w) \<inter> set (all_panes x) = {}" if "workspaces c q = Some x" "q \<noteq> sid" for q x
      using invD(9) [OF i w that(1)] that(2) s by blast
    show "set (all_panes v) \<inter> set (all_panes u) = {}"
      by (rule apart_upd [of "workspaces c" "\<lambda>w. set (all_panes w)" sid ?w, OF invD(9) [OF i] new])
         (use a in simp_all)
  next
    have "p \<notin> E" using iw(7) p by blast
    then show "dom (panes ?d) = ws_panes ?d \<union> E" "ws_panes ?d \<inter> E = {}"
      unfolding panes using invD(3,4) [OF i] by auto
  next
    fix q
    assume "q \<in> dom (panes ?d)"
    then have "q \<in> dom (panes c)" by (auto split: if_splits)
    then show "q < next_pane ?d" using invD(5) [OF i] by simp
  next
    fix j t
    assume "(j, Some t) \<in> set (sessions ?d)"
    then have "t \<in> dom (workspaces c)" using invD(6) [OF i] unfolding sess by simp
    then show "t \<in> dom (workspaces ?d)" using w by auto
  next
    show "set (ws_order ?d) = dom (workspaces ?d)" using invD(2) [OF i] w by auto
  qed (use invD(1,8) [OF i] invD(7) [OF i] in \<open>simp_all add: sess\<close>)
qed

lemma inv_drop_pane:
  assumes "inv E c" "workspaces c sid = Some w" "p \<in> set (all_panes w)"
  shows "inv E (drop_pane env sid p c)"
  using inv_drop [OF assms] assms(2) by (simp add: drop_pane_def upd_ws_def)


section \<open>Opening a workspace\<close>

lemma inv_next_ws: "inv E c \<Longrightarrow> inv E (c\<lparr>next_ws := Suc (next_ws c)\<rparr>)"
  unfolding inv_def by (simp add: ws_panes_def sessions_def) (metis less_SucI)

lemma inv_install:
  assumes i: "inv E c" and w: "workspaces c (ws_id w) = None" "ws_id w < next_ws c" "wf_ws w"
    "rails_ok (kinds c) w" "set (all_panes w) = E"
  shows "inv {} (install_ws w c)" (is "inv {} ?d")
proof -
  have k: "kinds ?d = kinds c" "sessions ?d = sessions c" by (simp_all add: install_ws_def kinds_def [abs_def] sessions_def)
  have f: "workspaces ?d = (workspaces c)(ws_id w := Some w)" "ws_order ?d = ws_order c @ [ws_id w]"
    "panes ?d = panes c" "next_pane ?d = next_pane c" "next_ws ?d = next_ws c"
    "git_refreshing ?d = git_refreshing c" "git_refresh_again ?d = git_refresh_again c"
    by (simp_all add: install_ws_def)
  have new: "set (all_panes w) \<inter> set (all_panes x) = {}" if "workspaces c r = Some x" for r x
    using inv_wsD(7) [OF i that] w(5) by blast
  have panes: "ws_panes ?d = ws_panes c \<union> E"
  proof (rule set_eqI)
    fix p
    show "p \<in> ws_panes ?d \<longleftrightarrow> p \<in> ws_panes c \<union> E"
    proof
      assume "p \<in> ws_panes ?d"
      then obtain r v where r: "workspaces ?d r = Some v" "p \<in> set (all_panes v)" unfolding ws_panes_iff by blast
      show "p \<in> ws_panes c \<union> E" using r w(5) by (cases "r = ws_id w") (auto simp: f ws_panes_iff)
    next
      assume "p \<in> ws_panes c \<union> E"
      then consider "p \<in> set (all_panes w)" | r v where "workspaces c r = Some v" "p \<in> set (all_panes v)"
        using w(5) by (auto simp: ws_panes_iff)
      then show "p \<in> ws_panes ?d"
      proof cases
        case 1
        then show ?thesis unfolding ws_panes_iff f by (intro exI [of _ "ws_id w"] exI [of _ w]) simp
      next
        case 2
        then have "r \<noteq> ws_id w" using w(1) by auto
        then show ?thesis unfolding ws_panes_iff f using 2 by (intro exI [of _ r] exI [of _ v]) simp
      qed
    qed
  qed
  show ?thesis
  proof (rule invI)
    fix r v
    assume "workspaces ?d r = Some v"
    then show "ws_id v = r \<and> wf_ws v \<and> r < next_ws ?d \<and> rails_ok (kinds ?d) v"
      using inv_wsD(1-4) [OF i, of r v] w(2-4) unfolding f k by (auto split: if_splits)
  next
    fix r t v u
    assume "workspaces ?d r = Some v" "workspaces ?d t = Some u" "r \<noteq> t"
    then show "set (all_panes v) \<inter> set (all_panes u) = {}"
      unfolding f by (intro apart_upd [of "workspaces c" "\<lambda>w. set (all_panes w)" "ws_id w" w, OF invD(9) [OF i] new])
  next
    show "dom (panes ?d) = ws_panes ?d \<union> {}" "ws_panes ?d \<inter> {} = {}"
      using invD(3) [OF i] unfolding f panes by auto
  next
    fix j t
    assume "(j, Some t) \<in> set (sessions ?d)"
    then show "t \<in> dom (workspaces ?d)" using invD(6) [OF i, of j t] unfolding f k by auto
  next
    have "ws_id w \<notin> set (ws_order c)" using invD(2) [OF i] w(1) by auto
    then show "distinct (ws_order ?d)" "set (ws_order ?d) = dom (workspaces ?d)"
      using invD(1,2) [OF i] unfolding f by auto
  next
    fix p
    assume "p \<in> dom (panes ?d)"
    then show "p < next_pane ?d" unfolding f by (rule invD(5) [OF i])
  qed (use invD(7) [OF i] invD(8) [OF i] in \<open>simp_all add: f k\<close>)
qed

text \<open>The workspace before it is installed: well formed, its panes the ones that wait.\<close>

definition ready_ws :: "('v, 'g) core \<Rightarrow> workspace \<Rightarrow> bool" where
  "ready_ws c w \<longleftrightarrow> wf_ws w \<and> rails_ok (kinds c) w \<and> inv (set (all_panes w)) c
     \<and> ws_id w < next_ws c \<and> workspaces c (ws_id w) = None"

lemma open_shell_ready:
  assumes r: "ready_ws c w" "all_panes w = []" and o: "open_shell env w c = (r, d)"
  shows "(\<exists>e. r = Inl e) \<Longrightarrow> inv {} d"
    and "r = Inr (v, sp) \<Longrightarrow> ready_ws d v \<and> ws_id v = ws_id w \<and> ws_cwd v = ws_cwd w \<and> changes v = None"
proof -
  obtain x b where s: "spawn_terminal_replaying env (ws_id w) (ws_cwd w) Shell UNWATCHED_PANE_SIZE None c = (x, b)"
    by (metis surj_pair)
  have i: "inv {} c" using r by (simp add: ready_ws_def)
  have f: "workspaces b = workspaces c" "next_ws b = next_ws c"
    using spawn_terminal_fields(1,4) s by (metis snd_conv)+
  have e: "agents w = []" "processes w = []" "changes w = None" "docker_logs w = None"
    using r(2) by (auto simp: all_panes_def opt_list_def split: option.splits)
  show "inv {} d" if "\<exists>e. r = Inl e"
    using that o s inv_spawn_terminal(1) [OF i s] by (auto simp: open_shell_def Let_def split: sum.splits)
  assume "r = Inr (v, sp)"
  then obtain p where p: "x = Inr p" "d = b" "v = set_stage p (add_process p (shell_meta (config_shell env (cfg c))) w)"
    using o s by (auto simp: open_shell_def Let_def split: sum.splits)
  have ib: "inv {p} b" and bk: "kinds b p = Some KTerm"
    using inv_spawn_terminal(2) [OF i s p(1)] by blast+
  have sv: "set (all_panes v) = {p}" using e p(3) by (simp add: add_row_panes r(2))
  have "inv (set (all_panes v)) d" unfolding sv p(2) by (rule ib)
  moreover have "wf_ws v" using p(3) r by (auto simp: ready_ws_def intro: add_row)
  moreover have "rails_ok (kinds d) v"
    using p e bk by (simp add: rails_ok_def set_stage_def add_process_def)
  moreover have "ws_id v = ws_id w" "ws_cwd v = ws_cwd w" "changes v = None" using p(3) e by (simp_all add: set_stage_def add_process_def)
  moreover have "ws_id w < next_ws d" "workspaces d (ws_id w) = None" using r(1) f p(2) by (simp_all add: ready_ws_def)
  ultimately show "ready_ws d v \<and> ws_id v = ws_id w \<and> ws_cwd v = ws_cwd w \<and> changes v = None"
    by (simp add: ready_ws_def)
qed

lemma open_changes_ready:
  assumes r: "ready_ws c w" "changes w = None" and o: "open_changes env w c = (v, d)"
  shows "ready_ws d v \<and> ws_id v = ws_id w \<and> ws_cwd v = ws_cwd w"
proof (cases "e_git_open env (ws_cwd w)")
  case None
  then show ?thesis using assms by (simp add: open_changes_def)
next
  case (Some g)
  let ?p = "next_pane c"
  let ?b = "c\<lparr>next_pane := Suc ?p, panes := (panes c)(?p := Some (PGit g))\<rparr>"
  have v: "v = w\<lparr>changes := Some ?p\<rparr>" "d = request_git_refresh ?p ?b"
    using o Some by (simp_all add: open_changes_def alloc_pane_id_def Let_def)
  have i: "inv (set (all_panes w)) c" using r by (simp add: ready_ws_def)
  have fresh: "?p \<notin> set (all_panes w)"
    using next_pane_unused [OF i] invD(3) [OF i] by blast
  have set: "set (all_panes v) = insert ?p (set (all_panes w))"
    using v(1) r(2) by (auto simp: set_all_panes)
  have k: "kinds d q = (if q = ?p then Some KGit else kinds c q)" for q
    unfolding v(2) by (auto simp: request_git_refresh_def kinds_def kind_of_def split: option.splits pane_state.splits)
  have f: "workspaces d = workspaces c" "next_ws d = next_ws c"
    unfolding v(2) by (auto simp: request_git_refresh_def)
  have "inv (set (all_panes v)) d"
    unfolding v(2) set by (intro inv_request_refresh inv_new_pane i)
  moreover have "wf_ws v"
    using r fresh v(1) by (auto simp: ready_ws_def wf_ws_def all_panes_def)
  moreover have "rails_ok (kinds d) v"
  proof -
    have "rails_ok (kinds d) w"
      by (rule rails_ok_mono [of "kinds c"]) (use r fresh k in \<open>auto simp: ready_ws_def\<close>)
    then show ?thesis using v(1) k by (auto simp: rails_ok_def)
  qed
  ultimately show ?thesis using r v(1) f by (simp add: ready_ws_def)
qed

end
