(* ===== verification/Core_Keep.thy ===== *)
theory Core_Keep
  imports Core_Safe "HOL-Library.Multiset"
begin

text \<open>
  The rest of the life of a workspace keeps the invariant: starting what the workspace file or a
  previous daemon lists, closing a workspace, the clean start of an agent that could not reopen its
  conversation, a pane's exit, restoring a session and stopping.
\<close>

section \<open>Rows only grow while panes are started\<close>

definition grown :: "session_id \<Rightarrow> ('v, 'g) core \<Rightarrow> ('v, 'g) core \<Rightarrow> bool" where
  "grown sid c d \<longleftrightarrow>
     (\<forall>w. workspaces c sid = Some w \<longrightarrow>
        (\<exists>v. workspaces d sid = Some v \<and> ws_cwd v = ws_cwd w
           \<and> set (agents w) \<subseteq> set (agents v) \<and> set (processes w) \<subseteq> set (processes v)))"

definition on_row :: "session_id \<Rightarrow> ('v, 'g) core \<Rightarrow> pane_id \<Rightarrow> bool" where
  "on_row sid c p \<longleftrightarrow> (\<exists>w. workspaces c sid = Some w \<and> p \<in> set (agents w) \<union> set (processes w))"

lemma grown_refl [simp]: "grown sid c c"
  by (simp add: grown_def)

lemma grown_trans:
  assumes "grown sid b c" "grown sid c d"
  shows "grown sid b d"
  unfolding grown_def
proof (intro allI impI)
  fix w
  assume "workspaces b sid = Some w"
  then obtain v where v: "workspaces c sid = Some v" "ws_cwd v = ws_cwd w" "set (agents w) \<subseteq> set (agents v)"
    "set (processes w) \<subseteq> set (processes v)" using assms(1) unfolding grown_def by blast
  then obtain u where "workspaces d sid = Some u" "ws_cwd u = ws_cwd v" "set (agents v) \<subseteq> set (agents u)"
    "set (processes v) \<subseteq> set (processes u)" using assms(2) unfolding grown_def by blast
  then show "\<exists>v. workspaces d sid = Some v \<and> ws_cwd v = ws_cwd w
      \<and> set (agents w) \<subseteq> set (agents v) \<and> set (processes w) \<subseteq> set (processes v)"
    using v by (intro exI [of _ u]) auto
qed

lemma grown_row: "grown sid c d \<Longrightarrow> on_row sid c p \<Longrightarrow> on_row sid d p"
  unfolding grown_def on_row_def by blast

lemma grown_same: "workspaces d sid = workspaces c sid \<Longrightarrow> grown sid c d"
  by (simp add: grown_def)

lemma grown_open: "grown sid c d \<Longrightarrow> workspaces c sid = Some w \<Longrightarrow> \<exists>v. workspaces d sid = Some v"
  unfolding grown_def by blast

lemma grown_upd:
  assumes "\<And>w. ws_cwd (f w) = ws_cwd w \<and> set (agents w) \<subseteq> set (agents (f w)) \<and> set (processes w) \<subseteq> set (processes (f w))"
  shows "grown sid c (upd_ws sid f c)"
  using assms by (auto simp: grown_def upd_ws_def split: option.splits)

text \<open>What starting an agent or a process does to the workspaces.\<close>

lemma spawn_agent_ws:
  assumes "spawn_agent_restoring env sid nm rep session spk background c = (r, d)"
  shows "(\<exists>e. r = Inl e \<and> workspaces d = workspaces c)
     \<or> (\<exists>p w m. r = Inr p \<and> workspaces c sid = Some w
          \<and> workspaces d = (workspaces c)(sid := Some (if background then add_agent p m w else set_stage p (add_agent p m w))))"
proof (cases "config_agent nm (cfg c)")
  case None
  then show ?thesis using assms by (auto simp: spawn_agent_restoring_def)
next
  case (Some a)
  show ?thesis
  proof (cases "workspaces c sid")
    case None
    then show ?thesis using assms Some by (auto simp: spawn_agent_restoring_def)
  next
    case w: (Some w)
    obtain conv args resumed where l: "agent_launch env (next_pane c) a session spk = (conv, args, resumed)"
      by (metis prod_cases3)
    obtain x b where s: "spawn_terminal_replaying env sid (ws_cwd w) (Program (ad_command a) args (ad_env a) (ad_name a)
        (e_compile env (ad_name a) (ad_waiting a) (ad_busy a))) (stage_size_of sid c) rep c = (x, b)"
      by (metis surj_pair)
    have b: "workspaces b = workspaces c" using s spawn_terminal_fields(1) by (metis snd_conv)
    show ?thesis
    proof (cases x)
      case (Inl e)
      then show ?thesis using assms Some w l s b by (auto simp: spawn_agent_restoring_def Let_def)
    next
      case (Inr p)
      then show ?thesis
        using assms Some w l s b
        by (auto simp: spawn_agent_restoring_def Let_def upd_ws_def core_frame split: if_splits)
    qed
  qed
qed

lemma spawn_agent_grows:
  assumes "spawn_agent_restoring env sid nm rep session spk background c = (r, d)"
  shows "grown sid c d" and "r = Inr p \<Longrightarrow> on_row sid d p"
  using spawn_agent_ws [OF assms] by (auto simp: grown_def on_row_def add_agent_def set_stage_def)

lemma spawn_process_ws:
  assumes "spawn_process env sid cwd m st rep c = (r, d)"
  shows "(\<exists>e. r = Inl e \<and> workspaces d = workspaces c)
     \<or> (\<exists>p. r = Inr p \<and> workspaces d = workspaces (upd_ws sid
            (\<lambda>w. if st then set_stage p (add_process p m w) else add_process p m w) c))"
proof -
  obtain x b where s: "spawn_terminal_replaying env sid cwd
      (if pm_command m = config_shell env (cfg c) then Shell else CommandLine (pm_command m)) (stage_size_of sid c) rep c = (x, b)"
    by (metis surj_pair)
  have "workspaces b = workspaces c" using s spawn_terminal_fields(1) by (metis snd_conv)
  then show ?thesis
    using assms s by (cases x) (auto simp: spawn_process_def Let_def upd_ws_def split: option.splits if_splits)
qed

lemma spawn_process_grows:
  assumes "spawn_process env sid cwd m st rep c = (r, d)"
  shows "grown sid c d" and "r = Inr p \<Longrightarrow> workspaces c sid \<noteq> None \<Longrightarrow> on_row sid d p"
  using spawn_process_ws [OF assms]
  by (auto simp: grown_def on_row_def upd_ws_def add_process_def set_stage_def split: option.splits)


section \<open>Starting what was listed\<close>

lemma inv_stage:
  assumes "inv E c" "on_row sid c p"
  shows "inv E (upd_ws sid (set_stage p) c)"
proof -
  obtain w where w: "workspaces c sid = Some w" "p \<in> set (agents w) \<union> set (processes w)"
    using assms(2) unfolding on_row_def by blast
  show ?thesis
    by (rule inv_upd_ws_same [OF assms(1)]) (use w in \<open>auto simp: set_stage_def wf_ws_def all_panes_def\<close>)
qed

lemma keep_start_process:
  assumes "inv E c" "grown sid b c" "workspaces b sid \<noteq> None"
  shows "inv E (start_file_process env sid cwd x c) \<and> grown sid b (start_file_process env sid cwd x c)"
proof -
  obtain w where w: "workspaces c sid = Some w" using assms(2,3) unfolding grown_def by blast
  show ?thesis
    unfolding start_file_process_def
    using inv_spawn_process [OF assms(1) w surjective_pairing] grown_trans [OF assms(2) spawn_process_grows(1) [OF surjective_pairing]]
    by blast
qed

lemma keep_start_agent:
  assumes "inv E c" "grown sid b c"
  shows "inv E (start_file_agent env sid x c) \<and> grown sid b (start_file_agent env sid x c)"
  unfolding start_file_agent_def spawn_agent_def
  using inv_spawn_agent [OF assms(1) surjective_pairing] grown_trans [OF assms(2) spawn_agent_grows(1) [OF surjective_pairing]]
  by blast

lemma fold_keep:
  assumes "P c" "\<And>x c. P c \<Longrightarrow> P (f x c)"
  shows "P (fold f xs c)"
  using assms(1) by (induction xs arbitrary: c) (auto intro: assms(2))

lemma inv_start_file:
  assumes i: "inv E c" and w: "workspaces c sid \<noteq> None" and p: "\<And>p. sp = Some p \<Longrightarrow> on_row sid c p"
  shows "inv E (start_file env sid cwd sp file c) \<and> workspaces (start_file env sid cwd sp file c) sid \<noteq> None"
proof -
  let ?b = "fold (start_file_process env sid cwd) (wf_processes file) c"
  let ?d = "fold (start_file_agent env sid) (wf_autostart file) ?b"
  have "inv E ?b \<and> grown sid c ?b"
    by (rule fold_keep [where P = "\<lambda>d. inv E d \<and> grown sid c d"]; use i w grown_refl keep_start_process in blast)
  then have d: "inv E ?d \<and> grown sid c ?d"
    by (rule fold_keep [where P = "\<lambda>d. inv E d \<and> grown sid c d"]; use keep_start_agent in blast)
  moreover have "workspaces ?d sid \<noteq> None" using d w unfolding grown_def by blast
  ultimately show ?thesis
    using inv_stage [of E ?d sid] grown_row [of sid c ?d] p
    by (auto simp: start_file_def Let_def upd_ws_def split: option.splits)
qed

text \<open>The same for what a previous daemon had, with the pane found for the stage.\<close>

definition keeps :: "pane_id set \<Rightarrow> session_id \<Rightarrow> ('v, 'g) core \<Rightarrow> pane_id option \<times> ('v, 'g) core \<Rightarrow> bool" where
  "keeps E sid b = (\<lambda>(staged, c). inv E c \<and> grown sid b c \<and> (\<forall>p. staged = Some p \<longrightarrow> on_row sid c p))"

lemma keep_rebuild_process:
  assumes k: "keeps E sid b (st, c)" and b: "workspaces b sid \<noteq> None"
  shows "keeps E sid b (rebuild_process env sid cwd saved x (st, c))"
proof -
  have i: "inv E c" "grown sid b c" "\<And>p. st = Some p \<Longrightarrow> on_row sid c p" using k by (auto simp: keeps_def)
  obtain w where w: "workspaces c sid = Some w" using i(2) b unfolding grown_def by blast
  let ?m = "\<lparr>pm_name = pp_name x, pm_command = pp_command x, pm_ready = pp_ready x,
               ready_seen = (pp_ready x = None), ready_carry = []\<rparr>"
  obtain r d where s: "spawn_process env sid cwd ?m False (saved_output (pw_key saved) (pp_dump x) c) c = (r, d)"
    by (metis surj_pair)
  have d: "inv E d" "grown sid c d" using inv_spawn_process [OF i(1) w s] spawn_process_grows(1) [OF s] by blast+
  have "\<And>p. st = Some p \<Longrightarrow> on_row sid d p" using i(3) grown_row [OF d(2)] by blast
  moreover have "\<And>q. r = Inr q \<Longrightarrow> on_row sid d q" using spawn_process_grows(2) [OF s] w by simp
  ultimately show ?thesis
    using d grown_trans [OF i(2) d(2)] s
    by (auto simp: keeps_def rebuild_process_def split: sum.splits if_splits)
qed

lemma keep_rebuild_agent:
  assumes k: "keeps E sid b (st, c)"
  shows "keeps E sid b (rebuild_agent env sid saved x (st, c))"
proof -
  have i: "inv E c" "grown sid b c" "\<And>p. st = Some p \<Longrightarrow> on_row sid c p" using k by (auto simp: keeps_def)
  obtain r d where s: "spawn_agent_restoring env sid (pa_agent x) (saved_output (pw_key saved) (pa_dump x) c)
                     (pa_session_id x) (pa_spoke x) False c = (r, d)"
    by (metis surj_pair)
  have d: "inv E d" "grown sid c d" using inv_spawn_agent [OF i(1) s] spawn_agent_grows(1) [OF s] by blast+
  have "\<And>p. st = Some p \<Longrightarrow> on_row sid d p" using i(3) grown_row [OF d(2)] by blast
  moreover have "\<And>q. r = Inr q \<Longrightarrow> on_row sid d q" using spawn_agent_grows(2) [OF s] by simp
  ultimately show ?thesis
    using d grown_trans [OF i(2) d(2)] s
    by (auto simp: keeps_def rebuild_agent_def split: sum.splits if_splits)
qed

lemma inv_rebuild_panes:
  assumes i: "inv E c" and w: "workspaces c sid \<noteq> None"
  shows "inv E (rebuild_workspace_panes env sid cwd saved c)
    \<and> workspaces (rebuild_workspace_panes env sid cwd saved c) sid \<noteq> None"
proof (cases "session_store c")
  case None
  then show ?thesis using i w by (simp add: rebuild_workspace_panes_def)
next
  case (Some store)
  let ?b = "fold (rebuild_process env sid cwd saved) (pw_processes saved) (None, c)"
  let ?d = "fold (rebuild_agent env sid saved) (pw_agents saved) ?b"
  have "keeps E sid c (None, c)" using i by (simp add: keeps_def)
  then have "keeps E sid c ?b"
    by (rule fold_keep [where P = "keeps E sid c"]) (auto intro: keep_rebuild_process [OF _ w])
  then have "keeps E sid c ?d"
    by (rule fold_keep [where P = "keeps E sid c"]) (auto intro: keep_rebuild_agent)
  then have d: "inv E (snd ?d)" "\<And>p. fst ?d = Some p \<Longrightarrow> on_row sid (snd ?d) p" and g: "grown sid c (snd ?d)"
    by (auto simp: keeps_def split_beta)
  have "workspaces (snd ?d) sid \<noteq> None" using g w unfolding grown_def by blast
  moreover have "inv E (upd_ws sid (\<lambda>w. case or_else (fst ?d) (first_of (processes w)) of
                Some p \<Rightarrow> set_stage p w | None \<Rightarrow> w) (snd ?d))"
    by (rule inv_upd_ws_same [OF d(1)])
       (use d(2) in \<open>auto simp: set_stage_def wf_ws_def all_panes_def on_row_def or_else_def first_of_mem split: option.splits\<close>)
  ultimately show ?thesis using Some by (auto simp: rebuild_workspace_panes_def Let_def split_beta upd_ws_def split: option.splits)
qed


section \<open>Opening a workspace\<close>

lemma open_shell_row:
  assumes "open_shell env w c = (Inr (v, sp), d)"
  shows "sp = Some p \<Longrightarrow> p \<in> set (processes v)"
  using assms by (auto simp: open_shell_def Let_def set_stage_def add_process_def split: prod.splits sum.splits)

lemma open_changes_rows: "processes (fst (open_changes env w c)) = processes w"
  by (simp add: open_changes_def alloc_pane_id_def split: option.splits)

lemma inv_create_restoring:
  assumes i: "inv {} c" and r: "create_workspace_restoring env nm cwd saved c = (r, d)"
  shows "inv {} d \<and> (\<forall>s. r = Inr s \<longrightarrow> workspaces d s \<noteq> None)"
proof -
  let ?sid = "next_ws c" and ?c = "c\<lparr>next_ws := next_ws c + 1\<rparr>"
  let ?cwd = "if cwd = [] then ''/'' else cwd"
  let ?w = "(ws_new ?sid nm ?cwd)\<lparr>ws_autostart := wf_autostart (e_ws_file env ?cwd)\<rparr>"
  let ?open = "if rebuilding saved = None then open_shell env ?w ?c else (Inr (?w, None), ?c)"
  have ic: "inv {} ?c" using inv_next_ws [OF i] by simp
  have "workspaces c ?sid = None" using inv_wsD(3) [OF i, of ?sid] by (cases "workspaces c ?sid") auto
  then have ready: "ready_ws ?c ?w" "all_panes ?w = []" "changes ?w = None"
    using ic by (auto simp: ready_ws_def ws_new_def wf_ws_def all_panes_def rails_ok_def)
  obtain x b where o: "?open = (x, b)" by (metis surj_pair)
  show ?thesis
  proof (cases x)
    case (Inl e)
    have "inv {} b"
      using o Inl open_shell_ready(1) [OF ready(1,2)] by (auto split: if_splits)
    then show ?thesis using r o Inl by (auto simp: create_workspace_restoring_def Let_def split: if_splits)
  next
    case (Inr y)
    obtain v sp where y: "y = (v, sp)" by (metis surj_pair)
    have v: "ready_ws b v \<and> ws_id v = ?sid \<and> changes v = None \<and> ws_cwd v = ?cwd"
      using o Inr y ready open_shell_ready(2) [OF ready(1,2)] by (auto simp: ws_new_def split: if_splits)
    have sp: "p \<in> set (processes v)" if "sp = Some p" for p
      using o Inr y that open_shell_row by (auto split: if_splits)
    obtain u a where u: "open_changes env v b = (u, a)" by (metis surj_pair)
    have a: "ready_ws a u" "ws_id u = ?sid" using open_changes_ready [OF _ _ u] v by auto
    have sp': "p \<in> set (processes u)" if "sp = Some p" for p
      using sp [OF that] open_changes_rows [of env v b] u by simp
    let ?f = "install_ws u a"
    have f: "inv {} ?f"
      by (rule inv_install) (use a in \<open>auto simp: ready_ws_def\<close>)
    have wf: "workspaces ?f ?sid = Some u" using a(2) by (simp add: install_ws_def)
    let ?g = "case rebuilding saved of
        Some s \<Rightarrow> rebuild_workspace_panes env ?sid ?cwd s ?f
      | None \<Rightarrow> start_file env ?sid ?cwd sp (e_ws_file env ?cwd) ?f"
    have g: "inv {} ?g \<and> workspaces ?g ?sid \<noteq> None"
      using inv_start_file [OF f, of ?sid sp] inv_rebuild_panes [OF f, of ?sid] wf sp'
      by (auto simp: on_row_def split: option.split)
    have "(r, d) = (Inr ?sid, persist_session env (?g\<lparr>dirty := True\<rparr>))"
      unfolding r [symmetric] create_workspace_restoring_def Let_def using o Inr y u by simp
    then show ?thesis using g by (simp add: core_frame)
  qed
qed

lemma inv_create: "inv {} c \<Longrightarrow> create_workspace env nm cwd c = (r, d) \<Longrightarrow> inv {} d \<and> (\<forall>s. r = Inr s \<longrightarrow> workspaces d s \<noteq> None)"
  unfolding create_workspace_def by (rule inv_create_restoring)

lemma inv_workspace_for_cwd:
  assumes i: "inv {} c" and r: "workspace_for_cwd env dir c = (r, d)"
  shows "inv {} d \<and> (\<forall>s. r = Inr s \<longrightarrow> workspaces d s \<noteq> None)"
proof (cases "find_ws (\<lambda>w. ws_cwd w = dir) c")
  case None
  then show ?thesis using r inv_create [OF i] by (auto simp: workspace_for_cwd_def Let_def)
next
  case (Some w)
  then show ?thesis using r i find_ws_Some(2) [OF i Some] by (auto simp: workspace_for_cwd_def)
qed


section \<open>Closing a workspace\<close>

lemma sessions_fields [simp]:
  "sessions (c\<lparr>workspaces := x\<rparr>) = sessions c" "sessions (c\<lparr>ws_order := y\<rparr>) = sessions c"
  "sessions (c\<lparr>panes := z\<rparr>) = sessions c" "sessions (c\<lparr>dirty := u\<rparr>) = sessions c"
  by (simp_all add: sessions_def)

lemma sessions_send [simp]: "sessions (send i m c) = sessions c"
  by (simp add: send_def sessions_def)

lemma sessions_drop: "sessions (drop_client i c) = filter (\<lambda>(j, s). j \<noteq> i) (sessions c)"
  by (simp add: drop_client_def sessions_def filter_map) (metis (mono_tags, lifting) case_prod_beta comp_apply fst_conv)

lemma sessions_upd: "sessions (upd_client i (\<lambda>k. k\<lparr>cl_session := s, cl_last_frame := f\<rparr>) c)
  = map (\<lambda>(j, t). (j, if j = i then s else t)) (sessions c)"
  by (auto simp: upd_client_def sessions_def)

text \<open>Only the clients change: what is left to show is that their sessions are open.\<close>

lemma inv_sessions:
  assumes "inv E c" "workspaces d = workspaces c" "ws_order d = ws_order c" "panes d = panes c"
    "next_pane d = next_pane c" "next_ws d = next_ws c" "git_refreshing d = git_refreshing c"
    "git_refresh_again d = git_refresh_again c" "distinct (map fst (sessions d))"
    "\<And>i s. (i, Some s) \<in> set (sessions d) \<Longrightarrow> s \<in> dom (workspaces c)"
  shows "inv E d"
proof -
  have "kinds d = kinds c" using assms(4) by (simp add: kinds_def [abs_def])
  moreover have "ws_panes d = ws_panes c" using assms(2) by (simp add: ws_panes_def)
  ultimately show ?thesis using assms unfolding inv_def by simp
qed

lemma drop_client_fields [simp]:
  "workspaces (drop_client i c) = workspaces c" "ws_order (drop_client i c) = ws_order c"
  "panes (drop_client i c) = panes c" "next_pane (drop_client i c) = next_pane c" "next_ws (drop_client i c) = next_ws c"
  "git_refreshing (drop_client i c) = git_refreshing c" "git_refresh_again (drop_client i c) = git_refresh_again c"
  by (simp_all add: drop_client_def)

lemma upd_client_fields [simp]:
  "workspaces (upd_client i f c) = workspaces c" "ws_order (upd_client i f c) = ws_order c"
  "panes (upd_client i f c) = panes c" "next_pane (upd_client i f c) = next_pane c" "next_ws (upd_client i f c) = next_ws c"
  "git_refreshing (upd_client i f c) = git_refreshing c" "git_refresh_again (upd_client i f c) = git_refresh_again c"
  by (simp_all add: upd_client_def)

lemma send_fields [simp]:
  "workspaces (send i m c) = workspaces c" "ws_order (send i m c) = ws_order c" "clients (send i m c) = clients c"
  "panes (send i m c) = panes c" "next_pane (send i m c) = next_pane c" "next_ws (send i m c) = next_ws c"
  "git_refreshing (send i m c) = git_refreshing c" "git_refresh_again (send i m c) = git_refresh_again c"
  by (simp_all add: send_def)

lemma inv_drop_client: "inv E c \<Longrightarrow> inv E (drop_client i c)"
  by (rule inv_sessions [of E c])
     (auto simp: sessions_drop split_beta distinct_map_filter dest: invD(6,7))

lemma inv_detach: "inv E c \<Longrightarrow> inv E (detach i msg c)"
  by (simp add: detach_def inv_drop_client)

lemma inv_set_session:
  assumes "inv E c" "\<And>t. s = Some t \<Longrightarrow> workspaces c t \<noteq> None"
  shows "inv E (upd_client i (\<lambda>k. k\<lparr>cl_session := s, cl_last_frame := f\<rparr>) c)"
proof (rule inv_sessions [OF assms(1)])
  have "fst \<circ> (\<lambda>(j, t). (j, if j = i then s else t)) = fst" by auto
  then show "distinct (map fst (sessions (upd_client i (\<lambda>k. k\<lparr>cl_session := s, cl_last_frame := f\<rparr>) c)))"
    unfolding sessions_upd using invD(7) [OF assms(1)] by simp
  fix j t
  assume "(j, Some t) \<in> set (sessions (upd_client i (\<lambda>k. k\<lparr>cl_session := s, cl_last_frame := f\<rparr>) c))"
  then show "t \<in> dom (workspaces c)"
    unfolding sessions_upd using assms(2) invD(6) [OF assms(1), of j t] by (auto split: if_splits)
qed simp_all


lemma rehome_fields [simp]:
  "workspaces (rehome i c) = workspaces c" "ws_order (rehome i c) = ws_order c" "panes (rehome i c) = panes c"
  "next_pane (rehome i c) = next_pane c" "next_ws (rehome i c) = next_ws c"
  "git_refreshing (rehome i c) = git_refreshing c" "git_refresh_again (rehome i c) = git_refresh_again c"
  by (simp_all add: rehome_def detach_def)

lemma sessions_rehome: "sessions (rehome i c) =
  (if ws_order c = [] then filter (\<lambda>(j, s). j \<noteq> i) (sessions c)
   else map (\<lambda>(j, t). (j, if j = i then Some (last (ws_order c)) else t)) (sessions c))"
  by (simp add: rehome_def detach_def sessions_drop sessions_upd)

lemma rehome_all [simp]:
  "workspaces (fold rehome is c) = workspaces c" "ws_order (fold rehome is c) = ws_order c"
  "panes (fold rehome is c) = panes c" "next_pane (fold rehome is c) = next_pane c"
  "next_ws (fold rehome is c) = next_ws c" "git_refreshing (fold rehome is c) = git_refreshing c"
  "git_refresh_again (fold rehome is c) = git_refresh_again c"
  by (induction "is" arbitrary: c) simp_all

lemma map_session_keys: "map fst (map (\<lambda>(j, t). (j, g j t)) xs) = map fst xs"
  by (induction xs) auto

lemma rehome_distinct: "distinct (map fst (sessions c)) \<Longrightarrow> distinct (map fst (sessions (fold rehome is c)))"
proof (induction "is" arbitrary: c)
  case (Cons i "is")
  have "distinct (map fst (sessions (rehome i c)))"
    unfolding sessions_rehome using Cons.prems by (auto simp: map_session_keys distinct_map_filter simp del: map_map)
  then show ?case using Cons.IH by simp
qed simp

lemma rehome_sessions:
  "(j, Some s) \<in> set (sessions (fold rehome is c)) \<Longrightarrow>
     (j, Some s) \<in> set (sessions c) \<and> j \<notin> set is \<or> s = last (ws_order c) \<and> ws_order c \<noteq> []"
proof (induction "is" arbitrary: c)
  case (Cons i "is")
  from Cons.IH [of "rehome i c"] Cons.prems
  show ?case by (auto simp: sessions_rehome split: if_splits)
qed simp

text \<open>One workspace and its panes go, and the clients that were in it.\<close>

lemma inv_close:
  assumes i: "inv E c" and w: "workspaces c sid = Some w"
    and d: "workspaces d = (workspaces c)(sid := None)" "ws_order d = filter (\<lambda>s. s \<noteq> sid) (ws_order c)"
      "panes d = (\<lambda>p. if p \<in> set (all_panes w) then None else panes c p)"
      "next_pane d = next_pane c" "next_ws d = next_ws c" "git_refresh_again d \<subseteq> git_refreshing d"
      "distinct (map fst (sessions d))" "\<And>j s. (j, Some s) \<in> set (sessions d) \<Longrightarrow> s \<noteq> sid \<and> s \<in> dom (workspaces c)"
  shows "inv E d"
proof -
  note iw = inv_wsD [OF i w]
  have apart: "set (all_panes v) \<inter> set (all_panes w) = {}" if "workspaces c r = Some v" "r \<noteq> sid" for r v
    using invD(9) [OF i that(1) w that(2)] .
  have wsp: "ws_panes d = ws_panes c - set (all_panes w)"
  proof (rule set_eqI)
    fix p
    show "p \<in> ws_panes d \<longleftrightarrow> p \<in> ws_panes c - set (all_panes w)"
    proof
      assume "p \<in> ws_panes d"
      then obtain r v where r: "workspaces c r = Some v" "r \<noteq> sid" "p \<in> set (all_panes v)"
        unfolding ws_panes_iff d(1) by (auto split: if_splits)
      then show "p \<in> ws_panes c - set (all_panes w)" using apart [OF r(1,2)] by (auto simp: ws_panes_iff)
    next
      assume "p \<in> ws_panes c - set (all_panes w)"
      then obtain r v where r: "workspaces c r = Some v" "p \<in> set (all_panes v)" and p: "p \<notin> set (all_panes w)"
        by (auto simp: ws_panes_iff)
      then have "r \<noteq> sid" using w by auto
      with r show "p \<in> ws_panes d" unfolding ws_panes_iff d(1) by (intro exI [of _ r] exI [of _ v]) simp
    qed
  qed
  have dom: "dom (panes d) = dom (panes c) - set (all_panes w)" unfolding d(3) by (auto split: if_splits)
  have k: "kinds d p = kinds c p" if "p \<notin> set (all_panes w)" for p using that by (simp add: kinds_def d(3))
  show ?thesis
  proof (rule invI)
    fix r v
    assume "workspaces d r = Some v"
    then have r: "workspaces c r = Some v" "r \<noteq> sid" unfolding d(1) by (auto split: if_splits)
    have "rails_ok (kinds d) v"
      by (rule rails_ok_mono [OF inv_wsD(4) [OF i r(1)]]) (metis k apart [OF r] disjoint_iff)
    then show "ws_id v = r \<and> wf_ws v \<and> r < next_ws d \<and> rails_ok (kinds d) v"
      using inv_wsD(1-3) [OF i r(1)] d(5) by simp
  next
    fix r t v u
    assume "workspaces d r = Some v" "workspaces d t = Some u" "r \<noteq> t"
    then show "set (all_panes v) \<inter> set (all_panes u) = {}"
      using invD(9) [OF i, of r v t u] unfolding d(1) by (auto split: if_splits)
  next
    show "dom (panes d) = ws_panes d \<union> E" "ws_panes d \<inter> E = {}"
      unfolding dom wsp using invD(3,4) [OF i] iw(7) by auto
  next
    fix j t
    assume "(j, Some t) \<in> set (sessions d)"
    from d(8) [OF this] show "t \<in> dom (workspaces d)" unfolding d(1) by simp
  next
    fix p
    assume "p \<in> dom (panes d)"
    then show "p < next_pane d" using invD(5) [OF i, of p] unfolding dom d(4) by simp
  next
    show "distinct (ws_order d)" "set (ws_order d) = dom (workspaces d)"
      using invD(1,2) [OF i] unfolding d(1,2) by auto
  qed (use d(6,7) in simp_all)
qed

lemma inv_kill_workspace: "inv E c \<Longrightarrow> inv E (kill_workspace env sid c)"
proof (cases "workspaces c sid")
  case None
  assume "inv E c"
  then show ?thesis using None by (simp add: kill_workspace_def)
next
  case (Some w)
  assume i: "inv E c"
  let ?b = "c\<lparr>workspaces := (workspaces c)(sid := None), ws_order := filter (\<lambda>s. s \<noteq> sid) (ws_order c)\<rparr>"
  let ?d = "drop_panes (all_panes w) ((persist_session env ?b)\<lparr>repo_probe_next := (repo_probe_next (persist_session env ?b))(sid := None)\<rparr>)"
  let ?o = "map fst (filter (\<lambda>(i, k). cl_session k = Some sid) (clients c))"
  have eq: "kill_workspace env sid c = (fold rehome ?o ?d)\<lparr>dirty := True\<rparr>"
    using Some by (simp add: kill_workspace_def Let_def drop_panes_def core_frame)
  have s: "sessions ?d = sessions c" by (simp add: drop_panes_def sessions_def core_frame)
  have o: "ws_order ?d = filter (\<lambda>s. s \<noteq> sid) (ws_order c)" by (simp add: drop_panes_def core_frame)
  have orphan: "s \<noteq> sid" if "(j, Some s) \<in> set (sessions c)" "j \<notin> set ?o" for j s
    using that by (force simp: sessions_def)
  have "inv E (fold rehome ?o ?d)"
  proof (rule inv_close [OF i Some])
    show "git_refresh_again (fold rehome ?o ?d) \<subseteq> git_refreshing (fold rehome ?o ?d)"
      using invD(8) [OF i] by (auto simp: drop_panes_def core_frame)
    show "distinct (map fst (sessions (fold rehome ?o ?d)))"
      by (rule rehome_distinct) (simp only: s invD(7) [OF i])
    fix j t
    assume "(j, Some t) \<in> set (sessions (fold rehome ?o ?d))"
    from rehome_sessions [OF this]
    consider "(j, Some t) \<in> set (sessions c)" "j \<notin> set ?o" | "t = last (ws_order ?d)" "ws_order ?d \<noteq> []"
      unfolding s by blast
    then show "t \<noteq> sid \<and> t \<in> dom (workspaces c)"
    proof cases
      case 1
      then show ?thesis using orphan invD(6) [OF i] by blast
    next
      case 2
      then have "t \<in> set (filter (\<lambda>s. s \<noteq> sid) (ws_order c))" unfolding o by (metis last_in_set)
      then show ?thesis using invD(2) [OF i] by auto
    qed
  qed (auto simp: drop_panes_def core_frame fun_eq_iff)
  then show ?thesis unfolding eq by simp
qed


lemma inv_teardown: "inv E c \<Longrightarrow> inv E (teardown env c)"
proof -
  assume i: "inv E c"
  have "inv E (fold (\<lambda>i. detach i DETACH_SERVER_SHUTDOWN) (map fst (clients c)) (c\<lparr>shutdown := True\<rparr>))"
    by (rule fold_keep) (use i inv_detach in auto)
  then have "inv E (fold (kill_workspace env) ws
      (fold (\<lambda>i. detach i DETACH_SERVER_SHUTDOWN) (map fst (clients c)) (c\<lparr>shutdown := True\<rparr>)))" for ws
    by (rule fold_keep) (rule inv_kill_workspace)
  then show ?thesis by (simp add: teardown_def Let_def)
qed

lemma inv_kill_server: "inv E c \<Longrightarrow> inv E (kill_server env clear c)"
  by (simp add: kill_server_def inv_teardown)

section \<open>Retrying an agent\<close>

lemma mset_insert_nth: "mset (insert_nth i x xs) = add_mset x (mset xs)"
proof -
  have "mset xs = mset (take i xs) + mset (drop i xs)" by (metis append_take_drop_id mset_append)
  then show ?thesis by (simp add: insert_nth_def)
qed

lemma mset_move: "mset (agents (move_agent p i w)) = mset (agents w)"
  by (auto simp: move_agent_def mset_insert_nth remove_nth_position position_Some_iff
      intro!: insert_DiffM split: option.splits)

lemma move_agent_simps [simp]:
  "processes (move_agent p i w) = processes w" "ws_id (move_agent p i w) = ws_id w"
  "changes (move_agent p i w) = changes w" "docker_logs (move_agent p i w) = docker_logs w"
  "stage (move_agent p i w) = stage w" "agent_meta_of (move_agent p i w) = agent_meta_of w"
  "proc_meta_of (move_agent p i w) = proc_meta_of w" "ws_cwd (move_agent p i w) = ws_cwd w"
  by (simp_all add: move_agent_def split: option.split)

lemma set_move [simp]: "set (agents (move_agent p i w)) = set (agents w)"
  by (rule mset_eq_setD [OF mset_move])

lemma wf_move: "wf_ws (move_agent p i w) = wf_ws w"
proof -
  have "mset (all_panes (move_agent p i w)) = mset (all_panes w)" by (simp add: all_panes_def mset_move)
  from mset_eq_imp_distinct_iff [OF this] show ?thesis unfolding wf_ws_def by simp
qed


lemma drop_pane_ws:
  "workspaces (drop_pane env sid p c) = workspaces (upd_ws sid (\<lambda>w. snd (forget_pane p w)) c)"
  by (simp add: drop_pane_def core_frame Let_def)

text \<open>The agent goes back to its place, and what was on the stage before stays there.\<close>

definition put_back :: "pane_id \<Rightarrow> nat \<Rightarrow> pane_id option \<Rightarrow> workspace \<Rightarrow> workspace" where
  "put_back q idx keep w =
     (let w = move_agent q idx w in case keep of Some s \<Rightarrow> set_stage s w | None \<Rightarrow> w)"

lemma inv_put_back:
  assumes i: "inv E c" and s: "\<And>s. keep = Some s \<Longrightarrow> on_row sid c s"
  shows "inv E (upd_ws sid (put_back q idx keep) c)"
proof (rule inv_upd_ws_same [OF i])
  fix w
  assume w: "workspaces c sid = Some w" "wf_ws w"
  have on: "s \<in> set (agents w) \<union> set (processes w)" if "keep = Some s" for s
    using s [OF that] w(1) by (simp add: on_row_def)
  have "wf_ws (put_back q idx keep w)"
  proof (cases keep)
    case None
    then show ?thesis using w(2) by (simp add: put_back_def wf_move)
  next
    case (Some s)
    have "wf_ws (move_agent q idx w)" using w(2) by (simp add: wf_move)
    then show ?thesis using on [OF Some] Some by (auto simp: put_back_def set_stage_def wf_ws_def all_panes_def)
  qed
  then show "ws_id (put_back q idx keep w) = ws_id w \<and> wf_ws (put_back q idx keep w)
      \<and> set (agents (put_back q idx keep w)) = set (agents w)
      \<and> set (processes (put_back q idx keep w)) = set (processes w)
      \<and> changes (put_back q idx keep w) = changes w \<and> docker_logs (put_back q idx keep w) = docker_logs w"
    by (auto simp: put_back_def set_stage_def Let_def split: option.splits)
qed

lemma put_back_eq:
  "(\<lambda>w. if st \<noteq> Some p
        then case st of None \<Rightarrow> move_agent q idx w
             | Some s \<Rightarrow> if s \<noteq> p then set_stage s (move_agent q idx w) else move_agent q idx w
        else move_agent q idx w)
   = put_back q idx (if st = Some p then None else case st of Some s \<Rightarrow> if s \<noteq> p then Some s else None | None \<Rightarrow> None)"
  by (auto simp: put_back_def fun_eq_iff split: option.split)

lemma inv_respawn:
  assumes i: "inv E c" and w: "workspaces c (ws_id w) = Some w" "p \<in> set (agents w)"
    and r: "spawn_agent_restoring env (ws_id w) nm rep None False False (drop_pane env (ws_id w) p c) = (r, d)"
    and k: "\<And>s. keep = Some s \<Longrightarrow> stage w = Some s \<and> s \<noteq> p"
  shows "inv E d" and "inv E (upd_ws (ws_id w) (put_back q idx keep) d)"
proof -
  have pp: "p \<in> set (all_panes w)" using w(2) by (simp add: all_panes_def)
  show d: "inv E d" by (rule inv_spawn_agent [OF inv_drop_pane [OF i w(1) pp] r])
  have g: "grown (ws_id w) (drop_pane env (ws_id w) p c) d" by (rule spawn_agent_grows(1) [OF r])
  have "on_row (ws_id w) (drop_pane env (ws_id w) p c) s" if "keep = Some s" for s
    using k [OF that] inv_wsD(2) [OF i w(1)] w(1)
    by (auto simp: on_row_def drop_pane_ws upd_ws_def forget_pane_simps wf_ws_def)
  then show "inv E (upd_ws (ws_id w) (put_back q idx keep) d)"
    by (intro inv_put_back d) (rule grown_row [OF g])
qed

lemma inv_fold_report [simp]: "inv E (fold (\<lambda>x. report_error (f x) (g x)) xs c) = inv E c"
  by (rule inv_same, rule same_shape)

lemma inv_retry: 
  assumes i: "inv E c"
  shows "inv E (snd (retry_failed_resume env p status c))"
proof -
  let ?c = "c\<lparr>resume_retry := resume_retry c - {p}\<rparr>"
  have ic: "inv E ?c" using i by simp
  note defs = retry_failed_resume_def Let_def put_back_eq
  consider "status = 0 \<or> p \<notin> resume_retry c" | "term_of p ?c = None"
    | t where "term_of p ?c = Some t" "RESUME_RETRY_WINDOW \<le> age (e_now env) t"
    | "find_ws (\<lambda>w. p \<in> set (agents w)) ?c = None"
    | t w where "\<not> (status = 0 \<or> p \<notin> resume_retry c)" "term_of p ?c = Some t" "\<not> RESUME_RETRY_WINDOW \<le> age (e_now env) t"
        "find_ws (\<lambda>w. p \<in> set (agents w)) ?c = Some w"
    by fastforce
  then show ?thesis
  proof cases
    case (5 t w)
    note w = find_ws_Some [OF ic 5(4)]
    show ?thesis
    proof (cases "position (\<lambda>q. q = p) (agents w)"; cases "agent_meta_of w p")
      fix idx m
      assume m: "position (\<lambda>q. q = p) (agents w) = Some idx" "agent_meta_of w p = Some m"
      let ?rep = "case map_option (\<lambda>b. b @ FRESH_START_NOTE) (dump_bytes p ?c) of None \<Rightarrow> None | Some b \<Rightarrow> decode_dump b"
      let ?keep = "if stage w = Some p then None else case stage w of Some s \<Rightarrow> if s \<noteq> p then Some s else None | None \<Rightarrow> None"
      obtain r d where r: "spawn_agent_restoring env (ws_id w) (am_name m) ?rep None False False (drop_pane env (ws_id w) p ?c) = (r, d)"
        by (metis surj_pair)
      have k: "\<And>s. ?keep = Some s \<Longrightarrow> stage w = Some s \<and> s \<noteq> p" by (auto split: option.splits if_splits)
      note d = inv_respawn [OF ic w(2,1) r, of ?keep, OF k]
      show ?thesis
        using 5 m r d by (cases r) (simp_all add: defs)
    qed (use 5 ic w(1) in \<open>auto simp: defs\<close>)
  qed (use i ic in \<open>auto simp: defs split: option.splits prod.splits\<close>)
qed


section \<open>A pane's exit, and a restored session\<close>

lemma inv_agent_exited:
  assumes "inv E c" "find_ws (\<lambda>w. p \<in> set (agents w)) c = Some w"
  shows "inv E (agent_exited env w p status c)"
proof -
  note w = find_ws_Some [OF assms]
  have "p \<in> set (all_panes w)" using w(1) by (simp add: all_panes_def)
  from inv_drop_pane [OF assms(1) w(2) this] show ?thesis
    using assms(1) by (simp add: agent_exited_def Let_def split: option.split)
qed

lemma inv_pane_exited:
  assumes i: "inv E c"
  shows "inv E (on_pane_exited env p status c)"
proof -
  obtain b d where r: "retry_failed_resume env p status (upd_term p (mark_exited status) c) = (b, d)" by (metis surj_pair)
  have d: "inv E d" using inv_retry [of E "upd_term p (mark_exited status) c"] i r by (metis inv_ops(3) snd_conv)
  let ?d = "d\<lparr>resume_retry := resume_retry d - {p}\<rparr>"
  have i': "inv E ?d" using d by simp
  have row: "inv E (drop_pane env (ws_id w) p ?d)" if "find_ws (\<lambda>w. p \<in> set (processes w)) ?d = Some w" for w
    using inv_drop_pane [OF i' find_ws_Some(2) [OF i' that]] find_ws_Some(1) [OF i' that] by (simp add: all_panes_def)
  show ?thesis
    using d r i' inv_agent_exited [OF i'] row inv_kill_workspace [OF i']
    by (simp add: on_pane_exited_def Let_def split: option.split)
qed

lemma inv_restore_ws: "inv {} c \<Longrightarrow> inv {} (restore_ws env pw c)"
proof -
  assume i: "inv {} c"
  obtain r d where r: "create_workspace_restoring env (pw_name pw) (pw_cwd pw) (Some pw) c = (r, d)" by (metis surj_pair)
  show ?thesis
    using i inv_create_restoring [OF i r] r by (simp add: restore_ws_def split: sum.split)
qed

lemma inv_restore_session: "inv {} c \<Longrightarrow> inv {} (restore_session env c)"
proof -
  assume i: "inv {} c"
  have "inv {} (fold (restore_ws env) pws (c\<lparr>restoring := True\<rparr>))" for pws
    by (rule fold_keep) (use i inv_restore_ws in auto)
  then show ?thesis using i by (simp add: restore_session_def Let_def split: option.split)
qed

end
