(* ===== verification/Core_Reach.thy ===== *)
theory Core_Reach
  imports Core_Keep
begin

text \<open>
  Every event, every burst of output and every frame keeps the invariant, and so it holds of every
  state a daemon reaches.
\<close>

section \<open>Looking, sizing and input\<close>

lemma inv_resize [simp]: "inv E (resize_pane env p r k c) = inv E c"
  by (simp add: resize_pane_def)

lemma inv_size_pane: "inv E c \<Longrightarrow> inv E (size_pane_for_viewer env p rows cols c)"
  by (auto simp: size_pane_for_viewer_def Let_def wf_ws_def all_panes_def intro!: inv_upd_ws_same split: option.split)

lemma inv_watch: "inv E c \<Longrightarrow> inv E (watch_pane env i p c)"
  by (simp add: watch_pane_def Let_def inv_size_pane split: option.split)

lemma inv_resize_client: "inv E c \<Longrightarrow> inv E (resize_client env i cols rows c)"
  by (simp add: resize_client_def Let_def inv_size_pane split: option.split)

lemma inv_note_spoken: "inv E c \<Longrightarrow> inv E (note_agent_spoken env p ev c)"
proof -
  assume i: "inv E c"
  have "inv E (upd_ws (ws_id w) (\<lambda>w. w\<lparr>agent_meta_of := (agent_meta_of w)(p := Some m)\<rparr>) c)"
    if w: "find_ws (\<lambda>w. agent_meta_of w p \<noteq> None) c = Some w" for w m
  proof (rule inv_upd_ws_same [OF i])
    fix v
    assume v: "workspaces c (ws_id w) = Some v" "wf_ws v"
    have "v = w" "agent_meta_of w p \<noteq> None" using find_ws_Some [OF i w] v(1) by simp_all
    then have "p \<in> dom (agent_meta_of v)" by auto
    then have "p \<in> set (agents v)" using v(2) by (simp add: wf_ws_def)
    then show "ws_id (v\<lparr>agent_meta_of := (agent_meta_of v)(p := Some m)\<rparr>) = ws_id v
        \<and> wf_ws (v\<lparr>agent_meta_of := (agent_meta_of v)(p := Some m)\<rparr>)
        \<and> set (agents (v\<lparr>agent_meta_of := (agent_meta_of v)(p := Some m)\<rparr>)) = set (agents v)
        \<and> set (processes (v\<lparr>agent_meta_of := (agent_meta_of v)(p := Some m)\<rparr>)) = set (processes v)
        \<and> changes (v\<lparr>agent_meta_of := (agent_meta_of v)(p := Some m)\<rparr>) = changes v
        \<and> docker_logs (v\<lparr>agent_meta_of := (agent_meta_of v)(p := Some m)\<rparr>) = docker_logs v"
      using v(2) by (auto simp: wf_ws_def all_panes_def)
  qed
  then show ?thesis using i by (simp add: note_agent_spoken_def Let_def split: option.split)
qed

lemma dom_map_at: "dom (m(p := map_option f (m p))) = dom m"
  by (auto simp: dom_def)

lemma inv_scan_ready: "inv E c \<Longrightarrow> inv E (scan_ready env p bytes c)"
  unfolding scan_ready_def
  by (simp split: option.split, intro allI impI, erule inv_upd_ws_same)
     (simp add: wf_ws_def all_panes_def dom_map_at del: dom_fun_upd)

lemma inv_feed:
  assumes "inv E c" "term_of p c = Some t"
  shows "inv E (c\<lparr>panes := (panes c)(p := Some (PTerm u)), dirty := b\<rparr>)"
proof -
  have "c\<lparr>panes := (panes c)(p := Some (PTerm u)), dirty := b\<rparr> = (upd_term p (\<lambda>_. u) c)\<lparr>dirty := b\<rparr>"
    using assms(2) by (auto simp: upd_term_def term_of_def split: option.splits pane_state.splits)
  then show ?thesis using assms(1) by simp
qed

lemma inv_fold_announce: "inv E (fold (on_remote_announce env p) ann c) = inv E c"
  by (rule inv_same, rule shape_fold, rule shape_announce)

lemma inv_output: "inv E c \<Longrightarrow> inv E (on_pty_output env p bytes c)"
proof -
  assume "inv E c"
  then have i: "inv E (scan_ready env p bytes c)" by (rule inv_scan_ready)
  show ?thesis
    using i inv_feed [OF i]
    by (auto simp: on_pty_output_def Let_def split_beta inv_fold_announce split: option.split)
qed

lemma inv_finish_selection: "inv E c \<Longrightarrow> inv E (finish_selection i c)"
  by (simp add: finish_selection_def Let_def split: option.split prod.split)

lemma inv_route_pane: "inv E c \<Longrightarrow> inv E (route_pane_input env i p ev c)"
  by (auto simp: route_pane_input_def Let_def pane_mouse_down_def pane_mouse_drag_def pane_wheel_def
      inv_detach inv_finish_selection inv_note_spoken split: option.split input_event.split)

lemma inv_route: "inv E c \<Longrightarrow> inv E (route_input env i ev c)"
  by (simp add: route_input_def inv_route_pane split: option.split)

lemma inv_render: "inv E c \<Longrightarrow> inv E (render_pane_client env i c)"
  by (auto simp: render_pane_client_def Let_def inv_detach split: option.split pane_state.split prod.split)

lemma inv_render_all: "inv E c \<Longrightarrow> inv E (render_all env c)"
  unfolding render_all_def by (rule fold_keep) (auto intro: inv_render)


section \<open>What clients ask\<close>

lemma inv_put_file: "inv E c \<Longrightarrow> put_file env i nm data c = (r, d) \<Longrightarrow> inv E d"
  by (auto simp: put_file_def Let_def inv_route split: option.splits sum.splits if_splits)

lemma inv_attach_pane: "inv E c \<Longrightarrow> inv E (attach_pane env i cols rows p c)"
proof -
  assume c: "inv E c"
  let ?f = "\<lambda>k. k\<lparr>cl_pane := Some p, cl_session := None, cl_cols := cols, cl_rows := rows, cl_last_frame := None\<rparr>"
  have s: "sessions (upd_client i ?f c) = map (\<lambda>(j, t). (j, if j = i then None else t)) (sessions c)"
    by (auto simp: upd_client_def sessions_def)
  have "inv E (upd_client i ?f c)"
    by (rule inv_sessions [OF c])
       (use invD(7) [OF c] in \<open>auto simp: s map_session_keys dest!: invD(6) [OF c] split: if_splits simp del: map_map\<close>)
  then show ?thesis using c by (simp add: attach_pane_def inv_detach inv_size_pane Let_def)
qed

lemma inv_attach_target:
  assumes i: "inv {} c" and r: "attach_target_ws env target cwd c = (r, d)"
  shows "inv {} d \<and> (\<forall>s. r = Inr s \<longrightarrow> workspaces d s \<noteq> None)"
proof -
  have last: "workspaces c (last (ws_order c)) \<noteq> None" if "ws_order c \<noteq> []"
    using last_in_set [OF that] invD(2) [OF i] by auto
  show ?thesis
    using r i last inv_create [OF i] inv_workspace_for_cwd [OF i] find_ws_Some(2) [OF i]
    by (cases target) (auto simp: attach_target_ws_def Let_def split: option.splits sum.splits if_splits prod.splits)
qed

lemma inv_attach:
  assumes i: "inv {} c"
  shows "inv {} (attach_client env i cols rows target cwd c)"
proof -
  obtain r d where r: "attach_target_ws env target cwd c = (r, d)" by (metis surj_pair)
  note d = inv_attach_target [OF i r]
  have s: "inv {} (upd_client i (\<lambda>k. k\<lparr>cl_session := Some s, cl_cols := cols, cl_rows := rows, cl_last_frame := None\<rparr>) d)"
    if "r = Inr s" for s
  proof -
    have "shape (upd_client i (\<lambda>k. k\<lparr>cl_session := Some s, cl_cols := cols, cl_rows := rows, cl_last_frame := None\<rparr>) d)
        = shape (upd_client i (\<lambda>k. k\<lparr>cl_session := Some s, cl_last_frame := None\<rparr>) d)"
      by (simp add: shape_def upd_client_def sessions_def kinds_def [abs_def] comp_def split_beta)
    from inv_same [OF this] show ?thesis using inv_set_session [of "{}" d "Some s"] d that by auto
  qed
  show ?thesis
    using i r d s by (auto simp: attach_client_def inv_attach_pane inv_detach Let_def split: attach_target.split sum.split prod.split)
qed

lemma inv_new_process: "inv E c \<Longrightarrow> new_process env sid nm cmd c = (r, d) \<Longrightarrow> inv E d"
  by (auto simp: new_process_def intro: inv_spawn_process split: option.splits)

lemma inv_report: "inv E d \<Longrightarrow> inv E (report_result i (r, d))"
  by (simp add: report_result_def split: sum.split)

lemma inv_report_result: "inv E (snd x) \<Longrightarrow> inv E (report_result i x)"
  by (cases x) (simp add: inv_report)

lemma inv_rename: "inv E c \<Longrightarrow> inv E (upd_ws s (\<lambda>w. w\<lparr>ws_name := n\<rparr>) c)"
  by (rule inv_upd_ws_same) (auto simp: wf_ws_def all_panes_def)

lemma inv_close_stage:
  assumes i: "inv E c" and w: "workspaces c s = Some w" "stage w = Some p"
  shows "inv E (drop_pane env s p c)"
  by (rule inv_drop_pane [OF i w(1)]) (use inv_wsD(2) [OF i w(1)] w(2) in \<open>auto simp: wf_ws_def all_panes_def\<close>)

lemma inv_open_session:
  assumes "inv {} c" "create_workspace env nm cwd c = (Inr s, d)"
  shows "inv {} (upd_client i (\<lambda>k. k\<lparr>cl_session := Some s, cl_last_frame := None\<rparr>) d)"
  using inv_create [OF assms] by (intro inv_set_session) auto

lemma inv_exec:
  assumes i: "inv {} c"
  shows "inv {} (exec_command env i cmd c)"
proof (cases cmd)
  case (NewSession n x)
  then show ?thesis
    using inv_create [OF i] inv_open_session [OF i]
    by (simp add: exec_command_def Let_def split: prod.split sum.split)
next
  case (SpawnAgent n)
  then show ?thesis
    using i inv_spawn_agent [OF i] by (auto simp: exec_command_def Let_def spawn_agent_def intro!: inv_report_result split: option.split)
       (metis surjective_pairing)
next
  case (NewProcess n l)
  then show ?thesis
    using i inv_new_process [OF i] by (auto simp: exec_command_def Let_def intro!: inv_report_result split: option.split)
       (metis surjective_pairing)
next
  case (PutFile n x)
  then show ?thesis
    using inv_put_file [OF i] by (auto simp: exec_command_def Let_def split: prod.split sum.split)
next
  case (KillSession n)
  then show ?thesis using i by (auto simp: exec_command_def Let_def inv_kill_workspace split: option.split)
next
  case ClosePane
  then show ?thesis using i inv_close_stage [OF i] by (auto simp: exec_command_def Let_def split: option.split)
qed (use i in \<open>auto simp: exec_command_def Let_def inv_rename inv_kill_server split: option.split\<close>)

lemma inv_client_msg: "inv {} c \<Longrightarrow> inv {} (handle_client_msg env i msg c)"
  by (auto simp: handle_client_msg_def inv_detach inv_attach inv_route inv_resize_client inv_exec inv_watch
      split: client_msg.split)


section \<open>Requests\<close>

lemma inv_api_git: "inv E c \<Longrightarrow> inv E (snd (api_git env sid f c))"
  by (auto simp: api_git_def Let_def intro!: inv_request_refresh inv_set_git split: option.split pane_state.split sum.split)

lemma inv_forget_pane:
  assumes "inv E c" "workspaces c sid = Some w" "p \<in> set (all_panes w)"
  shows "inv E ((upd_ws sid (\<lambda>w. snd (forget_pane p w)) c)\<lparr>panes := (panes c)(p := None)\<rparr>)"
  using inv_drop [OF assms] assms(2) by (simp add: upd_ws_def)

lemma inv_restart_process:
  assumes i: "inv E c"
  shows "inv E (snd (api_restart_process env sid p c))"
proof (cases "workspaces c sid")
  case (Some w)
  show ?thesis
  proof (cases "proc_meta_of w p")
    case m: (Some m)
    then have "p \<in> set (processes w)" using inv_wsD(2) [OF i Some] by (auto simp: wf_ws_def)
    then have "p \<in> set (all_panes w)" by (simp add: all_panes_def)
    from inv_forget_pane [OF i Some this]
    have d: "inv E ((upd_ws sid (\<lambda>w. snd (forget_pane p w)) c)\<lparr>panes := (panes c)(p := None)\<rparr>)" (is "inv E ?d") .
    obtain r e where r: "spawn_process env sid (ws_cwd w) (m\<lparr>ready_seen := False, ready_carry := []\<rparr>) False None ?d = (r, e)"
      by (metis surj_pair)
    have "workspaces ?d sid = Some (snd (forget_pane p w))" using Some by (simp add: upd_ws_def)
    from inv_spawn_process [OF d this r] show ?thesis
      using Some m r by (simp add: api_restart_process_def Let_def split: sum.split)
  qed (use i Some in \<open>simp add: api_restart_process_def\<close>)
qed (use i in \<open>simp add: api_restart_process_def\<close>)

lemma inv_with_pane:
  "inv E c \<Longrightarrow> (\<And>w. workspaces c sid = Some w \<Longrightarrow> p \<in> set (all_panes w) \<Longrightarrow> inv E (snd (f c))) \<Longrightarrow> inv E (snd (with_pane sid p f c))"
  by (simp add: with_pane_def split: option.split)

lemma inv_pane_input: "inv E c \<Longrightarrow> inv E (snd (pane_input env p ev c))"
  by (simp add: pane_input_def Let_def inv_note_spoken)

lemma inv_ack: "inv E c \<Longrightarrow> inv E (snd (ack_pane env p c))"
  by (simp add: ack_pane_def split: option.split pane_state.split)

lemma inv_spawn_reply: "inv E (snd x) \<Longrightarrow> inv E (snd (spawn_reply x))"
  by (cases x) (simp add: spawn_reply_def split: sum.split)

lemma inv_start_op: "inv E c \<Longrightarrow> inv E (snd (start_git_op env sid op c))"
  by (simp add: start_git_op_def Let_def split: option.split sum.split)

lemma inv_cancel_op: "inv E c \<Longrightarrow> inv E (snd (cancel_git_op env sid c))"
  by (simp add: cancel_git_op_def split: option.split)

lemma inv_handle_api:
  assumes i: "inv {} c"
  shows "inv {} (snd (handle_api env req c))"
proof (cases req)
  case (GitRun sid op)
  then show ?thesis
    using inv_start_op [OF i, of env sid op] by (auto simp: handle_api_def split: prod.splits sum.splits git_refusal.split)
next
  case (GitOpCancel sid)
  then show ?thesis
    using inv_cancel_op [OF i, of env sid] by (auto simp: handle_api_def split: prod.splits option.splits)
next
  case (ApiSpawnAgent sid n b)
  have "inv {} (snd (spawn_agent_restoring env sid n None None False b c))"
    using inv_spawn_agent [OF i] by (metis surjective_pairing)
  then show ?thesis using ApiSpawnAgent i by (simp add: handle_api_def inv_spawn_reply)
next
  case (ApiNewProcess sid n l)
  have "inv {} (snd (new_process env sid n k c))" for k
    using inv_new_process [OF i] by (metis surjective_pairing)
  then show ?thesis using ApiNewProcess i by (simp add: handle_api_def inv_spawn_reply)
next
  case (KillPane sid p)
  then show ?thesis using i by (simp add: handle_api_def inv_with_pane inv_drop_pane)
qed (use i in \<open>simp_all add: handle_api_def inv_api_git inv_kill_workspace inv_restart_process inv_with_pane
        inv_pane_input inv_ack split: option.split\<close>)

lemma inv_serve: "inv {} c \<Longrightarrow> inv {} (snd (serve_api env req c))"
  using inv_handle_api [of c env req] by (simp add: serve_api_def split_beta)

lemma inv_resolved: "inv {} c \<Longrightarrow> inv {} (snd (new_workspace_resolved env n cwd c))"
  using inv_create [of c] by (simp add: new_workspace_resolved_def Let_def split: sum.split prod.split)


section \<open>Steps\<close>

lemma inv_repo_probed: "inv {} c \<Longrightarrow> inv {} (on_repo_probed env sid git c)"
proof -
  assume "inv {} c"
  then have i: "inv {} (c\<lparr>repo_probing := repo_probing c - {sid}\<rparr>)" (is "inv {} ?c") by simp
  show ?thesis
  proof (cases git)
    case None
    then show ?thesis using i by (simp add: on_repo_probed_def Let_def)
  next
    case (Some g)
    let ?d = "?c\<lparr>repo_probe_next := (repo_probe_next ?c)(sid := None)\<rparr>"
    have d: "inv {} ?d" using i by simp
    show ?thesis
    proof (cases "workspaces c sid")
      case None
      then show ?thesis using Some d by (simp add: on_repo_probed_def Let_def)
    next
      case w: (Some w)
      show ?thesis
      proof (cases "changes w")
        case None
        let ?p = "next_pane c"
        let ?e = "?d\<lparr>next_pane := Suc ?p, panes := (panes c)(?p := Some (PGit g))\<rparr>"
        have e: "inv {?p} ?e" using inv_new_pane [OF d, of "PGit g"] by simp
        have we: "workspaces ?e sid = Some w" using w by simp
        note iw = inv_wsD [OF e we]
        have "inv ({?p} - {?p}) (upd_ws sid (\<lambda>w. w\<lparr>changes := Some ?p\<rparr>) ?e)"
          by (rule inv_upd_ws [OF e we])
             (use iw(1,2,4,7) None in \<open>auto simp: wf_ws_def rails_ok_def all_panes_def kinds_def kind_of_def\<close>)
        then show ?thesis
          using Some w None by (simp add: on_repo_probed_def Let_def alloc_pane_id_def inv_request_refresh)
      qed (use Some w d in \<open>simp add: on_repo_probed_def Let_def\<close>)
    qed
  qed
qed

lemma inv_update_tracking: "inv E c \<Longrightarrow> inv E (update_agent_tracking env c)"
proof -
  assume "inv E c"
  then have i: "inv E (c\<lparr>agent_tracks := t, resume_retry := r\<rparr>)" for t r by simp
  have "inv E (look_at_agent env x d)" if "inv E d" for x d
    using that by (simp add: look_at_agent_def Let_def split: option.split prod.split)
  from fold_keep [of "inv E", OF i this] show ?thesis by (simp add: update_agent_tracking_def Let_def)
qed

lemma inv_sys: "inv E c \<Longrightarrow> inv E (on_sys env c)"
  by (simp add: on_sys_def Let_def attach_new_repos_def inv_update_tracking inv_fold_refresh)

lemma inv_connect:
  assumes c: "inv E c"
  shows "inv E (connect i c)"
proof -
  have s: "sessions (connect i c) = filter (\<lambda>(j, s). j \<noteq> i) (sessions c) @ [(i, None)]"
    using sessions_drop [of i c] by (simp add: connect_def client_new_def sessions_def)
  have f: "workspaces (connect i c) = workspaces c" "ws_order (connect i c) = ws_order c" "panes (connect i c) = panes c"
    "next_pane (connect i c) = next_pane c" "next_ws (connect i c) = next_ws c"
    "git_refreshing (connect i c) = git_refreshing c" "git_refresh_again (connect i c) = git_refresh_again c"
    by (simp_all add: connect_def)
  show ?thesis
    by (rule inv_sessions [OF c])
       (use invD(7) [OF c] in \<open>auto simp: s f distinct_map_filter dest!: invD(6) [OF c]\<close>)
qed

lemma inv_git_progress: "inv E c \<Longrightarrow> inv E (on_git_progress env sid sq line c)"
  by (simp add: on_git_progress_def Let_def split: option.split)

lemma inv_git_done: "inv E c \<Longrightarrow> inv E (on_git_op_done root sid sq result c)"
  by (simp add: on_git_op_done_def Let_def inv_request_refresh split: option.split)

lemma inv_handle: "inv {} c \<Longrightarrow> inv {} (handle env ev c)"
  by (cases ev) (simp_all add: handle_def Let_def inv_connect inv_client_msg inv_drop_client inv_pane_exited
      inv_git_refreshed inv_repo_probed inv_sys inv_serve inv_resolved inv_git_progress inv_git_done inv_kill_server)

lemma inv_step: "step c c' \<Longrightarrow> inv {} c \<Longrightarrow> inv {} c'"
  by (induction rule: step.induct) (simp_all add: inv_handle inv_output inv_render_all)

lemma inv_start:
  "inv {} ((core_new cf md)\<lparr>session_store := store, disk_session := saved, disk_dumps := dumps\<rparr>)"
  by (simp add: inv_def core_new_def ws_panes_def sessions_def)

lemma inv_reachable: "reachable c \<Longrightarrow> inv {} c"
  by (induction rule: reachable.induct) (auto intro: inv_restore_session inv_start inv_step)

end
