(* ===== verification/Core_Git.thy ===== *)
theory Core_Git
  imports Core_Step
begin

text \<open>
  The one-writer lock, \<open>git_ops\<close> in \<open>core.rs\<close>, under every operation of the core: which of them
  leave the operations alone, and what the four that write them do. \<open>held\<close> says that an operation
  runs on a repository; the last lemma is the \<open>unless\<close> property of a step, that a held repository
  stays held by the same operation unless the step is the end of that operation.
\<close>

section \<open>Operations that leave the lock alone\<close>

named_theorems keeps_locks \<open>operations that leave the git operations as they are\<close>

lemma fold_keeps_locks:
  "(\<And>x c. git_ops (f x c) = git_ops c) \<Longrightarrow> git_ops (fold f xs c) = git_ops c"
  by (induction xs arbitrary: c) auto

lemma locks_prim [keeps_locks]:
  "git_ops (upd_client i h c) = git_ops c" "git_ops (drop_client i c) = git_ops c"
  "git_ops (send i m c) = git_ops c" "git_ops (report_error i msg c) = git_ops c"
  "git_ops (detach i msg c) = git_ops c" "git_ops (upd_ws sid k c) = git_ops c"
  "git_ops (upd_term p t c) = git_ops c" "git_ops (upd_track p g c) = git_ops c"
  "git_ops (snd (alloc_pane_id c)) = git_ops c" "git_ops (ring_bell sid c) = git_ops c"
  "git_ops (broadcast e c) = git_ops c" "git_ops (drop_panes ps c) = git_ops c"
  "git_ops (capture_panes env c) = git_ops c" "git_ops (forget_session env c) = git_ops c"
  "git_ops (request_git_refresh p c) = git_ops c" "git_ops (connect i c) = git_ops c"
  "git_ops (notify env w p ttl nk ex c) = git_ops c" "git_ops (install_ws w c) = git_ops c"
  "git_ops (attach_new_repos env c) = git_ops c"
  by (simp_all add: upd_client_def drop_client_def send_def report_error_def detach_def upd_ws_def upd_term_def
      upd_track_def alloc_pane_id_def ring_bell_def broadcast_def drop_panes_def capture_panes_def
      forget_session_def request_git_refresh_def connect_def notify_def install_ws_def attach_new_repos_def
      Let_def split_beta split: option.split pane_state.split)

declare persist_session_frame(21) [keeps_locks]

lemma locks_look [keeps_locks]:
  "git_ops (touch_agent env p c) = git_ops c" "git_ops (look_at_pane env p c) = git_ops c"
  "git_ops (resize_pane env p r k c) = git_ops c" "git_ops (size_pane_for_viewer env p r k c) = git_ops c"
  by (simp_all add: touch_agent_def look_at_pane_def resize_pane_def size_pane_for_viewer_def keeps_locks
      Let_def split: option.split)

lemma locks_watch [keeps_locks]:
  "git_ops (watch_pane env i p c) = git_ops c" "git_ops (resize_client env i k r c) = git_ops c"
  by (simp_all add: watch_pane_def resize_client_def keeps_locks Let_def split: option.split)

lemma locks_spawn [keeps_locks]:
  "git_ops (snd (spawn_terminal_replaying env sid cwd kid dims rep c)) = git_ops c"
  by (simp add: spawn_terminal_replaying_def alloc_pane_id_def Let_def split: option.split)

lemma locks_spawn_agent [keeps_locks]:
  "git_ops (snd (spawn_agent_restoring env sid n rep ses spk bk c)) = git_ops c"
  by (simp add: spawn_agent_restoring_def keeps_locks Let_def split_beta split: option.split sum.split)

lemma locks_spawn_process [keeps_locks]:
  "git_ops (snd (spawn_process env sid cwd m st rep c)) = git_ops c"
  by (simp add: spawn_process_def keeps_locks Let_def split_beta split: sum.split)

lemma locks_new_process [keeps_locks]:
  "git_ops (snd (spawn_agent env sid n c)) = git_ops c" "git_ops (snd (new_process env sid n cl c)) = git_ops c"
  by (simp_all add: spawn_agent_def new_process_def keeps_locks split: option.split)

lemma locks_git [keeps_locks]:
  "git_ops (git_refreshed env p snap c) = git_ops c" "git_ops (on_repo_probed env sid g c) = git_ops c"
  by (simp_all add: git_refreshed_def on_repo_probed_def alloc_pane_id_def keeps_locks Let_def split_beta
      split: option.split pane_state.split)

lemma locks_open [keeps_locks]:
  "git_ops (snd (open_shell env w c)) = git_ops c" "git_ops (snd (open_changes env w c)) = git_ops c"
  by (simp_all add: open_shell_def open_changes_def keeps_locks Let_def split_beta split: option.split sum.split)

lemma locks_start_file [keeps_locks]:
  "git_ops (start_file env sid cwd sp file c) = git_ops c"
  by (simp add: start_file_def start_file_process_def start_file_agent_def keeps_locks fold_keeps_locks Let_def
      split: option.split)

lemma locks_rebuild [keeps_locks]:
  "git_ops (snd (rebuild_process env sid cwd sv p x)) = git_ops (snd x)"
  "git_ops (snd (rebuild_agent env sid sv a x)) = git_ops (snd x)"
  by (simp_all add: rebuild_process_def rebuild_agent_def keeps_locks Let_def split_beta)

lemma fold_keeps_locks_snd:
  "(\<And>x y. git_ops (snd (f x y)) = git_ops (snd y)) \<Longrightarrow> git_ops (snd (fold f xs y)) = git_ops (snd y)"
  by (induction xs arbitrary: y) auto

lemma locks_rebuild_panes [keeps_locks]:
  "git_ops (rebuild_workspace_panes env sid cwd sv c) = git_ops c"
  by (simp add: rebuild_workspace_panes_def keeps_locks fold_keeps_locks_snd Let_def split_beta)

lemma locks_create [keeps_locks]:
  "git_ops (snd (create_workspace_restoring env n cwd sv c)) = git_ops c"
  "git_ops (snd (create_workspace env n cwd c)) = git_ops c"
  "git_ops (snd (workspace_for_cwd env cwd c)) = git_ops c"
proof -
  show a: "git_ops (snd (create_workspace_restoring env n cwd sv c)) = git_ops c" for n cwd sv
    by (simp add: create_workspace_restoring_def keeps_locks Let_def split_beta split: option.split sum.split)
  show b: "git_ops (snd (create_workspace env n cwd c)) = git_ops c" for n cwd
    by (simp add: create_workspace_def a)
  show "git_ops (snd (workspace_for_cwd env cwd c)) = git_ops c"
    by (simp add: workspace_for_cwd_def b Let_def split: option.split)
qed

lemma locks_close [keeps_locks]:
  "git_ops (rehome i c) = git_ops c" "git_ops (kill_workspace env sid c) = git_ops c"
  "git_ops (drop_pane env sid p c) = git_ops c"
proof -
  show a: "git_ops (rehome i c) = git_ops c" for i and c :: "('a, 'b) core"
    by (simp add: rehome_def keeps_locks)
  show "git_ops (kill_workspace env sid c) = git_ops c"
    by (simp add: kill_workspace_def keeps_locks fold_keeps_locks a Let_def split: option.split)
  show "git_ops (drop_pane env sid p c) = git_ops c" by (simp add: drop_pane_def keeps_locks Let_def)
qed

lemma locks_retry [keeps_locks]: "git_ops (snd (retry_failed_resume env p status c)) = git_ops c"
  by (simp add: retry_failed_resume_def keeps_locks fold_keeps_locks Let_def split_beta
      split: option.split sum.split)

lemma locks_exit [keeps_locks]:
  "git_ops (agent_exited env w p status c) = git_ops c" "git_ops (on_pane_exited env p status c) = git_ops c"
proof -
  show a: "git_ops (agent_exited env w p status c) = git_ops c" for w and c :: "('a, 'b) core"
    by (simp add: agent_exited_def keeps_locks Let_def split: option.split)
  show "git_ops (on_pane_exited env p status c) = git_ops c"
    by (simp add: on_pane_exited_def keeps_locks a Let_def split_beta split: option.split)
qed

lemma locks_stop [keeps_locks]:
  "git_ops (teardown env c) = git_ops c" "git_ops (kill_server env clear c) = git_ops c"
  by (simp_all add: kill_server_def teardown_def snapshot_for_restart_def keeps_locks fold_keeps_locks Let_def)

section \<open>Output, input and frames\<close>

lemma locks_output [keeps_locks]: "git_ops (on_pty_output env p bytes c) = git_ops c"
proof -
  have a: "git_ops (on_remote_announce env p x c) = git_ops c" for x and c :: "('a, 'b) core"
    by (simp add: on_remote_announce_def Let_def split_beta)
  have b: "git_ops (scan_ready env p bytes c) = git_ops c" "git_ops (check_agent_bell env p c) = git_ops c"
    for c :: "('a, 'b) core"
    by (simp_all add: scan_ready_def check_agent_bell_def keeps_locks Let_def split: option.split)
  show ?thesis
    by (simp add: on_pty_output_def a b keeps_locks fold_keeps_locks Let_def split_beta split: option.split)
qed

lemma locks_mouse [keeps_locks]:
  "git_ops (note_agent_spoken env p ev c) = git_ops c" "git_ops (pane_mouse_down env i p x y al c) = git_ops c"
  "git_ops (pane_mouse_drag env i p x y al c) = git_ops c" "git_ops (pane_wheel env p x y up c) = git_ops c"
  "git_ops (finish_selection i c) = git_ops c"
  by (simp_all add: note_agent_spoken_def pane_mouse_down_def pane_mouse_drag_def pane_wheel_def
      finish_selection_def keeps_locks Let_def split_beta split: option.split)

lemma locks_input [keeps_locks]: "git_ops (route_input env i ev c) = git_ops c"
proof -
  have "git_ops (case client_of i c of Some k \<Rightarrow> resize_pane env p (max (cl_rows k) 2) (max (cl_cols k) 2) c | None \<Rightarrow> c)
      = git_ops c" for p
    by (simp add: keeps_locks split: option.split)
  then have "git_ops (route_pane_input env i p ev c) = git_ops c" for p
    by (simp add: route_pane_input_def keeps_locks Let_def split: input_event.split)
  then show ?thesis by (simp add: route_input_def keeps_locks split: option.split)
qed

lemma locks_render [keeps_locks]: "git_ops (render_all env c) = git_ops c"
  unfolding render_all_def
  by (rule fold_keeps_locks)
    (simp add: render_pane_client_def keeps_locks Let_def split: option.split pane_state.split)

section \<open>Clients and requests\<close>

lemma locks_attach [keeps_locks]:
  "git_ops (attach_client env i cols rows target cwd c) = git_ops c"
proof -
  have "git_ops (snd (case r of (Inl e, c) \<Rightarrow> (Inl (x e), c) | (Inr sid, c) \<Rightarrow> (Inr sid, c))) = git_ops (snd r)"
    for r :: "(string + session_id) \<times> ('a, 'b) core" and x :: "string \<Rightarrow> string \<times> string"
    by (auto split: prod.split sum.split)
  then have t: "git_ops (snd (attach_target_ws env target cwd c)) = git_ops c"
    by (simp add: attach_target_ws_def keeps_locks Let_def split: attach_target.split option.split)
  have p: "git_ops (attach_pane env i cols rows p c) = git_ops c" for p
    by (simp add: attach_pane_def keeps_locks Let_def)
  obtain r d where r: "attach_target_ws env target cwd c = (r, d)" by fastforce
  then show ?thesis
    using t by (auto simp: attach_client_def p keeps_locks Let_def split: attach_target.split sum.split)
qed

lemma locks_put [keeps_locks]: "git_ops (snd (put_file env i n d c)) = git_ops c"
  by (simp add: put_file_def keeps_locks Let_def split: option.split sum.split)

lemma locks_report [keeps_locks]: "git_ops (report_result i r) = git_ops (snd r)"
  by (simp add: report_result_def keeps_locks split: prod.split sum.split)

lemma create_locks: "create_workspace env n d c = (r, x) \<Longrightarrow> git_ops x = git_ops c"
  using locks_create(2) [of env n d c] by simp

lemma put_locks: "put_file env i n d c = (r, x) \<Longrightarrow> git_ops x = git_ops c"
  using locks_put [of env i n d c] by simp

lemma locks_exec [keeps_locks]: "git_ops (exec_command env i cmd c) = git_ops c"
proof -
  have new: "git_ops (case create_workspace env n d c of
        (Inr s, c) \<Rightarrow> (upd_client i (\<lambda>k. k\<lparr>cl_session := Some s, cl_last_frame := None\<rparr>) c)\<lparr>dirty := True\<rparr>
      | (Inl e, c) \<Rightarrow> report_error i e c) = git_ops c" for n d
    by (auto simp: keeps_locks dest: create_locks split: prod.split sum.split)
  have put: "git_ops (case put_file env i n d c of
        (Inr p, c) \<Rightarrow> send i (FilePut p) c | (Inl e, c) \<Rightarrow> report_error i e c) = git_ops c" for n d
    by (auto simp: keeps_locks dest: put_locks split: prod.split sum.split)
  show ?thesis
    by (cases cmd) (simp_all add: exec_command_def new put keeps_locks fold_keeps_locks Let_def split: option.split)
qed

lemma locks_client [keeps_locks]: "git_ops (handle_client_msg env i msg c) = git_ops c"
  by (simp add: handle_client_msg_def keeps_locks split: client_msg.split)

lemma locks_sys [keeps_locks]: "git_ops (on_sys env c) = git_ops c"
proof -
  have "git_ops (look_at_agent env x c) = git_ops c" for x and c :: "('a, 'b) core"
    by (simp add: look_at_agent_def keeps_locks Let_def split: prod.split option.split)
  then show ?thesis by (simp add: on_sys_def update_agent_tracking_def keeps_locks fold_keeps_locks Let_def)
qed

lemma locks_spawn_reply [keeps_locks]: "git_ops (snd (spawn_reply r)) = git_ops (snd r)"
  by (simp add: spawn_reply_def split: prod.split sum.split)

text \<open>The requests of the actor but the start and the cancellation of an operation.\<close>

lemma locks_api:
  assumes "\<forall>sid op. req \<noteq> GitRun sid op" "\<forall>sid. req \<noteq> GitOpCancel sid"
  shows "git_ops (snd (serve_api env req c)) = git_ops c"
proof -
  have w: "git_ops (snd (with_pane sid p f c)) = git_ops c" if "git_ops (snd (f c)) = git_ops c" for sid p f
    using that by (simp add: with_pane_def split: option.split)
  have g: "git_ops (snd (api_git env sid f c)) = git_ops c" for sid f
    by (simp add: api_git_def keeps_locks Let_def split: option.split sum.split pane_state.split)
  have r: "git_ops (snd (api_restart_process env sid p c)) = git_ops c" for sid p
    by (simp add: api_restart_process_def keeps_locks Let_def split_beta split: option.split sum.split)
  have i: "git_ops (snd (pane_input env p ev c)) = git_ops c" for p ev
    by (simp add: pane_input_def keeps_locks Let_def)
  have a: "git_ops (snd (ack_pane env p c)) = git_ops c" for p
    by (simp add: ack_pane_def keeps_locks split: option.split pane_state.split)
  have "git_ops (snd (handle_api env req c)) = git_ops c"
    using assms by (cases req) (simp_all add: handle_api_def w g r i a keeps_locks split: option.split)
  then show ?thesis by (simp add: serve_api_def keeps_locks Let_def split_beta)
qed

lemma locks_new_workspace [keeps_locks]: "git_ops (snd (new_workspace_resolved env n cwd c)) = git_ops c"
proof -
  have "git_ops (snd (case create_workspace env nm d c of
        (Inr sid, c) \<Rightarrow> (RCreated sid, broadcast (EvWorkspaces (build_ws_summaries env c)) c)
      | (Inl e, c) \<Rightarrow> (RError e, c))) = git_ops c" for nm d
    by (auto simp: keeps_locks dest: create_locks split: prod.split sum.split)
  then show ?thesis by (simp add: new_workspace_resolved_def Let_def split: sum.split)
qed

section \<open>Holding a repository\<close>

definition holds_repo :: "path \<Rightarrow> nat \<Rightarrow> string \<Rightarrow> ('v, 'g) core \<Rightarrow> bool" where
  "holds_repo root sq k c \<longleftrightarrow> (\<exists>s. git_ops c root = Some s \<and> go_running s \<and> go_seq s = sq \<and> go_kind s = k)"

lemma holds_repo_cong: "git_ops d = git_ops c \<Longrightarrow> holds_repo root sq k d = holds_repo root sq k c"
  by (simp add: holds_repo_def)

lemma holds_broadcast: "holds_repo root sq k (broadcast e c) = holds_repo root sq k c"
  by (rule holds_repo_cong) (simp add: keeps_locks)

text \<open>The four operations that write the lock.\<close>

lemma start_holds:
  assumes "holds_repo root sq k c"
  shows "holds_repo root sq k (snd (start_git_op env sid op c))"
  using assms
  by (auto simp: start_git_op_def Let_def keeps_locks git_write_locked_def holds_repo_def
      split: option.split sum.split if_splits)

lemma cancel_holds:
  assumes "holds_repo root sq k c"
  shows "holds_repo root sq k (snd (cancel_git_op env sid c))"
  using assms by (auto simp: cancel_git_op_def holds_repo_def split: option.split)

lemma progress_holds:
  assumes "holds_repo root sq k c"
  shows "holds_repo root sq k (on_git_progress env sid n line c)"
  using assms by (auto simp: on_git_progress_def Let_def keeps_locks holds_repo_def split: option.split)

lemma done_holds:
  assumes "holds_repo root sq k c" "r \<noteq> root \<or> n \<noteq> sq"
  shows "holds_repo root sq k (on_git_op_done r sid n res c)"
  using assms by (auto simp: on_git_op_done_def Let_def keeps_locks holds_repo_def split: option.split)

lemma api_holds:
  assumes "holds_repo root sq k c"
  shows "holds_repo root sq k (snd (serve_api env req c))"
proof -
  have b: "holds_repo root sq k (snd (serve_api env req c)) = holds_repo root sq k (snd (handle_api env req c))"
    by (simp add: serve_api_def holds_broadcast Let_def split_beta)
  show ?thesis
  proof (cases "\<exists>sid op. req = GitRun sid op \<or> req = GitOpCancel sid")
    case True
    then show ?thesis
      unfolding b handle_api_def using start_holds [OF assms, of env] cancel_holds [OF assms, of env]
      by (auto split: prod.split sum.split option.split) (metis snd_conv)+
  next
    case False
    then show ?thesis using assms holds_repo_cong [OF locks_api] by blast
  qed
qed

lemma handle_holds:
  assumes "holds_repo root sq k c" "\<And>sid res. ev \<noteq> GitOpDone root sid sq res"
  shows "holds_repo root sq k (handle env ev c)"
proof -
  have same: "holds_repo root sq k d" if "git_ops d = git_ops c" for d
    using assms(1) holds_repo_cong [OF that] by simp
  show ?thesis
    using assms by (cases ev) (auto simp: handle_def Let_def keeps_locks
        intro: same api_holds progress_holds done_holds)
qed

text \<open>A held repository stays held by the same operation, unless the step is that operation's end.\<close>

lemma step_holds:
  assumes "step c d" "holds_repo root sq k c"
  shows "holds_repo root sq k d \<or> (\<exists>env sid res. d = handle env (GitOpDone root sid sq res) c)"
  using assms(1)
proof cases
  case (step_event env ev)
  then show ?thesis using handle_holds [OF assms(2), of ev env] by blast
next
  case (step_output env p bytes)
  then show ?thesis using assms(2) holds_repo_cong [OF locks_output] by blast
next
  case (step_render env)
  have "git_ops d = git_ops c" unfolding step_render by (simp add: keeps_locks)
  then show ?thesis using assms(2) holds_repo_cong by blast
qed

end
