(* ===== verification/Core_Props.thy ===== *)
theory Core_Props
  imports Core_Reach Core_Git
begin

text \<open>
  What a reader of \<open>core.rs\<close> may rely on: the properties of the core, each on the model's own
  handlers, with a small daemon that has one shell to show that their hypotheses can hold.
\<close>

section \<open>A small daemon\<close>

definition demo_env :: "(string, unit) env" where
  "demo_env =
     \<lparr>e_emu = demo_emu, e_render = \<lambda>_ _ _. \<lparr>b_area = \<lparr>ax = 0, ay = 0, aw = 0, ah = 0\<rparr>, b_at = undefined\<rparr>,
      e_width = length, e_diff = \<lambda>_ _. [], e_lossy = \<lambda>s. s, e_debug = quoted, e_debug_char = \<lambda>ch. [ch],
      e_random = \<lambda>_. replicate 16 7, e_spawn = \<lambda>_. None, e_compile = \<lambda>_ _ _. \<lparr>d_waiting = None, d_busy = None\<rparr>,
      e_dial = \<lambda>_. None, e_git_open = \<lambda>_. None, e_git_root = \<lambda>_. [], e_git_apply = \<lambda>_ g. g,
      e_git_state = \<lambda>_. RClean, e_git_changes = \<lambda>_. 0, e_git_conflicts = \<lambda>_. 0,
      e_ws_file = \<lambda>_. \<lparr>wf_processes = [], wf_autostart = []\<rparr>, e_is_dir = \<lambda>_. True,
      e_config = (\<lparr>cfg_shell = Some ''sh'', cfg_exit_when_empty = False, cfg_scrollback = 100,
                   cfg_restore_bytes = 64,
                   cfg_agents = [\<lparr>ad_name = ''a'', ad_command = ''a'', ad_args = [], ad_resume_args = [], ad_env = [],
                                  ad_waiting = None, ad_busy = None\<rparr>]\<rparr>, []),
      e_env_shell = None, e_platform_shell = ''sh'', e_current_dir = None, e_butai_dir = ''/d'',
      e_store_ok = True, e_dir_ok = \<lambda>_. True, e_dump_ok = \<lambda>_ _. True, e_scratch_error = \<lambda>_. None,
      e_now = 0, e_at_ms = 0\<rparr>"

definition demo_start :: "(string, unit) core" where
  "demo_start = restore_session demo_env
     ((core_new (fst (e_config demo_env)) Daemon)\<lparr>session_store := Some ''/d/s'', disk_session := None, disk_dumps := Map.empty\<rparr>)"

definition demo_open :: "(string, unit) core" where
  "demo_open = handle demo_env (NewWorkspaceResolved None (Inr ''/w'')) demo_start"

lemma demo_start_simp: "demo_start =
     (core_new (fst (e_config demo_env)) Daemon)\<lparr>session_store := Some ''/d/s'', disk_session := None, disk_dumps := Map.empty\<rparr>"
  by (simp add: demo_start_def restore_session_def core_new_def)

lemma demo_start_reachable: "reachable demo_start"
  unfolding demo_start_def by (rule start)

lemma demo_open_reachable: "reachable demo_open"
  unfolding demo_open_def
  by (rule later [OF demo_start_reachable], rule step_event) (simp add: demo_start_simp core_new_def)

lemma demo_name: "default_ws_name ''/w'' = ''w''"
  by code_simp

definition demo_ws :: workspace where
  "demo_ws = \<lparr>ws_id = 1, ws_name = ''w'', ws_cwd = ''/w'', agents = [], agent_meta_of = Map.empty, processes = [1],
      proc_meta_of = [1 \<mapsto> shell_meta ''sh''], docker_logs = None, changes = None, stage = Some 1, stage_size = None,
      ws_autostart = []\<rparr>"

lemma demo_open_simps:
  "workspaces demo_open = [1 \<mapsto> demo_ws]" "ws_order demo_open = [1]" "clients demo_open = []"
  "next_ws demo_open = 2" "next_pane demo_open = 2" "dom (panes demo_open) = {1}" "shutdown demo_open = False"
  "restoring demo_open = False" "session_store demo_open = Some ''/d/s''" "deferred demo_open = []"
  "git_refreshing demo_open = {}" "git_refresh_again demo_open = {}" "scans demo_open = []" "sent demo_open = []"
  "cfg demo_open = fst (e_config demo_env)" "agent_alerted demo_open = {}"
  by (simp_all add: demo_open_def handle_def new_workspace_resolved_def demo_name create_workspace_def
      create_workspace_restoring_def rebuilding_def open_shell_def spawn_terminal_replaying_def alloc_pane_id_def
      open_changes_def install_ws_def start_file_def demo_start_simp core_new_def demo_env_def Let_def
      persist_session_def set_stage_def add_process_def ws_new_def shell_meta_def config_shell_def demo_ws_def
      upd_ws_def broadcast_def session_state_def all_ws_def split: prod.split)

lemma kinds_git: "kinds c p = Some KGit \<longleftrightarrow> (\<exists>g. panes c p = Some (PGit g))"
proof -
  have "kind_of z = KGit \<longleftrightarrow> (\<exists>g. z = PGit g)" for z :: "('a, 'b) pane_state" by (cases z) (simp_all add: kind_of_def)
  then show ?thesis by (auto simp: kinds_def)
qed

section \<open>The invariant\<close>

text \<open>
  C1. Consistency. In every state a daemon reaches: the tabs are the open workspaces, each once; a
  workspace's slots name distinct live panes, its rows have their data, and what is on its stage is
  one of its rows; rows hold terminals and the changes rail a git pane; no pane is in two
  workspaces and none is live outside all of them; identifiers are below the next to be given; every
  session of a client is an open workspace; and a repeated scan is owed only where one is running.
\<close>

theorem core_stays_consistent:
  assumes "reachable c"
  shows "distinct (ws_order c) \<and> set (ws_order c) = dom (workspaces c)
    \<and> (\<forall>sid w. workspaces c sid = Some w \<longrightarrow>
         ws_id w = sid \<and> sid < next_ws c \<and> distinct (all_panes w)
         \<and> dom (agent_meta_of w) = set (agents w) \<and> dom (proc_meta_of w) = set (processes w)
         \<and> (\<forall>p. stage w = Some p \<longrightarrow> p \<in> set (agents w) \<union> set (processes w))
         \<and> (\<forall>p \<in> set (agents w) \<union> set (processes w). term_of p c \<noteq> None)
         \<and> (\<forall>p. changes w = Some p \<longrightarrow> git_pane w c \<noteq> None))
    \<and> (\<forall>s t v w. workspaces c s = Some v \<and> workspaces c t = Some w \<and> s \<noteq> t
         \<longrightarrow> set (all_panes v) \<inter> set (all_panes w) = {})
    \<and> dom (panes c) = (\<Union>w \<in> ran (workspaces c). set (all_panes w))
    \<and> (\<forall>p \<in> dom (panes c). p < next_pane c)
    \<and> (\<forall>(i, k) \<in> set (clients c). \<forall>s. cl_session k = Some s \<longrightarrow> workspaces c s \<noteq> None)
    \<and> git_refresh_again c \<subseteq> git_refreshing c"
proof -
  note i = inv_reachable [OF assms]
  have ws: "ws_id w = sid \<and> sid < next_ws c \<and> distinct (all_panes w)
         \<and> dom (agent_meta_of w) = set (agents w) \<and> dom (proc_meta_of w) = set (processes w)
         \<and> (\<forall>p. stage w = Some p \<longrightarrow> p \<in> set (agents w) \<union> set (processes w))
         \<and> (\<forall>p \<in> set (agents w) \<union> set (processes w). term_of p c \<noteq> None)
         \<and> (\<forall>p. changes w = Some p \<longrightarrow> git_pane w c \<noteq> None)" if w: "workspaces c sid = Some w" for sid w
  proof -
    note iw = inv_wsD(1-4) [OF i w]
    have "\<forall>p \<in> set (agents w) \<union> set (processes w). term_of p c \<noteq> None"
      using iw(4) unfolding rails_ok_def kinds_term by blast
    moreover have "\<forall>p. changes w = Some p \<longrightarrow> git_pane w c \<noteq> None"
      using iw(4) by (auto simp: rails_ok_def git_pane_def kinds_git)
    ultimately show ?thesis using iw unfolding wf_ws_def by blast
  qed
  have sess: "workspaces c s \<noteq> None" if "(j, k) \<in> set (clients c)" "cl_session k = Some s" for j k s
  proof -
    have "(j, Some s) \<in> set (sessions c)" using that by (force simp: sessions_def)
    then show ?thesis using invD(6) [OF i] by auto
  qed
  have dom: "dom (panes c) = (\<Union>w \<in> ran (workspaces c). set (all_panes w))"
    using invD(3) [OF i] unfolding ws_panes_def by simp
  have apart: "\<forall>s t v w. workspaces c s = Some v \<and> workspaces c t = Some w \<and> s \<noteq> t
         \<longrightarrow> set (all_panes v) \<inter> set (all_panes w) = {}"
    by (intro allI impI) (elim conjE, rule invD(9) [OF i])
  show ?thesis
  proof (intro conjI)
    show "\<forall>(i, k) \<in> set (clients c). \<forall>s. cl_session k = Some s \<longrightarrow> workspaces c s \<noteq> None" using sess by auto
    show "\<forall>p \<in> dom (panes c). p < next_pane c" using invD(5) [OF i] by (rule ballI)
  qed (rule invD(1,2,8) [OF i] dom apart allI | erule ws | rule impI)+
qed

theorem core_stays_consistent_witness:
  "workspaces demo_open 1 = Some demo_ws \<and> term_of 1 demo_open \<noteq> None"
proof -
  note c = core_stays_consistent [OF demo_open_reachable]
  have w: "workspaces demo_open 1 = Some demo_ws" by (simp add: demo_open_simps)
  from c [THEN conjunct2, THEN conjunct2, THEN conjunct1, rule_format, OF w]
  have "\<forall>p \<in> set (agents demo_ws) \<union> set (processes demo_ws). term_of p demo_open \<noteq> None" by (elim conjE)
  then show ?thesis using w by (simp add: demo_ws_def)
qed


section \<open>Git\<close>

lemma refresh_frame [simp]:
  "workspaces (request_git_refresh p c) = workspaces c" "panes (request_git_refresh p c) = panes c"
  "git_ops (request_git_refresh p c) = git_ops c" "git_op_seq (request_git_refresh p c) = git_op_seq c"
  by (auto simp: request_git_refresh_def split: option.split pane_state.split)

lemma git_root_same: "workspaces d = workspaces c \<Longrightarrow> panes d = panes c \<Longrightarrow> git_root env sid d = git_root env sid c"
  by (simp add: git_root_def git_pane_def split: option.split)

lemma git_root_SomeD:
  assumes "git_root env sid c = Some root"
  shows "\<exists>w p g. workspaces c sid = Some w \<and> changes w = Some p \<and> panes c p = Some (PGit g) \<and> root = e_git_root env g"
  using assms by (auto simp: git_root_def git_pane_def split: option.splits pane_state.splits)

text \<open>
  C5. One writer per repository. While an operation runs on a repository, whatever workspace it was
  started from, no other operation is started there and no index work is done: the caller is told
  what is running and the state does not change. The lock is held over every step of the daemon, whatever
  event it is, by that very operation: only the report of its own end, by its number, may free the
  repository, a report of another operation's end changes nothing, and its own end does free it. An
  operation that is started takes it.
\<close>

theorem one_writer_per_repository:
  assumes root: "git_root env sid c = Some root"
  shows "(git_ops c root = Some s \<and> go_running s \<longrightarrow>
      start_git_op env sid op c = (Inl (Busy (go_kind s)), c)
      \<and> api_git env sid f c = (RBusy (''a git operation is already running: '' @ go_kind s), c)
      \<and> (\<forall>c'. step c c' \<longrightarrow> holds_repo root (go_seq s) (go_kind s) c'
            \<or> (\<exists>env ws r. c' = handle env (GitOpDone root ws (go_seq s) r) c))
      \<and> (sq \<noteq> go_seq s \<longrightarrow> on_git_op_done root ws sq r c = c)
      \<and> git_write_locked env sid (on_git_op_done root ws (go_seq s) r c) = None)
    \<and> (start_git_op env sid op c = (Inr (dto, args), d) \<longrightarrow>
      git_write_locked env sid c = None \<and> git_write_locked env sid d = Some (kind op) \<and> gd_seq dto = Suc (git_op_seq c))"
proof (intro conjI impI)
  obtain w p g where w: "workspaces c sid = Some w" "changes w = Some p" using git_root_SomeD [OF root] by blast
  have root': "git_root env sid d = Some root" if "workspaces d = workspaces c" "panes d = panes c" for d :: "('a, 'b) core"
    using git_root_same [OF that] root by simp
  assume "git_ops c root = Some s \<and> go_running s"
  then have s: "git_ops c root = Some s" "go_running s" by blast+
  have l: "git_write_locked env sid c = Some (go_kind s)" using s root by (simp add: git_write_locked_def)
  let ?d = "on_git_op_done root ws (go_seq s) r c"
  have "workspaces ?d = workspaces c" "panes ?d = panes c" "\<exists>t. git_ops ?d root = Some t \<and> \<not> go_running t"
    using s by (auto simp: on_git_op_done_def broadcast_def Let_def split: option.splits)
  then show "git_write_locked env sid ?d = None"
    using root' [of ?d] by (auto simp: git_write_locked_def split: option.split)
  have "holds_repo root (go_seq s) (go_kind s) c" using s by (simp add: holds_repo_def)
  then show "\<forall>c'. step c c' \<longrightarrow> holds_repo root (go_seq s) (go_kind s) c'
      \<or> (\<exists>env ws r. c' = handle env (GitOpDone root ws (go_seq s) r) c)"
    using step_holds by blast
  show "on_git_op_done root ws sq r c = c" if "sq \<noteq> go_seq s"
    using s that by (simp add: on_git_op_done_def)
  show "start_git_op env sid op c = (Inl (Busy (go_kind s)), c)"
    "api_git env sid f c = (RBusy (''a git operation is already running: '' @ go_kind s), c)"
    using w root l s by (simp_all add: start_git_op_def api_git_def refusal_text_def)
next
  assume o: "start_git_op env sid op c = (Inr (dto, args), d)"
  then show l: "git_write_locked env sid c = None"
    using root by (auto simp: start_git_op_def split: option.splits)
  have "workspaces d = workspaces c" "panes d = panes c" and sq: "gd_seq dto = Suc (git_op_seq c)"
    and t: "\<exists>t. git_ops d root = Some t \<and> go_running t \<and> go_kind t = kind op"
    using o root l by (auto simp: start_git_op_def Let_def broadcast_def to_dto_def split: sum.splits option.splits)
  from this(1,2) have "git_root env sid d = Some root" using git_root_same root by metis
  then show "git_write_locked env sid d = Some (kind op)" using t by (auto simp: git_write_locked_def)
  show "gd_seq dto = Suc (git_op_seq c)" by (rule sq)
qed

text \<open>The small daemon with a repository, and a push running in it.\<close>

definition demo_push :: git_op_state where
  "demo_push = \<lparr>go_ws = 1, go_seq = 4, go_kind = ''push'', go_running = True, go_progress = [], go_result = None, go_cancel = True\<rparr>"

definition demo_repo :: "(string, unit) core" where
  "demo_repo = demo_open\<lparr>workspaces := [1 \<mapsto> demo_ws\<lparr>changes := Some 2\<rparr>], panes := (panes demo_open)(2 \<mapsto> PGit ()),
     next_pane := 3, git_ops := [[] \<mapsto> demo_push], git_op_seq := 4\<rparr>"

lemma demo_repo_root: "git_root demo_env 1 demo_repo = Some []"
  by (simp add: git_root_def git_pane_def demo_repo_def demo_env_def)

theorem one_writer_per_repository_witness:
  "fst (api_git demo_env 1 (\<lambda>g. Inr g) demo_repo) = RBusy ''a git operation is already running: push''
   \<and> git_write_locked demo_env 1 (on_git_op_done [] 1 4 (Inr ''ok'') demo_repo) = None"
proof -
  have "git_ops demo_repo [] = Some demo_push" "go_running demo_push" by (simp_all add: demo_repo_def demo_push_def)
  then show ?thesis
    using one_writer_per_repository [OF demo_repo_root, THEN conjunct1, THEN mp, of demo_push] by (simp add: demo_push_def)
qed

text \<open>
  C6. No change is missed. Asking for a scan of a repository starts one; however often it is asked
  for while one runs, its end starts exactly one more, and no scan runs twice at a time.
\<close>

theorem no_change_is_missed:
  assumes "panes c p = Some (PGit g)" "git_refresh_again c \<subseteq> git_refreshing c"
  shows "(p \<notin> git_refreshing c \<longrightarrow>
      scans (request_git_refresh p c) = scans c @ [p] \<and> p \<in> git_refreshing (request_git_refresh p c))
    \<and> (p \<in> git_refreshing c \<longrightarrow>
      scans ((request_git_refresh p ^^ Suc n) c) = scans c
      \<and> scans (git_refreshed env p snap ((request_git_refresh p ^^ Suc n) c)) = scans c @ [p]
      \<and> p \<in> git_refreshing (git_refreshed env p snap ((request_git_refresh p ^^ Suc n) c))
      \<and> p \<notin> git_refresh_again (git_refreshed env p snap ((request_git_refresh p ^^ Suc n) c)))"
proof (rule conjI; rule impI)
  show "scans (request_git_refresh p c) = scans c @ [p] \<and> p \<in> git_refreshing (request_git_refresh p c)"
    if "p \<notin> git_refreshing c"
    using assms(1) that by (simp add: request_git_refresh_def)
next
  assume r: "p \<in> git_refreshing c"
  have n: "(request_git_refresh p ^^ Suc n) c = c\<lparr>git_refresh_again := insert p (git_refresh_again c)\<rparr>"
  proof (induction n)
    case 0
    then show ?case using assms(1) r by (simp add: request_git_refresh_def)
  next
    case (Suc n)
    have "(request_git_refresh p ^^ Suc (Suc n)) c = request_git_refresh p ((request_git_refresh p ^^ Suc n) c)" by simp
    also have "\<dots> = c\<lparr>git_refresh_again := insert p (git_refresh_again c)\<rparr>"
      unfolding Suc.IH using assms(1) r by (simp add: request_git_refresh_def)
    finally show ?case .
  qed
  show "scans ((request_git_refresh p ^^ Suc n) c) = scans c
      \<and> scans (git_refreshed env p snap ((request_git_refresh p ^^ Suc n) c)) = scans c @ [p]
      \<and> p \<in> git_refreshing (git_refreshed env p snap ((request_git_refresh p ^^ Suc n) c))
      \<and> p \<notin> git_refresh_again (git_refreshed env p snap ((request_git_refresh p ^^ Suc n) c))"
    unfolding n using assms(1) r by (simp add: git_refreshed_def request_git_refresh_def Let_def)
qed

theorem no_change_is_missed_witness:
  "scans (git_refreshed demo_env 2 () (request_git_refresh 2 (request_git_refresh 2 (request_git_refresh 2 demo_repo)))) = [2, 2]"
proof -
  have c: "panes demo_repo 2 = Some (PGit ())" by (simp add: demo_repo_def)
  have e: "git_refreshing demo_repo = {}" "git_refresh_again demo_repo = {}" "scans demo_repo = []"
    by (simp_all add: demo_repo_def demo_open_simps)
  let ?c = "request_git_refresh 2 demo_repo"
  have s: "scans ?c = [2] \<and> 2 \<in> git_refreshing ?c"
    using no_change_is_missed [OF c, THEN conjunct1] e by simp
  have "panes ?c 2 = Some (PGit ())" "git_refresh_again ?c \<subseteq> git_refreshing ?c"
    using c e by (auto simp: request_git_refresh_def)
  note no_change_is_missed [OF this, THEN conjunct2, THEN mp, OF conjunct2 [OF s], of "Suc 0" demo_env "()"]
  then have "scans (git_refreshed demo_env 2 () ((request_git_refresh 2 ^^ Suc (Suc 0)) ?c)) = scans ?c @ [2]" by (elim conjE)
  also have "(request_git_refresh 2 ^^ Suc (Suc 0)) ?c = request_git_refresh 2 (request_git_refresh 2 ?c)"
    by (simp only: funpow.simps comp_apply id_apply)
  finally show ?thesis using s by simp
qed


section \<open>Clients\<close>

lemma sent_to_each:
  "distinct (map fst xs) \<Longrightarrow>
   filter (\<lambda>(j, m). j = i) (map (\<lambda>(j, k). (j, b)) (filter (\<lambda>(j, k). P k) xs))
     = (if \<exists>k. (i, k) \<in> set xs \<and> P k then [(i, b)] else [])"
proof (induction xs)
  case (Cons x xs)
  obtain j k where x: "x = (j, k)" by (metis surj_pair)
  show ?case
  proof (cases "j = i")
    case True
    then have "\<not> (\<exists>k. (i, k) \<in> set xs \<and> P k)" using Cons.prems x by force
    then show ?thesis using Cons x True by auto
  qed (use Cons x in auto)
qed simp

lemma clients_distinct: "reachable c \<Longrightarrow> distinct (map fst (clients c))"
proof -
  assume "reachable c"
  have "map fst (sessions c) = map fst (clients c)" by (simp add: sessions_def split_beta comp_def)
  then show ?thesis using invD(7) [OF inv_reachable [OF \<open>reachable c\<close>]] by simp
qed

lemma check_bell:
  assumes i: "inv E c" and d: "distinct (map fst (clients c))" and w: "find_ws (\<lambda>w. p \<in> set (agents w)) c = Some w"
  shows "received i (check_agent_bell env p c) = received i c @
      (if check_needs env p c \<and> p \<notin> agent_alerted c
          \<and> (\<exists>k. (i, k) \<in> set (clients c) \<and> views (ws_id w) (all_panes w) k) then [Bell] else [])"
    and "p \<in> agent_alerted (check_agent_bell env p c) \<longleftrightarrow> check_needs env p c"
    and "panes (check_agent_bell env p c) = panes c"
proof -
  have ww: "workspaces c (ws_id w) = Some w" by (rule find_ws_Some(2) [OF i w])
  have eq: "check_agent_bell env p c =
      (if check_needs env p c
       then (if p \<in> agent_alerted c then c else ring_bell (ws_id w) (c\<lparr>agent_alerted := insert p (agent_alerted c)\<rparr>))
       else c\<lparr>agent_alerted := agent_alerted c - {p}\<rparr>)"
    using w by (simp add: check_agent_bell_def Let_def)
  show "received i (check_agent_bell env p c) = received i c @
      (if check_needs env p c \<and> p \<notin> agent_alerted c
          \<and> (\<exists>k. (i, k) \<in> set (clients c) \<and> views (ws_id w) (all_panes w) k) then [Bell] else [])"
    using sent_to_each [OF d, of i Bell "views (ws_id w) (all_panes w)"] ww by (simp add: eq received_def ring_bell_def)
  show "p \<in> agent_alerted (check_agent_bell env p c) \<longleftrightarrow> check_needs env p c"
    "panes (check_agent_bell env p c) = panes c"
    unfolding eq by (simp_all add: ring_bell_def)
qed

lemma announce_frame:
  "workspaces (fold (on_remote_announce env p) ann c) = workspaces c" "ws_order (fold (on_remote_announce env p) ann c) = ws_order c"
  "clients (fold (on_remote_announce env p) ann c) = clients c" "sent (fold (on_remote_announce env p) ann c) = sent c"
  "agent_alerted (fold (on_remote_announce env p) ann c) = agent_alerted c"
  by (induction ann arbitrary: c) (simp_all add: on_remote_announce_def Let_def split_beta)

lemma scan_ready_frame:
  "ws_order (scan_ready env p bytes c) = ws_order c" "clients (scan_ready env p bytes c) = clients c"
  "sent (scan_ready env p bytes c) = sent c" "agent_alerted (scan_ready env p bytes c) = agent_alerted c"
  "map_option all_panes (workspaces (scan_ready env p bytes c) s) = map_option all_panes (workspaces c s)"
  "map_option agents (workspaces (scan_ready env p bytes c) s) = map_option agents (workspaces c s)"
  by (auto simp: scan_ready_def upd_ws_def all_panes_def split: option.split)

lemma check_needs_cong: "panes c p = panes d p \<Longrightarrow> check_needs env p c = check_needs env p d"
  by (simp add: check_needs_def term_of_def)

lemma burst_rings:
  assumes c: "reachable c" and w: "workspaces c sid = Some w" "p \<in> set (agents w)"
  shows "received i (on_pty_output env p bytes c) = received i c @
      (if check_needs env p (on_pty_output env p bytes c) \<and> p \<notin> agent_alerted c
          \<and> (\<exists>k. (i, k) \<in> set (clients c) \<and> views sid (all_panes w) k) then [Bell] else [])
    \<and> (p \<in> agent_alerted (on_pty_output env p bytes c) \<longleftrightarrow> check_needs env p (on_pty_output env p bytes c))"
proof -
  note i = inv_scan_ready [OF inv_reachable [OF c], of env p bytes]
  let ?a = "scan_ready env p bytes c"
  let ?x = "case term_of p ?a of
      None \<Rightarrow> ([], ?a)
    | Some t \<Rightarrow> (let (ann, t) = take_announcements (feed_output (e_emu env) (e_now env) bytes t)
                 in (ann, ?a\<lparr>panes := (panes ?a)(p := Some (PTerm t)), dirty := True\<rparr>))"
  let ?b = "fold (on_remote_announce env p) (fst ?x) (snd ?x)"
  have eq: "on_pty_output env p bytes c = touch_agent env p (check_agent_bell env p ?b)"
    by (simp add: on_pty_output_def Let_def split_beta)
  have "inv {} (snd ?x)" using i inv_feed [OF i] by (auto simp: Let_def split: option.split prod.split)
  then have b: "inv {} ?b" by (simp add: inv_fold_announce)
  have x: "workspaces (snd ?x) = workspaces ?a" "ws_order (snd ?x) = ws_order ?a" "clients (snd ?x) = clients ?a"
    "sent (snd ?x) = sent ?a" "agent_alerted (snd ?x) = agent_alerted ?a"
    by (auto split: option.split prod.split)
  obtain v where v: "workspaces ?b sid = Some v" "all_panes v = all_panes w" "agents v = agents w"
    using scan_ready_frame(5,6) [of env p bytes c sid] w(1) by (auto simp: announce_frame x)
  have "find_ws (\<lambda>w. p \<in> set (agents w)) ?b \<noteq> None"
    using v w(2) all_ws_iff [OF b, of v] by (auto simp: find_ws_def find_None_iff)
  then obtain u where u: "find_ws (\<lambda>w. p \<in> set (agents w)) ?b = Some u" by blast
  have "ws_id u = sid"
    using invD(9) [OF b find_ws_Some(2) [OF b u] v(1)] find_ws_Some(1) [OF b u] v w(2)
    by (auto simp: all_panes_def)
  then have uv: "u = v" using find_ws_Some(2) [OF b u] v(1) by simp
  have cl: "clients ?b = clients c" "agent_alerted ?b = agent_alerted c" "received i ?b = received i c"
    by (simp_all add: announce_frame x scan_ready_frame received_def)
  have touch: "received i (touch_agent env p d) = received i d" "panes (touch_agent env p d) = panes d"
    "agent_alerted (touch_agent env p d) = agent_alerted d" for d
    by (simp_all add: touch_agent_def upd_track_def received_def)
  note bell = check_bell [where env = env, OF b _ u]
  have needs: "check_needs env p (touch_agent env p (check_agent_bell env p ?b)) = check_needs env p ?b"
    by (rule check_needs_cong) (simp add: touch bell(3) cl clients_distinct [OF c])
  show ?thesis
    unfolding eq needs touch using bell(1) [of i] bell(2) \<open>ws_id u = sid\<close> v(2) unfolding cl uv
    by (simp add: clients_distinct [OF c])
qed

lemma look_keeps_mark:
  "agent_alerted (look_at_pane env p c) = agent_alerted c" "workspaces (look_at_pane env p c) = workspaces c"
  "received i (look_at_pane env p c) = received i c"
  by (simp_all add: look_at_pane_def upd_track_def upd_term_def received_def split: option.split pane_state.split)

text \<open>
  C7. The bell. A burst of an agent's output rings the bell when it leaves the agent needing its user
  and the agent is not marked as rung for: then every client that looks at its workspace and is not a
  control connection is sent exactly one bell, and nobody anything else. The mark is set by a burst
  that leaves the agent needing its user and cleared by one that does not, so a run of bursts through
  which it needs its user rings once. Only a burst moves it: looking at the pane leaves it as it was.
\<close>

theorem bell_rings_once:
  assumes c: "reachable c" and w: "workspaces c sid = Some w" "p \<in> set (agents w)"
  shows "received i (on_pty_output env p bytes c) = received i c @
      (if check_needs env p (on_pty_output env p bytes c) \<and> p \<notin> agent_alerted c
          \<and> (\<exists>k. (i, k) \<in> set (clients c) \<and> views sid (all_panes w) k) then [Bell] else [])
    \<and> (p \<in> agent_alerted (on_pty_output env p bytes c) \<longleftrightarrow> check_needs env p (on_pty_output env p bytes c))
    \<and> agent_alerted (look_at_pane env p c) = agent_alerted c"
  using burst_rings [OF assms] look_keeps_mark(1) by blast

text \<open>
  So an agent that was rung for and then acknowledged is not rung for again by the next burst that
  needs its user, although its bell is down in between.
\<close>

lemma acknowledged_bell_is_silent:
  assumes c: "reachable c" "\<not> shutdown c" and w: "workspaces c sid = Some w" "p \<in> set (agents w)"
    and a: "p \<in> agent_alerted c" and t: "term_of p c = Some t"
    and dd: "d = handle env (Api (AckPane sid p)) c"
  shows "\<exists>u. term_of p d = Some u \<and> \<not> bell_pending (e_emu env) u"
    and "received i (on_pty_output env' p bytes d) = received i c"
proof -
  have p: "panes c p = Some (PTerm t)" using t by (simp add: term_of_def split: option.splits pane_state.splits)
  have "p \<in> set (all_panes w)" using w(2) by (simp add: all_panes_def)
  then have d: "d = (look_at_pane env p c)\<lparr>dirty := True\<rparr>"
    using w(1) p by (simp add: dd handle_def serve_api_def handle_api_def with_pane_def ack_pane_def structural_def)
  show "\<exists>u. term_of p d = Some u \<and> \<not> bell_pending (e_emu env) u"
    using p by (simp add: d look_at_pane_def upd_term_def upd_track_def term_of_def bell_pending_def acknowledge_def)
  have r: "reachable d" unfolding dd by (rule later [OF c(1) step_event [OF c(2)]])
  have "workspaces d = workspaces c" "agent_alerted d = agent_alerted c" "received i d = received i c"
    unfolding d using look_keeps_mark by (simp_all add: received_def)
  then show "received i (on_pty_output env' p bytes d) = received i c"
    using burst_rings [OF r, where env = env' and bytes = bytes and i = i and p = p and sid = sid and w = w] w a by simp
qed

text \<open>The small daemon with an agent in its workspace, and a client that is attached to it.\<close>

definition demo_agent :: "(string, unit) core" where
  "demo_agent = handle demo_env (FromClient 5 (Hello PROTOCOL_VERSION Json 80 24 (AttachTo ''w'') ''/w''))
     (handle demo_env (ClientConnected 5) (handle demo_env (Api (ApiSpawnAgent 1 ''a'' True)) demo_open))"

lemma step_handle: "reachable c \<Longrightarrow> \<not> shutdown c \<Longrightarrow> reachable (handle env ev c)"
  by (rule later [OF _ step_event])

definition agent_row :: workspace where
  "agent_row = add_agent 2 \<lparr>am_name = ''a'', session_id = None, spoke = False\<rparr> demo_ws"

lemma alerted_persist: "agent_alerted (persist_session env c) = agent_alerted c"
  by (simp add: persist_session_def)

lemma demo_spawned:
  fixes c defines "c \<equiv> handle demo_env (Api (ApiSpawnAgent 1 ''a'' True)) demo_open"
  shows "workspaces c = [1 \<mapsto> agent_row]" "ws_order c = [1]" "clients c = []" "shutdown c = False"
    "sent c = []" "agent_alerted c = {}"
    "term_of 2 c = Some (term_new demo_emu 0 ''a'' (Some ''a'') (Some \<lparr>d_waiting = None, d_busy = None\<rparr>) 24 80 100 64 None)"
  by (simp_all add: c_def demo_env_def handle_def serve_api_def handle_api_def structural_def succeeded_def
      spawn_reply_def spawn_agent_restoring_def demo_open_simps stage_size_of_def demo_ws_def agent_launch_def
      fresh_launch_def assigns_session_def needs_session_def expand_args_def config_agent_def
      spawn_terminal_replaying_def alloc_pane_id_def upd_ws_def core_frame broadcast_def agent_row_def Let_def
      term_of_def alerted_persist child_label_def UNWATCHED_PANE_SIZE_def)

lemma demo_agent_reachable: "reachable demo_agent"
proof -
  let ?a = "handle demo_env (Api (ApiSpawnAgent 1 ''a'' True)) demo_open"
  have "reachable ?a" by (rule step_handle [OF demo_open_reachable]) (simp add: demo_open_simps)
  then have "reachable (handle demo_env (ClientConnected 5) ?a)" by (rule step_handle) (simp add: demo_spawned del: One_nat_def)
  then show ?thesis
    unfolding demo_agent_def
    by (rule step_handle)
       (simp add: handle_def [of _ "ClientConnected 5"] connect_def drop_client_def demo_spawned del: One_nat_def)
qed

lemma attach_to:
  "find_ws (\<lambda>w. ws_name w = n) c = Some w \<Longrightarrow>
   handle env (FromClient i (Hello PROTOCOL_VERSION enc cols rows (AttachTo n) cwd)) c =
     (send i (server_hello (ws_info (ws_id w) c)) (upd_client i
        (\<lambda>k. k\<lparr>cl_session := Some (ws_id w), cl_cols := cols, cl_rows := rows, cl_last_frame := None\<rparr>) c))\<lparr>dirty := True\<rparr>"
  by (simp add: handle_def handle_client_msg_def attach_client_def attach_target_ws_def)

lemma demo_agent_simps:
  "workspaces demo_agent = [1 \<mapsto> agent_row]" "agent_alerted demo_agent = {}"
  "clients demo_agent = [(5, client_new\<lparr>cl_session := Some 1\<rparr>)]"
  "term_of 2 demo_agent = Some (term_new demo_emu 0 ''a'' (Some ''a'') (Some \<lparr>d_waiting = None, d_busy = None\<rparr>) 24 80 100 64 None)"
proof -
  let ?a = "handle demo_env (Api (ApiSpawnAgent 1 ''a'' True)) demo_open"
  let ?b = "?a\<lparr>had_client := True, clients := [(5, client_new)]\<rparr>"
  have b: "handle demo_env (ClientConnected 5) ?a = ?b"
    by (simp add: handle_def [of _ "ClientConnected 5"] connect_def drop_client_def demo_spawned del: One_nat_def)
  have f: "find_ws (\<lambda>w. ws_name w = ''w'') ?b = Some agent_row"
    by (simp add: find_ws_def all_ws_def demo_spawned map_filter_simps agent_row_def add_agent_def demo_ws_def del: One_nat_def)
  have t: "term_of 2 (?b\<lparr>clients := k, sent := m, dirty := d\<rparr>) = term_of 2 ?a" for k m d by (simp add: term_of_def)
  have eq: "demo_agent = (send 5 (server_hello (ws_info 1 ?b)) (upd_client 5
      (\<lambda>k. k\<lparr>cl_session := Some 1, cl_cols := 80, cl_rows := 24, cl_last_frame := None\<rparr>) ?b))\<lparr>dirty := True\<rparr>"
    unfolding demo_agent_def b attach_to [OF f] by (simp add: agent_row_def add_agent_def demo_ws_def del: One_nat_def)
  show "workspaces demo_agent = [1 \<mapsto> agent_row]" "agent_alerted demo_agent = {}"
    "clients demo_agent = [(5, client_new\<lparr>cl_session := Some 1\<rparr>)]"
    unfolding eq by (simp_all add: send_def upd_client_def client_of_def demo_spawned client_new_def del: One_nat_def)
  show "term_of 2 demo_agent = Some (term_new demo_emu 0 ''a'' (Some ''a'') (Some \<lparr>d_waiting = None, d_busy = None\<rparr>) 24 80 100 64 None)"
    unfolding eq demo_spawned(7) [symmetric] by (simp add: send_def upd_client_def term_of_def del: One_nat_def)
qed

lemma output_term:
  assumes "term_of p c = Some t"
  shows "term_of p (on_pty_output env p bytes c)
    = Some (snd (take_announcements (feed_output (e_emu env) (e_now env) bytes t)))"
proof -
  have s: "term_of p (scan_ready env p bytes c) = Some t"
  proof -
    have "panes (scan_ready env p bytes c) = panes c" by (simp add: scan_ready_def split: option.split)
    then show ?thesis using assms by (simp add: term_of_def)
  qed
  have a: "panes (fold (on_remote_announce env p) ann d) = panes d" for ann and d :: "('a, 'b) core"
    by (induction ann arbitrary: d) (simp_all add: on_remote_announce_def Let_def split_beta)
  have b: "panes (check_agent_bell env p d) = panes d" for d :: "('a, 'b) core"
    by (simp add: check_agent_bell_def ring_bell_def Let_def split: option.split)
  show ?thesis
    by (simp only: on_pty_output_def Let_def split_beta s option.case fst_conv snd_conv)
       (simp add: touch_agent_def upd_track_def term_of_def a b)
qed

theorem bell_rings_once_witness:
  "received 5 (on_pty_output demo_env 2 [CHR 0x07] demo_agent) = received 5 demo_agent @ [Bell]"
proof -
  let ?d = "on_pty_output demo_env 2 [CHR 0x07] demo_agent"
  have w: "workspaces demo_agent 1 = Some agent_row" "2 \<in> set (agents agent_row)"
    by (simp_all add: demo_agent_simps agent_row_def add_agent_def)
  have "attention_of demo_emu 0 (snd (take_announcements (feed_output demo_emu 0 [CHR 0x07]
      (term_new demo_emu 0 ''a'' (Some ''a'') (Some \<lparr>d_waiting = None, d_busy = None\<rparr>) 24 80 100 64 None)))) = Waiting"
    by code_simp
  then have "check_needs demo_env 2 ?d"
    by (simp add: check_needs_def output_term [OF demo_agent_simps(4)] demo_env_def)
  moreover have "(5, client_new\<lparr>cl_session := Some 1\<rparr>) \<in> set (clients demo_agent)"
    "views 1 (all_panes agent_row) (client_new\<lparr>cl_session := Some 1\<rparr>)"
    by (simp_all add: demo_agent_simps views_def client_new_def)
  ultimately show ?thesis
    using bell_rings_once [OF demo_agent_reachable w, of 5 demo_env "[CHR 0x07]"]
    by (auto simp: demo_agent_simps split: if_splits)
qed

text \<open>A bell in the output a pane was restored with counts as rung again, though it is a recording.\<close>

lemma replayed_bell_pending:
  "bell_pending demo_emu (term_new demo_emu 0 ''a'' None None 24 80 100 64
     (Some \<lparr>pd_cols = 80, pd_rows = 24, pd_bytes = [CHR 0x07]\<rparr>))"
  by code_simp

text \<open>
  C9. A client of another protocol version is told so and turned away: it is sent the error and the
  detachment, in this order, it is gone, and nothing else of the daemon changes.
\<close>

theorem stale_client_turned_away:
  assumes "client_of i c \<noteq> None" "ver \<noteq> PROTOCOL_VERSION"
  shows "handle_client_msg env i (Hello ver enc cols rows target cwd) c =
    c\<lparr>sent := sent c @ [(i, Error (''protocol version mismatch: client '' @ show_nat (unat ver)
                    @ '', server '' @ show_nat (unat PROTOCOL_VERSION))), (i, Detached ''protocol mismatch'')],
      clients := filter (\<lambda>(j, k). j \<noteq> i) (clients c)\<rparr>"
  using assms by (simp add: handle_client_msg_def detach_def drop_client_def send_def client_of_def)

theorem stale_client_turned_away_witness:
  "clients (handle_client_msg demo_env 5 (Hello 2 Json 80 24 Control ''/'') demo_agent) = []
   \<and> received 5 (handle_client_msg demo_env 5 (Hello 2 Json 80 24 Control ''/'') demo_agent)
     = received 5 demo_agent @ [Error ''protocol version mismatch: client 2, server 1'', Detached ''protocol mismatch'']"
proof -
  have "client_of 5 demo_agent \<noteq> None" by (simp add: client_of_def demo_agent_simps)
  moreover have "(2 :: u32) \<noteq> PROTOCOL_VERSION" by (simp add: PROTOCOL_VERSION_def)
  ultimately have *: "handle_client_msg demo_env 5 (Hello 2 Json 80 24 Control ''/'') demo_agent =
    demo_agent\<lparr>sent := sent demo_agent @ [(5, Error (''protocol version mismatch: client '' @ show_nat (unat (2 :: u32))
                    @ '', server '' @ show_nat (unat PROTOCOL_VERSION))), (5, Detached ''protocol mismatch'')],
      clients := filter (\<lambda>(j, k). j \<noteq> 5) (clients demo_agent)\<rparr>"
    by (rule stale_client_turned_away)
  have n: "show_nat (unat (2 :: u32)) = ''2''" "show_nat (unat PROTOCOL_VERSION) = ''1''" by code_simp+
  show ?thesis unfolding * n by (simp add: demo_agent_simps received_def)
qed

lemma client_of_upd: "j \<noteq> i \<Longrightarrow> client_of j (upd_client i f c) = client_of j c"
proof -
  assume "j \<noteq> i"
  then have "map_of (map (\<lambda>(a, k). (a, if a = i then f k else k)) xs) j = map_of xs j" for xs
    by (induction xs) auto
  then show ?thesis by (simp add: client_of_def upd_client_def)
qed

lemma client_of_detach: "j \<noteq> i \<Longrightarrow> client_of j (detach i r c) = client_of j c"
proof -
  assume "j \<noteq> i"
  then have "map_of (filter (\<lambda>(a, k). a \<noteq> i) xs) j = map_of xs j" for xs :: "(nat \<times> client) list"
    by (induction xs) auto
  then show ?thesis by (simp add: client_of_def detach_def drop_client_def)
qed

text \<open>Only the pane \<open>p\<close> and the client \<open>i\<close> may differ.\<close>

definition only_at :: "client_id \<Rightarrow> pane_id \<Rightarrow> ('v, 'g) core \<Rightarrow> ('v, 'g) core \<Rightarrow> bool" where
  "only_at i p c d \<longleftrightarrow> (\<forall>q. q \<noteq> p \<longrightarrow> panes d q = panes c q) \<and> (\<forall>j. j \<noteq> i \<longrightarrow> client_of j d = client_of j c)"

lemma only_at_trans: "only_at i p b c \<Longrightarrow> only_at i p c d \<Longrightarrow> only_at i p b d"
  by (simp add: only_at_def)

lemma only_at_refl: "only_at i p c c"
  by (simp add: only_at_def)

lemma only_at_term: "only_at i p c (upd_term p f c)"
  by (auto simp: only_at_def upd_term_def client_of_def split: option.split pane_state.split)

lemma only_at_client: "only_at i p c (upd_client i f c)"
  by (simp add: only_at_def client_of_upd)

lemma only_at_send: "only_at i p c (send i m c)"
  by (simp add: only_at_def client_of_def)

lemma only_at_detach: "only_at i p c (detach i r c)"
  by (simp add: only_at_def client_of_detach) (simp add: detach_def)

lemma only_at_dirty: "only_at i p b c \<Longrightarrow> only_at i p b (c\<lparr>dirty := x\<rparr>)"
  by (simp add: only_at_def client_of_def)

lemma only_at_spoken: "only_at i p c (note_agent_spoken env p ev c)"
  by (auto simp: only_at_def client_of_def note_agent_spoken_def Let_def upd_ws_def core_frame split: option.split)

lemma only_at_selection: "only_at i p c (finish_selection i c)"
  by (auto simp: finish_selection_def Let_def
      intro!: only_at_dirty only_at_trans [OF only_at_send only_at_client] only_at_client split: option.split prod.split)

lemma only_at_route: "only_at i p c (route_pane_input env i p ev c)"
proof -
  let ?c = "case client_of i c of
      Some k \<Rightarrow> resize_pane env p (max (cl_rows k) 2) (max (cl_cols k) 2) c | None \<Rightarrow> c"
  have c: "only_at i p c ?c" by (simp add: resize_pane_def only_at_term only_at_refl split: option.split)
  have "only_at i p ?c (route_pane_input env i p ev c)"
    by (cases ev)
       (auto simp: route_pane_input_def Let_def pane_mouse_down_def pane_mouse_drag_def pane_wheel_def only_at_refl
          only_at_detach only_at_selection
          intro!: only_at_dirty only_at_term only_at_client only_at_trans [OF only_at_spoken only_at_term] split: option.split)
  with c show ?thesis by (rule only_at_trans)
qed

text \<open>
  C8. Input reaches only the pane its client streams: every other pane is exactly as it was, and
  so are all panes when the client streams none; and no other client is touched.
\<close>

theorem input_reaches_its_pane:
  assumes "client_of i c = Some k" "q \<notin> set_option (cl_pane k)" "j \<noteq> i"
  shows "panes (route_input env i ev c) q = panes c q \<and> client_of j (route_input env i ev c) = client_of j c"
proof (cases "cl_pane k")
  case None
  then show ?thesis using assms only_at_send by (simp add: route_input_def report_error_def client_of_def)
next
  case (Some p)
  then show ?thesis using assms only_at_route [of i p c env ev] by (simp add: route_input_def only_at_def)
qed

theorem input_reaches_its_pane_witness:
  "panes (route_input demo_env 5 (Paste ''x'') demo_agent) 2 = panes demo_agent 2"
proof -
  have "client_of 5 demo_agent = Some (client_new\<lparr>cl_session := Some 1\<rparr>)" by (simp add: client_of_def demo_agent_simps)
  from input_reaches_its_pane [OF this, of 2 6 demo_env "Paste ''x''"] show ?thesis by (simp add: client_new_def)
qed

section \<open>Names\<close>

definition numbered_name :: "string \<Rightarrow> nat \<Rightarrow> string" where
  "numbered_name base n = base @ ''-'' @ show_nat n"

lemma name_loop_used:
  "name_loop fuel base used n nm \<in> set used \<Longrightarrow> set (take fuel (nm # map (numbered_name base) [n..<n + fuel])) \<subseteq> set used"
proof (induction fuel arbitrary: n nm)
  case (Suc fuel)
  have nm: "nm \<in> set used" using Suc.prems by (auto split: if_splits)
  then have "name_loop fuel base used (n + 1) (numbered_name base n) \<in> set used"
    using Suc.prems by (simp add: numbered_name_def)
  from Suc.IH [OF this]
  have "set (take fuel (numbered_name base n # map (numbered_name base) [n + 1..<n + 1 + fuel])) \<subseteq> set used" .
  moreover have "numbered_name base n # map (numbered_name base) [n + 1..<n + 1 + fuel] = map (numbered_name base) [n..<n + Suc fuel]"
    using upt_conv_Cons [of n "n + Suc fuel"] by simp
  ultimately show ?case using nm by simp
qed simp

text \<open>
  The first free name. Whatever names are taken, the search for one ends within one try more than
  there are workspaces, with a name nobody has: the base itself when it is free.
\<close>

theorem free_name_found:
  "name_loop (length used + 1) base used 2 base \<notin> set used
   \<and> (name_loop (length used + 1) base used 2 base = base \<longleftrightarrow> base \<notin> set used)"
proof -
  let ?n = "length used + 1"
  let ?names = "take ?n (base # map (numbered_name base) [2..<2 + ?n])"
  have "distinct (map (numbered_name base) [2..<m])" for m
    by (auto simp: distinct_map inj_on_def numbered_name_def show_nat_inj)
  moreover have "base \<notin> set (map (numbered_name base) [2..<m])" for m by (auto simp: numbered_name_def)
  ultimately have "distinct (base # map (numbered_name base) [2..<2 + ?n])"
    unfolding distinct.simps(2) by blast
  then have "card (set ?names) = length ?names" by (intro distinct_card distinct_take)
  then have "card (set ?names) = ?n" by simp
  moreover have "card (set used) < ?n" using card_length [of used] by simp
  ultimately have "\<not> set ?names \<subseteq> set used" using card_mono [of "set used" "set ?names"] by auto
  then show ?thesis using name_loop_used [of ?n base used 2 base] by auto
qed

end
