(* ===== verification/Core_Restore.thy ===== *)
theory Core_Restore
  imports Core_Props
begin

text \<open>
  Stopping and starting again, from \<open>core.rs\<close>: what the store holds when the daemon has stopped
  (\<open>kill_server\<close>), what \<open>restore_session\<close> builds from it, and the workspaces it cannot build yet.
\<close>

section \<open>Stopping\<close>

lemma detach_all:
  "clients c = xs \<Longrightarrow> distinct (map fst xs) \<Longrightarrow>
   fold (\<lambda>i. detach i r) (map fst xs) c = c\<lparr>clients := [], sent := sent c @ map (\<lambda>(i, k). (i, Detached r)) xs\<rparr>"
proof (induction xs arbitrary: c)
  case Nil
  then show ?case by (cases c) simp
next
  case (Cons x xs)
  obtain i k where x: "x = (i, k)" by (metis surj_pair)
  have tl: "filter (\<lambda>(j, k). j \<noteq> i) xs = xs"
    using Cons.prems(2) x by (auto simp: filter_id_conv image_iff)
  have d: "detach i r c = c\<lparr>sent := sent c @ [(i, Detached r)], clients := xs\<rparr>"
    using Cons.prems x tl by (simp add: detach_def drop_client_def send_def client_of_def)
  have "clients (detach i r c) = xs" by (simp add: d)
  from Cons.IH [OF this] Cons.prems(2) x show ?case by (simp add: d)
qed

lemma kill_stopped:
  assumes "shutdown c" "clients c = []"
  shows "workspaces (kill_workspace env sid c) = (workspaces c)(sid := None)"
    "clients (kill_workspace env sid c) = []" "sent (kill_workspace env sid c) = sent c"
    "disk_session (kill_workspace env sid c) = disk_session c" "disk_dumps (kill_workspace env sid c) = disk_dumps c"
    "shutdown (kill_workspace env sid c)" "session_store (kill_workspace env sid c) = session_store c"
  using assms by (auto simp: kill_workspace_def persist_session_frozen drop_panes_def Let_def split: option.split)

lemma kill_all_stopped:
  assumes "shutdown c" "clients c = []"
  shows "workspaces (fold (kill_workspace env) sids c) = (\<lambda>s. if s \<in> set sids then None else workspaces c s)
    \<and> clients (fold (kill_workspace env) sids c) = [] \<and> sent (fold (kill_workspace env) sids c) = sent c
    \<and> disk_session (fold (kill_workspace env) sids c) = disk_session c
    \<and> disk_dumps (fold (kill_workspace env) sids c) = disk_dumps c \<and> shutdown (fold (kill_workspace env) sids c)
    \<and> session_store (fold (kill_workspace env) sids c) = session_store c"
  using assms
proof (induction sids arbitrary: c)
  case (Cons s sids)
  note k = kill_stopped [OF Cons.prems, of env s]
  from Cons.IH [of "kill_workspace env s c"] k show ?case by (auto simp: fun_eq_iff)
qed simp

lemma kill_server_stops:
  assumes c: "reachable c"
  shows "disk_session (kill_server env False c) = disk_session (snapshot_for_restart env c)
    \<and> disk_dumps (kill_server env False c) = disk_dumps (snapshot_for_restart env c)
    \<and> session_store (kill_server env False c) = session_store c
    \<and> shutdown (kill_server env False c) \<and> workspaces (kill_server env False c) = Map.empty
    \<and> panes (kill_server env False c) = Map.empty \<and> clients (kill_server env False c) = []
    \<and> received i (kill_server env False c) = received i c @
        (if client_of i c = None then [] else [Detached DETACH_SERVER_SHUTDOWN])"
proof -
  let ?s = "(snapshot_for_restart env c)\<lparr>shutdown := True\<rparr>"
  let ?b = "?s\<lparr>clients := [], sent := sent c @ map (\<lambda>(i, k). (i, Detached DETACH_SERVER_SHUTDOWN)) (clients c)\<rparr>"
  have s: "clients ?s = clients c" "sent ?s = sent c" "workspaces ?s = workspaces c" "ws_order ?s = ws_order c"
    by (simp_all add: snapshot_for_restart_def core_frame)
  have "fold (\<lambda>i. detach i DETACH_SERVER_SHUTDOWN) (map fst (clients c)) ?s = ?b"
    using detach_all [OF s(1) clients_distinct [OF c], of DETACH_SERVER_SHUTDOWN] s(2) by simp
  then have eq: "kill_server env False c = fold (kill_workspace env) (ws_order c) ?b"
    using s by (simp add: kill_server_def teardown_def Let_def)
  have b: "shutdown ?b" "clients ?b = []" by simp_all
  have st: "session_store ?b = session_store c" by (simp add: snapshot_for_restart_def core_frame)
  note k = kill_all_stopped [OF b, of env "ws_order c"]
  have "set (ws_order c) = dom (workspaces c)" using invD(2) [OF inv_reachable [OF c]] .
  then have ws: "workspaces (kill_server env False c) = Map.empty" unfolding eq using k s by (auto simp: fun_eq_iff)
  have "inv {} (kill_server env False c)" by (rule inv_kill_server [OF inv_reachable [OF c]])
  from invD(3) [OF this] have "dom (panes (kill_server env False c)) = {}" by (simp add: ws_panes_def ws)
  then have "panes (kill_server env False c) = Map.empty" by simp
  moreover have "received i (kill_server env False c) = received i c @
        (if client_of i c = None then [] else [Detached DETACH_SERVER_SHUTDOWN])"
  proof -
    have "(\<exists>k. (i, k) \<in> set (clients c)) \<longleftrightarrow> client_of i c \<noteq> None"
      unfolding client_of_def map_of_eq_None_iff by force
    moreover have "sent (kill_server env False c) = sent c @ map (\<lambda>(i, k). (i, Detached DETACH_SERVER_SHUTDOWN)) (clients c)"
      unfolding eq using k by simp
    moreover have "filter (\<lambda>(j, m). j = i) (map (\<lambda>(j, k). (j, Detached DETACH_SERVER_SHUTDOWN)) (clients c))
        = (if \<exists>k. (i, k) \<in> set (clients c) then [(i, Detached DETACH_SERVER_SHUTDOWN)] else [])"
      using sent_to_each [OF clients_distinct [OF c], of i "Detached DETACH_SERVER_SHUTDOWN" "\<lambda>_. True"] by simp
    ultimately show ?thesis unfolding received_def by simp
  qed
  ultimately show ?thesis using ws k st unfolding eq by simp
qed

text \<open>
  C4. Stopping keeps the session. A daemon that is asked to stop writes what is open, and its
  panes' output, once; then it lets every client go with the reason a client knows a restart by, and
  closes everything, without taking any of it out of the store.
\<close>

theorem stopping_keeps_the_session:
  assumes c: "reachable c"
  shows "disk_session (kill_server env False c) = disk_session (snapshot_for_restart env c)
    \<and> disk_dumps (kill_server env False c) = disk_dumps (snapshot_for_restart env c)
    \<and> shutdown (kill_server env False c) \<and> workspaces (kill_server env False c) = Map.empty
    \<and> panes (kill_server env False c) = Map.empty \<and> clients (kill_server env False c) = []
    \<and> received i (kill_server env False c) = received i c @
        (if client_of i c = None then [] else [Detached DETACH_SERVER_SHUTDOWN])"
  using kill_server_stops [OF c] by blast

section \<open>Rebuilding a workspace\<close>

text \<open>What is kept about the rows of a workspace, in the order of the rail.\<close>

definition proc_list :: "workspace \<Rightarrow> proc_meta list" where
  "proc_list w = map (\<lambda>p. the (proc_meta_of w p)) (processes w)"

definition agent_list :: "workspace \<Rightarrow> agent_meta list" where
  "agent_list w = map (\<lambda>p. the (agent_meta_of w p)) (agents w)"

lemma persist_restoring: "restoring c \<Longrightarrow> persist_session env c = c"
  by (simp add: persist_session_def)

definition same_daemon :: "('v, 'g) core \<Rightarrow> ('v, 'g) core \<Rightarrow> bool" where
  "same_daemon c d \<longleftrightarrow> cfg d = cfg c \<and> session_store d = session_store c \<and> deferred d = deferred c
     \<and> disk_dumps d = disk_dumps c \<and> restoring d = restoring c \<and> shutdown d = shutdown c
     \<and> ws_order d = ws_order c \<and> next_ws d = next_ws c"

lemma same_daemon_refl [simp]: "same_daemon c c"
  by (simp add: same_daemon_def)

lemma same_daemon_trans: "same_daemon b c \<Longrightarrow> same_daemon c d \<Longrightarrow> same_daemon b d"
  by (simp add: same_daemon_def)

lemma spawn_terminal_ok:
  assumes "e_spawn env = (\<lambda>_. None)"
  shows "\<exists>d. spawn_terminal_replaying env sid cwd kid dims rep c = (Inr (next_pane c), d)
    \<and> workspaces d = workspaces c \<and> same_daemon c d"
  using assms by (simp add: spawn_terminal_replaying_def alloc_pane_id_def same_daemon_def Let_def)

lemma spawn_process_ok:
  assumes s: "e_spawn env = (\<lambda>_. None)" and w: "workspaces c sid = Some w"
  shows "\<exists>d. spawn_process env sid cwd m False rep c = (Inr (next_pane c), d)
    \<and> workspaces d = (workspaces c)(sid := Some (add_process (next_pane c) m w)) \<and> same_daemon c d"
proof -
  obtain b where b: "spawn_terminal_replaying env sid cwd
      (if pm_command m = config_shell env (cfg c) then Shell else CommandLine (pm_command m)) (stage_size_of sid c) rep c
      = (Inr (next_pane c), b)" "workspaces b = workspaces c" "same_daemon c b"
    using spawn_terminal_ok [OF s] by blast
  then show ?thesis
    using w by (auto simp: spawn_process_def Let_def upd_ws_def same_daemon_def)
qed

text \<open>An agent that had been spoken to reopens its conversation when its launcher knows how.\<close>

definition resumes :: "config \<Rightarrow> string \<Rightarrow> string option \<Rightarrow> bool \<Rightarrow> bool" where
  "resumes cf n session spk \<longleftrightarrow>
     session \<noteq> None \<and> spk \<and> (case config_agent n cf of Some a \<Rightarrow> ad_resume_args a \<noteq> [] | None \<Rightarrow> False)"

definition agent_back :: "config \<Rightarrow> agent_meta \<Rightarrow> agent_meta \<Rightarrow> bool" where
  "agent_back cf m n \<longleftrightarrow> am_name n = am_name m
     \<and> (if resumes cf (am_name m) (session_id m) (spoke m) then session_id n = session_id m \<and> spoke n else \<not> spoke n)"

lemma config_agent_name: "config_agent n cf = Some a \<Longrightarrow> ad_name a = n"
  by (auto simp: config_agent_def find_Some_iff)

lemma agent_launch_back:
  assumes "config_agent n (cfg c) = Some a"
  shows "\<exists>conv args resumed. agent_launch env p a session spk = (conv, args, resumed)
    \<and> (if resumes (cfg c) n session spk then conv = session \<and> resumed else \<not> resumed)"
proof (cases "session \<noteq> None \<and> spk \<and> ad_resume_args a \<noteq> []")
  case True
  then obtain y where y: "session = Some y" by auto
  obtain x where "expand_args (ad_resume_args a) session = Some x"
    using y by (cases "needs_session (ad_resume_args a)") (simp_all add: expand_args_def)
  then show ?thesis using True y assms by (auto simp: agent_launch_def resumes_def Let_def)
next
  case False
  then show ?thesis using assms by (auto simp: agent_launch_def resumes_def Let_def split_beta)
qed

lemma spawn_agent_ok:
  assumes s: "e_spawn env = (\<lambda>_. None)" and w: "workspaces c sid = Some w" and r: "restoring c"
    and a: "config_agent n (cfg c) = Some a"
  shows "\<exists>d m. spawn_agent_restoring env sid n rep session spk False c = (Inr (next_pane c), d)
    \<and> workspaces d = (workspaces c)(sid := Some (set_stage (next_pane c) (add_agent (next_pane c) m w)))
    \<and> agent_back (cfg c) \<lparr>am_name = n, session_id = session, spoke = spk\<rparr> m \<and> same_daemon c d"
proof -
  obtain conv args resumed where l: "agent_launch env (next_pane c) a session spk = (conv, args, resumed)"
    "if resumes (cfg c) n session spk then conv = session \<and> resumed else \<not> resumed"
    using agent_launch_back [OF a] by blast
  obtain b where b: "spawn_terminal_replaying env sid (ws_cwd w) (Program (ad_command a) args (ad_env a) (ad_name a)
        (e_compile env (ad_name a) (ad_waiting a) (ad_busy a))) (stage_size_of sid c) rep c = (Inr (next_pane c), b)"
    "workspaces b = workspaces c" "same_daemon c b"
    using spawn_terminal_ok [OF s] by blast
  let ?m = "\<lparr>am_name = ad_name a, session_id = conv, spoke = resumed\<rparr>"
  have "agent_back (cfg c) \<lparr>am_name = n, session_id = session, spoke = spk\<rparr> ?m"
    using l(2) config_agent_name [OF a] by (auto simp: agent_back_def)
  moreover have "restoring b" using b(3) r by (simp add: same_daemon_def)
  ultimately show ?thesis
    using a w l(1) b
    by (auto simp: spawn_agent_restoring_def Let_def upd_ws_def same_daemon_def persist_session_def
        intro!: exI [of _ ?m])
qed

lemma set_stage_lists [simp]:
  "proc_list (set_stage q w) = proc_list w" "agent_list (set_stage q w) = agent_list w"
  "processes (set_stage q w) = processes w" "agents (set_stage q w) = agents w"
  by (simp_all add: proc_list_def agent_list_def set_stage_def)

lemma add_row_lists:
  assumes "wf_ws w" "p \<notin> set (all_panes w)"
  shows "proc_list (add_process p m w) = proc_list w @ [m]" "agent_list (add_process p m w) = agent_list w"
    "agent_list (add_agent p n w) = agent_list w @ [n]" "proc_list (add_agent p n w) = proc_list w"
  using assms by (auto simp: proc_list_def agent_list_def add_process_def add_agent_def all_panes_def
      intro: map_cong)


section \<open>The rows of a saved workspace\<close>

text \<open>The pane that gets the stage: the one rebuilt from the dump that held it.\<close>

definition picked :: "string option \<Rightarrow> (string \<times> pane_id) list \<Rightarrow> pane_id option \<Rightarrow> pane_id option" where
  "picked s = fold (\<lambda>(d, p) t. if s = Some d then Some p else t)"

definition proc_back :: "persisted_process \<Rightarrow> proc_meta \<Rightarrow> bool" where
  "proc_back p m \<longleftrightarrow> pm_name m = pp_name p \<and> pm_command m = pp_command p \<and> pm_ready m = pp_ready p"

definition same_place :: "workspace \<Rightarrow> workspace \<Rightarrow> bool" where
  "same_place w v \<longleftrightarrow> ws_id v = ws_id w \<and> ws_name v = ws_name w \<and> ws_cwd v = ws_cwd w"

lemma inv_fresh_row:
  assumes "inv E c" "workspaces c sid = Some w"
  shows "next_pane c \<notin> set (all_panes w)"
  using inv_wsD(6) [OF assms] next_pane_unused [OF assms(1)] by blast

lemma rebuild_process_ok:
  assumes s: "e_spawn env = (\<lambda>_. None)" and i: "inv E c" and w: "workspaces c sid = Some w"
  shows "\<exists>q d v m. rebuild_process env sid cwd saved p (st, c) = (picked (pw_stage saved) [(pp_dump p, q)] st, d)
    \<and> inv E d \<and> workspaces d = (workspaces c)(sid := Some v) \<and> same_daemon c d \<and> same_place w v
    \<and> processes v = processes w @ [q] \<and> agents v = agents w
    \<and> proc_list v = proc_list w @ [m] \<and> proc_back p m \<and> agent_list v = agent_list w"
proof -
  let ?m = "\<lparr>pm_name = pp_name p, pm_command = pp_command p, pm_ready = pp_ready p,
               ready_seen = (pp_ready p = None), ready_carry = []\<rparr>"
  let ?v = "add_process (next_pane c) ?m w"
  obtain d where d: "spawn_process env sid cwd ?m False (saved_output (pw_key saved) (pp_dump p) c) c = (Inr (next_pane c), d)"
    "workspaces d = (workspaces c)(sid := Some ?v)" "same_daemon c d"
    using spawn_process_ok [OF s w] by blast
  have "inv E d" using inv_spawn_process [OF i w d(1)] by blast
  moreover note add_row_lists [OF inv_wsD(2) [OF i w] inv_fresh_row [OF i w]]
  ultimately show ?thesis
    using d by (intro exI [of _ "next_pane c"] exI [of _ d] exI [of _ ?v] exI [of _ ?m])
      (simp add: rebuild_process_def picked_def same_place_def proc_back_def add_process_def)
qed

lemma rebuild_processes_ok:
  assumes s: "e_spawn env = (\<lambda>_. None)" and i: "inv E c" and w: "workspaces c sid = Some w"
  shows "\<exists>qs d v ms. fold (rebuild_process env sid cwd saved) ps (st, c)
        = (picked (pw_stage saved) (zip (map pp_dump ps) qs) st, d)
    \<and> length qs = length ps \<and> inv E d \<and> workspaces d = (workspaces c)(sid := Some v) \<and> same_daemon c d \<and> same_place w v
    \<and> processes v = processes w @ qs \<and> agents v = agents w
    \<and> proc_list v = proc_list w @ ms \<and> list_all2 proc_back ps ms \<and> agent_list v = agent_list w"
  using i w
proof (induction ps arbitrary: st c w)
  case Nil
  then show ?case
    by (intro exI [of _ "[]"] exI [of _ c] exI [of _ w]) (auto simp: picked_def same_place_def)
next
  case (Cons p ps)
  obtain q d v m where 1: "rebuild_process env sid cwd saved p (st, c) = (picked (pw_stage saved) [(pp_dump p, q)] st, d)"
    "inv E d" "workspaces d = (workspaces c)(sid := Some v)" "same_daemon c d" "same_place w v"
    "processes v = processes w @ [q]" "agents v = agents w" "proc_list v = proc_list w @ [m]" "proc_back p m"
    "agent_list v = agent_list w"
    using rebuild_process_ok [OF s Cons.prems] by blast
  have "workspaces d sid = Some v" using 1(3) by simp
  from Cons.IH [OF 1(2) this] obtain qs e u ms where 2:
    "fold (rebuild_process env sid cwd saved) ps (picked (pw_stage saved) [(pp_dump p, q)] st, d)
        = (picked (pw_stage saved) (zip (map pp_dump ps) qs) (picked (pw_stage saved) [(pp_dump p, q)] st), e)"
    "length qs = length ps" "inv E e" "workspaces e = (workspaces d)(sid := Some u)" "same_daemon d e" "same_place v u"
    "processes u = processes v @ qs" "agents u = agents v" "proc_list u = proc_list v @ ms" "list_all2 proc_back ps ms"
    "agent_list u = agent_list v" by blast
  show ?case
    by (intro exI [of _ "q # qs"] exI [of _ e] exI [of _ u] exI [of _ "m # ms"] conjI)
       (use 1 2 same_daemon_trans [OF 1(4) 2(5)] in \<open>simp_all add: same_place_def picked_def\<close>)
qed


definition saved_agent :: "persisted_agent \<Rightarrow> agent_meta" where
  "saved_agent a = \<lparr>am_name = pa_agent a, session_id = pa_session_id a, spoke = pa_spoke a\<rparr>"

lemma rebuild_agent_ok:
  assumes s: "e_spawn env = (\<lambda>_. None)" and i: "inv E c" and w: "workspaces c sid = Some w" and r: "restoring c"
    and a: "config_agent (pa_agent a) (cfg c) \<noteq> None"
  shows "\<exists>q d v m. rebuild_agent env sid saved a (st, c) = (picked (pw_stage saved) [(pa_dump a, q)] st, d)
    \<and> inv E d \<and> workspaces d = (workspaces c)(sid := Some v) \<and> same_daemon c d \<and> same_place w v
    \<and> agents v = agents w @ [q] \<and> processes v = processes w
    \<and> agent_list v = agent_list w @ [m] \<and> agent_back (cfg c) (saved_agent a) m \<and> proc_list v = proc_list w"
proof -
  obtain x where x: "config_agent (pa_agent a) (cfg c) = Some x" using a by blast
  obtain d m where d: "spawn_agent_restoring env sid (pa_agent a) (saved_output (pw_key saved) (pa_dump a) c)
      (pa_session_id a) (pa_spoke a) False c = (Inr (next_pane c), d)"
    "workspaces d = (workspaces c)(sid := Some (set_stage (next_pane c) (add_agent (next_pane c) m w)))"
    "agent_back (cfg c) (saved_agent a) m" "same_daemon c d"
    using spawn_agent_ok [OF s w r x] unfolding saved_agent_def by blast
  let ?v = "set_stage (next_pane c) (add_agent (next_pane c) m w)"
  have "inv E d" using inv_spawn_agent [OF i d(1)] by blast
  moreover have "same_place w ?v" "agents ?v = agents w @ [next_pane c]" "processes ?v = processes w"
    by (simp_all add: same_place_def set_stage_def add_agent_def)
  moreover note add_row_lists [OF inv_wsD(2) [OF i w] inv_fresh_row [OF i w]]
  ultimately show ?thesis
    using d by (intro exI [of _ "next_pane c"] exI [of _ d] exI [of _ ?v] exI [of _ m])
      (simp add: rebuild_agent_def picked_def)
qed

lemma rebuild_agents_ok:
  assumes s: "e_spawn env = (\<lambda>_. None)" and i: "inv E c" and w: "workspaces c sid = Some w" and r: "restoring c"
    and a: "list_all (\<lambda>a. config_agent (pa_agent a) (cfg c) \<noteq> None) as"
  shows "\<exists>qs d v ms. fold (rebuild_agent env sid saved) as (st, c)
        = (picked (pw_stage saved) (zip (map pa_dump as) qs) st, d)
    \<and> length qs = length as \<and> inv E d \<and> workspaces d = (workspaces c)(sid := Some v) \<and> same_daemon c d \<and> same_place w v
    \<and> agents v = agents w @ qs \<and> processes v = processes w
    \<and> agent_list v = agent_list w @ ms \<and> list_all2 (\<lambda>a. agent_back (cfg c) (saved_agent a)) as ms
    \<and> proc_list v = proc_list w"
  using i w r a
proof (induction as arbitrary: st c w)
  case Nil
  then show ?case
    by (intro exI [of _ "[]"] exI [of _ c] exI [of _ w]) (auto simp: picked_def same_place_def)
next
  case (Cons a as)
  have "config_agent (pa_agent a) (cfg c) \<noteq> None" using Cons.prems(4) by simp
  then obtain q d v m where 1: "rebuild_agent env sid saved a (st, c) = (picked (pw_stage saved) [(pa_dump a, q)] st, d)"
    "inv E d" "workspaces d = (workspaces c)(sid := Some v)" "same_daemon c d" "same_place w v"
    "agents v = agents w @ [q]" "processes v = processes w" "agent_list v = agent_list w @ [m]"
    "agent_back (cfg c) (saved_agent a) m" "proc_list v = proc_list w"
    using rebuild_agent_ok [OF s Cons.prems(1-3)] by blast
  have d: "workspaces d sid = Some v" "restoring d" "cfg d = cfg c"
    using 1(3,4) Cons.prems(3) by (simp_all add: same_daemon_def)
  have l: "list_all (\<lambda>a. config_agent (pa_agent a) (cfg d) \<noteq> None) as" using Cons.prems(4) d(3) by simp
  from Cons.IH [OF 1(2) d(1,2) l] obtain qs e u ms where 2:
    "fold (rebuild_agent env sid saved) as (picked (pw_stage saved) [(pa_dump a, q)] st, d)
        = (picked (pw_stage saved) (zip (map pa_dump as) qs) (picked (pw_stage saved) [(pa_dump a, q)] st), e)"
    "length qs = length as" "inv E e" "workspaces e = (workspaces d)(sid := Some u)" "same_daemon d e" "same_place v u"
    "agents u = agents v @ qs" "processes u = processes v" "agent_list u = agent_list v @ ms"
    "list_all2 (\<lambda>a. agent_back (cfg c) (saved_agent a)) as ms" "proc_list u = proc_list v"
    unfolding d(3) by blast
  show ?case
    by (intro exI [of _ "q # qs"] exI [of _ e] exI [of _ u] exI [of _ "m # ms"] conjI)
       (use 1 2 same_daemon_trans [OF 1(4) 2(5)] in \<open>simp_all add: same_place_def picked_def\<close>)
qed

text \<open>A workspace that came back: its name and directory, its rows in their order, and its stage.\<close>

definition comes_back :: "config \<Rightarrow> persisted_workspace \<Rightarrow> workspace \<Rightarrow> bool" where
  "comes_back cf pw v \<longleftrightarrow> ws_name v = pw_name pw \<and> ws_cwd v = pw_cwd pw
     \<and> list_all2 proc_back (pw_processes pw) (proc_list v)
     \<and> list_all2 (\<lambda>a. agent_back cf (saved_agent a)) (pw_agents pw) (agent_list v)
     \<and> length (processes v) = length (pw_processes pw) \<and> length (agents v) = length (pw_agents pw)
     \<and> stage v = or_else (picked (pw_stage pw) (zip (map pa_dump (pw_agents pw)) (agents v))
                     (picked (pw_stage pw) (zip (map pp_dump (pw_processes pw)) (processes v)) None))
                   (first_of (processes v))"

lemma rebuild_panes_ok:
  assumes s: "e_spawn env = (\<lambda>_. None)" and i: "inv E c" and w: "workspaces c sid = Some w" and r: "restoring c"
    and e: "agents w = []" "processes w = []" and n: "ws_name w = pw_name pw" "ws_cwd w = pw_cwd pw"
    and a: "list_all (\<lambda>a. config_agent (pa_agent a) (cfg c) \<noteq> None) (pw_agents pw)" and p: "pw_processes pw \<noteq> []"
    and st: "session_store c \<noteq> None"
  shows "\<exists>d v. rebuild_workspace_panes env sid cwd pw c = d \<and> workspaces d = (workspaces c)(sid := Some v)
    \<and> same_daemon c d \<and> ws_id v = ws_id w \<and> comes_back (cfg c) pw v"
proof -
  obtain qs d v ms where 1: "fold (rebuild_process env sid cwd pw) (pw_processes pw) (None, c)
        = (picked (pw_stage pw) (zip (map pp_dump (pw_processes pw)) qs) None, d)"
    "length qs = length (pw_processes pw)" "inv E d" "workspaces d = (workspaces c)(sid := Some v)" "same_daemon c d"
    "same_place w v" "processes v = processes w @ qs" "agents v = agents w" "proc_list v = proc_list w @ ms"
    "list_all2 proc_back (pw_processes pw) ms" "agent_list v = agent_list w"
    using rebuild_processes_ok [OF s i w] by blast
  have d: "workspaces d sid = Some v" "restoring d" "cfg d = cfg c"
    using 1(4,5) r by (simp_all add: same_daemon_def)
  obtain qa b u na where 2: "fold (rebuild_agent env sid pw) (pw_agents pw)
         (picked (pw_stage pw) (zip (map pp_dump (pw_processes pw)) qs) None, d)
        = (picked (pw_stage pw) (zip (map pa_dump (pw_agents pw)) qa)
             (picked (pw_stage pw) (zip (map pp_dump (pw_processes pw)) qs) None), b)"
    "length qa = length (pw_agents pw)" "workspaces b = (workspaces d)(sid := Some u)" "same_daemon d b" "same_place v u"
    "agents u = agents v @ qa" "processes u = processes v" "agent_list u = agent_list v @ na"
    "list_all2 (\<lambda>a. agent_back (cfg c) (saved_agent a)) (pw_agents pw) na" "proc_list u = proc_list v"
    using rebuild_agents_ok [OF s 1(3) d(1,2)] a unfolding d(3) by blast
  let ?p = "or_else (picked (pw_stage pw) (zip (map pa_dump (pw_agents pw)) qa)
             (picked (pw_stage pw) (zip (map pp_dump (pw_processes pw)) qs) None)) (first_of (processes u))"
  have l: "proc_list w = []" "agent_list w = []" using e by (simp_all add: proc_list_def agent_list_def)
  have q: "processes u = qs" "agents u = qa" "qs \<noteq> []" using 1 2 e p by auto
  then have "first_of (processes u) \<noteq> None" by (cases qs) (simp_all add: first_of_def)
  then obtain y where y: "?p = Some y" by (cases ?p) (auto simp: or_else_def split: option.splits)
  have z: "stage (set_stage y u) = ?p" "ws_name (set_stage y u) = ws_name u" "ws_cwd (set_stage y u) = ws_cwd u"
    unfolding y by (simp_all add: set_stage_def)
  have "comes_back (cfg c) pw (set_stage y u)"
    unfolding comes_back_def z set_stage_lists using 1 2 l n q by (simp add: same_place_def)
  moreover have "same_daemon c b" using 1(5) 2(4) same_daemon_trans by blast
  ultimately show ?thesis
    using st y 1 2 by (intro exI [of _ "rebuild_workspace_panes env sid cwd pw c"] exI [of _ "set_stage y u"])
      (auto simp: rebuild_workspace_panes_def upd_ws_def same_place_def same_daemon_def set_stage_def)
qed


section \<open>Rebuilding a session\<close>

definition can_come_back :: "('v, 'g) env \<Rightarrow> config \<Rightarrow> persisted_workspace \<Rightarrow> bool" where
  "can_come_back env cf pw \<longleftrightarrow> e_is_dir env (pw_cwd pw) \<and> pw_cwd pw \<noteq> [] \<and> pw_processes pw \<noteq> []
     \<and> list_all (\<lambda>a. config_agent (pa_agent a) cf \<noteq> None) (pw_agents pw)"

text \<open>A daemon in the middle of restoring.\<close>

definition midway :: "config \<Rightarrow> ('v, 'g) core \<Rightarrow> bool" where
  "midway cf c \<longleftrightarrow> inv {} c \<and> cfg c = cf \<and> restoring c \<and> session_store c \<noteq> None \<and> deferred c = []"

lemma open_changes_ok:
  assumes "open_changes env w c = (u, a)"
  shows "workspaces a = workspaces c" "same_daemon c a"
    "ws_id u = ws_id w" "ws_name u = ws_name w" "ws_cwd u = ws_cwd w" "agents u = agents w" "processes u = processes w"
proof -
  note o = assms [unfolded open_changes_def alloc_pane_id_def, symmetric]
  have r: "same_daemon d (request_git_refresh p d)" for p and d :: "('v, 'g) core"
    by (simp add: same_daemon_def request_git_refresh_def split: option.split pane_state.split)
  show "same_daemon c a"
  proof (cases "e_git_open env (ws_cwd w)")
    case (Some g)
    let ?d = "c\<lparr>next_pane := next_pane c + 1, panes := (panes c)(next_pane c := Some (PGit g))\<rparr>"
    have "same_daemon c ?d" by (simp add: same_daemon_def)
    then show ?thesis using o Some same_daemon_trans [OF _ r] by simp
  qed (use o in simp)
qed (use assms in \<open>auto simp: open_changes_def alloc_pane_id_def split: option.splits\<close>)

lemma create_restoring_ok:
  assumes s: "e_spawn env = (\<lambda>_. None)" and m: "midway cf c" and p: "can_come_back env cf pw"
  shows "\<exists>d v. create_workspace_restoring env (pw_name pw) (pw_cwd pw) (Some pw) c = (Inr (next_ws c), d)
    \<and> workspaces d = (workspaces c)(next_ws c := Some v) \<and> ws_order d = ws_order c @ [next_ws c]
    \<and> comes_back cf pw v \<and> midway cf d"
proof -
  note m' = m [unfolded midway_def] and p' = p [unfolded can_come_back_def]
  let ?sid = "next_ws c" and ?c = "c\<lparr>next_ws := next_ws c + 1\<rparr>"
  let ?w = "(ws_new ?sid (pw_name pw) (pw_cwd pw))\<lparr>ws_autostart := wf_autostart (e_ws_file env (pw_cwd pw))\<rparr>"
  obtain u a where u: "open_changes env ?w ?c = (u, a)" by (metis surj_pair)
  note o = open_changes_ok [OF u]
  have i: "inv {} c" using m' by simp
  have "workspaces c ?sid = None" using inv_wsD(3) [OF i, of ?sid] by (cases "workspaces c ?sid") auto
  then have ready: "ready_ws ?c ?w" "changes ?w = None"
    using inv_next_ws [OF i] by (auto simp: ready_ws_def ws_new_def wf_ws_def all_panes_def rails_ok_def)
  have ra: "ready_ws a u" using open_changes_ready [OF ready u] by auto
  let ?f = "install_ws u a"
  have f: "inv {} ?f" by (rule inv_install) (use ra in \<open>auto simp: ready_ws_def\<close>)
  have wu: "ws_id u = ?sid" "ws_name u = pw_name pw" "ws_cwd u = pw_cwd pw" "agents u = []" "processes u = []"
    using o by (simp_all add: ws_new_def)
  have ff: "workspaces ?f ?sid = Some u" "restoring ?f" "cfg ?f = cf" "session_store ?f \<noteq> None"
    using wu(1) o(2) m' by (simp_all add: install_ws_def same_daemon_def)
  obtain d v where d: "rebuild_workspace_panes env ?sid (pw_cwd pw) pw ?f = d" "workspaces d = (workspaces ?f)(?sid := Some v)"
    "same_daemon ?f d" "ws_id v = ws_id u" "comes_back cf pw v"
    using rebuild_panes_ok [OF s f ff(1,2) wu(4,5,2,3) _ _ ff(4)] p' unfolding ff(3) by blast
  let ?d = "d\<lparr>dirty := True\<rparr>"
  have rd: "restoring d" using d(3) ff(2) by (simp add: same_daemon_def)
  have eq: "create_workspace_restoring env (pw_name pw) (pw_cwd pw) (Some pw) c = (Inr ?sid, ?d)"
    using p' u d(1) rd by (simp add: create_workspace_restoring_def rebuilding_def Let_def persist_restoring)
  have "inv {} ?d" using inv_create_restoring [OF i eq] by simp
  then have "midway cf ?d"
    using m' rd o(2) d(3) by (simp add: midway_def same_daemon_def install_ws_def)
  moreover have "workspaces ?d = (workspaces c)(?sid := Some v)" "ws_order ?d = ws_order c @ [?sid]"
    using d(2,3) o(1,2) wu(1) by (simp_all add: install_ws_def same_daemon_def)
  ultimately show ?thesis using eq d(5) by blast
qed

lemma restore_all_ok:
  assumes s: "e_spawn env = (\<lambda>_. None)"
  shows "midway cf c \<Longrightarrow> list_all (can_come_back env cf) pws \<Longrightarrow> distinct (map pw_cwd pws) \<Longrightarrow>
     set (map pw_cwd pws) \<inter> ws_cwd ` set (all_ws c) = {} \<Longrightarrow>
     \<exists>vs. all_ws (fold (restore_ws env) pws c) = all_ws c @ vs \<and> list_all2 (comes_back cf) pws vs
       \<and> midway cf (fold (restore_ws env) pws c)"
proof (induction pws arbitrary: c)
  case (Cons pw pws)
  have p: "can_come_back env cf pw" using Cons.prems(2) by simp
  obtain d v where d: "create_workspace_restoring env (pw_name pw) (pw_cwd pw) (Some pw) c = (Inr (next_ws c), d)"
    "workspaces d = (workspaces c)(next_ws c := Some v)" "ws_order d = ws_order c @ [next_ws c]" "comes_back cf pw v" "midway cf d"
    using create_restoring_ok [OF s Cons.prems(1) p] by blast
  have i: "inv {} c" using Cons.prems(1) by (simp add: midway_def)
  have "next_ws c \<notin> set (ws_order c)" using inv_wsD(3) [OF i, of "next_ws c"] invD(2) [OF i] by auto
  then have "List.map_filter (workspaces d) (ws_order c) = all_ws c"
    unfolding all_ws_def d(2) List.map_filter_def by (intro arg_cong2 [where f = map] filter_cong map_cong) auto
  then have a: "all_ws d = all_ws c @ [v]"
    unfolding all_ws_def d(3) by (simp add: d(2) List.map_filter_def)
  have "find_ws (\<lambda>w. ws_cwd w = pw_cwd pw) c = None"
    using Cons.prems(4) by (auto simp: find_ws_def find_None_iff image_iff)
  then have r: "restore_ws env pw c = d" using d(1) p by (simp add: restore_ws_def can_come_back_def)
  have v: "ws_cwd v = pw_cwd pw" using d(4) by (simp add: comes_back_def)
  have "list_all (can_come_back env cf) pws" "distinct (map pw_cwd pws)"
    "set (map pw_cwd pws) \<inter> ws_cwd ` set (all_ws d) = {}"
    using Cons.prems a v by auto
  from Cons.IH [OF d(5) this] obtain vs where "all_ws (fold (restore_ws env) pws d) = all_ws d @ vs"
    "list_all2 (comes_back cf) pws vs" "midway cf (fold (restore_ws env) pws d)" by blast
  then show ?case using r a d(4) by (intro exI [of _ "v # vs"]) simp
qed simp


section \<open>Stopping and starting again\<close>

lemma map_enumerate: "map (\<lambda>(j, x). f j x) (enumerate n xs) = map (\<lambda>j. f j (xs ! (j - n))) [n..<n + length xs]"
  by (rule nth_equalityI) (simp_all add: nth_enumerate_eq)

lemma persist_ws_rows:
  assumes "wf_ws w"
  shows "pw_processes (persist_ws w) = map (\<lambda>i. let m = proc_list w ! i in
      \<lparr>pp_name = pm_name m, pp_command = pm_command m, pp_ready = pm_ready m, pp_dump = proc_dump i\<rparr>) [0..<length (processes w)]"
    "pw_agents (persist_ws w) = map (\<lambda>i. let m = agent_list w ! i in
      \<lparr>pa_agent = am_name m, pa_dump = agent_dump i, pa_session_id = session_id m, pa_spoke = spoke m\<rparr>) [0..<length (agents w)]"
proof -
  have d: "proc_meta_of w p \<noteq> None" if "p \<in> set (processes w)" for p using that assms by (auto simp: wf_ws_def)
  have e: "agent_meta_of w p \<noteq> None" if "p \<in> set (agents w)" for p using that assms by (auto simp: wf_ws_def)
  have dp: "persist_process w i p = Some (let m = the (proc_meta_of w p) in
      \<lparr>pp_name = pm_name m, pp_command = pm_command m, pp_ready = pm_ready m, pp_dump = proc_dump i\<rparr>)"
    if "p \<in> set (processes w)" for i p using d [OF that] by (auto simp: persist_process_def Let_def)
  have ea: "persist_agent w i p = Some (let m = the (agent_meta_of w p) in
      \<lparr>pa_agent = am_name m, pa_dump = agent_dump i, pa_session_id = session_id m, pa_spoke = spoke m\<rparr>)"
    if "p \<in> set (agents w)" for i p using e [OF that] by (auto simp: persist_agent_def Let_def)
  have "enum_map (persist_process w) 0 (processes w) = map (\<lambda>(i, p). let m = the (proc_meta_of w p) in
      \<lparr>pp_name = pm_name m, pp_command = pm_command m, pp_ready = pm_ready m, pp_dump = proc_dump i\<rparr>) (enumerate 0 (processes w))"
    by (rule enum_map_all) (rule dp)
  then show "pw_processes (persist_ws w) = map (\<lambda>i. let m = proc_list w ! i in
      \<lparr>pp_name = pm_name m, pp_command = pm_command m, pp_ready = pm_ready m, pp_dump = proc_dump i\<rparr>) [0..<length (processes w)]"
    by (simp add: persist_ws_def proc_list_def map_enumerate)
  have "enum_map (persist_agent w) 0 (agents w) = map (\<lambda>(i, p). let m = the (agent_meta_of w p) in
      \<lparr>pa_agent = am_name m, pa_dump = agent_dump i, pa_session_id = session_id m, pa_spoke = spoke m\<rparr>) (enumerate 0 (agents w))"
    by (rule enum_map_all) (rule ea)
  then show "pw_agents (persist_ws w) = map (\<lambda>i. let m = agent_list w ! i in
      \<lparr>pa_agent = am_name m, pa_dump = agent_dump i, pa_session_id = session_id m, pa_spoke = spoke m\<rparr>) [0..<length (agents w)]"
    by (simp add: persist_ws_def agent_list_def map_enumerate)
qed

lemma persist_ws_simps [simp]:
  "pw_name (persist_ws w) = ws_name w" "pw_cwd (persist_ws w) = ws_cwd w" "pw_stage (persist_ws w) = persist_stage w"
  by (simp_all add: persist_ws_def)

lemma picked_none: "d \<notin> set ds \<Longrightarrow> picked (Some d) (zip ds ps) st = st"
proof (induction ds arbitrary: ps st)
  case (Cons e ds)
  then show ?case by (cases ps) (simp_all add: picked_def)
qed (simp add: picked_def)

lemma picked_at:
  "distinct ds \<Longrightarrow> length ps = length ds \<Longrightarrow> i < length ds \<Longrightarrow> picked (Some (ds ! i)) (zip ds ps) st = Some (ps ! i)"
proof (induction ds arbitrary: ps st i)
  case (Cons e ds)
  obtain q qs where ps: "ps = q # qs" using Cons.prems(2) by (cases ps) auto
  have step: "picked (Some d) (zip (e # ds) ps) st = picked (Some d) (zip ds qs) (if d = e then Some q else st)" for d
    by (simp add: picked_def ps)
  show ?case
  proof (cases i)
    case 0
    then show ?thesis unfolding step using Cons.prems(1) by (simp add: ps picked_none)
  next
    case (Suc j)
    then show ?thesis unfolding step using Cons.IH [of qs j] Cons.prems by (simp add: ps)
  qed
qed simp


definition same_row :: "proc_meta \<Rightarrow> proc_meta \<Rightarrow> bool" where
  "same_row m n \<longleftrightarrow> pm_name n = pm_name m \<and> pm_command n = pm_command m \<and> pm_ready n = pm_ready m"

definition came_back :: "config \<Rightarrow> workspace \<Rightarrow> workspace \<Rightarrow> bool" where
  "came_back cf w v \<longleftrightarrow> ws_name v = ws_name w \<and> ws_cwd v = ws_cwd w
     \<and> list_all2 same_row (proc_list w) (proc_list v) \<and> list_all2 (agent_back cf) (agent_list w) (agent_list v)
     \<and> (stage w \<noteq> None \<longrightarrow> persist_stage v = persist_stage w)"

lemma position_here: "distinct xs \<Longrightarrow> i < length xs \<Longrightarrow> position (\<lambda>p. p = xs ! i) xs = Some i"
  by (auto simp: position_Some_iff nth_eq_iff_index_eq)

lemma persist_stage_cases:
  assumes "wf_ws w" "stage w \<noteq> None"
  obtains i where "i < length (agents w)" "persist_stage w = Some (agent_dump i)"
  | i where "i < length (processes w)" "persist_stage w = Some (proc_dump i)"
proof -
  obtain p where p: "stage w = Some p" "p \<in> set (agents w) \<union> set (processes w)" using assms by (auto simp: wf_ws_def)
  show thesis
  proof (cases "position (\<lambda>q. q = p) (agents w)")
    case (Some i)
    then have "i < length (agents w)" by (simp add: position_Some_iff)
    then show thesis using that(1) [of i] Some p(1) by (simp add: persist_stage_def or_else_def)
  next
    case None
    then have "p \<in> set (processes w)" using p(2) by auto
    then obtain i where "position (\<lambda>q. q = p) (processes w) = Some i"
      by (cases "position (\<lambda>q. q = p) (processes w)") auto
    moreover from this have "i < length (processes w)" by (simp add: position_Some_iff)
    moreover have "persist_stage w = map_option proc_dump (position (\<lambda>q. q = p) (processes w))"
      unfolding persist_stage_def or_else_def using p(1) None by (simp only: option.case option.map)
    ultimately show thesis using that(2) [of i] by simp
  qed
qed

lemma stage_comes_back:
  assumes c: "comes_back cf (persist_ws w) v" and w: "wf_ws w" and v: "wf_ws v" and s: "stage w \<noteq> None"
  shows "persist_stage v = persist_stage w"
proof -
  note r = persist_ws_rows [OF w]
  have l: "length (processes v) = length (processes w)" "length (agents v) = length (agents w)"
    using c r by (simp_all add: comes_back_def)
  have ds: "map pp_dump (pw_processes (persist_ws w)) = map proc_dump [0..<length (processes v)]"
    "map pa_dump (pw_agents (persist_ws w)) = map agent_dump [0..<length (agents v)]"
    unfolding r l by (simp_all add: Let_def comp_def)
  have st: "stage v = or_else (picked (persist_stage w) (zip (map agent_dump [0..<length (agents v)]) (agents v))
      (picked (persist_stage w) (zip (map proc_dump [0..<length (processes v)]) (processes v)) None)) (first_of (processes v))"
    using c unfolding comes_back_def ds by simp
  have d: "distinct (map proc_dump [0..<n])" "distinct (map agent_dump [0..<n])" for n
    by (simp_all add: distinct_map inj_on_def agent_proc_dump_distinct)
  have dv: "distinct (agents v)" "distinct (processes v)" "set (agents v) \<inter> set (processes v) = {}"
    using v by (auto simp: wf_ws_def all_panes_def)
  from w s show ?thesis
  proof (cases rule: persist_stage_cases)
    case (1 i)
    then have i: "i < length (agents v)" using l by simp
    have "stage v = Some (agents v ! i)"
      using st 1(2) i picked_at [OF d(2) _ _, of "agents v" "length (agents v)" i] by (simp add: or_else_def)
    then show ?thesis using 1(2) position_here [OF dv(1) i] by (simp add: persist_stage_def or_else_def)
  next
    case (2 i)
    then have i: "i < length (processes v)" using l by simp
    have "proc_dump i \<notin> set (map agent_dump [0..<length (agents v)])"
      using agent_proc_dump_distinct(3) [of _ i] by (metis ex_map_conv)
    note picked_none [OF this]
    then have "stage v = Some (processes v ! i)"
      using st 2(2) i picked_at [OF d(1) _ _, of "processes v" "length (processes v)" i]
      by (simp add: or_else_def)
    moreover have a: "position (\<lambda>p. p = processes v ! i) (agents v) = None" using dv(3) i by force
    ultimately have "persist_stage v = map_option proc_dump (position (\<lambda>p. p = processes v ! i) (processes v))"
      unfolding persist_stage_def [of v] or_else_def by (simp only: option.case option.map)
    then show ?thesis using 2(2) position_here [OF dv(2) i] by simp
  qed
qed

lemma comes_back_ws:
  assumes c: "comes_back cf (persist_ws w) v" and w: "wf_ws w" and v: "wf_ws v"
  shows "came_back cf w v"
proof -
  note r = persist_ws_rows [OF w]
  have l: "length (proc_list w) = length (processes w)" "length (agent_list w) = length (agents w)"
    by (simp_all add: proc_list_def agent_list_def)
  have "list_all2 same_row (proc_list w) (proc_list v)"
    using c l unfolding comes_back_def r list_all2_conv_all_nth by (simp add: same_row_def proc_back_def Let_def)
  moreover have "list_all2 (agent_back cf) (agent_list w) (agent_list v)"
    using c l unfolding comes_back_def r list_all2_conv_all_nth by (simp add: saved_agent_def agent_back_def Let_def)
  ultimately show ?thesis using c stage_comes_back [OF assms] by (simp add: came_back_def comes_back_def)
qed


text \<open>What lets a workspace be rebuilt: its directory is there, it has a row, its agents are configured.\<close>

definition restorable :: "('v, 'g) env \<Rightarrow> config \<Rightarrow> workspace \<Rightarrow> bool" where
  "restorable env cf w \<longleftrightarrow> e_is_dir env (ws_cwd w) \<and> ws_cwd w \<noteq> [] \<and> processes w \<noteq> []
     \<and> list_all (\<lambda>m. config_agent (am_name m) cf \<noteq> None) (agent_list w)"

definition started_again :: "('v, 'g) env \<Rightarrow> config \<Rightarrow> ('v, 'g) core \<Rightarrow> ('v, 'g) core" where
  "started_again env cf c = restore_session env
     ((core_new cf Daemon)\<lparr>session_store := session_store c, disk_session := disk_session c, disk_dumps := disk_dumps c\<rparr>)"

lemma can_come_back_ws:
  assumes "wf_ws w" "restorable env cf w"
  shows "can_come_back env cf (persist_ws w)"
  using assms persist_ws_rows [OF assms(1)]
  by (auto simp: can_come_back_def restorable_def list_all_iff agent_list_def Let_def)



theorem stopping_keeps_the_session_witness:
  "received 5 (kill_server demo_env False demo_agent) = received 5 demo_agent @ [Detached DETACH_SERVER_SHUTDOWN]"
proof -
  have "client_of 5 demo_agent \<noteq> None" by (simp add: client_of_def demo_agent_simps)
  then show ?thesis using stopping_keeps_the_session [OF demo_agent_reachable, of demo_env 5] by auto
qed



section \<open>What cannot be rebuilt yet\<close>

text \<open>No open workspace is lost and nothing changes hands: what every step of a restore keeps.\<close>

definition holds_on :: "('v, 'g) core \<Rightarrow> ('v, 'g) core \<Rightarrow> bool" where
  "holds_on c d \<longleftrightarrow> (\<forall>s w. workspaces c s = Some w \<longrightarrow> (\<exists>v. workspaces d s = Some v \<and> ws_cwd v = ws_cwd w))
     \<and> deferred d = deferred c \<and> session_store d = session_store c \<and> shutdown d = shutdown c"

lemma holds_on_refl [simp]: "holds_on c c"
  by (simp add: holds_on_def)

lemma holds_on_trans: "holds_on b c \<Longrightarrow> holds_on c d \<Longrightarrow> holds_on b d"
  unfolding holds_on_def by metis

lemma holds_on_same:
  "workspaces d = workspaces c \<Longrightarrow> deferred d = deferred c \<Longrightarrow> session_store d = session_store c \<Longrightarrow> shutdown d = shutdown c \<Longrightarrow>
   holds_on c d"
  by (simp add: holds_on_def)

lemma holds_on_upd: "(\<And>w. ws_cwd (f w) = ws_cwd w) \<Longrightarrow> holds_on c (upd_ws sid f c)"
  by (simp add: holds_on_def upd_ws_def split: option.split)

lemma holds_terminal: "holds_on c (snd (spawn_terminal_replaying env sid cwd kid dims rep c))"
  by (rule holds_on_same) (simp_all add: spawn_terminal_fields)

lemma holds_process: "holds_on c (snd (spawn_process env sid cwd m st rep c))"
proof -
  obtain x b where b: "spawn_terminal_replaying env sid cwd
      (if pm_command m = config_shell env (cfg c) then Shell else CommandLine (pm_command m)) (stage_size_of sid c) rep c = (x, b)"
    by (metis surj_pair)
  have h: "holds_on c b" using holds_terminal b by (metis snd_conv)
  have "holds_on b (upd_ws sid (\<lambda>w. let w = add_process p m w in if st then set_stage p w else w) b)" for p
    by (rule holds_on_upd) (simp add: add_process_def set_stage_def Let_def)
  then have "holds_on c (upd_ws sid (\<lambda>w. let w = add_process p m w in if st then set_stage p w else w) b)" for p
    using h holds_on_trans by blast
  then show ?thesis
    using b h by (cases x) (auto simp: spawn_process_def Let_def holds_on_def)
qed

lemma holds_agent: "holds_on c (snd (spawn_agent_restoring env sid nm rep session spk background c))"
proof (cases "config_agent nm (cfg c)")
  case None
  then show ?thesis by (simp add: spawn_agent_restoring_def)
next
  case (Some a)
  show ?thesis
  proof (cases "workspaces c sid")
    case None
    then show ?thesis using Some by (simp add: spawn_agent_restoring_def)
  next
    case w: (Some w)
    obtain conv args resumed where l: "agent_launch env (next_pane c) a session spk = (conv, args, resumed)"
      by (metis prod_cases3)
    obtain x b where s: "spawn_terminal_replaying env sid (ws_cwd w) (Program (ad_command a) args (ad_env a) (ad_name a)
        (e_compile env (ad_name a) (ad_waiting a) (ad_busy a))) (stage_size_of sid c) rep c = (x, b)"
      by (metis surj_pair)
    have h: "holds_on c b" using holds_terminal s by (metis snd_conv)
    show ?thesis
    proof (cases x)
      case (Inl e)
      then show ?thesis using Some w l s h by (simp add: spawn_agent_restoring_def Let_def)
    next
      case (Inr p)
      have "workspaces b = workspaces c" using spawn_terminal_fields(1) s by (metis snd_conv)
      then show ?thesis
        using Some w l s h Inr
        by (auto simp: spawn_agent_restoring_def Let_def holds_on_def upd_ws_def core_frame add_agent_def set_stage_def)
    qed
  qed
qed

lemma holds_start_file: "holds_on c (start_file env sid cwd sp file c)"
proof -
  let ?b = "fold (start_file_process env sid cwd) (wf_processes file) c"
  let ?d = "fold (start_file_agent env sid) (wf_autostart file) ?b"
  have "holds_on c ?b"
    by (rule fold_keep) (auto simp: start_file_process_def intro: holds_on_trans [OF _ holds_process])
  then have "holds_on c ?d"
    by (rule fold_keep) (auto simp: start_file_agent_def spawn_agent_def intro: holds_on_trans [OF _ holds_agent])
  moreover have "holds_on ?d (upd_ws sid (set_stage p) ?d)" for p
    by (rule holds_on_upd) (simp add: set_stage_def)
  ultimately show ?thesis using holds_on_trans by (auto simp: start_file_def Let_def split: option.split)
qed

lemma holds_rebuild: "holds_on c (rebuild_workspace_panes env sid cwd saved c)"
proof -
  let ?b = "fold (rebuild_process env sid cwd saved) (pw_processes saved) (None, c)"
  let ?d = "fold (rebuild_agent env sid saved) (pw_agents saved) ?b"
  have p: "snd (rebuild_process env sid cwd saved x y) = snd (spawn_process env sid cwd
      \<lparr>pm_name = pp_name x, pm_command = pp_command x, pm_ready = pp_ready x, ready_seen = (pp_ready x = None), ready_carry = []\<rparr>
      False (saved_output (pw_key saved) (pp_dump x) (snd y)) (snd y))" for x y
    by (simp add: rebuild_process_def split_beta Let_def)
  have a: "snd (rebuild_agent env sid saved x y) = snd (spawn_agent_restoring env sid (pa_agent x)
      (saved_output (pw_key saved) (pa_dump x) (snd y)) (pa_session_id x) (pa_spoke x) False (snd y))" for x y
    by (simp add: rebuild_agent_def split_beta Let_def)
  have "holds_on c (snd ?b)"
    by (rule fold_keep [where P = "\<lambda>y. holds_on c (snd y)"]) (auto simp: p intro: holds_on_trans [OF _ holds_process])
  then have "holds_on c (snd ?d)"
    by (rule fold_keep [where P = "\<lambda>y. holds_on c (snd y)"]) (auto simp: a intro: holds_on_trans [OF _ holds_agent])
  moreover have "holds_on (snd ?d) (upd_ws sid (\<lambda>w. case or_else (fst ?d) (first_of (processes w)) of
                Some p \<Rightarrow> set_stage p w | None \<Rightarrow> w) (snd ?d))"
    by (rule holds_on_upd) (simp add: set_stage_def split: option.split)
  ultimately show ?thesis
    using holds_on_trans by (auto simp: rebuild_workspace_panes_def Let_def split_beta)
qed


lemma holds_create:
  assumes r: "create_workspace_restoring env nm cwd saved c = (r, d)" and n: "workspaces c (next_ws c) = None"
    and cwd: "cwd \<noteq> []"
  shows "session_store d = session_store c" "shutdown d = shutdown c"
    "\<forall>s w. workspaces c s = Some w \<longrightarrow> (\<exists>v. workspaces d s = Some v \<and> ws_cwd v = ws_cwd w)"
    "(\<exists>e. r = Inl e \<and> deferred d = deferred c)
     \<or> (\<exists>s w. r = Inr s \<and> workspaces d s = Some w \<and> ws_cwd w = cwd \<and> deferred d = filter (\<lambda>x. pw_cwd x \<noteq> cwd) (deferred c))"
proof -
  let ?sid = "next_ws c" and ?c = "c\<lparr>next_ws := next_ws c + 1\<rparr>"
  let ?w = "(ws_new ?sid nm cwd)\<lparr>ws_autostart := wf_autostart (e_ws_file env cwd)\<rparr>"
  let ?open = "if rebuilding saved = None then open_shell env ?w ?c else (Inr (?w, None), ?c)"
  obtain x b where o: "?open = (x, b)" by (metis surj_pair)
  have "holds_on ?c (snd (open_shell env ?w ?c))"
    using holds_terminal [of ?c env "ws_id ?w" "ws_cwd ?w" Shell UNWATCHED_PANE_SIZE None]
    by (auto simp: open_shell_def Let_def split: prod.split sum.split)
  then have b: "holds_on ?c b" "\<And>v sp. x = Inr (v, sp) \<Longrightarrow> ws_id v = ?sid \<and> ws_cwd v = cwd"
    using o by (auto simp: open_shell_def Let_def ws_new_def set_stage_def add_process_def split: if_splits prod.splits sum.splits)
  have goal: "session_store d = session_store c \<and> shutdown d = shutdown c
    \<and> (\<forall>s w. workspaces c s = Some w \<longrightarrow> (\<exists>v. workspaces d s = Some v \<and> ws_cwd v = ws_cwd w))
    \<and> ((\<exists>e. r = Inl e \<and> deferred d = deferred c)
     \<or> (\<exists>s w. r = Inr s \<and> workspaces d s = Some w \<and> ws_cwd w = cwd \<and> deferred d = filter (\<lambda>x. pw_cwd x \<noteq> cwd) (deferred c)))"
  proof (cases x)
    case (Inl e)
    then have "(r, d) = (Inl e, b)"
      using r o cwd by (auto simp: create_workspace_restoring_def Let_def split: if_splits)
    then show ?thesis using b(1) by (simp add: holds_on_def)
  next
    case (Inr y)
    obtain v sp where y: "y = (v, sp)" by (metis surj_pair)
    obtain u a where u: "open_changes env v b = (u, a)" by (metis surj_pair)
    note k = open_changes_ok [OF u]
    have "holds_on b a" by (rule holds_on_same) (use k(1,2) in \<open>simp_all add: same_daemon_def\<close>)
    from holds_on_trans [OF b(1) this] have ab: "holds_on ?c a" .
    let ?f = "install_ws u a"
    let ?g = "case rebuilding saved of
        Some s \<Rightarrow> rebuild_workspace_panes env ?sid cwd s ?f
      | None \<Rightarrow> start_file env ?sid cwd sp (e_ws_file env cwd) ?f"
    have g: "holds_on ?f ?g" using holds_rebuild holds_start_file by (auto split: option.split)
    have id: "ws_id u = ?sid" "ws_cwd u = cwd" using k b(2) Inr y by auto
    have "(r, d) = (Inr ?sid, persist_session env (?g\<lparr>dirty := True\<rparr>))"
      unfolding r [symmetric] create_workspace_restoring_def Let_def
      by (cases "rebuilding saved") (use o Inr y u cwd in simp_all)
    then have rd: "r = Inr ?sid" "workspaces d = workspaces ?g" "deferred d = deferred ?g"
      "session_store d = session_store ?g" "shutdown d = shutdown ?g"
      by (simp_all add: core_frame)
    have f: "workspaces ?f = (workspaces a)(?sid := Some u)" "deferred ?f = filter (\<lambda>x. pw_cwd x \<noteq> cwd) (deferred a)"
      "session_store ?f = session_store a" "shutdown ?f = shutdown a"
      using id by (simp_all add: install_ws_def)
    have gw: "\<exists>v. workspaces ?g s = Some v \<and> ws_cwd v = ws_cwd w" if "workspaces ?f s = Some w" for s w
      using g that unfolding holds_on_def by blast
    have gs: "deferred ?g = deferred ?f" "session_store ?g = session_store ?f" "shutdown ?g = shutdown ?f"
      using g unfolding holds_on_def by blast+
    have w: "\<exists>w. workspaces ?g ?sid = Some w \<and> ws_cwd w = cwd" using gw [of ?sid u] f(1) id(2) by simp
    have "\<exists>z. workspaces ?g s = Some z \<and> ws_cwd z = ws_cwd t" if t: "workspaces c s = Some t" for s t
    proof -
      have "s \<noteq> ?sid" using t n by auto
      moreover obtain q where q: "workspaces a s = Some q" "ws_cwd q = ws_cwd t"
        using ab t unfolding holds_on_def by auto
      ultimately have "workspaces ?f s = Some q" using f(1) by simp
      from gw [OF this] show ?thesis using q(2) by simp
    qed
    moreover have "deferred d = filter (\<lambda>x. pw_cwd x \<noteq> cwd) (deferred c)" "session_store d = session_store c"
      "shutdown d = shutdown c"
      using ab unfolding rd gs f by (simp_all add: holds_on_def)
    ultimately show ?thesis using rd(1) w unfolding rd(2) by blast
  qed
  then show "session_store d = session_store c" "shutdown d = shutdown c"
    "\<forall>s w. workspaces c s = Some w \<longrightarrow> (\<exists>v. workspaces d s = Some v \<and> ws_cwd v = ws_cwd w)"
    "(\<exists>e. r = Inl e \<and> deferred d = deferred c)
     \<or> (\<exists>s w. r = Inr s \<and> workspaces d s = Some w \<and> ws_cwd w = cwd \<and> deferred d = filter (\<lambda>x. pw_cwd x \<noteq> cwd) (deferred c))"
    by blast+
qed


text \<open>A saved workspace that is open, or still waiting for its directory.\<close>

definition accounted :: "('v, 'g) core \<Rightarrow> persisted_workspace \<Rightarrow> bool" where
  "accounted c pw \<longleftrightarrow> pw \<in> set (deferred c) \<or> (\<exists>s w. workspaces c s = Some w \<and> ws_cwd w = pw_cwd pw)"

lemma restore_accounts:
  assumes i: "inv {} c" and e: "\<not> e_is_dir env []"
  shows "accounted (restore_ws env pw c) pw" "accounted c x \<Longrightarrow> accounted (restore_ws env pw c) x"
    "session_store (restore_ws env pw c) = session_store c" "shutdown (restore_ws env pw c) = shutdown c"
proof -
  have "accounted (restore_ws env pw c) pw \<and> (accounted c x \<longrightarrow> accounted (restore_ws env pw c) x)
    \<and> session_store (restore_ws env pw c) = session_store c \<and> shutdown (restore_ws env pw c) = shutdown c"
  proof (cases "e_is_dir env (pw_cwd pw) \<and> find_ws (\<lambda>w. ws_cwd w = pw_cwd pw) c = None")
    case True
    then have cwd: "pw_cwd pw \<noteq> []" using e by auto
    obtain r d where r: "create_workspace_restoring env (pw_name pw) (pw_cwd pw) (Some pw) c = (r, d)" by (metis surj_pair)
    have "workspaces c (next_ws c) = None" using inv_wsD(3) [OF i, of "next_ws c"] by (cases "workspaces c (next_ws c)") auto
    note h = holds_create [OF r this cwd]
    have "restore_ws env pw c = (case r of Inl _ \<Rightarrow> d\<lparr>deferred := deferred d @ [pw]\<rparr> | Inr _ \<Rightarrow> d)"
      using True r by (simp add: restore_ws_def split: sum.split)
    then show ?thesis using h unfolding accounted_def by (auto split: sum.splits) metis+
  next
    case False
    show ?thesis
    proof (cases "e_is_dir env (pw_cwd pw)")
      case True
      then obtain w where w: "find_ws (\<lambda>w. ws_cwd w = pw_cwd pw) c = Some w" using False by auto
      have "accounted c pw" unfolding accounted_def using find_ws_Some [OF i w] by blast
      then show ?thesis using True w by (simp add: restore_ws_def)
    next
      case no: False
      then show ?thesis by (auto simp: restore_ws_def accounted_def)
    qed
  qed
  then show "accounted (restore_ws env pw c) pw" "accounted c x \<Longrightarrow> accounted (restore_ws env pw c) x"
    "session_store (restore_ws env pw c) = session_store c" "shutdown (restore_ws env pw c) = shutdown c" by blast+
qed

lemma restore_all_accounts:
  assumes e: "\<not> e_is_dir env []"
  shows "inv {} c \<Longrightarrow> list_all (accounted c) xs \<Longrightarrow>
    list_all (accounted (fold (restore_ws env) pws c)) (xs @ pws) \<and> inv {} (fold (restore_ws env) pws c)
    \<and> session_store (fold (restore_ws env) pws c) = session_store c \<and> shutdown (fold (restore_ws env) pws c) = shutdown c"
proof (induction pws arbitrary: c xs)
  case (Cons pw pws)
  note a = restore_accounts [OF Cons.prems(1) e]
  have "list_all (accounted (restore_ws env pw c)) (xs @ [pw])"
    using Cons.prems(2) a(1,2) by (auto simp: list_all_iff)
  from Cons.IH [OF inv_restore_ws [OF Cons.prems(1)] this] show ?case using a(3,4) by simp
qed simp

text \<open>
  C3. No saved workspace is lost. After a daemon has started on a session, whatever failed on the way
  (a directory that is gone, a shell or an agent that does not start), the store again names every
  workspace that is open and every workspace it named before, except one whose directory is open now.
\<close>

theorem no_saved_workspace_is_lost:
  assumes "e_store_ok env" "\<not> e_is_dir env []"
    and "c = (core_new cf md)\<lparr>session_store := Some s, disk_session := Some pws, disk_dumps := dumps\<rparr>"
  shows "\<exists>saved. disk_session (restore_session env c) = Some saved
    \<and> list_all (\<lambda>w. persist_ws w \<in> set saved) (all_ws (restore_session env c))
    \<and> list_all (\<lambda>pw. pw \<in> set saved \<or> list_ex (\<lambda>w. ws_cwd w = pw_cwd pw) (all_ws (restore_session env c))) pws"
proof (cases "pws = []")
  case True
  then have "restore_session env c = c" using assms(3) by (simp add: restore_session_def)
  then show ?thesis using True assms(3) by (simp add: all_ws_def core_new_def List.map_filter_def)
next
  case False
  let ?c = "c\<lparr>restoring := True\<rparr>"
  let ?r = "fold (restore_ws env) pws ?c"
  have i: "inv {} ?c" using inv_start assms(3) by simp
  note a = restore_all_accounts [OF assms(2) i, of "[]" pws, simplified]
  let ?d = "?r\<lparr>restoring := False\<rparr>"
  have d: "restore_session env c = persist_session env ?d"
    using False assms(3) by (simp add: restore_session_def Let_def)
  have "session_store ?d \<noteq> None" "\<not> shutdown ?d"
    using a assms(3) by (simp_all add: core_new_def)
  then have e: "restore_session env c = ?d\<lparr>disk_session := Some (session_state ?d)\<rparr>"
    unfolding d persist_session_def using assms(1) by auto
  have ws: "all_ws (restore_session env c) = all_ws ?r" unfolding e by (simp add: all_ws_def)
  have st: "session_state ?d = session_state ?r" by (simp add: session_state_def live_session_def all_ws_def)
  have mem: "w \<in> set (all_ws ?r) \<longleftrightarrow> (\<exists>s. workspaces ?r s = Some w)" for w using all_ws_iff a by blast
  have "pw \<in> set (session_state ?r) \<or> list_ex (\<lambda>w. ws_cwd w = pw_cwd pw) (all_ws ?r)" if "pw \<in> set pws" for pw
  proof -
    have "accounted ?r pw" using a that by (simp add: list_all_iff)
    then show ?thesis
      using mem by (auto simp: accounted_def session_state_def live_session_def list_ex_iff Let_def)
  qed
  then show ?thesis unfolding ws unfolding e st using st
    by (simp add: list_all_iff) (simp add: session_state_def live_session_def Let_def)
qed

definition gone_ws :: persisted_workspace where
  "gone_ws = \<lparr>pw_name = ''g'', pw_cwd = ''/gone'', pw_key = [], pw_agents = [], pw_processes = [], pw_stage = None\<rparr>"

theorem no_saved_workspace_is_lost_witness:
  "\<exists>saved. disk_session (restore_session (demo_env\<lparr>e_is_dir := \<lambda>_. False\<rparr>)
      ((core_new (fst (e_config demo_env)) Daemon)\<lparr>session_store := Some ''/d/s'', disk_session := Some [gone_ws],
         disk_dumps := Map.empty\<rparr>)) = Some saved \<and> gone_ws \<in> set saved"
proof -
  let ?env = "demo_env\<lparr>e_is_dir := \<lambda>_. False\<rparr>"
  let ?c = "(core_new (fst (e_config demo_env)) Daemon)\<lparr>session_store := Some ''/d/s'', disk_session := Some [gone_ws],
         disk_dumps := Map.empty\<rparr>"
  have e: "e_store_ok ?env" "\<not> e_is_dir ?env []" by (simp_all add: demo_env_def)
  have "all_ws (restore_session ?env ?c) = []"
    by (simp add: restore_session_def restore_ws_def core_new_def all_ws_def core_frame List.map_filter_def)
  then show ?thesis
    using no_saved_workspace_is_lost [OF e refl, where cf = "fst (e_config demo_env)" and md = Daemon and s = "''/d/s''"
        and pws = "[gone_ws]" and dumps = Map.empty]
    by auto
qed

end
