(* ===== verification/Update.thy ===== *)
theory Update
  imports Rust_Str "HOL-Library.List_Lexorder" "HOL-Library.Char_ord" "HOL-Library.Product_Lexorder"
begin

text \<open>
  Self update, from \<open>butai-update/src/lib.rs\<close>: the order of versions, the release a channel
  offers, and what a downloaded release must pass before it is put beside the running binary. The
  target triple and the version of the build are compiled in and are arguments here; the network,
  SHA-256 and the archive reader are the arguments \<open>get\<close>, \<open>sha\<close> and \<open>untar\<close>.
\<close>

section \<open>Versions\<close>

text \<open>The order of the constructors is the order of the values, as the derived \<open>Ord\<close> has it.\<close>

datatype ident = Numeric nat | Alphanumeric string

fun ident_le :: "ident \<Rightarrow> ident \<Rightarrow> bool" where
  "ident_le (Numeric m) (Numeric n) \<longleftrightarrow> m \<le> n"
| "ident_le (Numeric m) (Alphanumeric t) \<longleftrightarrow> True"
| "ident_le (Alphanumeric s) (Numeric n) \<longleftrightarrow> False"
| "ident_le (Alphanumeric s) (Alphanumeric t) \<longleftrightarrow> s \<le> t"

instantiation ident :: linorder
begin

definition less_eq_ident :: "ident \<Rightarrow> ident \<Rightarrow> bool" where
  "less_eq_ident a b \<longleftrightarrow> ident_le a b"

definition less_ident :: "ident \<Rightarrow> ident \<Rightarrow> bool" where
  "less_ident a b \<longleftrightarrow> a \<le> b \<and> \<not> b \<le> a"

instance
proof
  fix a b c :: ident
  show "a < b \<longleftrightarrow> a \<le> b \<and> \<not> b \<le> a" by (rule less_ident_def)
  show "a \<le> a" by (cases a) (simp_all add: less_eq_ident_def)
  show "a \<le> c" if "a \<le> b" "b \<le> c" using that by (cases a; cases b; cases c) (auto simp: less_eq_ident_def)
  show "a = b" if "a \<le> b" "b \<le> a" using that by (cases a; cases b) (auto simp: less_eq_ident_def)
  show "a \<le> b \<or> b \<le> a" by (cases a; cases b) (auto simp: less_eq_ident_def)
qed

end

lemma ident_order [simp]:
  "Numeric m \<le> Numeric n \<longleftrightarrow> m \<le> n" "Numeric m \<le> Alphanumeric t"
  "\<not> Alphanumeric s \<le> Numeric n" "Alphanumeric s \<le> Alphanumeric t \<longleftrightarrow> s \<le> t"
  by (simp_all add: less_eq_ident_def)

datatype pre = Identifiers "ident list" | Release

fun pre_le :: "pre \<Rightarrow> pre \<Rightarrow> bool" where
  "pre_le (Identifiers xs) (Identifiers ys) \<longleftrightarrow> xs \<le> ys"
| "pre_le (Identifiers xs) Release \<longleftrightarrow> True"
| "pre_le Release (Identifiers ys) \<longleftrightarrow> False"
| "pre_le Release Release \<longleftrightarrow> True"

instantiation pre :: linorder
begin

definition less_eq_pre :: "pre \<Rightarrow> pre \<Rightarrow> bool" where
  "less_eq_pre a b \<longleftrightarrow> pre_le a b"

definition less_pre :: "pre \<Rightarrow> pre \<Rightarrow> bool" where
  "less_pre a b \<longleftrightarrow> a \<le> b \<and> \<not> b \<le> a"

instance
proof
  fix a b c :: pre
  show "a < b \<longleftrightarrow> a \<le> b \<and> \<not> b \<le> a" by (rule less_pre_def)
  show "a \<le> a" by (cases a) (simp_all add: less_eq_pre_def)
  show "a \<le> c" if "a \<le> b" "b \<le> c" using that by (cases a; cases b; cases c) (auto simp: less_eq_pre_def)
  show "a = b" if "a \<le> b" "b \<le> a" using that by (cases a; cases b) (auto simp: less_eq_pre_def)
  show "a \<le> b \<or> b \<le> a" by (cases a; cases b) (auto simp: less_eq_pre_def)
qed

end

lemma pre_order [simp]:
  "Identifiers xs \<le> Identifiers ys \<longleftrightarrow> xs \<le> ys" "Identifiers xs \<le> Release" "\<not> Release \<le> Identifiers ys"
  by (simp_all add: less_eq_pre_def)

datatype version = Version (core_of: "nat \<times> nat \<times> nat") (pre_of: pre)

definition version_le :: "version \<Rightarrow> version \<Rightarrow> bool" where
  "version_le a b \<longleftrightarrow> (core_of a, pre_of a) \<le> (core_of b, pre_of b)"

instantiation version :: linorder
begin

definition less_eq_version :: "version \<Rightarrow> version \<Rightarrow> bool" where
  "less_eq_version a b \<longleftrightarrow> version_le a b"

definition less_version :: "version \<Rightarrow> version \<Rightarrow> bool" where
  "less_version a b \<longleftrightarrow> (core_of a, pre_of a) < (core_of b, pre_of b)"

instance
proof
  fix a b c :: version
  show "a < b \<longleftrightarrow> a \<le> b \<and> \<not> b \<le> a" by (auto simp: less_version_def less_eq_version_def version_le_def less_le_not_le)
  show "a \<le> a" by (simp add: less_eq_version_def version_le_def)
  show "a \<le> c" if "a \<le> b" "b \<le> c" using that unfolding less_eq_version_def version_le_def by (rule order_trans)
  show "a = b" if "a \<le> b" "b \<le> a" using that unfolding less_eq_version_def version_le_def by (cases a; cases b) auto
  show "a \<le> b \<or> b \<le> a" unfolding less_eq_version_def version_le_def by (rule linear)
qed

end

definition ident_of :: "string \<Rightarrow> ident" where
  "ident_of s = (case parse_uint u64_max s of Some n \<Rightarrow> Numeric n | None \<Rightarrow> Alphanumeric s)"

definition trim_v :: "string \<Rightarrow> string" where
  "trim_v s = dropWhile (\<lambda>c. c = CHR ''v'') s"

definition parse_version :: "string \<Rightarrow> version option" where
  "parse_version v =
     (let v = hd (split_char CHR ''+'' (trim_v (trim v)));
          (core, pre) = (case split_once ''-'' v of
             Some (core, pre) \<Rightarrow> (core, Identifiers (map ident_of (split_char CHR ''.'' pre)))
           | None \<Rightarrow> (v, Release))
      in case map (parse_uint u64_max) (split_char CHR ''.'' core) of
           [Some major, Some minor, Some patch] \<Rightarrow> Some (Version (major, minor, patch) pre)
         | _ \<Rightarrow> None)"

definition newer :: "string \<Rightarrow> string \<Rightarrow> bool" where
  "newer latest mine = (case (parse_version latest, parse_version mine) of
     (Some l, Some m) \<Rightarrow> m < l | _ \<Rightarrow> False)"

section \<open>Channels\<close>

datatype channel = Stable | Dev

fun channel_str :: "channel \<Rightarrow> string" where
  "channel_str Stable = ''stable''"
| "channel_str Dev = ''dev''"

definition channel_from_name :: "string \<Rightarrow> channel option" where
  "channel_from_name s = (if s = ''stable'' then Some Stable else if s = ''dev'' then Some Dev else None)"

interpretation channel_word: codec channel_str channel_from_name "\<lambda>_. True"
proof
  fix c
  show "channel_from_name (channel_str c) = Some c" by (cases c) (simp_all add: channel_from_name_def)
qed

text \<open>The check is on unless the configuration or the environment says otherwise.\<close>

definition enabled :: "string option \<Rightarrow> bool \<Rightarrow> bool" where
  "enabled no_check chk \<longleftrightarrow> chk \<and> \<not> (case no_check of Some v \<Rightarrow> v \<noteq> [] \<and> v \<noteq> ''0'' | None \<Rightarrow> False)"

section \<open>What a release offers\<close>

record asset =
  as_name :: string
  as_url :: string

record release =
  tag_name :: string
  draft :: bool
  assets :: "asset list"

record offer =
  of_version :: string
  of_asset :: string
  of_url :: string
  of_sums :: "string option"
  of_install :: "string list"

datatype update_error =
    NoBuild string
  | NoChecksum string
  | ChecksumMismatch string string string
  | DownloadFailed string
  | BadTarball
  | EmptyBinary string
  | NoBinary string
  | NotWritable string

definition asset_name :: "string \<Rightarrow> string \<Rightarrow> string" where
  "asset_name target version = ''butai-'' @ version @ ''-'' @ target @ ''.tar.gz''"

text \<open>\<open>Iterator::max_by\<close>, which keeps the last of several greatest elements.\<close>

fun max_last :: "('a::linorder \<times> 'b) option \<Rightarrow> ('a \<times> 'b) list \<Rightarrow> ('a \<times> 'b) option" where
  "max_last m [] = m"
| "max_last m (x # xs) =
     max_last (case m of None \<Rightarrow> Some x | Some y \<Rightarrow> if fst x < fst y then Some y else Some x) xs"

definition candidates :: "release list \<Rightarrow> (version \<times> release) list" where
  "candidates rs = List.map_filter (\<lambda>r. map_option (\<lambda>v. (v, r)) (parse_version (tag_name r))) (filter (\<lambda>r. \<not> draft r) rs)"

definition pick :: "release list \<Rightarrow> release option" where
  "pick rs = map_option snd (max_last None (candidates rs))"

definition offer_of :: "string \<Rightarrow> string \<Rightarrow> release \<Rightarrow> string list \<Rightarrow> update_error + offer option" where
  "offer_of target current r install =
     (let version = trim_v (tag_name r)
      in if \<not> newer version current then Inr None
         else case find (\<lambda>a. as_name a = asset_name target version) (assets r) of
           None \<Rightarrow> Inl (NoBuild (tag_name r))
         | Some a \<Rightarrow> Inr (Some \<lparr>of_version = version, of_asset = asset_name target version, of_url = as_url a,
             of_sums = map_option as_url (find (\<lambda>a. as_name a = ''SHA256SUMS'') (assets r)), of_install = install\<rparr>))"

text \<open>
  \<open>check\<close>: the one release GitHub calls the latest, or the highest of the list. What GitHub answers
  is an argument.
\<close>

definition check_update ::
    "string \<Rightarrow> string \<Rightarrow> (update_error + string list) \<Rightarrow> (update_error + release) \<Rightarrow> (update_error + release list)
     \<Rightarrow> channel \<Rightarrow> update_error + offer option" where
  "check_update target current install latest listed ch =
     (case install of Inl e \<Rightarrow> Inl e | Inr path \<Rightarrow>
       (case ch of
          Stable \<Rightarrow> (case latest of Inl e \<Rightarrow> Inl e | Inr r \<Rightarrow> offer_of target current r path)
        | Dev \<Rightarrow> (case listed of Inl e \<Rightarrow> Inl e
            | Inr rs \<Rightarrow> (case pick rs of None \<Rightarrow> Inr None | Some r \<Rightarrow> offer_of target current r path))))"

section \<open>What a download must pass\<close>

definition checksum_line :: "string \<Rightarrow> (string \<times> string) option" where
  "checksum_line l = (case split_once ''  '' l of Some x \<Rightarrow> Some x | None \<Rightarrow> split_once '' '' l)"

definition checksum_for :: "string \<Rightarrow> string \<Rightarrow> string option" where
  "checksum_for sums asset = map_option (\<lambda>(hex, name). map ascii_lower (trim hex))
     (find (\<lambda>(hex, name). trim name = asset) (List.map_filter checksum_line (lines sums)))"

definition verify :: "(string \<Rightarrow> string) \<Rightarrow> string \<Rightarrow> string \<Rightarrow> string \<Rightarrow> update_error + unit" where
  "verify sha bytes sums asset =
     (case checksum_for sums asset of
        None \<Rightarrow> Inl (NoChecksum asset)
      | Some want \<Rightarrow> if sha bytes \<noteq> want then Inl (ChecksumMismatch asset want (sha bytes)) else Inr ())"

text \<open>An entry of the archive: whether it is a regular file, its file name, and its contents.\<close>

record entry =
  en_file :: bool
  en_name :: "string option"
  en_data :: string

fun extract_loop :: "string \<Rightarrow> (update_error + entry) list \<Rightarrow> update_error + string" where
  "extract_loop asset [] = Inl (NoBinary asset)"
| "extract_loop asset (Inl e # es) = Inl e"
| "extract_loop asset (Inr e # es) =
     (if \<not> en_file e then extract_loop asset es
      else if en_name e \<noteq> Some ''butai'' then extract_loop asset es
      else if en_data e = [] then Inl (EmptyBinary asset) else Inr (en_data e))"

definition extract_binary ::
    "(string \<Rightarrow> update_error + (update_error + entry) list) \<Rightarrow> string \<Rightarrow> string \<Rightarrow> update_error + string" where
  "extract_binary untar tarball asset =
     (case untar tarball of Inl e \<Rightarrow> Inl e | Inr es \<Rightarrow> extract_loop asset es)"

record staged =
  st_version :: string
  st_tmp :: "string list"
  st_install :: "string list"
  st_binary :: string

text \<open>
  The temporary file is in the directory of the binary it will replace. Paths are canonical, a list of
  names; \<open>writable\<close> says whether the file could be created and written.
\<close>

definition stage_tmp :: "nat \<Rightarrow> string list \<Rightarrow> string list" where
  "stage_tmp pid install = butlast install @ [''.butai-update-'' @ show_nat pid]"

definition stage_update ::
    "(string \<Rightarrow> update_error + string) \<Rightarrow> (string \<Rightarrow> string) \<Rightarrow> (string \<Rightarrow> update_error + (update_error + entry) list)
     \<Rightarrow> nat \<Rightarrow> (string list \<Rightarrow> bool) \<Rightarrow> offer \<Rightarrow> update_error + staged" where
  "stage_update get sha untar pid writable ofr =
     (case get (of_url ofr) of Inl e \<Rightarrow> Inl e | Inr tarball \<Rightarrow>
       (case (case of_sums ofr of
                Some url \<Rightarrow> (case get url of Inl e \<Rightarrow> Inl e | Inr sums \<Rightarrow> verify sha tarball sums (of_asset ofr))
              | None \<Rightarrow> Inr ()) of
          Inl e \<Rightarrow> Inl e
        | Inr _ \<Rightarrow>
           (case extract_binary untar tarball (of_asset ofr) of Inl e \<Rightarrow> Inl e | Inr binary \<Rightarrow>
             (let tmp = stage_tmp pid (of_install ofr)
              in if \<not> writable tmp then Inl (NotWritable (last tmp))
                 else Inr \<lparr>st_version = of_version ofr, st_tmp = tmp, st_install = of_install ofr, st_binary = binary\<rparr>))))"

section \<open>Builds that are not replaced\<close>

definition SIGNATURE :: string where "SIGNATURE = ''Signature: 8a477f597d28d172789f06886806bc55''"

definition is_cargo_cache_dir :: "(string list \<Rightarrow> string option) \<Rightarrow> string list \<Rightarrow> bool" where
  "is_cargo_cache_dir read dir =
     (case read (dir @ [''CACHEDIR.TAG'']) of Some b \<Rightarrow> starts_with SIGNATURE b | None \<Rightarrow> False)"

text \<open>\<open>ancestors().skip(1).take(4)\<close> of a canonical path: up to four parents, the nearest first.\<close>

definition parents4 :: "string list \<Rightarrow> string list list" where
  "parents4 path = map (\<lambda>i. take (length path - i) path) [1..<min 5 (Suc (length path))]"

definition in_cargo_target :: "(string list \<Rightarrow> string option) \<Rightarrow> string list \<Rightarrow> bool" where
  "in_cargo_target read path =
     (let parts = drop 1 (rev path)
      in (case parts of p # ps \<Rightarrow> (p = ''debug'' \<or> p = ''release'') \<and> ''target'' \<in> set ps | [] \<Rightarrow> False)
         \<or> list_ex (is_cargo_cache_dir read) (parents4 path))"


section \<open>The order of the tags that are published\<close>

lemma trim_visible: "list_all visible s \<Longrightarrow> trim s = s"
proof -
  assume v: "list_all visible s"
  have a: "list_all is_ascii s" using v visible_ascii by (auto simp: list_all_iff)
  have n: "dropWhile uws (map (\<lambda>c. [c]) x) = map (\<lambda>c. [c]) x" if "set x \<subseteq> set s" for x
    using that v visible_not_ws by (cases x) (auto simp: list_all_iff)
  have "dropWhile_end uws (map (\<lambda>c. [c]) s) = map (\<lambda>c. [c]) s"
    unfolding dropWhile_end_def rev_map using n [of "rev s"] by (simp add: rev_map)
  then show ?thesis unfolding trim_def uchars_ascii [OF a] using n [of s] by (simp add: concat_map_singleton)
qed

definition core_text :: "nat \<times> nat \<times> nat \<Rightarrow> string" where
  "core_text = (\<lambda>(a, b, c). show_nat a @ ''.'' @ show_nat b @ ''.'' @ show_nat c)"

text \<open>A tag as it is published: \<open>v1.3.0\<close>, or \<open>v1.3.0-dev.4\<close> on the way to it.\<close>

definition tag :: "nat \<times> nat \<times> nat \<Rightarrow> nat option \<Rightarrow> string" where
  "tag core n = ''v'' @ core_text core @ (case n of None \<Rightarrow> [] | Some k \<Rightarrow> ''-dev.'' @ show_nat k)"

definition tag_pre :: "nat option \<Rightarrow> pre" where
  "tag_pre n = (case n of None \<Rightarrow> Release | Some k \<Rightarrow> Identifiers [Alphanumeric ''dev'', Numeric k])"

definition tag_ok :: "nat \<times> nat \<times> nat \<Rightarrow> nat option \<Rightarrow> bool" where
  "tag_ok = (\<lambda>(a, b, c) n. a \<le> u64_max \<and> b \<le> u64_max \<and> c \<le> u64_max
     \<and> (case n of None \<Rightarrow> True | Some k \<Rightarrow> k \<le> u64_max))"

lemma core_text_chars: "list_all (\<lambda>c. is_digit c \<or> c = CHR ''.'') (core_text v)"
  using show_nat_digits by (auto simp: core_text_def list_all_iff split: prod.split)

lemma core_text_no: "\<not> is_digit c \<Longrightarrow> c \<noteq> CHR ''.'' \<Longrightarrow> c \<notin> set (core_text v)"
  using core_text_chars [of v] by (auto simp: list_all_iff)

lemma core_text_split: "split_char CHR ''.'' (core_text (a, b, c)) = [show_nat a, show_nat b, show_nat c]"
proof -
  have n: "CHR ''.'' \<notin> set (show_nat x)" for x by (rule not_in_show_nat) (simp add: is_digit_def)
  show ?thesis
    using split_char_append [OF n, of a "show_nat b @ CHR ''.'' # show_nat c"] split_char_append [OF n, of b "show_nat c"]
      split_char_none [OF n, of c]
    by (simp add: core_text_def)
qed

lemma parse_tag:
  assumes "tag_ok (a, b, c) n"
  shows "parse_version (tag (a, b, c) n) = Some (Version (a, b, c) (tag_pre n))"
proof -
  let ?suffix = "case n of None \<Rightarrow> [] | Some k \<Rightarrow> ''-dev.'' @ show_nat k"
  let ?t = "core_text (a, b, c) @ ?suffix"
  have digit: "\<not> is_digit CHR ''+''" "\<not> is_digit CHR ''-''" "\<not> is_digit CHR ''.''" "\<not> is_digit CHR ''v''"
    by (simp_all add: is_digit_def)
  have "list_all visible (core_text (a, b, c))"
    using core_text_chars [of "(a, b, c)"] by (auto simp: list_all_iff is_digit_def visible_def Let_def)
  then have "list_all visible (tag (a, b, c) n)"
    using digits_visible by (simp add: tag_def visible_def split: option.split)
  then have 1: "trim (tag (a, b, c) n) = ''v'' @ ?t" by (simp add: trim_visible tag_def)
  have "hd ?t \<noteq> CHR ''v'' \<and> ?t \<noteq> []"
  proof -
    obtain x xs where x: "show_nat a = x # xs" by (cases "show_nat a") auto
    then have "is_digit x" using show_nat_digits [of a] by simp
    then show ?thesis using x digit(4) by (auto simp: core_text_def)
  qed
  then have 2: "trim_v (''v'' @ ?t) = ?t" by (cases ?t) (auto simp: trim_v_def)
  have "CHR ''+'' \<notin> set ?t"
    using core_text_no [OF digit(1)] not_in_show_nat [OF digit(1)] by (auto split: option.splits)
  then have 3: "split_char CHR ''+'' ?t = [?t]" by (rule split_char_none)
  have m: "CHR ''-'' \<notin> set (core_text (a, b, c))" using core_text_no [OF digit(2)] by simp
  have nums: "map (parse_uint u64_max) (split_char CHR ''.'' (core_text (a, b, c))) = [Some a, Some b, Some c]"
    using assms by (simp add: core_text_split tag_ok_def parse_show_nat)
  show ?thesis
  proof (cases n)
    case None
    then show ?thesis
      using 1 2 3 nums split_once_char_None [OF m] by (simp add: parse_version_def tag_pre_def)
  next
    case (Some k)
    have "split_once ''-'' ?t = Some (core_text (a, b, c), ''dev.'' @ show_nat k)"
      using split_once_char [OF m, of "''dev.'' @ show_nat k"] Some by simp
    moreover have "split_char CHR ''.'' (''dev.'' @ show_nat k) = [''dev'', show_nat k]"
      using split_char_append [of "CHR ''.''" "''dev''" "show_nat k"]
        split_char_none [OF not_in_show_nat [OF digit(3)], of k] by simp
    moreover have "ident_of ''dev'' = Alphanumeric ''dev''" by (simp add: ident_of_def parse_uint_def is_digit_def)
    moreover have "ident_of (show_nat k) = Numeric k"
      using assms Some by (simp add: ident_of_def tag_ok_def parse_show_nat)
    ultimately show ?thesis using 1 2 3 nums Some by (simp add: parse_version_def tag_pre_def)
  qed
qed

text \<open>The rank of a tag: the numbers of the release first, then the release above its builds.\<close>

definition tag_rank :: "nat \<times> nat \<times> nat \<Rightarrow> nat option \<Rightarrow> (nat \<times> nat \<times> nat) \<times> nat \<times> nat" where
  "tag_rank core n = (core, case n of None \<Rightarrow> (1, 0) | Some k \<Rightarrow> (0, k))"

text \<open>
  Versions. Of two published tags, with or without the number of a build on the way, one is newer
  exactly when its three numbers, read as numbers, come later, or they are equal and it is the release
  where the other is a build, or a later build.
\<close>

theorem newer_by_number:
  assumes "tag_ok v m" "tag_ok w n"
  shows "newer (tag v m) (tag w n) \<longleftrightarrow> tag_rank w n < tag_rank v m"
proof -
  obtain a b c d e f where vw: "v = (a, b, c)" "w = (d, e, f)" by (metis surj_pair)
  have "Version w (tag_pre n) < Version v (tag_pre m) \<longleftrightarrow> tag_rank w n < tag_rank v m"
    by (cases m; cases n) (auto simp: less_version_def tag_pre_def tag_rank_def less_pre_def less_ident_def less_le_not_le)
  then show ?thesis using assms vw by (simp add: newer_def parse_tag)
qed

theorem newer_by_number_witness:
  "newer ''v1.0.10'' ''v1.0.9'' \<and> \<not> newer ''v1.3.0-dev.4'' ''v1.3.0''"
proof -
  have t: "''v1.0.10'' = tag (1, 0, 10) None" "''v1.0.9'' = tag (1, 0, 9) None" "''v1.3.0-dev.4'' = tag (1, 3, 0) (Some 4)"
    "''v1.3.0'' = tag (1, 3, 0) None"
    by code_simp+
  have "tag_ok (1, 0, 10) None" "tag_ok (1, 0, 9) None" "tag_ok (1, 3, 0) (Some 4)" "tag_ok (1, 3, 0) None"
    by (simp_all add: tag_ok_def u64_max_def)
  then show ?thesis unfolding t by (simp add: newer_by_number tag_rank_def)
qed


section \<open>What is offered and what is staged\<close>

lemma max_last_spec:
  "max_last m xs = Some z \<Longrightarrow>
     (m = Some z \<or> z \<in> set xs) \<and> (\<forall>x \<in> set xs. fst x \<le> fst z) \<and> (\<forall>y. m = Some y \<longrightarrow> fst y \<le> fst z)"
proof (induction xs arbitrary: m)
  case (Cons x xs)
  let ?m = "case m of None \<Rightarrow> Some x | Some y \<Rightarrow> if fst x < fst y then Some y else Some x"
  have "max_last ?m xs = Some z" using Cons.prems by simp
  note i = Cons.IH [OF this]
  show ?case
  proof (cases m)
    case None
    then show ?thesis using i by auto
  next
    case (Some y)
    then show ?thesis using i by (cases "fst x < fst y") auto
  qed
qed simp

lemma max_last_None: "max_last m xs = None \<longleftrightarrow> m = None \<and> xs = []"
  by (induction xs arbitrary: m) (auto split: option.splits)

lemma candidates_iff: "(v, r) \<in> set (candidates rs) \<longleftrightarrow> r \<in> set rs \<and> \<not> draft r \<and> parse_version (tag_name r) = Some v"
  by (force simp: candidates_def List.map_filter_def)

lemma pick_spec:
  assumes "pick rs = Some r"
  shows "r \<in> set rs \<and> \<not> draft r \<and> (\<exists>v. parse_version (tag_name r) = Some v
    \<and> (\<forall>q w. q \<in> set rs \<and> \<not> draft q \<and> parse_version (tag_name q) = Some w \<longrightarrow> w \<le> v))"
proof -
  obtain v where "max_last None (candidates rs) = Some (v, r)" using assms by (auto simp: pick_def)
  from max_last_spec [OF this] have m: "(v, r) \<in> set (candidates rs)" "\<forall>x \<in> set (candidates rs). fst x \<le> v" by simp_all
  have "w \<le> v" if "q \<in> set rs" "\<not> draft q" "parse_version (tag_name q) = Some w" for q w
    using m(2) that candidates_iff [of w q rs] by fastforce
  then show ?thesis using m(1) unfolding candidates_iff by blast
qed

lemma offer_spec:
  assumes "offer_of target current r install = Inr (Some x)"
  shows "of_version x = trim_v (tag_name r) \<and> newer (of_version x) current \<and> of_install x = install
    \<and> \<lparr>as_name = asset_name target (of_version x), as_url = of_url x\<rparr> \<in> set (assets r)
    \<and> of_asset x = asset_name target (of_version x)"
proof -
  obtain a where a: "find (\<lambda>a. as_name a = asset_name target (trim_v (tag_name r))) (assets r) = Some a"
    using assms by (auto simp: offer_of_def Let_def split: if_splits option.splits)
  then have "a \<in> set (assets r)" "as_name a = asset_name target (trim_v (tag_name r))"
    by (auto simp: find_Some_iff)
  then have "\<lparr>as_name = asset_name target (trim_v (tag_name r)), as_url = as_url a\<rparr> \<in> set (assets r)"
    by (metis asset.surjective old.unit.exhaust)
  then show ?thesis using assms a by (auto simp: offer_of_def Let_def split: if_splits)
qed

text \<open>
  C29. Only forward. What a check offers is strictly newer than the running build, is the artifact
  published for this build's own target, and comes from the release GitHub calls the latest or, on the
  development channel, from a published one that no other published release of the list is above.
\<close>

theorem update_only_forward:
  assumes "check_update target current install latest listed ch = Inr (Some x)"
  shows "newer (of_version x) current \<and> of_asset x = asset_name target (of_version x)
    \<and> (\<exists>r. of_version x = trim_v (tag_name r) \<and> \<lparr>as_name = of_asset x, as_url = of_url x\<rparr> \<in> set (assets r)
        \<and> (case ch of Stable \<Rightarrow> latest = Inr r
           | Dev \<Rightarrow> (\<exists>rs. listed = Inr rs \<and> r \<in> set rs \<and> \<not> draft r
                \<and> list_all (\<lambda>q. draft q \<or> \<not> newer (tag_name q) (tag_name r)) rs)))"
proof (cases install)
  case (Inr path)
  show ?thesis
  proof (cases ch)
    case Stable
    then obtain r where "latest = Inr r" "offer_of target current r path = Inr (Some x)"
      using assms Inr by (auto simp: check_update_def split: sum.splits)
    then show ?thesis using offer_spec Stable by fastforce
  next
    case Dev
    then obtain rs r where r: "listed = Inr rs" "pick rs = Some r" "offer_of target current r path = Inr (Some x)"
      using assms Inr by (auto simp: check_update_def split: sum.splits option.splits)
    have "list_all (\<lambda>q. draft q \<or> \<not> newer (tag_name q) (tag_name r)) rs"
      using pick_spec [OF r(2)] by (fastforce simp: list_all_iff newer_def not_less split: option.splits)
    then show ?thesis using offer_spec [OF r(3)] pick_spec [OF r(2)] Dev r(1) by fastforce
  qed
qed (use assms in \<open>simp add: check_update_def\<close>)

definition demo_release :: "string \<Rightarrow> bool \<Rightarrow> release" where
  "demo_release t d = \<lparr>tag_name = t, draft = d, assets = [\<lparr>as_name = asset_name ''x'' (trim_v t), as_url = ''u''\<rparr>]\<rparr>"

definition demo_list :: "release list" where
  "demo_list = [demo_release ''v1.2.1'' False, demo_release ''v1.3.0-dev.2'' False, demo_release ''v1.3.0-dev.10'' False,
     demo_release ''v2.0.0'' True, demo_release ''nightly'' False]"

theorem update_only_forward_witness:
  "\<exists>x. check_update ''x'' ''1.3.0-dev.1'' (Inr []) (Inl BadTarball) (Inr demo_list) Dev = Inr (Some x)
     \<and> of_version x = ''1.3.0-dev.10'' \<and> newer (of_version x) ''1.3.0-dev.1''"
proof -
  let ?x = "\<lparr>of_version = ''1.3.0-dev.10'', of_asset = asset_name ''x'' ''1.3.0-dev.10'', of_url = ''u'', of_sums = None,
     of_install = []\<rparr>"
  note eval = parse_version_def trim_visible visible_def trim_v_def parse_uint_def undigits_def digit_val_def u64_max_def
    is_digit_def ident_of_def Let_def split_once.simps
  have p: "parse_version ''v1.2.1'' = Some (Version (1, 2, 1) Release)"
    "parse_version ''v1.3.0-dev.2'' = Some (Version (1, 3, 0) (Identifiers [Alphanumeric ''dev'', Numeric 2]))"
    "parse_version ''v1.3.0-dev.10'' = Some (Version (1, 3, 0) (Identifiers [Alphanumeric ''dev'', Numeric 10]))"
    "parse_version ''1.3.0-dev.10'' = Some (Version (1, 3, 0) (Identifiers [Alphanumeric ''dev'', Numeric 10]))"
    "parse_version ''1.3.0-dev.1'' = Some (Version (1, 3, 0) (Identifiers [Alphanumeric ''dev'', Numeric 1]))"
    "parse_version ''nightly'' = None"
    by (simp_all add: eval)
  have "pick demo_list = Some (demo_release ''v1.3.0-dev.10'' False)"
    by (simp add: pick_def candidates_def demo_list_def map_filter_simps demo_release_def p less_version_def less_pre_def
        less_ident_def)
  then have "check_update ''x'' ''1.3.0-dev.1'' (Inr []) (Inl BadTarball) (Inr demo_list) Dev = Inr (Some ?x)"
    by (simp add: check_update_def offer_of_def demo_release_def trim_v_def newer_def p less_version_def less_pre_def
        less_ident_def asset_name_def)
  from update_only_forward [OF this] this show ?thesis by (intro exI [of _ ?x]) simp
qed

lemma extract_loop_spec:
  "extract_loop asset es = Inr b \<Longrightarrow> b \<noteq> [] \<and> (\<exists>e. Inr e \<in> set es \<and> en_file e \<and> en_name e = Some ''butai'' \<and> en_data e = b)"
  by (induction asset es rule: extract_loop.induct) (auto split: if_splits)

text \<open>
  C30. What is staged was published. A binary is put beside the running one only if it is the
  non-empty \<open>butai\<close> of the archive that was fetched, and where the release has a file of checksums,
  the digest of that archive is the one it gives for this artifact. It lies in the directory of the
  binary it will replace, so that the swap is a rename.
\<close>

theorem staged_is_published:
  assumes "stage_update get sha untar pid writable x = Inr s"
  shows "\<exists>tarball es e. get (of_url x) = Inr tarball \<and> untar tarball = Inr es \<and> Inr e \<in> set es \<and> en_file e
    \<and> en_name e = Some ''butai'' \<and> st_binary s = en_data e \<and> st_binary s \<noteq> []
    \<and> (\<forall>url. of_sums x = Some url \<longrightarrow>
         (\<exists>sums. get url = Inr sums \<and> checksum_for sums (of_asset x) = Some (sha tarball)))
    \<and> butlast (st_tmp s) = butlast (st_install s) \<and> st_install s = of_install x"
proof -
  obtain tarball where t: "get (of_url x) = Inr tarball"
    using assms by (auto simp: stage_update_def split: sum.splits)
  have sums: "\<exists>sums. get url = Inr sums \<and> checksum_for sums (of_asset x) = Some (sha tarball)" if "of_sums x = Some url" for url
    using assms t that by (auto simp: stage_update_def verify_def split: sum.splits option.splits if_splits)
  obtain b where b: "extract_binary untar tarball (of_asset x) = Inr b" "st_binary s = b"
    "st_tmp s = stage_tmp pid (of_install x)" "st_install s = of_install x"
    using assms t by (auto simp: stage_update_def Let_def split: sum.splits if_splits)
  obtain es where es: "untar tarball = Inr es" "extract_loop (of_asset x) es = Inr b"
    using b(1) by (auto simp: extract_binary_def split: sum.splits)
  from extract_loop_spec [OF es(2)] t es(1) sums b(2,3,4) show ?thesis by (auto simp: stage_tmp_def)
qed

theorem staged_is_published_witness:
  "\<exists>s. stage_update (\<lambda>u. if u = ''s'' then Inr ''AB  butai.tar.gz'' else Inr ''T'') (\<lambda>_. ''ab'')
        (\<lambda>_. Inr [Inr \<lparr>en_file = True, en_name = Some ''README.md'', en_data = ''r''\<rparr>,
                   Inr \<lparr>en_file = True, en_name = Some ''butai'', en_data = ''B''\<rparr>]) 7 (\<lambda>_. True)
        \<lparr>of_version = ''1.0.1'', of_asset = ''butai.tar.gz'', of_url = ''u'', of_sums = Some ''s'', of_install = [''bin'', ''butai'']\<rparr>
      = Inr s \<and> butlast (st_tmp s) = [''bin'']"
proof -
  let ?x = "\<lparr>of_version = ''1.0.1'', of_asset = ''butai.tar.gz'', of_url = ''u'', of_sums = Some ''s'', of_install = [''bin'', ''butai'']\<rparr>"
  let ?s = "\<lparr>st_version = ''1.0.1'', st_tmp = [''bin'', ''.butai-update-7''], st_install = [''bin'', ''butai''], st_binary = ''B''\<rparr>"
  have "stage_update (\<lambda>u. if u = ''s'' then Inr ''AB  butai.tar.gz'' else Inr ''T'') (\<lambda>_. ''ab'')
        (\<lambda>_. Inr [Inr \<lparr>en_file = True, en_name = Some ''README.md'', en_data = ''r''\<rparr>,
                   Inr \<lparr>en_file = True, en_name = Some ''butai'', en_data = ''B''\<rparr>]) 7 (\<lambda>_. True) ?x = Inr ?s"
    by code_simp
  from staged_is_published [OF this] this show ?thesis by (intro exI [of _ ?s]) simp
qed

text \<open>A release without a file of checksums is staged all the same, with whatever digest its archive has.\<close>

lemma staged_unverified:
  "stage_update (\<lambda>_. Inr ''T'') sha (\<lambda>_. Inr [Inr \<lparr>en_file = True, en_name = Some ''butai'', en_data = ''B''\<rparr>]) 7 (\<lambda>_. True)
      \<lparr>of_version = ''1.0.1'', of_asset = ''butai.tar.gz'', of_url = ''u'', of_sums = None, of_install = [''bin'', ''butai'']\<rparr>
    = Inr \<lparr>st_version = ''1.0.1'', st_tmp = [''bin'', ''.butai-update-7''], st_install = [''bin'', ''butai''], st_binary = ''B''\<rparr>"
  by code_simp

end
