(* ===== verification/Graph.thy ===== *)
theory Graph
  imports Rust_Str
begin

text \<open>
  Commit lanes of the client's history page, from \<open>butai-client/src/graph.rs\<close>: one pass down a page
  of commits that gives each a column and the lines beside it, and the text drawn for a row.
\<close>

section \<open>Lanes\<close>

record graph_row =
  g_lane :: nat
  g_through :: "nat list"
  g_merged :: "nat list"
  g_forked :: "nat list"
  g_overflow :: bool
  g_merge :: bool

definition graph_width :: "graph_row \<Rightarrow> nat" where
  "graph_width r = fold max (g_through r @ g_merged r @ g_forked r) (g_lane r) + 1"

text \<open>An open lane waits for one commit; a column without a line is \<open>None\<close>.\<close>

type_synonym lanes = "string option list"

definition free_lane :: "lanes \<Rightarrow> nat \<times> lanes" where
  "free_lane ls = (case position (\<lambda>l. l = None) ls of Some i \<Rightarrow> (i, ls) | None \<Rightarrow> (length ls, ls @ [None]))"

text \<open>\<open>iter().enumerate().filter(P).map(index)\<close>.\<close>

definition indices :: "(nat \<Rightarrow> 'a \<Rightarrow> bool) \<Rightarrow> 'a list \<Rightarrow> nat list" where
  "indices P xs = filter (\<lambda>i. P i (xs ! i)) [0..<length xs]"

primrec fork :: "string list \<Rightarrow> lanes \<Rightarrow> nat list \<Rightarrow> nat list \<times> lanes" where
  "fork [] ls forked = (forked, ls)"
| "fork (p # ps) ls forked =
     (case position (\<lambda>l. l = Some p) ls of
        Some i \<Rightarrow> fork ps ls (forked @ [i])
      | None \<Rightarrow> (let (i, ls) = free_lane ls in fork ps (ls[i := Some p]) (forked @ [i])))"

definition trim_lanes :: "lanes \<Rightarrow> lanes" where
  "trim_lanes ls = dropWhile_end (\<lambda>l. l = None) ls"

definition graph_step :: "nat \<Rightarrow> string \<times> string list \<Rightarrow> lanes \<Rightarrow> graph_row \<times> lanes" where
  "graph_step max_lanes = (\<lambda>(cid, parents) ls.
     (let waiting = indices (\<lambda>i l. l = Some cid) ls;
          (lane, ls) = (case waiting of i # _ \<Rightarrow> (i, ls) | [] \<Rightarrow> free_lane ls);
          through = indices (\<lambda>i l. l \<noteq> None \<and> i \<noteq> lane \<and> i \<notin> set waiting) ls;
          merged = drop 1 waiting;
          ls = fold (\<lambda>i ls. ls[i := None]) merged ls;
          ls = ls[lane := (case parents of p # _ \<Rightarrow> Some p | [] \<Rightarrow> None)];
          (forked, ls) = fork (drop 1 parents) ls [];
          row = \<lparr>g_lane = lane, g_through = through, g_merged = merged, g_forked = forked, g_overflow = False,
                 g_merge = length parents > 1\<rparr>
      in (row\<lparr>g_overflow := graph_width row > max_lanes\<rparr>, trim_lanes ls)))"

fun graph_loop :: "nat \<Rightarrow> (string \<times> string list) list \<Rightarrow> lanes \<Rightarrow> graph_row list" where
  "graph_loop max_lanes [] ls = []"
| "graph_loop max_lanes (x # xs) ls =
     (let (row, ls) = graph_step max_lanes x ls in row # graph_loop max_lanes xs ls)"

definition graph_rows :: "(string \<times> string list) list \<Rightarrow> nat \<Rightarrow> graph_row list" where
  "graph_rows commits max_lanes = graph_loop max_lanes commits []"

section \<open>Drawing\<close>

datatype glyph = Diamond | Dot | JoinUp | ForkDown | Bar | Dash | Blank | Ellipsis

definition glyph_at :: "graph_row \<Rightarrow> nat \<Rightarrow> nat \<Rightarrow> nat \<Rightarrow> glyph" where
  "glyph_at r near reach i =
     (if i = g_lane r then (if g_merge r then Diamond else Dot)
      else if i \<in> set (g_merged r) then JoinUp
      else if i \<in> set (g_forked r) then ForkDown
      else if i \<in> set (g_through r) then Bar
      else if near < i \<and> i < reach then Dash else Blank)"

definition graph_glyphs :: "graph_row \<Rightarrow> nat \<Rightarrow> glyph list" where
  "graph_glyphs r max_lanes =
     (let width = min (graph_width r) max_lanes;
          reach = min (fold max (g_merged r @ g_forked r) (g_lane r)) (max_lanes - 1);
          near = fold min (g_merged r @ g_forked r) (g_lane r)
      in map (glyph_at r near reach) [0..<width] @ (if g_overflow r then [Ellipsis] else []))"

section \<open>What one row does to the lanes\<close>

text \<open>Column \<open>k\<close> waits for commit \<open>x\<close>.\<close>

definition waits :: "string \<Rightarrow> nat \<Rightarrow> lanes \<Rightarrow> bool" where
  "waits x k ls \<longleftrightarrow> k < length ls \<and> ls ! k = Some x"

lemma indices_iff: "i \<in> set (indices P xs) \<longleftrightarrow> i < length xs \<and> P i (xs ! i)"
  by (auto simp: indices_def)

lemma free_lane_props:
  assumes "free_lane ls = (i, ls')"
  shows "i < length ls'" "ls' ! i = None" "waits x k ls' \<longleftrightarrow> waits x k ls"
proof (atomize (full), cases "position (\<lambda>l. l = None) ls")
  case None
  then have "i = length ls" "ls' = ls @ [None]" using assms by (simp_all add: free_lane_def del: position_None_iff)
  then show "i < length ls' \<and> ls' ! i = None \<and> (waits x k ls' \<longleftrightarrow> waits x k ls)"
    by (cases "k < length ls") (auto simp: waits_def nth_append less_Suc_eq)
next
  case (Some j)
  then have "i = j" "ls' = ls" using assms by (simp_all add: free_lane_def)
  moreover have "j < length ls \<and> ls ! j = None" using Some by (simp add: position_Some_iff)
  ultimately show "i < length ls' \<and> ls' ! i = None \<and> (waits x k ls' \<longleftrightarrow> waits x k ls)" by simp
qed

lemma waits_trim: "waits x k (trim_lanes ls) \<longleftrightarrow> waits x k ls"
proof (induction ls rule: rev_induct)
  case (snoc l ls)
  then show ?case
    by (cases l) (auto simp: trim_lanes_def dropWhile_end_def waits_def nth_append)
qed (simp add: trim_lanes_def dropWhile_end_def)

lemma fork_join: "position (\<lambda>l. l = Some p) ls = Some i \<Longrightarrow> fork (p # ps) ls fk = fork ps ls (fk @ [i])"
  by simp

lemma fork_open:
  "position (\<lambda>l. l = Some p) ls = None \<Longrightarrow> free_lane ls = (i, ls') \<Longrightarrow>
   fork (p # ps) ls fk = fork ps (ls'[i := Some p]) (fk @ [i])"
  by (simp del: position_None_iff)

declare fork.simps(2) [simp del]

lemma fork_step:
  "\<exists>i ls'. fork (p # ps) ls fk = fork ps ls' (fk @ [i]) \<and> waits p i ls' \<and> (\<forall>x k. waits x k ls \<longrightarrow> waits x k ls')"
proof (cases "position (\<lambda>l. l = Some p) ls")
  case (Some i)
  have "waits p i ls" using Some by (simp add: waits_def position_Some_iff)
  then show ?thesis using fork_join [OF Some] by (intro exI [of _ i] exI [of _ ls]) simp
next
  case None
  obtain i ls' where f: "free_lane ls = (i, ls')" by (metis surj_pair)
  note n = free_lane_props [OF f]
  have "waits p i (ls'[i := Some p])" using n(1) by (simp add: waits_def)
  moreover have "waits x k (ls'[i := Some p])" if "waits x k ls" for x k
  proof -
    have "waits x k ls'" using that n(3) by simp
    then have "k \<noteq> i" "k < length ls'" "ls' ! k = Some x" using n(2) by (auto simp: waits_def)
    then show ?thesis by (simp add: waits_def)
  qed
  ultimately show ?thesis using fork_open [OF None f] by (intro exI [of _ i] exI [of _ "ls'[i := Some p]"]) simp
qed

lemma waits_fork_keep: "waits x k ls \<Longrightarrow> waits x k (snd (fork ps ls fk))"
proof (induction ps arbitrary: ls fk)
  case (Cons p ps)
  obtain i ls' where f: "fork (p # ps) ls fk = fork ps ls' (fk @ [i]) \<and> waits p i ls' \<and> (\<forall>x k. waits x k ls \<longrightarrow> waits x k ls')"
    using fork_step [of p ps ls fk] by (elim exE) (rule that)
  have "waits x k ls'" using f Cons.prems by simp
  from Cons.IH [OF this] show ?case using f by simp
qed simp

lemma forked_grow: "set fk \<subseteq> set (fst (fork ps ls fk))"
proof (induction ps arbitrary: ls fk)
  case (Cons p ps)
  obtain i ls' where f: "fork (p # ps) ls fk = fork ps ls' (fk @ [i]) \<and> waits p i ls' \<and> (\<forall>x k. waits x k ls \<longrightarrow> waits x k ls')"
    using fork_step [of p ps ls fk] by (elim exE) (rule that)
  then show ?case using Cons.IH [of "fk @ [i]" ls'] by simp
qed simp

lemma waits_fork_new: "x \<in> set ps \<Longrightarrow> \<exists>k \<in> set (fst (fork ps ls fk)). waits x k (snd (fork ps ls fk))"
proof (induction ps arbitrary: ls fk)
  case (Cons p ps)
  obtain i ls' where f: "fork (p # ps) ls fk = fork ps ls' (fk @ [i]) \<and> waits p i ls' \<and> (\<forall>x k. waits x k ls \<longrightarrow> waits x k ls')"
    using fork_step [of p ps ls fk] by (elim exE) (rule that)
  show ?case
  proof (cases "x = p")
    case True
    have "waits x i (snd (fork ps ls' (fk @ [i])))" by (rule waits_fork_keep) (use f True in simp)
    moreover have "i \<in> set (fst (fork ps ls' (fk @ [i])))" using forked_grow [of "fk @ [i]" ps ls'] by simp
    ultimately show ?thesis using f by auto
  next
    case False
    then have "x \<in> set ps" using Cons.prems by simp
    from Cons.IH [OF this, of ls' "fk @ [i]"] show ?thesis using f by simp
  qed
qed simp


text \<open>The lanes once the node has its column and the lanes that end there are closed.\<close>

definition node_lane :: "string \<Rightarrow> lanes \<Rightarrow> nat \<times> lanes" where
  "node_lane cid ls = (case indices (\<lambda>i l. l = Some cid) ls of i # _ \<Rightarrow> (i, ls) | [] \<Rightarrow> free_lane ls)"

lemma node_lane_props:
  assumes "node_lane cid ls = (i, ls')"
  shows "i < length ls'" "waits x k ls' \<longleftrightarrow> waits x k ls" "waits x i ls' \<Longrightarrow> x = cid"
proof -
  have "i < length ls' \<and> (waits x k ls' \<longleftrightarrow> waits x k ls) \<and> (waits x i ls' \<longrightarrow> x = cid)"
  proof (cases "indices (\<lambda>i l. l = Some cid) ls")
    case Nil
    then have f: "free_lane ls = (i, ls')" using assms by (simp add: node_lane_def)
    show ?thesis using free_lane_props [OF f] by (simp add: waits_def)
  next
    case (Cons j js)
    then have "i = j" "ls' = ls" using assms by (simp_all add: node_lane_def)
    moreover have "j < length ls \<and> ls ! j = Some cid"
      using indices_iff [of j "\<lambda>i l. l = Some cid" ls] Cons by simp
    ultimately show ?thesis by (simp add: waits_def)
  qed
  then show "i < length ls'" "waits x k ls' \<longleftrightarrow> waits x k ls" "waits x i ls' \<Longrightarrow> x = cid" by blast+
qed

lemma waits_update: "k \<noteq> i \<Longrightarrow> waits x k (ls[i := v]) \<longleftrightarrow> waits x k ls"
  by (simp add: waits_def)

lemma waits_close: "k \<notin> set js \<Longrightarrow> waits x k (fold (\<lambda>i ls. ls[i := None]) js ls) \<longleftrightarrow> waits x k ls"
  by (induction js arbitrary: ls) (simp_all add: waits_update)

lemma close_length: "length (fold (\<lambda>i ls. ls[i := None]) js ls) = length ls"
  by (induction js arbitrary: ls) simp_all

lemma graph_step_eq:
  assumes "node_lane cid ls = (lane, ms)"
  shows "graph_step mx (cid, ps) ls =
    (let waiting = indices (\<lambda>i l. l = Some cid) ls;
         closed = (fold (\<lambda>i ls. ls[i := None]) (drop 1 waiting) ms)[lane := (case ps of p # _ \<Rightarrow> Some p | [] \<Rightarrow> None)];
         (forked, ls') = fork (drop 1 ps) closed [];
         row = \<lparr>g_lane = lane, g_through = indices (\<lambda>i l. l \<noteq> None \<and> i \<noteq> lane \<and> i \<notin> set waiting) ms,
                g_merged = drop 1 waiting, g_forked = forked, g_overflow = False, g_merge = length ps > 1\<rparr>
     in (row\<lparr>g_overflow := graph_width row > mx\<rparr>, trim_lanes ls'))"
  using assms by (simp add: graph_step_def node_lane_def Let_def split: list.splits)

lemma graph_step_props:
  assumes "graph_step mx (cid, ps) ls = (row, ls')"
  shows "x \<noteq> cid \<Longrightarrow> waits x k ls \<Longrightarrow> k \<in> set (g_through row) \<and> waits x k ls'"
    and "waits cid k ls \<Longrightarrow> k = g_lane row \<or> k \<in> set (g_merged row)"
    and "x \<in> set ps \<Longrightarrow> \<exists>k \<in> insert (g_lane row) (set (g_forked row)). waits x k ls'"
proof -
  obtain lane ms where n: "node_lane cid ls = (lane, ms)" by (metis surj_pair)
  note np = node_lane_props [OF n]
  let ?waiting = "indices (\<lambda>i l. l = Some cid) ls"
  let ?closed = "(fold (\<lambda>i ls. ls[i := None]) (drop 1 ?waiting) ms)[lane := (case ps of p # _ \<Rightarrow> Some p | [] \<Rightarrow> None)]"
  obtain forked fs where f: "fork (drop 1 ps) ?closed [] = (forked, fs)" by (metis surj_pair)
  have row: "g_lane row = lane" "g_through row = indices (\<lambda>i l. l \<noteq> None \<and> i \<noteq> lane \<and> i \<notin> set ?waiting) ms"
    "g_merged row = drop 1 ?waiting" "g_forked row = forked" "ls' = trim_lanes fs"
    using assms unfolding graph_step_eq [OF n] Let_def f by auto
  have w: "k \<in> set ?waiting \<longleftrightarrow> waits cid k ls" for k by (simp add: indices_iff waits_def)
  show "k \<in> set (g_through row) \<and> waits x k ls'" if x: "x \<noteq> cid" "waits x k ls"
  proof -
    have ms: "waits x k ms" using x np(2) by simp
    then have lane: "k \<noteq> lane" using np(3) x(1) by blast
    have no: "\<not> waits cid k ls" using x by (auto simp: waits_def)
    with w have "k \<notin> set ?waiting" by simp
    then have "k \<notin> set (drop 1 ?waiting)" using in_set_dropD by metis
    then have "waits x k ?closed" using waits_close ms lane by (simp add: waits_update)
    from waits_fork_keep [OF this, of "drop 1 ps" "[]"] have "waits x k ls'" unfolding row(5) f waits_trim snd_conv .
    moreover have "k \<in> set (g_through row)"
      unfolding row(2) indices_iff using ms lane no by (simp add: waits_def)
    ultimately show ?thesis by simp
  qed
  show "k = g_lane row \<or> k \<in> set (g_merged row)" if k: "waits cid k ls"
  proof (cases ?waiting)
    case Nil
    then show ?thesis using w [of k] k by simp
  next
    case (Cons i js)
    then have "lane = i" using n by (simp add: node_lane_def)
    then show ?thesis using w [of k] k Cons row(1,3) by simp
  qed
  show "\<exists>k \<in> insert (g_lane row) (set (g_forked row)). waits x k ls'" if x: "x \<in> set ps"
  proof (cases "x \<in> set (drop 1 ps)")
    case True
    from waits_fork_new [OF this, of ?closed "[]"] show ?thesis unfolding row(4,5) f waits_trim fst_conv snd_conv by blast
  next
    case False
    then obtain qs where ps: "ps = x # qs" using x by (cases ps) auto
    have "lane < length (fold (\<lambda>i ls. ls[i := None]) (drop 1 ?waiting) ms)" using np(1) close_length by metis
    then have "waits x lane ?closed" by (simp add: waits_def ps)
    from waits_fork_keep [OF this, of "drop 1 ps" "[]"] show ?thesis unfolding row(1,5) f waits_trim snd_conv by blast
  qed
qed


section \<open>The page\<close>

lemma graph_loop_Cons:
  assumes "graph_step mx x ls = (row, ls')"
  shows "graph_loop mx (x # xs) ls = row # graph_loop mx xs ls'"
  using assms by simp

declare graph_loop.simps(2) [simp del]

text \<open>A line that is open above a page of other commits runs straight down to the one it waits for.\<close>

lemma line_reaches:
  assumes "waits x k ls" "j < length cs" "fst (cs ! j) = x" "\<forall>i<j. fst (cs ! i) \<noteq> x"
  shows "(\<forall>i<j. k \<in> set (g_through (graph_loop mx cs ls ! i)))
     \<and> (k = g_lane (graph_loop mx cs ls ! j) \<or> k \<in> set (g_merged (graph_loop mx cs ls ! j)))"
  using assms
proof (induction cs arbitrary: j ls)
  case (Cons c cs)
  obtain cid ps where c: "c = (cid, ps)" by (metis surj_pair)
  obtain row ls' where s: "graph_step mx (cid, ps) ls = (row, ls')" by (metis surj_pair)
  note p = graph_step_props [OF s]
  have l: "graph_loop mx (c # cs) ls = row # graph_loop mx cs ls'" unfolding c by (rule graph_loop_Cons [OF s])
  show ?case
  proof (cases j)
    case 0
    then show ?thesis using p(2) Cons.prems l c by simp
  next
    case (Suc i)
    have "x \<noteq> cid" using Cons.prems(4) Suc c by auto
    with Cons.prems(1) have k: "k \<in> set (g_through row)" "waits x k ls'" using p(1) by blast+
    have "i < length cs" "fst (cs ! i) = x" "\<forall>m<i. fst (cs ! m) \<noteq> x" using Cons.prems(2-4) Suc by auto
    from Cons.IH [OF k(2) this] k(1) show ?thesis by (simp add: l Suc All_less_Suc2)
  qed
qed simp

lemma graph_loop_drop:
  "i < length cs \<Longrightarrow> \<exists>ls'. (\<forall>m. graph_loop mx cs ls ! (i + m) = graph_loop mx (drop i cs) ls' ! m)"
proof (induction i arbitrary: cs ls)
  case (Suc i)
  obtain c ds where c: "cs = c # ds" using Suc.prems by (cases cs) auto
  obtain row ls' where s: "graph_step mx c ls = (row, ls')" by (metis surj_pair)
  have "i < length ds" using Suc.prems c by simp
  from Suc.IH [OF this, of ls'] show ?case by (simp add: c graph_loop_Cons [OF s])
qed auto

lemma graph_rows_at:
  assumes "i < length cs"
  shows "\<exists>ls row ls'. graph_step mx (cs ! i) ls = (row, ls') \<and> graph_rows cs mx ! i = row
    \<and> (\<forall>m. graph_rows cs mx ! Suc (i + m) = graph_loop mx (drop (Suc i) cs) ls' ! m)"
proof -
  obtain ls where "\<forall>m. graph_loop mx cs [] ! (i + m) = graph_loop mx (drop i cs) ls ! m"
    using graph_loop_drop [OF assms, of mx "[]"] by (elim exE) (rule that)
  then have ls: "\<forall>m. graph_rows cs mx ! (i + m) = graph_loop mx (drop i cs) ls ! m" unfolding graph_rows_def .
  obtain row ls' where s: "graph_step mx (cs ! i) ls = (row, ls')" by (metis surj_pair)
  have l: "graph_loop mx (drop i cs) ls = row # graph_loop mx (drop (Suc i) cs) ls'"
    unfolding Cons_nth_drop_Suc [OF assms, symmetric] by (rule graph_loop_Cons [OF s])
  have "graph_rows cs mx ! i = row" using ls [THEN spec, of 0] unfolding l by simp
  moreover have "graph_rows cs mx ! Suc (i + m) = graph_loop mx (drop (Suc i) cs) ls' ! m" for m
    using ls [THEN spec, of "Suc m"] unfolding l by simp
  ultimately show ?thesis using s by (intro exI [of _ ls] exI [of _ row] exI [of _ ls'] conjI allI)
qed

lemma later_ids:
  assumes "distinct (map fst cs)" "i < j" "j < length cs"
  shows "\<forall>m < j - Suc i. fst (drop (Suc i) cs ! m) \<noteq> fst (cs ! j)"
proof (intro allI impI)
  fix m
  assume "m < j - Suc i"
  then have m: "Suc i + m < j" by simp
  then have "map fst cs ! (Suc i + m) \<noteq> map fst cs ! j"
    using assms(1,3) by (simp add: nth_eq_iff_index_eq del: nth_map)
  then show "fst (drop (Suc i) cs ! m) \<noteq> fst (cs ! j)" using m assms(3) by simp
qed

text \<open>
  C32. Every edge is drawn. When a parent of a commit is further down the page, one column leads from
  the commit's row (its node, or a fork beside it) straight past every row between them to the
  parent's row, where it is the node or a line merging into it. No order of the page is needed, only
  that it lists no commit twice.
\<close>

theorem every_edge_is_drawn:
  assumes "distinct (map fst cs)" "i < j" "j < length cs" "fst (cs ! j) \<in> set (snd (cs ! i))"
  shows "\<exists>k. k \<in> insert (g_lane (graph_rows cs mx ! i)) (set (g_forked (graph_rows cs mx ! i)))
    \<and> (\<forall>m. i < m \<and> m < j \<longrightarrow> k \<in> set (g_through (graph_rows cs mx ! m)))
    \<and> k \<in> insert (g_lane (graph_rows cs mx ! j)) (set (g_merged (graph_rows cs mx ! j)))"
proof -
  have i: "i < length cs" using assms(2,3) by simp
  obtain ls row ls' where r: "graph_step mx (cs ! i) ls = (row, ls')" "graph_rows cs mx ! i = row"
    "\<And>m. graph_rows cs mx ! Suc (i + m) = graph_loop mx (drop (Suc i) cs) ls' ! m"
    using graph_rows_at [OF i, of mx] by (elim exE conjE) (rule that, assumption+, erule spec)
  have s: "graph_step mx (fst (cs ! i), snd (cs ! i)) ls = (row, ls')" using r(1) by simp
  obtain k where k: "k \<in> insert (g_lane row) (set (g_forked row))" "waits (fst (cs ! j)) k ls'"
    using graph_step_props(3) [OF s assms(4)] by (elim bexE) (rule that)
  obtain n where n: "j = Suc (i + n)" using less_imp_Suc_add [OF assms(2)] by (elim exE) (rule that)
  have "n < length (drop (Suc i) cs)" "fst (drop (Suc i) cs ! n) = fst (cs ! j)" using assms(3) n by simp_all
  moreover have "\<forall>m<n. fst (drop (Suc i) cs ! m) \<noteq> fst (cs ! j)" using later_ids [OF assms(1-3)] n by simp
  ultimately have t: "(\<forall>m<n. k \<in> set (g_through (graph_loop mx (drop (Suc i) cs) ls' ! m)))
     \<and> (k = g_lane (graph_loop mx (drop (Suc i) cs) ls' ! n) \<or> k \<in> set (g_merged (graph_loop mx (drop (Suc i) cs) ls' ! n)))"
    by (rule line_reaches [OF k(2)])
  have "k \<in> set (g_through (graph_rows cs mx ! m))" if m: "i < m" "m < j" for m
  proof -
    obtain q where q: "m = Suc (i + q)" using less_imp_Suc_add [OF m(1)] by (elim exE) (rule that)
    then have "q < n" using m(2) n by simp
    then show ?thesis using t unfolding q r(3) by blast
  qed
  note through = this
  have "k \<in> insert (g_lane (graph_rows cs mx ! j)) (set (g_merged (graph_rows cs mx ! j)))"
    using conjunct2 [OF t] unfolding n r(3) by blast
  with k(1) show ?thesis unfolding r(2)
    by (intro exI [of _ k] conjI allI impI) (assumption, elim conjE, rule through)
qed

definition demo_page :: "(string \<times> string list) list" where
  "demo_page = [(''m'', [''a'', ''b'']), (''b'', [''c'']), (''a'', [''c'']), (''c'', [])]"

theorem every_edge_is_drawn_witness:
  "\<exists>k. k \<in> {0, 1} \<and> k \<in> set (g_through (graph_rows demo_page 8 ! 1)) \<and> k = g_lane (graph_rows demo_page 8 ! 2)"
proof -
  have r: "g_lane (graph_rows demo_page 8 ! 0) = 0" "g_forked (graph_rows demo_page 8 ! 0) = [1]"
    "g_lane (graph_rows demo_page 8 ! 2) = 0" "g_merged (graph_rows demo_page 8 ! 2) = []"
    by code_simp+
  have "distinct (map fst demo_page)" "(0::nat) < 2" "2 < length demo_page" "fst (demo_page ! 2) \<in> set (snd (demo_page ! 0))"
    by (simp_all add: demo_page_def)
  from every_edge_is_drawn [OF this, of 8] show ?thesis unfolding r by auto
qed

end
