(* ===== verification/Verbs.thy ===== *)
theory Verbs
  imports Rust_Str
begin

text \<open>
  The footer of the client's surfaces, from \<open>butai-client/src/verbs.rs\<close>: packing verbs into rows,
  the text drawn for them and the verb a click lands on. Widths are counts of code points, so a text
  is the list of its code points, each the string of its bytes.
\<close>

section \<open>Layout\<close>

type_synonym codes = "string list"

definition code_points :: "string \<Rightarrow> codes" where "code_points = map (\<lambda>c. [c])"

datatype verb_id =
    Stage | Unstage | Discard | Diff | ResolveOurs | ResolveTheirs | ResolveDone | Commit
  | GitMenu | Push | Refresh | Help | CommitAll | Down | Up | First | Last | NextHunk
  | PrevHunk | StageHunk | DiscardHunk | LineSelect | PickLine | Cancel | NewAgent | PickAgent
  | NewShell | Restart | Kill | Menu | Scope | Checkout | DeleteBranch | Merge | Fetch
  | TagDelete | StashPop | StashDrop | OpenWorktree | RemoveWorktree | CopySha | Revert
  | CherryPick | Show | GoToChanges

record verb =
  v_key :: string
  v_label :: codes
  v_id :: verb_id
  v_danger :: bool
  v_footer :: bool

record vspan =
  sp_row :: nat
  sp_start :: nat
  sp_end :: nat
  sp_key :: string

definition SEP :: codes where "SEP = ['' '', [CHR 0xC2, CHR 0xB7], '' '']"

definition key_text :: "verb \<Rightarrow> codes" where
  "key_text v =
     code_points (if v_key v = '' '' then ''space'' else if v_key v = [CHR 0x0A] then ''enter''
      else if v_key v = [CHR 0x09] then ''tab'' else [])"

definition drawn_key :: "verb \<Rightarrow> codes" where
  "drawn_key v = (if key_text v = [] then [v_key v] else key_text v)"

definition cell_width :: "verb \<Rightarrow> nat" where
  "cell_width v = (case key_text v of [] \<Rightarrow> 1 | named \<Rightarrow> length named) + 1 + length (v_label v)"

fun layout_loop :: "nat \<Rightarrow> nat \<Rightarrow> nat \<Rightarrow> nat \<Rightarrow> verb list \<Rightarrow> vspan list" where
  "layout_loop width rows row x [] = []"
| "layout_loop width rows row x (v # vs) =
     (if rows \<le> row then []
      else let w = cell_width v; sep = (if x = 0 then 0 else length SEP)
           in if width < x + sep + w
              then (if width < w then layout_loop width rows row x vs
                    else if rows \<le> row + 1 then []
                    else \<lparr>sp_row = row + 1, sp_start = 0, sp_end = w, sp_key = v_key v\<rparr>
                         # layout_loop width rows (row + 1) w vs)
              else \<lparr>sp_row = row, sp_start = x + sep, sp_end = x + sep + w, sp_key = v_key v\<rparr>
                   # layout_loop width rows row (x + sep + w) vs)"

definition verb_layout :: "verb list \<Rightarrow> nat \<Rightarrow> nat \<Rightarrow> vspan list" where
  "verb_layout verbs width rows = layout_loop width rows 0 0 (filter v_footer verbs)"

section \<open>Drawing and clicking\<close>

definition draw_span :: "verb list \<Rightarrow> vspan \<Rightarrow> codes list \<Rightarrow> codes list" where
  "draw_span verbs s out =
     (case find (\<lambda>v. v_key v = sp_key s) verbs of
        None \<Rightarrow> out
      | Some v \<Rightarrow>
         (let line = out ! sp_row s
          in out[sp_row s := (if line = [] then [] else line @ SEP) @ drawn_key v @ ['' ''] @ v_label v]))"

definition verb_lines :: "verb list \<Rightarrow> nat \<Rightarrow> nat \<Rightarrow> codes list" where
  "verb_lines verbs width rows = fold (draw_span verbs) (verb_layout verbs width rows) (replicate rows [])"

definition rows_needed :: "verb list \<Rightarrow> nat \<Rightarrow> nat \<Rightarrow> nat" where
  "rows_needed verbs width rows = fold (\<lambda>s m. max m (sp_row s + 1)) (verb_layout verbs width rows) 0"

fun hit_loop :: "nat \<Rightarrow> string option \<Rightarrow> vspan list \<Rightarrow> string option" where
  "hit_loop col prev [] = prev"
| "hit_loop col prev (s # ss) = (if col < sp_end s then Some (sp_key s) else hit_loop col (Some (sp_key s)) ss)"

definition verb_hit :: "verb list \<Rightarrow> nat \<Rightarrow> nat \<Rightarrow> nat \<Rightarrow> nat \<Rightarrow> string option" where
  "verb_hit verbs width rows row col = hit_loop col None (filter (\<lambda>s. sp_row s = row) (verb_layout verbs width rows))"


section \<open>What the surfaces offer\<close>

definition mk_verb :: "string \<Rightarrow> string \<Rightarrow> verb_id \<Rightarrow> verb" where
  "mk_verb k l i = \<lparr>v_key = k, v_label = code_points l, v_id = i, v_danger = False, v_footer = True\<rparr>"

definition mk_danger :: "string \<Rightarrow> string \<Rightarrow> verb_id \<Rightarrow> verb" where
  "mk_danger k l i = \<lparr>v_key = k, v_label = code_points l, v_id = i, v_danger = True, v_footer = True\<rparr>"

definition mk_quiet :: "string \<Rightarrow> string \<Rightarrow> verb_id \<Rightarrow> verb" where
  "mk_quiet k l i = \<lparr>v_key = k, v_label = code_points l, v_id = i, v_danger = False, v_footer = False\<rparr>"

definition MAX_ROWS :: nat where "MAX_ROWS = 3"

datatype git_row =
    WorkingTreeRow | ChangeUnstagedRow | ChangeStagedRow | ChangeConflictedRow | BranchRow
  | CurrentBranchRow | BranchElsewhereRow | RemoteBranchRow | RemoteRow | TagRow | StashRow
  | WorktreeRow | ThisWorktreeRow | CommitRow | NoGitRow

fun git_row_verbs :: "git_row \<Rightarrow> verb list" where
  "git_row_verbs WorkingTreeRow =
     [mk_verb [CHR 0x0A] ''diff all'' Diff, mk_verb ''C'' ''changes'' GoToChanges]"
| "git_row_verbs ChangeUnstagedRow =
     [mk_verb [CHR 0x0A] ''diff'' Diff, mk_verb ''s'' ''stage'' Stage,
      mk_danger ''x'' ''discard'' Discard]"
| "git_row_verbs ChangeStagedRow =
     [mk_verb [CHR 0x0A] ''diff'' Diff, mk_verb ''u'' ''unstage'' Unstage]"
| "git_row_verbs ChangeConflictedRow =
     [mk_verb ''o'' ''ours'' ResolveOurs, mk_verb ''t'' ''theirs'' ResolveTheirs,
      mk_verb ''a'' ''resolved'' ResolveDone, mk_quiet [CHR 0x0A] ''diff'' Diff]"
| "git_row_verbs BranchRow =
     [mk_verb [CHR 0x0A] ''scope'' Scope, mk_verb ''c'' ''checkout'' Checkout,
      mk_verb ''m'' ''merge'' Merge, mk_danger ''d'' ''delete'' DeleteBranch]"
| "git_row_verbs CurrentBranchRow =
     [mk_verb [CHR 0x0A] ''scope'' Scope]"
| "git_row_verbs BranchElsewhereRow =
     [mk_verb [CHR 0x0A] ''scope'' Scope, mk_verb ''m'' ''merge'' Merge]"
| "git_row_verbs RemoteBranchRow =
     [mk_verb [CHR 0x0A] ''scope'' Scope, mk_verb ''m'' ''merge'' Merge]"
| "git_row_verbs RemoteRow =
     [mk_verb ''f'' ''fetch'' Fetch]"
| "git_row_verbs TagRow =
     [mk_verb [CHR 0x0A] ''scope'' Scope, mk_danger ''x'' ''delete'' TagDelete]"
| "git_row_verbs StashRow =
     [mk_verb [CHR 0x0A] ''show'' Show, mk_verb ''p'' ''pop'' StashPop,
      mk_danger ''x'' ''drop'' StashDrop]"
| "git_row_verbs WorktreeRow =
     [mk_verb [CHR 0x0A] ''open'' OpenWorktree,
      mk_danger ''x'' ''remove'' RemoveWorktree]"
| "git_row_verbs ThisWorktreeRow =
     []"
| "git_row_verbs CommitRow =
     [mk_verb [CHR 0x0A] ''diff'' Show, mk_verb ''y'' ''sha'' CopySha,
      mk_verb ''v'' ''revert'' Revert, mk_verb ''p'' ''pick'' CherryPick]"
| "git_row_verbs NoGitRow =
     []"

definition git_always_verbs :: "verb list" where
  "git_always_verbs = [mk_verb ''g'' ''git'' GitMenu, mk_verb ''r'' ''refresh'' Refresh,
     mk_verb ''?'' ''keys'' Help]"

definition git_footer :: "git_row \<Rightarrow> verb list" where
  "git_footer r = git_row_verbs r @ git_always_verbs"

text \<open>The verbs of each kind of row that are not listed yet, by key and label.\<close>

definition add_new :: "verb \<Rightarrow> verb list \<Rightarrow> verb list" where
  "add_new v vs = (if list_ex (\<lambda>e. v_key e = v_key v \<and> v_label e = v_label v) vs then vs else vs @ [v])"

definition git_help_verbs :: "verb list" where
  "git_help_verbs =
     fold (\<lambda>r vs. fold add_new (git_row_verbs r) vs)
       [WorkingTreeRow, ChangeUnstagedRow, ChangeStagedRow, ChangeConflictedRow, BranchRow, RemoteBranchRow, RemoteRow,
        TagRow, StashRow, WorktreeRow, CommitRow]
       [mk_quiet ''j'' ''down'' Down, mk_quiet ''k'' ''up'' Up, mk_quiet [CHR 0x09] ''next column'' LineSelect]
     @ git_always_verbs"

datatype changes_row = ConflictFile | UnstagedFile | StagedFile | CommitEntry | NoChangesRow

fun changes_row_verbs :: "changes_row \<Rightarrow> verb list" where
  "changes_row_verbs ConflictFile =
     [mk_verb ''o'' ''ours'' ResolveOurs, mk_verb ''t'' ''theirs'' ResolveTheirs,
      mk_verb ''a'' ''resolved'' ResolveDone, mk_quiet ''d'' ''diff'' Diff]"
| "changes_row_verbs UnstagedFile =
     [mk_verb ''s'' ''stage'' Stage, mk_danger ''x'' ''discard'' Discard,
      mk_verb ''d'' ''diff'' Diff]"
| "changes_row_verbs StagedFile =
     [mk_verb ''u'' ''unstage'' Unstage, mk_verb ''d'' ''diff'' Diff]"
| "changes_row_verbs CommitEntry =
     [mk_verb ''d'' ''show'' Diff]"
| "changes_row_verbs NoChangesRow =
     []"

definition changes_always_verbs :: "nat \<Rightarrow> verb list" where
  "changes_always_verbs ahead =
     (if ahead > 0 then [mk_verb ''p'' ''push'' Push] else [])
     @ [mk_verb ''c'' ''commit'' Commit, mk_verb ''g'' ''git'' GitMenu, mk_verb ''?'' ''keys'' Help,
        mk_quiet ''r'' ''refresh'' Refresh, mk_quiet ''C'' ''stage all + commit'' CommitAll]"

definition add_key :: "verb \<Rightarrow> verb list \<Rightarrow> verb list" where
  "add_key v vs = (if list_ex (\<lambda>e. v_key e = v_key v) vs then vs else vs @ [v])"

definition changes_help_verbs :: "verb list" where
  "changes_help_verbs =
     fold add_key (changes_always_verbs 1)
       (fold (\<lambda>r vs. fold add_new (changes_row_verbs r) vs) [UnstagedFile, StagedFile, ConflictFile, CommitEntry]
         [mk_quiet ''j'' ''down'' Down, mk_quiet ''k'' ''up'' Up])"

definition changes_footer :: "changes_row \<Rightarrow> nat \<Rightarrow> verb list" where
  "changes_footer r ahead = changes_row_verbs r @ changes_always_verbs ahead"

definition changes_footer_rows :: "nat \<Rightarrow> nat" where
  "changes_footer_rows width =
     fold max (concat (map (\<lambda>r. map (\<lambda>ahead. rows_needed (changes_footer r ahead) width MAX_ROWS) [0, 1])
       [ConflictFile, UnstagedFile, StagedFile, CommitEntry])) 1"

definition agents_verbs :: "bool \<Rightarrow> verb list" where
  "agents_verbs pinned =
     (if pinned
      then [mk_verb ''a'' ''new'' NewAgent, mk_verb ''A'' ''new...'' PickAgent, mk_danger ''x'' ''kill'' Kill,
            mk_quiet ''m'' ''menu'' Menu]
      else [mk_verb ''a'' ''new...'' NewAgent, mk_quiet ''A'' ''new...'' PickAgent, mk_danger ''x'' ''kill'' Kill,
            mk_quiet ''m'' ''menu'' Menu])"

definition procs_verbs :: "verb list" where
  "procs_verbs = [mk_verb ''t'' ''new'' NewShell, mk_verb ''r'' ''restart'' Restart, mk_danger ''x'' ''kill'' Kill,
     mk_quiet ''m'' ''menu'' Menu]"

datatype diff_mode = ReadMode | LinesMode

definition diff_verbs :: "diff_mode \<Rightarrow> bool \<Rightarrow> bool \<Rightarrow> verb list" where
  "diff_verbs mode staged mutable =
     (if \<not> mutable
      then [mk_quiet ''j'' ''down'' Down, mk_quiet ''k'' ''up'' Up, mk_verb '']'' ''next hunk'' NextHunk,
            mk_quiet ''['' ''prev hunk'' PrevHunk, mk_verb ''?'' ''keys'' Help]
      else (case mode of
          ReadMode \<Rightarrow>
            [mk_verb '']'' ''next hunk'' NextHunk, mk_quiet ''['' ''prev hunk'' PrevHunk,
             mk_verb '' '' (if staged then ''unstage hunk'' else ''stage hunk'') StageHunk, mk_verb ''v'' ''lines'' LineSelect]
            @ (if staged then [] else [mk_danger ''x'' ''discard'' DiscardHunk])
        | LinesMode \<Rightarrow>
            [mk_verb ''j'' ''next line'' Down, mk_quiet ''k'' ''prev line'' Up, mk_verb '' '' ''pick'' PickLine,
             mk_verb [CHR 0x0A] (if staged then ''unstage picked'' else ''stage picked'') StageHunk,
             mk_verb ''v'' ''done'' Cancel])
        @ [mk_quiet ''r'' ''refresh'' Refresh, mk_verb ''?'' ''keys'' Help])"

section \<open>What is drawn is what is hit\<close>

definition drawn :: "verb \<Rightarrow> codes" where
  "drawn v = drawn_key v @ ['' ''] @ v_label v"

lemma drawn_width: "length (drawn v) = cell_width v" "0 < cell_width v"
  by (auto simp: drawn_def drawn_key_def cell_width_def split: list.split)

lemma SEP_width [simp]: "length SEP = 3"
  by (simp add: SEP_def)

text \<open>The columns a span covers on the rows as drawn.\<close>

definition slice :: "nat \<Rightarrow> nat \<Rightarrow> 'a list \<Rightarrow> 'a list" where
  "slice a b xs = take (b - a) (drop a xs)"

lemma slice_append: "b \<le> length xs \<Longrightarrow> slice a b (xs @ ys) = slice a b xs"
  by (simp add: slice_def)

text \<open>One verb placed on a row whose text so far is as wide as the cursor.\<close>

lemma draw_placed:
  assumes "find (\<lambda>u. v_key u = v_key v) verbs = Some v" "length out = rows" "r < rows" "length (out ! r) = x"
  defines "sep \<equiv> if x = 0 then 0 else length SEP"
  shows "draw_span verbs \<lparr>sp_row = r, sp_start = x + sep, sp_end = x + sep + cell_width v, sp_key = v_key v\<rparr> out
    = out[r := out ! r @ (if x = 0 then [] else SEP) @ drawn v]"
  using assms by (auto simp: draw_span_def drawn_def Let_def)

text \<open>What laying out \<open>vs\<close> from a row on makes of the rows \<open>out\<close>.\<close>

definition laid :: "nat \<Rightarrow> nat \<Rightarrow> nat \<Rightarrow> verb list \<Rightarrow> vspan list \<Rightarrow> codes list \<Rightarrow> codes list \<Rightarrow> bool" where
  "laid width rows row vs ss out out' \<longleftrightarrow> length out' = rows \<and> (\<forall>r<row. out' ! r = out ! r)
     \<and> (row < rows \<longrightarrow> (\<exists>t. out' ! row = out ! row @ t))
     \<and> (\<forall>r. row \<le> r \<and> r < rows \<longrightarrow> length (out' ! r) \<le> width)
     \<and> (\<forall>s \<in> set ss. \<exists>v \<in> set vs. sp_key s = v_key v \<and> sp_row s < rows \<and> sp_end s = sp_start s + cell_width v
          \<and> slice (sp_start s) (sp_end s) (out' ! sp_row s) = drawn v)"

lemma laid_more: "laid width rows row vs ss out out' \<Longrightarrow> laid width rows row (v # vs) ss out out'"
  by (auto simp: laid_def)

lemma slice_here: "length pre = a \<Longrightarrow> b = a + cell_width v \<Longrightarrow> slice a b (pre @ drawn v @ t) = drawn v"
  by (simp add: slice_def drawn_width)

lemma laid_here:
  assumes l: "laid width rows row vs ss (out[row := out ! row @ pre @ drawn v]) out'" and r: "row < rows" "length out = rows"
    and a: "length (out ! row @ pre) = a" "b = a + cell_width v"
  shows "laid width rows row (v # vs) (\<lparr>sp_row = row, sp_start = a, sp_end = b, sp_key = v_key v\<rparr> # ss) out out'"
proof -
  obtain t where t: "out' ! row = (out ! row @ pre) @ drawn v @ t" using l r by (auto simp: laid_def)
  have "slice a b (out' ! row) = drawn v" unfolding t by (rule slice_here [OF a])
  then show ?thesis using l r a(2) t unfolding laid_def by auto
qed

lemma laid_next:
  assumes l: "laid width rows (row + 1) vs ss (out[row + 1 := drawn v]) out'" and r: "row + 1 < rows" "length out = rows"
    and w: "length (out ! row) \<le> width"
  shows "laid width rows row (v # vs) (\<lparr>sp_row = row + 1, sp_start = 0, sp_end = cell_width v, sp_key = v_key v\<rparr> # ss) out out'"
proof -
  obtain t where t: "out' ! (row + 1) = [] @ drawn v @ t" using l r by (auto simp: laid_def)
  have "slice 0 (cell_width v) (out' ! (row + 1)) = drawn v" unfolding t by (rule slice_here) simp_all
  moreover have "out' ! row = out ! row" using l by (simp add: laid_def)
  moreover have "length (out' ! q) \<le> width" if "row \<le> q" "q < rows" for q
    using l w that \<open>out' ! row = out ! row\<close> by (cases "q = row") (auto simp: laid_def)
  ultimately show ?thesis using l r unfolding laid_def by auto
qed

lemma key_found: "distinct (map v_key verbs) \<Longrightarrow> v \<in> set verbs \<Longrightarrow> find (\<lambda>u. v_key u = v_key v) verbs = Some v"
  by (induction verbs) (auto simp: image_iff)

lemma layout_laid:
  assumes d: "distinct (map v_key verbs)"
  shows "set vs \<subseteq> set verbs \<Longrightarrow> length out = rows \<Longrightarrow> (row < rows \<Longrightarrow> length (out ! row) = x) \<Longrightarrow> x \<le> width \<Longrightarrow>
      (\<forall>r. row < r \<and> r < rows \<longrightarrow> out ! r = []) \<Longrightarrow>
    laid width rows row vs (layout_loop width rows row x vs) out (fold (draw_span verbs) (layout_loop width rows row x vs) out)"
proof (induction vs arbitrary: row x out)
  case Nil
  then show ?case by (auto simp: laid_def le_less)
next
  case (Cons v vs)
  let ?w = "cell_width v" and ?sep = "if x = 0 then 0 else length SEP"
  have v: "find (\<lambda>u. v_key u = v_key v) verbs = Some v" using key_found [OF d] Cons.prems(1) by simp
  have vs: "set vs \<subseteq> set verbs" using Cons.prems(1) by simp
  consider (full) "rows \<le> row" | (never) "row < rows" "width < x + ?sep + ?w" "width < ?w"
    | (last) "row < rows" "width < x + ?sep + ?w" "?w \<le> width" "rows \<le> row + 1"
    | (new_row) "row < rows" "width < x + ?sep + ?w" "?w \<le> width" "row + 1 < rows"
    | (here) "row < rows" "x + ?sep + ?w \<le> width" by linarith
  then show ?case
  proof cases
    case full
    then show ?thesis using Cons.prems by (auto simp: laid_def)
  next
    case never
    then have eq: "layout_loop width rows row x (v # vs) = layout_loop width rows row x vs" by (simp add: Let_def)
    show ?thesis unfolding eq using laid_more [OF Cons.IH [OF vs Cons.prems(2-5)]] by simp
  next
    case last
    then have eq: "layout_loop width rows row x (v # vs) = []" by (simp add: Let_def)
    have "length (out ! q) \<le> width" if "row \<le> q" "q < rows" for q
    proof -
      have "q = row" using that last by simp
      then show ?thesis using Cons.prems(3,4) last by simp
    qed
    then show ?thesis unfolding eq using Cons.prems(2) by (simp add: laid_def)
  next
    case new_row
    let ?s = "\<lparr>sp_row = row + 1, sp_start = 0, sp_end = ?w, sp_key = v_key v\<rparr>" and ?out = "out[row + 1 := drawn v]"
    have eq: "layout_loop width rows row x (v # vs) = ?s # layout_loop width rows (row + 1) ?w vs"
      using new_row by (simp add: Let_def)
    have e: "out ! (row + 1) = []" using Cons.prems(5) new_row by simp
    have ds: "draw_span verbs ?s out = ?out"
      using draw_placed [OF v Cons.prems(2) new_row(4), of 0] e by simp
    have "laid width rows (row + 1) vs (layout_loop width rows (row + 1) ?w vs) ?out
        (fold (draw_span verbs) (layout_loop width rows (row + 1) ?w vs) ?out)"
      by (rule Cons.IH [OF vs]) (use Cons.prems(2,5) new_row drawn_width in auto)
    from laid_next [OF this new_row(4) Cons.prems(2)] show ?thesis
      unfolding eq using ds Cons.prems(3,4) new_row(1) by simp
  next
    case here
    let ?s = "\<lparr>sp_row = row, sp_start = x + ?sep, sp_end = x + ?sep + ?w, sp_key = v_key v\<rparr>"
    let ?pre = "if x = 0 then [] else SEP"
    let ?out = "out[row := out ! row @ ?pre @ drawn v]"
    have eq: "layout_loop width rows row x (v # vs) = ?s # layout_loop width rows row (x + ?sep + ?w) vs"
      using here by (simp add: Let_def)
    have ds: "draw_span verbs ?s out = ?out"
      using draw_placed [OF v Cons.prems(2) here(1) Cons.prems(3) [OF here(1)]] by simp
    have "laid width rows row vs (layout_loop width rows row (x + ?sep + ?w) vs) ?out
        (fold (draw_span verbs) (layout_loop width rows row (x + ?sep + ?w) vs) ?out)"
      by (rule Cons.IH [OF vs]) (use Cons.prems(2,3,5) here drawn_width in auto)
    from laid_here [OF this here(1) Cons.prems(2) _ refl] show ?thesis
      unfolding eq using ds Cons.prems(3) [OF here(1)] by (cases "x = 0") simp_all
  qed
qed


definition before :: "vspan \<Rightarrow> vspan \<Rightarrow> bool" where
  "before s t \<longleftrightarrow> sp_row s < sp_row t \<or> sp_row s = sp_row t \<and> sp_end s + 3 \<le> sp_start t"

lemma layout_step:
  "layout_loop width rows row x (v # vs) = layout_loop width rows row x vs
    \<or> layout_loop width rows row x (v # vs) = []
    \<or> layout_loop width rows row x (v # vs)
        = \<lparr>sp_row = row + 1, sp_start = 0, sp_end = cell_width v, sp_key = v_key v\<rparr>
          # layout_loop width rows (row + 1) (cell_width v) vs
    \<or> layout_loop width rows row x (v # vs)
        = \<lparr>sp_row = row, sp_start = x + (if x = 0 then 0 else 3), sp_end = x + (if x = 0 then 0 else 3) + cell_width v,
           sp_key = v_key v\<rparr>
          # layout_loop width rows row (x + (if x = 0 then 0 else 3) + cell_width v) vs"
  by (simp add: Let_def)

lemma layout_order:
  "(\<forall>s \<in> set (layout_loop width rows row x vs). row < sp_row s \<or> sp_row s = row \<and> (if x = 0 then 0 else x + 3) \<le> sp_start s)
   \<and> sorted_wrt before (layout_loop width rows row x vs)"
proof (induction vs arbitrary: row x)
  case (Cons v vs)
  let ?w = "cell_width v" and ?sep = "if x = 0 then 0 else 3 :: nat"
  have w: "0 < ?w" by (rule drawn_width)
  consider (same) "layout_loop width rows row x (v # vs) = layout_loop width rows row x vs"
    | (none) "layout_loop width rows row x (v # vs) = []"
    | (new_row) "layout_loop width rows row x (v # vs)
        = \<lparr>sp_row = row + 1, sp_start = 0, sp_end = ?w, sp_key = v_key v\<rparr> # layout_loop width rows (row + 1) ?w vs"
    | (here) "layout_loop width rows row x (v # vs)
        = \<lparr>sp_row = row, sp_start = x + ?sep, sp_end = x + ?sep + ?w, sp_key = v_key v\<rparr>
          # layout_loop width rows row (x + ?sep + ?w) vs"
    using layout_step [of width rows row x v vs] by (elim disjE) (rule that, assumption)+
  then show ?case
  proof cases
    case same
    then show ?thesis using Cons.IH by simp
  next
    case none
    then show ?thesis by simp
  next
    case new_row
    show ?thesis unfolding new_row using Cons.IH [of "row + 1" ?w] w by (auto simp: before_def)
  next
    case here
    show ?thesis unfolding here using Cons.IH [of row "x + ?sep + ?w"] w by (auto simp: before_def)
  qed
qed simp

lemma hit_at:
  "sorted_wrt (\<lambda>s t. sp_end s \<le> sp_start t) ss \<Longrightarrow> s \<in> set ss \<Longrightarrow> sp_start s \<le> col \<Longrightarrow> col < sp_end s \<Longrightarrow>
   hit_loop col prev ss = Some (sp_key s)"
  by (induction ss arbitrary: prev) auto

text \<open>With keys that differ, every span is drawn where it says and its columns give its key.\<close>

lemma drawn_is_hit_keys:
  assumes "distinct (map v_key verbs)" "s \<in> set (verb_layout verbs width rows)" "sp_start s \<le> col" "col < sp_end s"
  shows "\<exists>v \<in> set verbs. v_footer v \<and> sp_row s < rows \<and> length (verb_lines verbs width rows ! sp_row s) \<le> width
    \<and> slice (sp_start s) (sp_end s) (verb_lines verbs width rows ! sp_row s) = drawn v
    \<and> verb_hit verbs width rows (sp_row s) col = Some (v_key v)"
proof -
  let ?vs = "filter v_footer verbs" and ?ss = "verb_layout verbs width rows" and ?out = "verb_lines verbs width rows"
  have "laid width rows 0 ?vs ?ss (replicate rows []) ?out"
    unfolding verb_layout_def verb_lines_def by (rule layout_laid [OF assms(1)]) auto
  then obtain v where v: "v \<in> set ?vs" "sp_key s = v_key v" "sp_row s < rows" "length (?out ! sp_row s) \<le> width"
    "slice (sp_start s) (sp_end s) (?out ! sp_row s) = drawn v"
    using assms(2) unfolding laid_def by auto
  have "sorted_wrt before ?ss" using layout_order unfolding verb_layout_def by blast
  then have "sorted_wrt before (filter (\<lambda>t. sp_row t = sp_row s) ?ss)" by (rule sorted_wrt_filter)
  then have "sorted_wrt (\<lambda>s t. sp_end s \<le> sp_start t) (filter (\<lambda>t. sp_row t = sp_row s) ?ss)"
    by (rule sorted_wrt_mono_rel [rotated]) (auto simp: before_def)
  then have "verb_hit verbs width rows (sp_row s) col = Some (sp_key s)"
    unfolding verb_hit_def by (rule hit_at) (use assms in auto)
  then show ?thesis using v by auto
qed

text \<open>Every surface that has a footer, with what its verbs depend on.\<close>

datatype surface = GitPage git_row | ChangesRail changes_row nat | AgentsRail bool | ProcsRail | DiffPane diff_mode bool bool

fun surface_verbs :: "surface \<Rightarrow> verb list" where
  "surface_verbs (GitPage r) = git_footer r"
| "surface_verbs (ChangesRail r ahead) = changes_footer r ahead"
| "surface_verbs (AgentsRail pinned) = agents_verbs pinned"
| "surface_verbs ProcsRail = procs_verbs"
| "surface_verbs (DiffPane mode staged mutable) = diff_verbs mode staged mutable"

lemmas verb_tables = git_footer_def git_always_verbs_def changes_footer_def changes_always_verbs_def agents_verbs_def
  procs_verbs_def diff_verbs_def mk_verb_def mk_danger_def mk_quiet_def

lemma surface_keys: "distinct (map v_key (surface_verbs f))"
proof (cases f)
  case (GitPage r)
  then show ?thesis by (cases r) (simp_all add: verb_tables)
next
  case (ChangesRail r ahead)
  then show ?thesis by (cases r) (simp_all add: verb_tables)
next
  case (DiffPane mode staged mutable)
  then show ?thesis by (cases mode) (simp_all add: verb_tables)
qed (simp_all add: verb_tables)

text \<open>
  C33. What is drawn is what is hit. No surface offers one key for two verbs. On every surface, at every
  width, each span of the footer's layout is drawn on its row and in its columns as the key and the
  label of one of the surface's verbs; no row is wider than the surface; and a click on any of those
  columns gives that verb's key.
\<close>

theorem drawn_is_hit:
  assumes "s \<in> set (verb_layout (surface_verbs f) width rows)" "sp_start s \<le> col" "col < sp_end s"
  shows "distinct (map v_key (surface_verbs f))
    \<and> (\<exists>v \<in> set (surface_verbs f). v_footer v \<and> sp_row s < rows
        \<and> length (verb_lines (surface_verbs f) width rows ! sp_row s) \<le> width
        \<and> slice (sp_start s) (sp_end s) (verb_lines (surface_verbs f) width rows ! sp_row s) = drawn v
        \<and> verb_hit (surface_verbs f) width rows (sp_row s) col = Some (v_key v))"
  using drawn_is_hit_keys [OF surface_keys assms] surface_keys by blast

theorem drawn_is_hit_witness:
  "\<exists>v \<in> set (surface_verbs (DiffPane ReadMode False True)). v_id v = StageHunk
     \<and> slice 14 30 (verb_lines (diff_verbs ReadMode False True) 38 2 ! 0) = drawn v"
proof -
  let ?f = "DiffPane ReadMode False True"
  let ?s = "\<lparr>sp_row = 0, sp_start = 14, sp_end = 30, sp_key = '' ''\<rparr>"
  have l: "?s \<in> set (verb_layout (surface_verbs ?f) 38 2)" by code_simp
  from drawn_is_hit [OF l, of 20] obtain v where v: "v \<in> set (surface_verbs ?f)"
    "slice 14 30 (verb_lines (surface_verbs ?f) 38 2 ! 0) = drawn v" "verb_hit (surface_verbs ?f) 38 2 0 20 = Some (v_key v)"
    by auto
  moreover have "verb_hit (surface_verbs ?f) 38 2 0 20 = Some '' ''" by code_simp
  ultimately have "v_key v = '' ''" by simp
  then have "v_id v = StageHunk" using v(1) by (auto simp: verb_tables)
  then show ?thesis using v(1,2) by auto
qed

text \<open>The rows reserved for the rail's footer are enough whatever row is selected.\<close>

lemma fold_max_upper: "(x::nat) \<in> set xs \<or> x \<le> m \<Longrightarrow> x \<le> fold max xs m"
  by (induction xs arbitrary: m) (auto simp: max.coboundedI2 max.coboundedI1)

lemma footer_rows_enough:
  "r \<noteq> NoChangesRow \<Longrightarrow> rows_needed (changes_footer r ahead) width MAX_ROWS \<le> changes_footer_rows width"
proof -
  assume r: "r \<noteq> NoChangesRow"
  have "changes_footer r ahead = changes_footer r (if ahead = 0 then 0 else 1)"
    by (simp add: changes_footer_def changes_always_verbs_def)
  then show ?thesis unfolding changes_footer_rows_def
    by (intro fold_max_upper disjI1) (cases r; use r in \<open>auto split: if_splits\<close>)
qed

end
