(* ===== verification/Links.thy ===== *)
theory Links
  imports Rust_Str "HOL-Library.Sublist"
begin

text \<open>
  The URLs on a drawn row, from \<open>butai-client/src/links.rs\<close>. A row is the list of the code points in
  its cells, each the string of its bytes; a URL is ASCII, so its text is the concatenation of its
  cells.
\<close>

section \<open>Characters\<close>

definition SCHEMES :: "string list" where
  "SCHEMES = [''https://'', ''http://'', ''file://'', ''ftps://'', ''ftp://'', ''ssh://'', ''git://'', ''wss://'', ''ws://'',
     ''mailto:'']"

definition BARE_HOST :: string where "BARE_HOST = ''www.''"
definition BARE_SCHEME :: string where "BARE_SCHEME = ''https://''"
definition MAX_URL :: nat where "MAX_URL = 2048"

definition one_of :: "string \<Rightarrow> string \<Rightarrow> bool" where
  "one_of cs x = (case x of [c] \<Rightarrow> is_alnum c \<or> c \<in> set cs | _ \<Rightarrow> False)"

definition url_char :: "string \<Rightarrow> bool" where
  "url_char = one_of (''-._~:/?#[]@!$&()*+,;=%'' @ [CHR 0x27])"

definition left_boundary :: "string \<Rightarrow> bool" where
  "left_boundary x \<longleftrightarrow> \<not> one_of ''-._~%+@:/'' x"

text \<open>\<open>eq_ignore_ascii_case\<close> of the cells from \<open>i\<close> on with an ASCII word.\<close>

fun matches_from :: "string list \<Rightarrow> string \<Rightarrow> bool" where
  "matches_from cells [] = True"
| "matches_from [] (c # cs) = False"
| "matches_from (x # xs) (c # cs) =
     ((case x of [d] \<Rightarrow> ascii_lower d = ascii_lower c | _ \<Rightarrow> False) \<and> matches_from xs cs)"

definition matches_at :: "string list \<Rightarrow> nat \<Rightarrow> string \<Rightarrow> bool" where
  "matches_at line i word = matches_from (drop i line) word"

definition starts_here :: "string list \<Rightarrow> nat \<Rightarrow> nat option" where
  "starts_here line i =
     (if i > 0 \<and> \<not> left_boundary (line ! (i - 1)) then None
      else case find (matches_at line i) SCHEMES of
        Some scheme \<Rightarrow> Some (length scheme)
      | None \<Rightarrow> if matches_at line i BARE_HOST then Some (length BARE_HOST) else None)"

section \<open>Trimming and judging a run\<close>

definition count_of :: "string \<Rightarrow> string list \<Rightarrow> nat" where
  "count_of c url = length (filter (\<lambda>x. x = c) url)"

definition cut_last :: "string list \<Rightarrow> bool" where
  "cut_last url =
     (let x = last url
      in x \<in> {''.'', '','', '':'', '';'', ''!'', ''?'', [CHR 0x27], ''*'', ''(''}
         \<or> (x = '')'' \<and> count_of ''('' url < count_of '')'' url)
         \<or> (x = '']'' \<and> count_of ''['' url < count_of '']'' url))"

function trim_tail :: "string list \<Rightarrow> string list" where
  "trim_tail url = (if url = [] then [] else if cut_last url then trim_tail (butlast url) else url)"
  by pat_completeness auto
termination
  by (relation "measure length") simp_all

declare trim_tail.simps [simp del]

definition usable :: "string list \<Rightarrow> nat \<Rightarrow> bool" where
  "usable url scheme_len \<longleftrightarrow> scheme_len < length url \<and> length url \<le> MAX_URL
     \<and> list_ex (one_of []) (drop scheme_len url)
     \<and> \<not> (starts_with BARE_HOST (concat url) \<and> ''.'' \<notin> set (drop scheme_len url))"

section \<open>The scan\<close>

record link_span =
  ls_start :: nat
  ls_end :: nat
  ls_url :: string

definition link_url :: "string list \<Rightarrow> string" where
  "link_url trimmed = (if starts_with BARE_HOST (concat trimmed) then BARE_SCHEME @ concat trimmed else concat trimmed)"

text \<open>The run of a link that starts at \<open>i\<close>, trimmed.\<close>

definition run_at :: "string list \<Rightarrow> nat \<Rightarrow> nat \<Rightarrow> string list" where
  "run_at line i scheme_len =
     trim_tail (take scheme_len (drop i line) @ takeWhile url_char (drop (i + scheme_len) line))"

function scan_from :: "string list \<Rightarrow> nat \<Rightarrow> link_span list" where
  "scan_from line i =
     (if length line \<le> i then []
      else case starts_here line i of
        None \<Rightarrow> scan_from line (i + 1)
      | Some scheme_len \<Rightarrow>
         (let trimmed = run_at line i scheme_len;
              end = i + length trimmed;
              rest = scan_from line (max end (i + 1))
          in if usable trimmed scheme_len
             then \<lparr>ls_start = i, ls_end = end, ls_url = link_url trimmed\<rparr> # rest else rest))"
  by pat_completeness auto
termination
  by (relation "measure (\<lambda>(line, i). length line - i)") auto

declare scan_from.simps [simp del]

definition scan_line :: "string list \<Rightarrow> link_span list" where
  "scan_line line = scan_from line 0"


section \<open>What a span covers\<close>

lemma trim_tail_prefix: "\<exists>t. url = trim_tail url @ t"
proof (induction url rule: trim_tail.induct)
  case (1 url)
  show ?case
  proof (cases "url \<noteq> [] \<and> cut_last url")
    case True
    then obtain t where "butlast url = trim_tail (butlast url) @ t" using 1 by auto
    then have "url = trim_tail (butlast url) @ t @ [last url]"
      using True append_butlast_last_id [of url] by (metis append.assoc)
    moreover have "trim_tail url = trim_tail (butlast url)" using True by (subst trim_tail.simps) simp
    ultimately show ?thesis by metis
  next
    case False
    then show ?thesis by (subst trim_tail.simps) auto
  qed
qed

lemma lower_url: "ascii_lower d = ascii_lower c \<Longrightarrow> url_char [c] \<Longrightarrow> url_char [d]"
proof -
  have u: "url_char [x] \<longleftrightarrow> url_char [ascii_lower x]" for x
  proof (cases "is_upper x")
    case True
    then have "is_lower (ascii_lower x)" by (simp add: is_upper_def is_lower_def ascii_lower_def Let_def)
    then show ?thesis using True by (simp add: url_char_def one_of_def is_alnum_def)
  qed (simp add: ascii_lower_def)
  show "ascii_lower d = ascii_lower c \<Longrightarrow> url_char [c] \<Longrightarrow> url_char [d]" using u by metis
qed

lemma matches_from_url:
  "matches_from cells word \<Longrightarrow> list_all (\<lambda>c. url_char [c]) word \<Longrightarrow>
   length word \<le> length cells \<and> list_all url_char (take (length word) cells)"
proof (induction cells word rule: matches_from.induct)
  case (3 x xs c cs)
  then obtain d where "x = [d]" "ascii_lower d = ascii_lower c" by (auto split: list.splits)
  then show ?case using 3 lower_url by auto
qed simp_all

lemma starts_here_url:
  assumes "starts_here line i = Some n"
  shows "i + n \<le> length line \<and> 0 < n \<and> list_all url_char (take n (drop i line)) \<and> (0 < i \<longrightarrow> left_boundary (line ! (i - 1)))
    \<and> (\<exists>word \<in> set (SCHEMES @ [BARE_HOST]). n = length word \<and> matches_at line i word)"
proof -
  have w: "list_all (\<lambda>c. url_char [c]) word" "word \<noteq> []" if "word \<in> set (SCHEMES @ [BARE_HOST])" for word
    using that by (auto simp: SCHEMES_def BARE_HOST_def url_char_def one_of_def is_alnum_def is_lower_def is_upper_def is_digit_def)
  obtain word where word: "word \<in> set (SCHEMES @ [BARE_HOST])" "n = length word" "matches_at line i word"
  proof (cases "find (matches_at line i) SCHEMES")
    case None
    then have "matches_at line i BARE_HOST" "n = length BARE_HOST" using assms by (auto simp: starts_here_def split: if_splits)
    then show thesis using that [of BARE_HOST] by simp
  next
    case (Some w)
    then have "w \<in> set SCHEMES" "matches_at line i w" by (auto simp: find_Some_iff)
    moreover have "n = length w" using Some assms by (auto simp: starts_here_def split: if_splits)
    ultimately show thesis using that [of w] by simp
  qed
  have m: "matches_from (drop i line) word" using word(3) by (simp add: matches_at_def)
  from matches_from_url [OF m w(1) [OF word(1)]] have "length word \<le> length (drop i line)"
    "list_all url_char (take n (drop i line))" using word(2) by auto
  moreover have n: "0 < n" using w(2) [OF word(1)] word(2) by simp
  moreover have "i + n \<le> length line" using calculation(1) n unfolding word(2) length_drop by linarith
  moreover have "0 < i \<longrightarrow> left_boundary (line ! (i - 1))" using assms by (auto simp: starts_here_def split: if_splits)
  ultimately show ?thesis using word by auto
qed

lemma run_at_url:
  assumes "starts_here line i = Some n"
  shows "run_at line i n = take (length (run_at line i n)) (drop i line)"
    "i + length (run_at line i n) \<le> length line" "list_all url_char (run_at line i n)"
proof -
  let ?raw = "take n (drop i line) @ takeWhile url_char (drop (i + n) line)"
  note s = starts_here_url [OF assms]
  obtain u where u: "drop (i + n) line = takeWhile url_char (drop (i + n) line) @ u" using takeWhile_dropWhile_id by metis
  have d: "drop i line = ?raw @ u"
    using append_take_drop_id [of n "drop i line"] u by (simp add: add.commute)
  obtain t where t: "?raw = run_at line i n @ t" using trim_tail_prefix unfolding run_at_def by blast
  have dd: "drop i line = run_at line i n @ t @ u" using d t by (simp only: append.assoc)
  then show "run_at line i n = take (length (run_at line i n)) (drop i line)" by simp
  have "length (drop i line) = length (run_at line i n) + length (t @ u)" unfolding dd by simp
  moreover have "i \<le> length line" using s by simp
  ultimately show "i + length (run_at line i n) \<le> length line" by simp
  have "list_all url_char ?raw" using s by (auto simp: list_all_iff dest: set_takeWhileD)
  then show "list_all url_char (run_at line i n)" unfolding t by simp
qed


section \<open>The spans of a row\<close>

text \<open>A span as it should be: inside the row, at the start of a token, made of what a URL may contain.\<close>

definition sound_span :: "string list \<Rightarrow> link_span \<Rightarrow> bool" where
  "sound_span line s \<longleftrightarrow>
     (let cells = take (ls_end s - ls_start s) (drop (ls_start s) line)
      in ls_start s < ls_end s \<and> ls_end s \<le> length line \<and> ls_end s - ls_start s \<le> MAX_URL \<and> list_all url_char cells
         \<and> ls_url s = link_url cells \<and> (ls_start s = 0 \<or> left_boundary (line ! (ls_start s - 1)))
         \<and> list_ex (matches_at line (ls_start s)) (SCHEMES @ [BARE_HOST]))"

lemma found_sound:
  assumes "starts_here line i = Some n" "usable (run_at line i n) n"
  shows "sound_span line \<lparr>ls_start = i, ls_end = i + length (run_at line i n), ls_url = link_url (run_at line i n)\<rparr>"
proof -
  let ?r = "run_at line i n"
  note r = run_at_url [OF assms(1)] and s = starts_here_url [OF assms(1)]
  have "take (length ?r) (drop i line) = ?r" using r(1) by simp
  moreover have "0 < length ?r" "length ?r \<le> MAX_URL" using assms(2) by (auto simp: usable_def)
  moreover have "list_ex (matches_at line i) (SCHEMES @ [BARE_HOST])" using s unfolding list_ex_iff by blast
  moreover have "i = 0 \<or> left_boundary (line ! (i - 1))" using s by blast
  ultimately show ?thesis using r(2,3) by (simp add: sound_span_def Let_def)
qed

lemma scan_from_none: "i < length line \<Longrightarrow> starts_here line i = None \<Longrightarrow> scan_from line i = scan_from line (i + 1)"
  by (subst scan_from.simps) simp

lemma scan_from_some:
  "i < length line \<Longrightarrow> starts_here line i = Some n \<Longrightarrow> scan_from line i =
     (if usable (run_at line i n) n
      then [\<lparr>ls_start = i, ls_end = i + length (run_at line i n), ls_url = link_url (run_at line i n)\<rparr>] else [])
     @ scan_from line (max (i + length (run_at line i n)) (i + 1))"
  by (subst scan_from.simps) (simp add: Let_def)

lemma scan_sound:
  "list_all (sound_span line) (scan_from line i) \<and> list_all (\<lambda>s. i \<le> ls_start s) (scan_from line i)
   \<and> sorted_wrt (\<lambda>s t. ls_end s \<le> ls_start t) (scan_from line i)"
proof (induction "length line - i" arbitrary: i rule: less_induct)
  case less
  show ?case
  proof (cases "i < length line")
    case False
    then show ?thesis by (subst (1 2 3) scan_from.simps) simp
  next
    case i: True
    show ?thesis
    proof (cases "starts_here line i")
      case None
      have "list_all (\<lambda>s. i + 1 \<le> ls_start s) xs \<Longrightarrow> list_all (\<lambda>s. i \<le> ls_start s) xs" for xs
        by (auto simp: list_all_iff)
      moreover have "length line - (i + 1) < length line - i" using i by simp
      ultimately show ?thesis unfolding scan_from_none [OF i None] using less [of "i + 1"] by blast
    next
      case (Some n)
      let ?j = "max (i + length (run_at line i n)) (i + 1)"
      have j: "i < ?j" "i + length (run_at line i n) \<le> ?j" by simp_all
      then have "length line - ?j < length line - i" using i by linarith
      note rest = less [OF this]
      have "list_all (\<lambda>s. ?j \<le> ls_start s) (scan_from line ?j)" using rest by blast
      then have ge: "\<forall>s \<in> set (scan_from line ?j). ?j \<le> ls_start s" by (simp only: list_all_iff)
      then have ge': "list_all (\<lambda>s. i \<le> ls_start s) (scan_from line ?j)"
        "\<forall>s \<in> set (scan_from line ?j). i + length (run_at line i n) \<le> ls_start s"
        using j unfolding list_all_iff by (meson le_trans less_imp_le)+
      show ?thesis
        unfolding scan_from_some [OF i Some] using rest ge' found_sound [OF Some]
        by (cases "usable (run_at line i n) n") simp_all
    qed
  qed
qed

section \<open>What is read as a link\<close>

text \<open>
  What a link is, told without the loops: at a place where one starts, the run goes to the first character
  no URL may contain, and its text is the longest beginning of that run that ends well, neither in the
  punctuation of a sentence nor in a bracket that nothing opened.
\<close>

definition raw_run :: "string list \<Rightarrow> nat \<Rightarrow> nat \<Rightarrow> string list" where
  "raw_run line i scheme_len = take scheme_len (drop i line) @ takeWhile url_char (drop (i + scheme_len) line)"

definition ends_well :: "string list \<Rightarrow> bool" where
  "ends_well u \<longleftrightarrow> u = [] \<or>
     (last u \<notin> {''.'', '','', '':'', '';'', ''!'', ''?'', [CHR 0x27], ''*'', ''(''}
      \<and> (last u = '')'' \<longrightarrow> count_of '')'' u \<le> count_of ''('' u)
      \<and> (last u = '']'' \<longrightarrow> count_of '']'' u \<le> count_of ''['' u))"

definition longest_good :: "string list \<Rightarrow> string list \<Rightarrow> bool" where
  "longest_good w u \<longleftrightarrow> prefix u w \<and> ends_well u \<and> (\<forall>v. prefix v w \<and> ends_well v \<longrightarrow> length v \<le> length u)"

definition candidate :: "string list \<Rightarrow> nat \<Rightarrow> nat \<Rightarrow> string list \<Rightarrow> bool" where
  "candidate line i n u \<longleftrightarrow> i < length line \<and> starts_here line i = Some n \<and> longest_good (raw_run line i n) u"

lemma ends_well_cut: "ends_well u \<longleftrightarrow> u = [] \<or> \<not> cut_last u"
  by (auto simp: ends_well_def cut_last_def Let_def not_less)

lemma trim_tail_longest: "longest_good w (trim_tail w)"
proof (induction w rule: trim_tail.induct)
  case (1 url)
  show ?case
  proof (cases "url \<noteq> [] \<and> cut_last url")
    case True
    have t: "trim_tail url = trim_tail (butlast url)" using True by (subst trim_tail.simps) simp
    have ih: "longest_good (butlast url) (trim_tail (butlast url))" using 1 True by blast
    have "prefix v (butlast url)" if "prefix v url" "ends_well v" for v
    proof -
      have "v \<noteq> url" using that(2) True by (auto simp: ends_well_cut)
      then show ?thesis using that(1) True by (metis append_butlast_last_id prefix_snoc)
    qed
    moreover have "prefix (butlast url) url" using True by (metis append_butlast_last_id prefixI)
    ultimately show ?thesis using ih unfolding t longest_good_def by (meson prefix_order.trans)
  next
    case False
    have t: "trim_tail url = url" by (subst trim_tail.simps) (use False in auto)
    show ?thesis using False unfolding t longest_good_def ends_well_cut by (auto dest: prefix_length_le)
  qed
qed

lemma longest_good_unique: "longest_good w u \<Longrightarrow> longest_good w v \<Longrightarrow> u = v"
  unfolding longest_good_def prefix_def by (metis append_eq_append_conv le_antisym)

lemma candidate_run: "candidate line i n u \<Longrightarrow> u = run_at line i n"
  using trim_tail_longest longest_good_unique unfolding candidate_def run_at_def raw_run_def by blast

lemma run_candidate: "i < length line \<Longrightarrow> starts_here line i = Some n \<Longrightarrow> candidate line i n (run_at line i n)"
  using trim_tail_longest unfolding candidate_def run_at_def raw_run_def by blast

section \<open>Opening\<close>

definition opens :: "string \<Rightarrow> bool" where
  "opens url = list_ex (\<lambda>s. starts_with s (map ascii_lower url)) SCHEMES"

lemma matches_lower:
  "matches_from xs w \<Longrightarrow> length w \<le> k \<Longrightarrow> starts_with (map ascii_lower w) (map ascii_lower (concat (take k xs)))"
proof (induction xs w arbitrary: k rule: matches_from.induct)
  case (3 x xs c cs)
  then obtain d where x: "x = [d]" "ascii_lower d = ascii_lower c" by (auto split: list.splits)
  from 3(3) obtain m where k: "k = Suc m" "length cs \<le> m" by (cases k) auto
  then show ?case using 3 x by (simp add: starts_with_code)
qed (simp_all add: starts_with_code)

lemma schemes_lower: "list_all (\<lambda>s. map ascii_lower s = s) SCHEMES"
  by code_simp

text \<open>What is found opens, but for a bare host that is not written in small letters.\<close>

lemma found_opens:
  assumes "starts_here line i = Some n" "u = take (length u) (drop i line)" "n \<le> length u"
  shows "opens (link_url u) \<or> matches_at line i BARE_HOST \<and> \<not> starts_with BARE_HOST (concat u)"
proof (cases "starts_with BARE_HOST (concat u)")
  case True
  have "starts_with ''https://'' (map ascii_lower (BARE_SCHEME @ concat u))"
    by (simp add: BARE_SCHEME_def starts_with_code ascii_lower_def is_upper_def)
  then show ?thesis using True by (simp add: opens_def link_url_def SCHEMES_def)
next
  case False
  show ?thesis
  proof (cases "find (matches_at line i) SCHEMES")
    case None
    then show ?thesis using assms(1) False by (auto simp: starts_here_def split: if_splits)
  next
    case (Some w)
    then have w: "w \<in> set SCHEMES" "matches_from (drop i line) w" by (auto simp: find_Some_iff matches_at_def)
    have n: "n = length w" using assms(1) Some by (simp add: starts_here_def split: if_splits)
    have "starts_with (map ascii_lower w) (map ascii_lower (concat u))"
      using matches_lower [OF w(2), of "length u"] assms(2,3) n by simp
    then have "opens (concat u)" using w(1) schemes_lower by (auto simp: opens_def list_ex_iff list_all_iff)
    then show ?thesis using False by (simp add: link_url_def)
  qed
qed

section \<open>Every link is found\<close>

definition span_of :: "nat \<Rightarrow> string list \<Rightarrow> link_span" where
  "span_of i u = \<lparr>ls_start = i, ls_end = i + length u, ls_url = link_url u\<rparr>"

lemma scan_spans: "s \<in> set (scan_from line i) \<Longrightarrow> \<exists>p n u. s = span_of p u \<and> candidate line p n u \<and> usable u n"
proof (induction "length line - i" arbitrary: i rule: less_induct)
  case less
  show ?case
  proof (cases "i < length line")
    case False
    then show ?thesis using less.prems by (subst (asm) scan_from.simps) simp
  next
    case i: True
    show ?thesis
    proof (cases "starts_here line i")
      case None
      then show ?thesis using less i scan_from_none [OF i None] by (metis Suc_eq_plus1 diff_less_mono2 lessI)
    next
      case (Some n)
      let ?j = "max (i + length (run_at line i n)) (i + 1)"
      have "length line - ?j < length line - i" using i by linarith
      then show ?thesis
        using less run_candidate [OF i Some] unfolding scan_from_some [OF i Some]
        by (auto simp: span_of_def split: if_splits)
    qed
  qed
qed

text \<open>A start that is not among the spans lies in a span or in the run of a start that was rejected.\<close>

lemma scan_complete:
  assumes "candidate line p m w" "usable w m"
  shows "i \<le> p \<Longrightarrow> span_of p w \<in> set (scan_from line i)
    \<or> (\<exists>q n u. q < p \<and> p < q + length u \<and> candidate line q n u \<and> (span_of q u \<in> set (scan_from line i) \<or> \<not> usable u n))"
proof (induction "p - i" arbitrary: i rule: less_induct)
  case less
  have i: "i < length line" using less.prems assms(1) by (simp add: candidate_def)
  show ?case
  proof (cases "starts_here line i")
    case None
    then have "i \<noteq> p" using assms(1) by (auto simp: candidate_def)
    then show ?thesis using less.hyps [of "i + 1"] less.prems unfolding scan_from_none [OF i None] by simp
  next
    case (Some n)
    let ?r = "run_at line i n"
    note c = run_candidate [OF i Some] and s = scan_from_some [OF i Some, folded span_of_def]
    show ?thesis
    proof (cases "i = p")
      case True
      then have "m = n" "w = ?r" using assms(1) Some candidate_run by (auto simp: candidate_def)
      then show ?thesis using assms(2) True unfolding s by simp
    next
      case False
      show ?thesis
      proof (cases "p < i + length ?r")
        case True
        have "span_of i ?r \<in> set (scan_from line i) \<or> \<not> usable ?r n" unfolding s by (cases "usable ?r n") simp_all
        then show ?thesis using True False less.prems c by (meson le_neq_implies_less)
      next
        case False
        let ?j = "max (i + length ?r) (i + 1)"
        have j: "?j \<le> p" "p - ?j < p - i" using False \<open>i \<noteq> p\<close> less.prems by auto
        have "set (scan_from line ?j) \<subseteq> set (scan_from line i)" unfolding s by simp
        then show ?thesis using less.hyps [OF j(2) j(1)] by blast
      qed
    qed
  qed
qed

text \<open>
  C34. Links. The spans of a row come in order and do not overlap. Each starts a token with one of the
  schemes or \<open>www.\<close>, lies inside the row, and covers exactly the longest beginning of its run, at most 2048
  characters a URL may contain, that does not end in the punctuation of a sentence or in a bracket nothing
  opened; it opens that text, a bare host with \<open>https://\<close> before it, and is one of the addresses that are
  opened at all, but for a bare host that is not in small letters. And nothing is missed: wherever a usable
  link starts there is its span, unless the place lies in a span that is there already or in the run of an
  earlier start that was rejected.
\<close>

theorem links_are_found:
  "sorted_wrt (\<lambda>s t. ls_end s \<le> ls_start t) (scan_line line)
    \<and> list_all (\<lambda>s. \<exists>n u. candidate line (ls_start s) n u \<and> usable u n \<and> s = span_of (ls_start s) u
         \<and> u = take (length u) (drop (ls_start s) line) \<and> ls_end s \<le> length line \<and> length u \<le> 2048 \<and> list_all url_char u
         \<and> (opens (ls_url s) \<or> matches_at line (ls_start s) BARE_HOST \<and> \<not> starts_with BARE_HOST (concat u))) (scan_line line)
    \<and> (candidate line p m w \<and> usable w m \<longrightarrow> span_of p w \<in> set (scan_line line)
       \<or> (\<exists>q n u. q < p \<and> p < q + length u \<and> candidate line q n u \<and> (span_of q u \<in> set (scan_line line) \<or> \<not> usable u n)))"
proof (intro conjI impI)
  show "sorted_wrt (\<lambda>s t. ls_end s \<le> ls_start t) (scan_line line)" using scan_sound [of line 0] by (simp add: scan_line_def)
  show "span_of p w \<in> set (scan_line line)
       \<or> (\<exists>q n u. q < p \<and> p < q + length u \<and> candidate line q n u \<and> (span_of q u \<in> set (scan_line line) \<or> \<not> usable u n))"
    if "candidate line p m w \<and> usable w m"
    using scan_complete [of line p m w 0] that by (simp add: scan_line_def)
  have "\<exists>n u. candidate line (ls_start s) n u \<and> usable u n \<and> s = span_of (ls_start s) u
         \<and> u = take (length u) (drop (ls_start s) line) \<and> ls_end s \<le> length line \<and> length u \<le> 2048 \<and> list_all url_char u
         \<and> (opens (ls_url s) \<or> matches_at line (ls_start s) BARE_HOST \<and> \<not> starts_with BARE_HOST (concat u))"
    if m: "s \<in> set (scan_line line)" for s
  proof -
    obtain i n u where s: "s = span_of i u" and c: "candidate line i n u" "usable u n"
      using scan_spans m unfolding scan_line_def by blast
    have h: "starts_here line i = Some n" using c(1) by (simp add: candidate_def)
    have u: "u = take (length u) (drop i line)" "i + length u \<le> length line" "list_all url_char u"
      using run_at_url [OF h] candidate_run [OF c(1)] by simp_all
    have l: "n \<le> length u" "length u \<le> 2048" using c(2) by (simp_all add: usable_def MAX_URL_def)
    show ?thesis using c u(2,3) l(2) found_opens [OF h u(1) l(1)] u(1) by (intro exI [of _ n] exI [of _ u]) (simp add: s span_of_def)
  qed
  then show "list_all (\<lambda>s. \<exists>n u. candidate line (ls_start s) n u \<and> usable u n \<and> s = span_of (ls_start s) u
         \<and> u = take (length u) (drop (ls_start s) line) \<and> ls_end s \<le> length line \<and> length u \<le> 2048 \<and> list_all url_char u
         \<and> (opens (ls_url s) \<or> matches_at line (ls_start s) BARE_HOST \<and> \<not> starts_with BARE_HOST (concat u))) (scan_line line)"
    unfolding list_all_iff by blast
qed

theorem links_are_found_witness:
  "\<lparr>ls_start = 4, ls_end = 16, ls_url = ''http://a.b/c''\<rparr> \<in> set (scan_line (map (\<lambda>c. [c]) ''to (http://a.b/c).''))"
proof -
  let ?l = "map (\<lambda>c. [c]) ''to (http://a.b/c).''"
  have s: "starts_here ?l 4 = Some 7" by code_simp
  have r: "run_at ?l 4 7 = map (\<lambda>c. [c]) ''http://a.b/c''" by code_simp
  have u: "usable (run_at ?l 4 7) 7"
    unfolding r usable_def MAX_URL_def by (simp add: one_of_def is_alnum_def is_digit_def is_lower_def is_upper_def starts_with_code BARE_HOST_def)
  have early: "starts_here ?l q = None" if "q < 4" for q
  proof -
    have "list_all (\<lambda>q. starts_here ?l q = None) [0, 1, 2, 3]" by code_simp
    then show ?thesis using that by (auto simp: less_Suc_eq numeral_eq_Suc)
  qed
  have c: "candidate ?l 4 7 (run_at ?l 4 7)" by (rule run_candidate [OF _ s]) code_simp
  have "span_of 4 (run_at ?l 4 7) = \<lparr>ls_start = 4, ls_end = 16, ls_url = ''http://a.b/c''\<rparr>"
    unfolding r span_of_def by code_simp
  then show ?thesis using links_are_found [of ?l 4 7 "run_at ?l 4 7"] c u early by (auto simp: candidate_def [of _ _ _ "_ :: string list"] dest!: early)
qed

text \<open>
  A bare host in capitals is recognised as a link, since the scan does not look at case, but it is given
  no scheme, since the test for that does; opening it is then refused.
\<close>

lemma shouted_host_refused:
  "\<exists>s \<in> set (scan_line (map (\<lambda>c. [c]) ''WWW.A.DE'')). ls_url s = ''WWW.A.DE'' \<and> \<not> opens (ls_url s)"
proof -
  let ?l = "map (\<lambda>c. [c]) ''WWW.A.DE''"
  have s: "starts_here ?l 0 = Some 4" by code_simp
  have r: "run_at ?l 0 4 = ?l" by code_simp
  have u: "usable (run_at ?l 0 4) 4"
    unfolding r usable_def MAX_URL_def by (simp add: one_of_def is_alnum_def is_digit_def is_lower_def is_upper_def starts_with_code BARE_HOST_def)
  have l: "0 < length ?l" by simp
  have "link_url ?l = ''WWW.A.DE''" by (simp add: link_url_def starts_with_code BARE_HOST_def)
  then have "\<lparr>ls_start = 0, ls_end = 8, ls_url = ''WWW.A.DE''\<rparr> \<in> set (scan_from ?l 0)"
    unfolding scan_from_some [OF l s] using u unfolding r by simp
  moreover have "\<not> opens ''WWW.A.DE''" by code_simp
  ultimately show ?thesis unfolding scan_line_def by force
qed

end
