(* ===== verification/Ssh_Config.thy ===== *)
theory Ssh_Config
  imports Names "HOL-Library.While_Combinator" "HOL-Library.List_Lexorder" "HOL-Library.Char_ord"
begin

text \<open>
  The hosts the client offers to connect to, from \<open>butai-client/src/ssh_config.rs\<close>: reading an ssh
  configuration with its includes, and the wildcard match of a glob. The file system is the record
  \<open>files\<close>: the home directory, the text of a file, its canonical path and the regular files of a directory.
\<close>

section \<open>Globs\<close>

record glob_state =
  gp :: nat
  gn :: nat
  star :: "nat option"
  rewind :: nat

text \<open>One turn of the loop; \<open>None\<close> is the return of false.\<close>

definition glob_step :: "string list \<Rightarrow> string list \<Rightarrow> glob_state \<Rightarrow> glob_state option" where
  "glob_step p n s =
     (if gp s < length p \<and> (p ! gp s = ''?'' \<or> p ! gp s = n ! gn s)
      then Some (s\<lparr>gp := gp s + 1, gn := gn s + 1\<rparr>)
      else if gp s < length p \<and> p ! gp s = ''*''
      then Some (s\<lparr>star := Some (gp s), rewind := gn s, gp := gp s + 1\<rparr>)
      else case star s of
        Some k \<Rightarrow> Some (s\<lparr>gp := k + 1, rewind := rewind s + 1, gn := rewind s + 1\<rparr>)
      | None \<Rightarrow> None)"

definition glob_init :: glob_state where
  "glob_init = \<lparr>gp = 0, gn = 0, star = None, rewind = 0\<rparr>"

definition glob_loop :: "string list \<Rightarrow> string list \<Rightarrow> glob_state option option" where
  "glob_loop p n = while_option (\<lambda>s. case s of None \<Rightarrow> False | Some s \<Rightarrow> gn s < length n)
     (\<lambda>s. glob_step p n (the s)) (Some glob_init)"

text \<open>\<open>glob_match\<close>; \<open>None\<close> would be a loop that does not end.\<close>

definition glob_match :: "string \<Rightarrow> string \<Rightarrow> bool option" where
  "glob_match pattern name =
     (let p = uchars pattern; n = uchars name
      in map_option (\<lambda>s. case s of None \<Rightarrow> False | Some s \<Rightarrow> list_all (\<lambda>c. c = ''*'') (drop (gp s) p)) (glob_loop p n))"

text \<open>What a glob means: a star is any run of characters, a question mark any one.\<close>

fun globs :: "string list \<Rightarrow> string list \<Rightarrow> bool" where
  "globs [] n = (n = [])"
| "globs (c # p) n =
     (if c = ''*'' then list_ex (\<lambda>k. globs p (drop k n)) [0..<Suc (length n)]
      else case n of [] \<Rightarrow> False | x # xs \<Rightarrow> (c = ''?'' \<or> c = x) \<and> globs p xs)"


section \<open>The loop decides the glob\<close>

lemma globs_star: "globs (''*'' # p) n \<longleftrightarrow> (\<exists>k \<le> length n. globs p (drop k n))"
proof -
  have "globs (''*'' # p) n \<longleftrightarrow> (\<exists>k \<in> {0..<Suc (length n)}. globs p (drop k n))"
    unfolding globs.simps list_ex_iff set_upt by simp
  then show ?thesis by (simp only: atLeastLessThan_iff less_Suc_eq_le le0 simp_thms Bex_def)
qed

lemma globs_char: "c \<noteq> ''*'' \<Longrightarrow> globs (c # p) (x # n) \<longleftrightarrow> (c = ''?'' \<or> c = x) \<and> globs p n"
  by simp

lemma globs_nil: "globs p [] \<longleftrightarrow> list_all (\<lambda>c. c = ''*'') p"
  by (induction p) auto

declare globs.simps(2) [simp del]

definition fits :: "string list \<Rightarrow> string list \<Rightarrow> bool" where
  "fits = list_all2 (\<lambda>c x. c \<noteq> ''*'' \<and> (c = ''?'' \<or> c = x))"

lemma globs_segment:
  "list_all (\<lambda>c. c \<noteq> ''*'') seg \<Longrightarrow>
   globs (seg @ q) n \<longleftrightarrow> length seg \<le> length n \<and> fits seg (take (length seg) n) \<and> globs q (drop (length seg) n)"
proof (induction seg arbitrary: n)
  case (Cons c seg)
  then show ?case
    by (cases n) (auto simp: globs.simps fits_def)
qed (simp add: fits_def)

lemma fits_no_star: "fits seg xs \<Longrightarrow> list_all (\<lambda>c. c \<noteq> ''*'') seg"
  unfolding fits_def by (induction rule: list_all2_induct) simp_all

text \<open>The part of the pattern after the last star that has been matched, and where it began.\<close>

definition attempt :: "string list \<Rightarrow> string list \<Rightarrow> nat \<Rightarrow> glob_state \<Rightarrow> bool" where
  "attempt p n k s \<longleftrightarrow> rewind s \<le> gn s \<and> gp s = k + 1 + (gn s - rewind s)
     \<and> fits (take (gn s - rewind s) (drop (k + 1) p)) (take (gn s - rewind s) (drop (rewind s) n))
     \<and> (globs p n \<longleftrightarrow> (\<exists>j. rewind s \<le> j \<and> j \<le> length n \<and> globs (drop (k + 1) p) (drop j n)))"

definition glob_inv :: "string list \<Rightarrow> string list \<Rightarrow> glob_state option \<Rightarrow> bool" where
  "glob_inv p n r \<longleftrightarrow>
     (case r of
        None \<Rightarrow> \<not> globs p n
      | Some s \<Rightarrow> gp s \<le> length p \<and> gn s \<le> length n
          \<and> (case star s of None \<Rightarrow> (globs p n \<longleftrightarrow> globs (drop (gp s) p) (drop (gn s) n)) | Some k \<Rightarrow> attempt p n k s))"

text \<open>What is left of the pattern after the matched part, seen from the star.\<close>

lemma attempt_split:
  assumes "attempt p n k s" "gp s \<le> length p" "gn s \<le> length n"
  defines "m \<equiv> gn s - rewind s"
  shows "drop (k + 1) p = take m (drop (k + 1) p) @ drop (gp s) p" "length (take m (drop (k + 1) p)) = m"
    "list_all (\<lambda>c. c \<noteq> ''*'') (take m (drop (k + 1) p))"
    "drop m (drop (rewind s) n) = drop (gn s) n"
proof -
  note a = assms(1) [unfolded attempt_def]
  have gp: "gp s = k + 1 + m" using a by (simp add: m_def)
  show "drop (k + 1) p = take m (drop (k + 1) p) @ drop (gp s) p"
    using append_take_drop_id [of m "drop (k + 1) p"] unfolding gp by (simp add: add.commute)
  show "length (take m (drop (k + 1) p)) = m" using assms(2) unfolding gp by simp
  show "list_all (\<lambda>c. c \<noteq> ''*'') (take m (drop (k + 1) p))" using a fits_no_star unfolding m_def by blast
  show "drop m (drop (rewind s) n) = drop (gn s) n" using a by (simp add: m_def)
qed

text \<open>The current attempt succeeds exactly when the rest of the pattern matches the rest of the name.\<close>

lemma attempt_now:
  assumes "attempt p n k s" "gp s \<le> length p" "gn s \<le> length n"
  shows "globs (drop (k + 1) p) (drop (rewind s) n) \<longleftrightarrow> globs (drop (gp s) p) (drop (gn s) n)"
proof -
  note sp = attempt_split [OF assms]
  let ?m = "gn s - rewind s"
  let ?seg = "take ?m (drop (k + 1) p)"
  have "fits ?seg (take ?m (drop (rewind s) n))" using assms(1) by (simp add: attempt_def)
  moreover have "?m \<le> length (drop (rewind s) n)" using assms(3) by simp
  moreover have "globs (?seg @ drop (gp s) p) (drop (rewind s) n) \<longleftrightarrow>
      length ?seg \<le> length (drop (rewind s) n) \<and> fits ?seg (take (length ?seg) (drop (rewind s) n))
      \<and> globs (drop (gp s) p) (drop (length ?seg) (drop (rewind s) n))"
    by (rule globs_segment [OF sp(3)])
  ultimately show ?thesis unfolding sp(1) [symmetric] sp(2) sp(4) by blast
qed

lemma globs_star_earlier:
  assumes "globs (''*'' # p) (drop a n)" "b \<le> a"
  shows "globs (''*'' # p) (drop b n)"
proof -
  obtain k where k: "k \<le> length (drop a n)" "globs p (drop k (drop a n))" using assms(1) globs_star by blast
  show ?thesis
  proof (cases "a \<le> length n")
    case True
    then have "a - b + k \<le> length (drop b n)" "drop (a - b + k) (drop b n) = drop k (drop a n)"
      using k(1) assms(2) by (simp_all add: add.commute)
    then show ?thesis using k(2) globs_star by metis
  next
    case False
    then have "globs p (drop (length (drop b n)) (drop b n))" using k by simp
    then show ?thesis using globs_star by blast
  qed
qed

lemma inv_char:
  assumes "glob_inv p n (Some s)" "gn s < length n" "gp s < length p" "p ! gp s \<noteq> ''*''"
    "p ! gp s = ''?'' \<or> p ! gp s = n ! gn s"
  shows "glob_inv p n (Some (s\<lparr>gp := gp s + 1, gn := gn s + 1\<rparr>))"
proof (cases "star s")
  case None
  have "globs (drop (gp s) p) (drop (gn s) n) \<longleftrightarrow> globs (drop (gp s + 1) p) (drop (gn s + 1) n)"
    using Cons_nth_drop_Suc [OF assms(3), symmetric] Cons_nth_drop_Suc [OF assms(2), symmetric]
      globs_char [OF assms(4)] assms(5) by simp
  then show ?thesis using assms None by (simp add: glob_inv_def)
next
  case (Some k)
  then have a: "attempt p n k s" using assms(1) by (simp add: glob_inv_def)
  let ?m = "gn s - rewind s"
  have m: "gn s + 1 - rewind s = Suc ?m" "gp s = k + 1 + ?m" "gn s = rewind s + ?m"
    using a by (simp_all add: attempt_def Suc_diff_le)
  have "?m < length (drop (k + 1) p)" "drop (k + 1) p ! ?m = p ! gp s" using assms(3) m(2) by simp_all
  then have p': "take (Suc ?m) (drop (k + 1) p) = take ?m (drop (k + 1) p) @ [p ! gp s]"
    by (simp only: take_Suc_conv_app_nth)
  have "?m < length (drop (rewind s) n)" "drop (rewind s) n ! ?m = n ! gn s" using assms(2) m(3) by simp_all
  then have n': "take (Suc ?m) (drop (rewind s) n) = take ?m (drop (rewind s) n) @ [n ! gn s]"
    by (simp only: take_Suc_conv_app_nth)
  have "fits (take (Suc ?m) (drop (k + 1) p)) (take (Suc ?m) (drop (rewind s) n))"
    unfolding p' n' fits_def using a assms(4,5) by (auto simp: attempt_def fits_def intro: list_all2_appendI)
  then have "attempt p n k (s\<lparr>gp := gp s + 1, gn := gn s + 1\<rparr>)"
    using a m by (simp add: attempt_def)
  then show ?thesis using assms Some by (simp add: glob_inv_def)
qed

lemma attempt_from_star:
  assumes "attempt p n k s" "gp s \<le> length p" "gn s \<le> length n" "drop (gp s) p = ''*'' # q"
  shows "globs p n \<longleftrightarrow> globs (drop (gp s) p) (drop (gn s) n)"
proof
  note sp = attempt_split [OF assms(1-3)]
  let ?m = "gn s - rewind s"
  let ?seg = "take ?m (drop (k + 1) p)"
  assume "globs p n"
  then obtain j where j: "rewind s \<le> j" "j \<le> length n" "globs (drop (k + 1) p) (drop j n)"
    using assms(1) by (auto simp: attempt_def)
  then have "globs (?seg @ drop (gp s) p) (drop j n)" using sp(1) by simp
  then have "globs (drop (gp s) p) (drop (?m + j) n)"
    using globs_segment [OF sp(3)] sp(2) by (simp add: add.commute)
  moreover have "gn s \<le> ?m + j" using j(1) by simp
  ultimately show "globs (drop (gp s) p) (drop (gn s) n)" unfolding assms(4) by (rule globs_star_earlier)
next
  assume "globs (drop (gp s) p) (drop (gn s) n)"
  then have "globs (drop (k + 1) p) (drop (rewind s) n)" using attempt_now [OF assms(1-3)] by simp
  then show "globs p n" using assms(1,3) unfolding attempt_def by (meson le_refl le_trans)
qed

lemma inv_star:
  assumes "glob_inv p n (Some s)" "gn s < length n" "gp s < length p" "p ! gp s = ''*''"
  shows "glob_inv p n (Some (s\<lparr>star := Some (gp s), rewind := gn s, gp := gp s + 1\<rparr>))"
proof -
  have d: "drop (gp s) p = ''*'' # drop (gp s + 1) p"
    using Cons_nth_drop_Suc [OF assms(3), symmetric] assms(4) by simp
  have "globs p n \<longleftrightarrow> globs (drop (gp s) p) (drop (gn s) n)"
  proof (cases "star s")
    case (Some k)
    then have "attempt p n k s" using assms(1) by (simp add: glob_inv_def)
    from attempt_from_star [OF this _ _ d] show ?thesis using assms by simp
  qed (use assms(1) in \<open>simp add: glob_inv_def\<close>)
  also have "\<dots> \<longleftrightarrow> (\<exists>k \<le> length (drop (gn s) n). globs (drop (gp s + 1) p) (drop k (drop (gn s) n)))"
    unfolding d globs_star by simp
  also have "\<dots> \<longleftrightarrow> (\<exists>j. gn s \<le> j \<and> j \<le> length n \<and> globs (drop (gp s + 1) p) (drop j n))" (is "?A \<longleftrightarrow> ?B")
  proof
    assume ?A
    then obtain k where "k \<le> length n - gn s" "globs (drop (gp s + 1) p) (drop (k + gn s) n)"
      unfolding length_drop drop_drop by blast
    then show ?B using assms(2) by (intro exI [of _ "k + gn s"]) simp
  next
    assume ?B
    then obtain j where j: "gn s \<le> j" "j \<le> length n" "globs (drop (gp s + 1) p) (drop j n)" by blast
    then have "j - gn s \<le> length (drop (gn s) n)" "drop (j - gn s) (drop (gn s) n) = drop j n" by simp_all
    then show ?A using j(3) by metis
  qed
  finally show ?thesis using assms by (simp add: glob_inv_def attempt_def fits_def)
qed

text \<open>The rest of the pattern cannot match here: its first character is another one, or there is none.\<close>

lemma stuck_here:
  assumes "gn s < length n" "n ! gn s \<noteq> ''*''" "gp s \<le> length p"
    "\<not> (gp s < length p \<and> (p ! gp s = ''?'' \<or> p ! gp s = n ! gn s))"
    "\<not> (gp s < length p \<and> p ! gp s = ''*'')"
  shows "\<not> globs (drop (gp s) p) (drop (gn s) n)"
proof (cases "gp s < length p")
  case True
  then show ?thesis
    using Cons_nth_drop_Suc [OF True, symmetric] Cons_nth_drop_Suc [OF assms(1), symmetric]
      globs_char assms(4,5) by simp
next
  case False
  then show ?thesis using assms(1) by simp
qed

lemma inv_rewind:
  assumes "glob_inv p n (Some s)" "gn s < length n" "star s = Some k"
    "\<not> globs (drop (gp s) p) (drop (gn s) n)"
  shows "glob_inv p n (Some (s\<lparr>gp := k + 1, rewind := rewind s + 1, gn := rewind s + 1\<rparr>))"
proof -
  have a: "attempt p n k s" "gp s \<le> length p" "gn s \<le> length n" using assms(1,3) by (simp_all add: glob_inv_def)
  have no: "\<not> globs (drop (k + 1) p) (drop (rewind s) n)" using attempt_now [OF a] assms(4) by simp
  have "(\<exists>j. rewind s \<le> j \<and> j \<le> length n \<and> globs (drop (k + 1) p) (drop j n))
      \<longleftrightarrow> (\<exists>j. rewind s + 1 \<le> j \<and> j \<le> length n \<and> globs (drop (k + 1) p) (drop j n))"
    using no by (metis Suc_eq_plus1 Suc_leD Suc_leI le_neq_implies_less)
  moreover have "k + 1 \<le> length p" using a(1) [unfolded attempt_def] a(2) by linarith
  moreover have "rewind s + 1 \<le> length n" using a(1) assms(2) by (simp add: attempt_def)
  ultimately show ?thesis using a(1) assms(3) by (simp add: glob_inv_def attempt_def fits_def)
qed

lemma glob_inv_step:
  assumes "glob_inv p n (Some s)" "gn s < length n" "''*'' \<notin> set n"
  shows "glob_inv p n (glob_step p n s)"
proof -
  have ne: "n ! gn s \<noteq> ''*''" using assms(2,3) by (metis nth_mem)
  have le: "gp s \<le> length p" using assms(1) by (simp add: glob_inv_def)
  consider (char) "gp s < length p \<and> (p ! gp s = ''?'' \<or> p ! gp s = n ! gn s)"
    | (stars) "\<not> (gp s < length p \<and> (p ! gp s = ''?'' \<or> p ! gp s = n ! gn s))" "gp s < length p \<and> p ! gp s = ''*''"
    | (stuck) "\<not> (gp s < length p \<and> (p ! gp s = ''?'' \<or> p ! gp s = n ! gn s))" "\<not> (gp s < length p \<and> p ! gp s = ''*'')"
    by blast
  then show ?thesis
  proof cases
    case char
    moreover have "p ! gp s \<noteq> ''*''" using char ne by auto
    ultimately show ?thesis using inv_char [OF assms(1,2)] by (simp add: glob_step_def)
  next
    case stars
    then show ?thesis using inv_star [OF assms(1,2)] by (simp add: glob_step_def)
  next
    case stuck
    note no = stuck_here [OF assms(2) ne le stuck]
    show ?thesis
    proof (cases "star s")
      case None
      then show ?thesis using stuck no assms(1) by (auto simp: glob_step_def glob_inv_def)
    next
      case (Some k)
      then show ?thesis using stuck inv_rewind [OF assms(1,2) Some no] by (auto simp: glob_step_def)
    qed
  qed
qed

lemma inv_end:
  assumes "glob_inv p n (Some s)" "\<not> gn s < length n"
  shows "list_all (\<lambda>c. c = ''*'') (drop (gp s) p) \<longleftrightarrow> globs p n"
proof (cases "star s")
  case None
  then show ?thesis using assms globs_nil by (simp add: glob_inv_def)
next
  case (Some k)
  have a: "attempt p n k s" "gp s \<le> length p" "gn s \<le> length n" using assms(1) Some by (simp_all add: glob_inv_def)
  note sp = attempt_split [OF a]
  have now: "globs (drop (k + 1) p) (drop (rewind s) n) \<longleftrightarrow> list_all (\<lambda>c. c = ''*'') (drop (gp s) p)"
    using attempt_now [OF a] assms(2) globs_nil by simp
  have "j = rewind s" if "rewind s \<le> j" "j \<le> length n" "globs (drop (k + 1) p) (drop j n)" for j
  proof -
    have "gn s - rewind s \<le> length (drop j n)"
      using that(3) globs_segment [OF sp(3)] sp(1,2) by metis
    then show ?thesis using that(1,2) a(3) assms(2) by simp
  qed
  moreover have "rewind s \<le> length n" using a by (simp add: attempt_def)
  ultimately have "globs p n \<longleftrightarrow> globs (drop (k + 1) p) (drop (rewind s) n)"
    using a(1) unfolding attempt_def by (metis le_refl)
  then show ?thesis using now by simp
qed

text \<open>What every turn makes smaller: a later star, else a later start of the attempt, else less to read.\<close>

definition glob_measure :: "nat \<Rightarrow> nat \<Rightarrow> glob_state option \<Rightarrow> nat \<times> nat \<times> nat" where
  "glob_measure lp ln r =
     (case r of
        None \<Rightarrow> (0, 0, 0)
      | Some s \<Rightarrow> (Suc (case star s of None \<Rightarrow> lp | Some k \<Rightarrow> lp - Suc k), ln - rewind s, ln - gn s))"

definition glob_bound :: "string list \<Rightarrow> string list \<Rightarrow> glob_state option \<Rightarrow> bool" where
  "glob_bound p n r \<longleftrightarrow>
     (case r of
        None \<Rightarrow> True
      | Some s \<Rightarrow> gp s \<le> length p \<and> gn s \<le> length n \<and> rewind s \<le> gn s
          \<and> (case star s of None \<Rightarrow> True | Some k \<Rightarrow> k < gp s))"

lemma bound_step: "glob_bound p n (Some s) \<Longrightarrow> gn s < length n \<Longrightarrow> glob_bound p n (glob_step p n s)"
  by (auto simp: glob_bound_def glob_step_def split: option.splits)

lemma step_measure:
  assumes "glob_bound p n (Some s)" "gn s < length n"
  shows "(glob_measure (length p) (length n) (glob_step p n s), glob_measure (length p) (length n) (Some s))
    \<in> less_than <*lex*> less_than <*lex*> less_than"
  using assms by (auto simp: glob_bound_def glob_measure_def glob_step_def split: option.splits)

lemma glob_ends: "\<exists>r. glob_loop p n = Some r"
  unfolding glob_loop_def
proof (rule wf_rel_while_option_Some [where P = "glob_bound p n"
      and R = "inv_image (less_than <*lex*> less_than <*lex*> less_than) (glob_measure (length p) (length n))"])
  show "glob_bound p n (Some glob_init)" by (simp add: glob_bound_def glob_init_def)
qed (auto simp: bound_step step_measure split: option.splits)

lemma glob_loop_result:
  assumes "glob_loop p n = Some r" "''*'' \<notin> set n"
  shows "glob_inv p n r" "\<And>s. r = Some s \<Longrightarrow> \<not> gn s < length n"
proof -
  show "glob_inv p n r"
    by (rule while_option_rule [OF _ assms(1) [unfolded glob_loop_def]])
      (auto simp: glob_inv_step assms(2) split: option.splits, simp add: glob_inv_def glob_init_def)
  show "\<not> gn s < length n" if "r = Some s" for s
    using while_option_stop [OF assms(1) [unfolded glob_loop_def]] that by simp
qed

text \<open>
  C31. The wildcard match of an included file's name ends, and it says what the pattern means - a star
  any run of characters, a question mark any one - for every pattern and every name with no star in it.
\<close>

theorem glob_decides:
  assumes "''*'' \<notin> set (uchars name)"
  shows "glob_match pattern name = Some (globs (uchars pattern) (uchars name))"
proof -
  obtain r where r: "glob_loop (uchars pattern) (uchars name) = Some r" using glob_ends by blast
  note res = glob_loop_result [OF r assms]
  show ?thesis
  proof (cases r)
    case None
    then show ?thesis using r res(1) by (simp add: glob_match_def glob_inv_def)
  next
    case (Some s)
    then show ?thesis using r inv_end [OF res(1) [unfolded Some] res(2) [OF Some]] by (simp add: glob_match_def)
  qed
qed

lemma glob_decides_witness:
  "glob_match ''*.co?f'' ''a.b.conf'' = Some (globs (uchars ''*.co?f'') (uchars ''a.b.conf''))
    \<and> globs (uchars ''*.co?f'') (uchars ''a.b.conf'')"
proof -
  have "''*'' \<notin> set (uchars ''a.b.conf'')" by code_simp
  from glob_decides [OF this] have "glob_match ''*.co?f'' ''a.b.conf'' = Some (globs (uchars ''*.co?f'') (uchars ''a.b.conf''))" .
  moreover have "globs (uchars ''*.co?f'') (uchars ''a.b.conf'')" by code_simp
  ultimately show ?thesis by blast
qed

text \<open>
  A star in the name is taken for the star of the pattern, which then matches itself only: the
  comparison of the characters comes before the test for a star.
\<close>

lemma star_in_name:
  "globs (uchars ''*x'') (uchars ''*ax'')" "glob_match ''*x'' ''*ax'' = Some False"
proof -
  show "globs (uchars ''*x'') (uchars ''*ax'')" by code_simp
  show "glob_match ''*x'' ''*ax'' = Some False" by code_simp
qed


section \<open>The hosts\<close>

record ssh_host =
  host_alias :: string
  hostname :: "string option"
  ssh_port :: "nat option"
  ssh_user :: "string option"

text \<open>\<open>detail\<close>: the second column of a row of the picker.\<close>

definition detail :: "ssh_host \<Rightarrow> string option" where
  "detail h =
     (if hostname h = None \<and> ssh_user h = None \<and> ssh_port h = None then None
      else Some ((case ssh_user h of Some u \<Rightarrow> u @ ''@'' | None \<Rightarrow> [])
        @ (case hostname h of Some n \<Rightarrow> n | None \<Rightarrow> host_alias h)
        @ (case ssh_port h of Some p \<Rightarrow> if p = 22 then [] else '':'' @ show_nat p | None \<Rightarrow> [])))"

record files =
  home_dir :: "path option"
  text_of :: "path \<Rightarrow> string option"
  canonical :: "path \<Rightarrow> path"
  regular :: "path \<Rightarrow> string list option"

definition include_base :: "files \<Rightarrow> string \<Rightarrow> path \<Rightarrow> path option" where
  "include_base w value includer =
     (case strip_prefix ''~/'' value of
        Some rest \<Rightarrow> map_option (\<lambda>home. join_path home rest) (home_dir w)
      | None \<Rightarrow>
          if starts_with ''/'' value then Some value
          else
            let dir = (case home_dir w of
                Some h \<Rightarrow> join_path h ''.ssh''
              | None \<Rightarrow> (case parent includer of Some d \<Rightarrow> d | None \<Rightarrow> []))
            in Some (join_path dir value))"

definition expand_include :: "files \<Rightarrow> string \<Rightarrow> path \<Rightarrow> path list" where
  "expand_include w value includer =
     (case include_base w value includer of None \<Rightarrow> []
      | Some base \<Rightarrow> (case file_name base of None \<Rightarrow> []
        | Some name \<Rightarrow>
            if \<not> contains ''*'' name \<and> \<not> contains ''?'' name then [base]
            else (case parent base of None \<Rightarrow> []
              | Some dir \<Rightarrow> (case regular w dir of None \<Rightarrow> []
                | Some entries \<Rightarrow>
                    map (join_path dir) (sort (filter (\<lambda>f. glob_match name f = Some True) entries))))))"

text \<open>The variables of \<open>parse_into\<close>; the rows so far and the files read are shared by the includes.\<close>

record rows =
  out :: "ssh_host list"
  seen :: "path list"

record parsing =
  pending :: "string list"
  at_host :: "string option"
  at_port :: "nat option"
  at_user :: "string option"

definition wildcard :: "string \<Rightarrow> bool" where
  "wildcard a \<longleftrightarrow> contains ''*'' a \<or> contains ''?'' a \<or> starts_with ''!'' a"

definition flush_rows :: "parsing \<Rightarrow> rows \<Rightarrow> rows" where
  "flush_rows b r =
     r\<lparr>out := out r @ map (\<lambda>a. \<lparr>host_alias = a, hostname = at_host b, ssh_port = at_port b, ssh_user = at_user b\<rparr>)
                (filter (\<lambda>a. \<not> wildcard a) (pending b))\<rparr>"

definition fresh_block :: parsing where
  "fresh_block = \<lparr>pending = [], at_host = None, at_port = None, at_user = None\<rparr>"

text \<open>The words of a line: white space and \<open>=\<close> both separate them.\<close>

definition line_words :: "string \<Rightarrow> string list" where
  "line_words line =
     (let line = trim line
      in if line = [] \<or> starts_with ''#'' line then []
         else filter (\<lambda>s. s \<noteq> [])
           (map concat (split_char ''='' (map (\<lambda>g. if uws g then ''='' else g) (uchars line)))))"

text \<open>One line; \<open>into\<close> reads an included file one level down.\<close>

definition parse_line ::
    "files \<Rightarrow> path \<Rightarrow> (path \<Rightarrow> rows \<Rightarrow> rows) \<Rightarrow> string \<Rightarrow> parsing \<times> rows \<Rightarrow> parsing \<times> rows" where
  "parse_line w path into line = (\<lambda>(b, r).
     case line_words line of [] \<Rightarrow> (b, r)
     | keyword # values \<Rightarrow>
         let k = map ascii_lower keyword; first = (case values of [] \<Rightarrow> None | v # _ \<Rightarrow> Some v)
         in if k = ''host'' then (fresh_block\<lparr>pending := values\<rparr>, flush_rows b r)
            else if k = ''hostname'' then (b\<lparr>at_host := first\<rparr>, r)
            else if k = ''port'' then (b\<lparr>at_port := Option.bind first (parse_uint 65535)\<rparr>, r)
            else if k = ''user'' then (b\<lparr>at_user := first\<rparr>, r)
            else if k = ''include''
            then (fresh_block,
              fold (\<lambda>value r. fold into (expand_include w value path) r) values (flush_rows b r))
            else (b, r))"

definition MAX_INCLUDE_DEPTH :: nat where "MAX_INCLUDE_DEPTH = 5"

text \<open>\<open>parse_into\<close>; the number is how many levels may still be read, this one included.\<close>

primrec parse_into :: "files \<Rightarrow> nat \<Rightarrow> path \<Rightarrow> rows \<Rightarrow> rows" where
  "parse_into w 0 path r = r"
| "parse_into w (Suc d) path r =
     (if canonical w path \<in> set (seen r) then r
      else
        let r = r\<lparr>seen := seen r @ [canonical w path]\<rparr>
        in case text_of w path of None \<Rightarrow> r
           | Some text \<Rightarrow>
               let (b, r) = fold (parse_line w path (parse_into w d)) (lines text) (fresh_block, r)
               in flush_rows b r)"

primrec keep_first :: "string list \<Rightarrow> ssh_host list \<Rightarrow> ssh_host list" where
  "keep_first known [] = []"
| "keep_first known (h # hs) =
     (if host_alias h \<in> set known then keep_first known hs else h # keep_first (host_alias h # known) hs)"

definition hosts_in :: "files \<Rightarrow> path \<Rightarrow> ssh_host list" where
  "hosts_in w path = keep_first [] (out (parse_into w (Suc MAX_INCLUDE_DEPTH) path \<lparr>out = [], seen = []\<rparr>))"

definition hosts :: "files \<Rightarrow> ssh_host list" where
  "hosts w =
     (case home_dir w of Some h \<Rightarrow> hosts_in w (join_path (join_path h ''.ssh'') ''config'') | None \<Rightarrow> [])"

section \<open>Every named host is a row\<close>

lemma keep_first_aliases: "host_alias ` set (keep_first known hs) = host_alias ` set hs - set known"
  by (induction hs arbitrary: known) auto

lemma keep_first_distinct: "distinct (map host_alias (keep_first known hs))"
  using keep_first_aliases by (induction hs arbitrary: known) (auto simp: image_iff; blast)+

lemma keep_first_subset: "set (keep_first known hs) \<subseteq> set hs"
  by (induction hs arbitrary: known) (auto split: if_splits)

text \<open>A property of the rows that every flush keeps is kept by a whole file and its includes.\<close>

lemma fold_keeps: "P s \<Longrightarrow> (\<And>x s. x \<in> set xs \<Longrightarrow> P s \<Longrightarrow> P (f x s)) \<Longrightarrow> P (fold f xs s)"
  by (induction xs arbitrary: s) auto

lemma parse_line_keeps:
  assumes "P (out r)" "\<And>b r. P (out r) \<Longrightarrow> P (out (flush_rows b r))"
    "\<And>p r. P (out r) \<Longrightarrow> P (out (into p r))"
  shows "P (out (snd (parse_line w path into line (b, r))))"
proof -
  have inc: "P (out (fold into ps r))" if "P (out r)" for ps r
    by (rule fold_keeps [where P = "\<lambda>r. P (out r)"]) (simp_all add: that assms(3))
  have "P (out (fold (\<lambda>value r. fold into (expand_include w value path) r) vs (flush_rows b r)))" for vs
    by (rule fold_keeps [where P = "\<lambda>r. P (out r)"]) (simp_all add: inc assms(1,2))
  then show ?thesis
    using assms(1,2) by (simp add: parse_line_def Let_def split: list.splits)
qed

lemma parse_into_keeps:
  assumes flush: "\<And>b r. P (out r) \<Longrightarrow> P (out (flush_rows b r))"
  shows "P (out r) \<Longrightarrow> P (out (parse_into w d path r))"
proof (induction d arbitrary: path r)
  case (Suc d)
  show ?case
  proof (cases "canonical w path \<in> set (seen r) \<or> text_of w path = None")
    case False
    then obtain body where t: "text_of w path = Some body" by blast
    let ?res = "fold (parse_line w path (parse_into w d)) (lines body) (fresh_block, r\<lparr>seen := seen r @ [canonical w path]\<rparr>)"
    have "P (out (snd ?res))"
    proof (rule fold_keeps [where P = "\<lambda>br. P (out (snd br))"])
      fix l and br :: "parsing \<times> rows"
      assume "P (out (snd br))"
      then show "P (out (snd (parse_line w path (parse_into w d) l br)))"
        using parse_line_keeps [of P "snd br" "parse_into w d" w path l "fst br"] flush Suc.IH by simp
    qed (use Suc.prems in simp)
    then have "P (out (flush_rows (fst ?res) (snd ?res)))" by (rule flush)
    then show ?thesis using False t by (simp add: Let_def split_beta)
  qed (use Suc.prems in \<open>auto simp: Let_def\<close>)
qed simp

lemma rows_connectable: "\<forall>h \<in> set (hosts_in w path). \<not> wildcard (host_alias h)"
proof -
  have "\<forall>h \<in> set (out (parse_into w d path \<lparr>out = [], seen = []\<rparr>)). \<not> wildcard (host_alias h)" for d
    by (rule parse_into_keeps [where P = "\<lambda>o'. \<forall>h \<in> set o'. \<not> wildcard (host_alias h)"]) (auto simp: flush_rows_def)
  then show ?thesis unfolding hosts_in_def using keep_first_subset by blast
qed

text \<open>A host named on a line of the file waits for the end of its block, and is a row from then on.\<close>

definition named :: "string \<Rightarrow> parsing \<times> rows \<Rightarrow> bool" where
  "named a = (\<lambda>(b, r). a \<in> set (pending b) \<or> a \<in> host_alias ` set (out r))"

lemma flush_named:
  "\<not> wildcard a \<Longrightarrow> named a (b, r) \<Longrightarrow> a \<in> host_alias ` set (out (flush_rows b r))"
  "a \<in> host_alias ` set (out r) \<Longrightarrow> a \<in> host_alias ` set (out (flush_rows b r))"
  by (auto simp: named_def flush_rows_def image_Un image_image)

lemma into_named: "a \<in> host_alias ` set (out r) \<Longrightarrow> a \<in> host_alias ` set (out (parse_into w d path r))"
  by (rule parse_into_keeps [where P = "\<lambda>o'. a \<in> host_alias ` set o'"]) (simp_all only: flush_named)

lemma line_keeps_named:
  assumes "\<not> wildcard a" "named a br"
  shows "named a (parse_line w path (parse_into w d) line br)"
proof -
  obtain b r where br: "br = (b, r)" by (cases br)
  have fl: "a \<in> host_alias ` set (out (flush_rows b r))" using assms flush_named br by blast
  have inc: "a \<in> host_alias ` set (out (fold (parse_into w d) ps r))" if "a \<in> host_alias ` set (out r)" for ps r
    by (rule fold_keeps [where P = "\<lambda>r. a \<in> host_alias ` set (out r)"]) (rule that, erule into_named)
  have "a \<in> host_alias ` set (out (fold (\<lambda>value r. fold (parse_into w d) (expand_include w value path) r) vs (flush_rows b r)))" for vs
    by (rule fold_keeps [where P = "\<lambda>r. a \<in> host_alias ` set (out r)"]) (rule fl, erule inc)
  then show ?thesis
    using assms(2) fl unfolding br by (simp add: parse_line_def named_def Let_def split: list.splits)
qed

lemma host_line_names:
  assumes "line_words line = kw # values" "map ascii_lower kw = ''host''" "a \<in> set values"
  shows "named a (parse_line w path into line br)"
  using assms by (cases br) (simp add: parse_line_def named_def Let_def)

lemma fold_reaches:
  assumes "x \<in> set xs" "\<And>s. P (f x s)" "\<And>y s. P s \<Longrightarrow> P (f y s)"
  shows "P (fold f xs s)"
proof -
  obtain ys zs where "xs = ys @ x # zs" using split_list [OF assms(1)] by blast
  then show ?thesis using assms(2,3) by (simp add: fold_keeps)
qed

text \<open>
  C35. The picker offers every host the configuration names: an alias on a \<open>Host\<close> line of the file
  that is not a pattern is a row, whatever the other lines and the files they include hold.
\<close>

theorem named_hosts_are_offered:
  assumes "text_of w path = Some text" "line \<in> set (lines text)"
    and "line_words line = kw # values" "map ascii_lower kw = ''host''" "a \<in> set values" "\<not> wildcard a"
  shows "\<exists>h \<in> set (hosts_in w path). host_alias h = a"
proof -
  let ?r = "\<lparr>out = [], seen = [canonical w path]\<rparr>"
  let ?res = "fold (parse_line w path (parse_into w MAX_INCLUDE_DEPTH)) (lines text) (fresh_block, ?r)"
  have "named a ?res"
    by (rule fold_reaches [OF assms(2)]) (simp_all only: host_line_names [OF assms(3-5)] line_keeps_named [OF assms(6)])
  then have "a \<in> host_alias ` set (out (flush_rows (fst ?res) (snd ?res)))"
    using flush_named(1) [OF assms(6)] by simp
  moreover have "parse_into w (Suc MAX_INCLUDE_DEPTH) path \<lparr>out = [], seen = []\<rparr> = flush_rows (fst ?res) (snd ?res)"
    using assms(1) by (simp add: Let_def split: prod.splits)
  ultimately have "a \<in> host_alias ` set (hosts_in w path)"
    unfolding hosts_in_def keep_first_aliases by simp
  then show ?thesis by blast
qed

definition sample_files :: files where
  "sample_files = \<lparr>home_dir = Some ''/h'',
     text_of = (\<lambda>p. if p = ''/h/.ssh/config'' then Some (unlines [''Include conf.d/*'', ''Host *'', ''HOST=gpu web?'', '' Port 2222''])
       else if p = ''/h/.ssh/conf.d/a'' then Some (unlines [''Host work'', ''Include a'']) else None),
     canonical = (\<lambda>p. p), regular = (\<lambda>p. if p = ''/h/.ssh/conf.d'' then Some [''b'', ''a''] else None)\<rparr>"

lemma named_hosts_are_offered_witness:
  "\<exists>h \<in> set (hosts_in sample_files ''/h/.ssh/config''). host_alias h = ''gpu''"
proof (rule named_hosts_are_offered)
  show "text_of sample_files ''/h/.ssh/config''
    = Some (unlines [''Include conf.d/*'', ''Host *'', ''HOST=gpu web?'', '' Port 2222''])"
    by (simp add: sample_files_def)
  show "''HOST=gpu web?'' \<in> set (lines (unlines [''Include conf.d/*'', ''Host *'', ''HOST=gpu web?'', '' Port 2222'']))"
    by code_simp
  show "line_words ''HOST=gpu web?'' = ''HOST'' # [''gpu'', ''web?'']" by code_simp
  show "map ascii_lower ''HOST'' = ''host''" by code_simp
  show "''gpu'' \<in> set [''gpu'', ''web?'']" by simp
  show "\<not> wildcard ''gpu''" by code_simp
qed

end
