(* ===== verification/Query.thy ===== *)
theory Query
  imports Pty_Stream
begin

text \<open>
  Addresses on the wire: the percent encoding of the client (\<open>urlencode\<close> in
  \<open>butai-client/src/workbench.rs\<close>) and the reading of a path and a query by the daemon
  (\<open>butai-server/src/http_conn.rs\<close>). The library's \<open>String::from_utf8_lossy\<close> is the argument \<open>lossy\<close>.
\<close>

section \<open>Percent encoding\<close>

definition unreserved :: "char \<Rightarrow> bool" where
  "unreserved b \<longleftrightarrow> is_alnum b \<or> b \<in> set ''-_.~/''"

definition hex_upper :: "nat \<Rightarrow> char" where
  "hex_upper d = (if d < 10 then char_of (48 + d) else char_of (55 + d))"

definition urlencode :: "string \<Rightarrow> string" where
  "urlencode s = concat (map (\<lambda>b. if unreserved b then [b]
     else [CHR ''%'', hex_upper (of_char b div 16), hex_upper (of_char b mod 16)]) s)"

definition hex_value :: "char \<Rightarrow> nat option" where
  "hex_value c =
     (let n = of_char c
      in if 48 \<le> n \<and> n \<le> 57 then Some (n - 48)
         else if 97 \<le> n \<and> n \<le> 102 then Some (n - 97 + 10)
         else if 65 \<le> n \<and> n \<le> 70 then Some (n - 65 + 10) else None)"

text \<open>The loop of \<open>percent_decode\<close>: a percent sign before anything but two hexadecimal digits stays.\<close>

fun percent_bytes :: "string \<Rightarrow> string" where
  "percent_bytes [] = []"
| "percent_bytes (c # s) =
     (if c = CHR ''%'' then
        (case s of
           h # l # r \<Rightarrow> (case (hex_value h, hex_value l) of
               (Some h, Some l) \<Rightarrow> char_of (h * 16 + l) # percent_bytes r
             | _ \<Rightarrow> CHR ''%'' # percent_bytes s)
         | _ \<Rightarrow> CHR ''%'' # percent_bytes s)
      else if c = CHR ''+'' then CHR '' '' # percent_bytes s
      else c # percent_bytes s)"

definition percent_decode :: "(string \<Rightarrow> string) \<Rightarrow> string \<Rightarrow> string" where
  "percent_decode lossy s = lossy (percent_bytes s)"

section \<open>Paths and queries\<close>

text \<open>What \<open>http::Uri\<close> gives as \<open>path\<close> and \<open>query\<close> of a request target with no fragment.\<close>

definition target_path :: "string \<Rightarrow> string" where
  "target_path target = (case split_once ''?'' target of Some (p, _) \<Rightarrow> p | None \<Rightarrow> target)"

definition target_query :: "string \<Rightarrow> string" where
  "target_query target = (case split_once ''?'' target of Some (_, q) \<Rightarrow> q | None \<Rightarrow> [])"

definition segments :: "string \<Rightarrow> string list" where
  "segments path = filter (\<lambda>s. s \<noteq> []) (split_char CHR ''/'' path)"

definition pair_of :: "string \<Rightarrow> string \<times> string" where
  "pair_of pair = (case split_once ''='' pair of Some x \<Rightarrow> x | None \<Rightarrow> (pair, []))"

fun find_value :: "string \<Rightarrow> string list \<Rightarrow> string option" where
  "find_value key [] = None"
| "find_value key (p # ps) = (case pair_of p of (k, v) \<Rightarrow> if k = key then Some v else find_value key ps)"

definition query_get :: "(string \<Rightarrow> string) \<Rightarrow> string \<Rightarrow> string \<Rightarrow> string option" where
  "query_get lossy query key = map_option (percent_decode lossy) (find_value key (split_char CHR ''&'' query))"

section \<open>What is encoded reads back\<close>

lemma hex_upper_value: "d < 16 \<Longrightarrow> hex_value (hex_upper d) = Some d"
  by (simp add: hex_upper_def hex_value_def Let_def)

lemma hex_upper_plain: "d < 16 \<Longrightarrow> hex_upper d \<notin> set ''%&=+?#''"
proof -
  have "list_all (\<lambda>d. hex_upper d \<notin> set ''%&=+?#'') [0..<16]" by code_simp
  then show "d < 16 \<Longrightarrow> hex_upper d \<notin> set ''%&=+?#''" by (simp only: list_all_iff set_upt atLeastLessThan_iff) simp
qed

lemma unreserved_plain: "unreserved b \<Longrightarrow> b \<notin> set ''%&=+?#''"
  by (auto simp: unreserved_def is_alnum_def is_digit_def is_lower_def is_upper_def)

lemma urlencode_simps [simp]:
  "urlencode [] = []"
  "urlencode (b # s) = (if unreserved b then b # urlencode s
     else CHR ''%'' # hex_upper (of_char b div 16) # hex_upper (of_char b mod 16) # urlencode s)"
  by (simp_all add: urlencode_def)

lemma of_char_nibbles: "of_char (b::char) div 16 < (16::nat)" "of_char (b::char) mod 16 < (16::nat)"
  using nat_of_char_less_256 [of b] by linarith+

lemma percent_urlencode: "percent_bytes (urlencode s) = s"
proof (induction s)
  case (Cons b s)
  show ?case
  proof (cases "unreserved b")
    case True
    then have "b \<noteq> CHR ''%''" "b \<noteq> CHR ''+''" using unreserved_plain by fastforce+
    then show ?thesis using True Cons.IH by simp
  next
    case False
    have "of_char b div 16 * 16 + of_char b mod 16 = (of_char b :: nat)" by simp
    then show ?thesis using False Cons.IH of_char_nibbles [of b] by (simp add: hex_upper_value)
  qed
qed simp

lemma urlencode_plain: "c \<in> set (urlencode s) \<Longrightarrow> c \<notin> set ''&=+?#''"
proof (induction s)
  case (Cons b s)
  then show ?case
    using hex_upper_plain [OF of_char_nibbles(1) [of b]] hex_upper_plain [OF of_char_nibbles(2) [of b]] unreserved_plain [of b]
    by (auto split: if_splits)
qed simp

text \<open>A query value the client wrote is the one the daemon reads, whatever bytes it holds.\<close>

lemma pair_of_encoded: "CHR ''='' \<notin> set k \<Longrightarrow> pair_of (k @ ''='' @ v) = (k, v)"
  by (simp add: pair_of_def split_once_char)

lemma target_split:
  "CHR ''?'' \<notin> set p \<Longrightarrow> target_path (p @ ''?'' @ q) = p"
  "CHR ''?'' \<notin> set p \<Longrightarrow> target_query (p @ ''?'' @ q) = q"
  "CHR ''?'' \<notin> set p \<Longrightarrow> target_path p = p"
  "CHR ''?'' \<notin> set p \<Longrightarrow> target_query p = []"
  by (simp_all add: target_path_def target_query_def split_once_char split_once_char_None)

text \<open>The client's queries: \<open>fixed\<close> parameters written out, then one encoded value.\<close>

lemma query_get_encoded:
  assumes "lossy s = s" "CHR ''='' \<notin> set k" "CHR ''&'' \<notin> set k"
  shows "query_get lossy (k @ ''='' @ urlencode s) k = Some s"
proof -
  have "CHR ''&'' \<notin> set (k @ ''='' @ urlencode s)" using assms(3) urlencode_plain [of "CHR ''&''" s] by auto
  then show ?thesis
    using assms by (simp add: query_get_def split_char_none pair_of_encoded percent_decode_def percent_urlencode del: append_assoc append.simps)
qed

lemma split_encoded:
  assumes "CHR ''&'' \<notin> set k"
  shows "split_char CHR ''&'' (k @ ''='' @ urlencode v) = [k @ ''='' @ urlencode v]"
    "split_char CHR ''&'' (k @ ''='' @ urlencode v @ ''&'' @ r) = (k @ ''='' @ urlencode v) # split_char CHR ''&'' r"
proof -
  have "CHR ''&'' \<notin> set (k @ ''='' @ urlencode v)" using assms urlencode_plain [of "CHR ''&''" v] by auto
  then show "split_char CHR ''&'' (k @ ''='' @ urlencode v) = [k @ ''='' @ urlencode v]"
    "split_char CHR ''&'' (k @ ''='' @ urlencode v @ ''&'' @ r) = (k @ ''='' @ urlencode v) # split_char CHR ''&'' r"
    using split_char_append [of "CHR ''&''" "k @ ''='' @ urlencode v" r] by (simp_all add: split_char_none)
qed

lemma query_get_other:
  assumes "CHR ''='' \<notin> set k" "CHR ''&'' \<notin> set k" "k \<noteq> key"
  shows "query_get lossy (k @ ''='' @ urlencode v) key = None"
  using assms by (simp add: query_get_def split_encoded pair_of_encoded del: append.simps)

lemma query_get_first:
  assumes "CHR ''='' \<notin> set k" "CHR ''&'' \<notin> set k"
  shows "query_get lossy (k @ ''='' @ urlencode v @ ''&'' @ r) key =
    (if k = key then Some (lossy v) else query_get lossy r key)"
  using assms by (simp add: query_get_def split_encoded pair_of_encoded percent_decode_def percent_urlencode del: append.simps)

lemma segments_slash: "CHR ''/'' \<notin> set a \<Longrightarrow> segments (a @ ''/'' @ b) = (if a = [] then [] else [a]) @ segments b"
  by (simp add: segments_def split_char_append)

lemma segments_root: "segments (''/'' @ b) = segments b"
  by (simp add: segments_def)

lemma segments_last: "CHR ''/'' \<notin> set a \<Longrightarrow> segments a = (if a = [] then [] else [a])"
  by (simp add: segments_def split_char_none)

section \<open>The encodings a client accepts\<close>

text \<open>
  \<open>accepts_gzip\<close>; the header, if it is text, and whether the library reads a \<open>q\<close> as a number that is
  not above zero (\<open>ruled_out\<close>).
\<close>

definition accepts_gzip :: "(string \<Rightarrow> bool) \<Rightarrow> string option \<Rightarrow> bool" where
  "accepts_gzip ruled_out header =
     (case header of
        None \<Rightarrow> False
      | Some v \<Rightarrow> list_ex (\<lambda>part.
          (case map trim (split_char CHR '';'' part) of
             [] \<Rightarrow> False
           | token # bits \<Rightarrow>
               (map ascii_lower token = ''gzip'' \<or> token = ''*'')
               \<and> \<not> list_ex (\<lambda>p. case strip_prefix ''q='' p of Some q \<Rightarrow> ruled_out (trim q) | None \<Rightarrow> False) bits))
          (split_char CHR '','' v))"


end
