(* ===== verification/Http.thy ===== *)
theory Http
  imports Query Git_Op "HOL-Library.Monad_Syntax"
begin

text \<open>
  The requests of the daemon's HTTP face (\<open>butai-server/src/http_conn.rs\<close>) and what the core is asked
  for each (\<open>ApiRequest\<close> of \<open>butai-protocol/src/api.rs\<close>). hyper's parsing of the connection and serde's
  reading of JSON text are parameters, the record \<open>http_lib\<close>; what a body may hold is translated from
  the structs the source declares for it.
\<close>

section \<open>What the core can be asked\<close>

datatype tree_filter = AllFiles | Docs

datatype output_source = Scrollback | Screen | Footer

datatype output_format = PlainText | Ansi

datatype resolve_side = Ours | Theirs | Resolved

datatype apply_target = Index | Worktree

datatype api_request =
  ListWorkspaces
  | Workspace session_id
  | Agents session_id
  | Processes session_id
  | Changes session_id
  | Tree session_id string tree_filter
  | File session_id string
  | Diff session_id string bool
  | Search session_id string
  | Show session_id string
  | GitOpStatus session_id
  | GitLog session_id nat nat "string option" "string option" bool
  | GitStashes session_id
  | GitRemotes session_id
  | GitTags session_id
  | GitWorktrees session_id
  | GitConflict session_id string
  | System
  | AgentTypes
  | Usage
  | Branches session_id
  | BrowseFs "string option"
  | MakeDir "string option" string
  | Notifications nat
  | Download session_id string
  | PaneOutput session_id pane_id nat output_source output_format
  | NewWorkspace "string option" "string option" "string option"
  | KillWorkspace session_id
  | SpawnAgent session_id string bool
  | NewProcess session_id string string
  | RestartProcess session_id pane_id
  | KillPane session_id pane_id
  | PaneInput session_id pane_id input_event
  | AckPane session_id pane_id
  | StageFile session_id string
  | UnstageFile session_id string
  | DiscardFile session_id string
  | Commit session_id string
  | CommitAll session_id string
  | Checkout session_id string bool
  | Upload session_id string string
  | DeleteFile session_id string
  | GitRun session_id git_op
  | GitOpCancel session_id
  | GitResolve session_id string resolve_side
  | GitApply session_id string apply_target bool
  | GitBranchCreate session_id string "string option"
  | GitBranchDelete session_id string bool
  | GitBranchRename session_id "string option" string
  | UpdateDaemon

definition tree_filter_parse :: "string \<Rightarrow> tree_filter option" where
  "tree_filter_parse s =
     (if s = [] \<or> s = ''all'' then Some AllFiles else if s = ''docs'' then Some Docs else None)"

section \<open>Bodies\<close>

datatype json = JNull | JBool bool | JNat nat | JNum string | JStr string | JArr "json list" | JObj "(string \<times> json) list"

text \<open>
  How serde fills a struct from a value: a field that is required, one that is \<open>Option\<close>, and one marked
  \<open>#[serde(default)]\<close>. An object gives each field at most once, under any of its names, and other keys
  are passed over; an array gives the flds in order.
\<close>

datatype need = Required | Optional | Defaulted

type_synonym field = "string list \<times> need"

definition values_of :: "string list \<Rightarrow> (string \<times> json) list \<Rightarrow> json list" where
  "values_of names obj = map snd (filter (\<lambda>(k, v). k \<in> set names) obj)"

definition from_object :: "field list \<Rightarrow> (string \<times> json) list \<Rightarrow> json option list option" where
  "from_object flds obj =
     (if list_ex (\<lambda>(names, need). length (values_of names obj) > 1
          \<or> need = Required \<and> values_of names obj = []) flds
      then None
      else Some (map (\<lambda>(names, need). case values_of names obj of v # _ \<Rightarrow> Some v | [] \<Rightarrow> None) flds))"

definition from_array :: "field list \<Rightarrow> json list \<Rightarrow> json option list option" where
  "from_array flds vs =
     (if length vs > length flds \<or> list_ex (\<lambda>(names, need). need \<noteq> Defaulted) (drop (length vs) flds) then None
      else Some (map Some vs @ replicate (length flds - length vs) None))"

definition read_fields :: "field list \<Rightarrow> json \<Rightarrow> json option list option" where
  "read_fields flds v =
     (case v of JObj obj \<Rightarrow> from_object flds obj | JArr vs \<Rightarrow> from_array flds vs | _ \<Rightarrow> None)"

definition rd_str :: "json option \<Rightarrow> string option" where
  "rd_str v = (case v of None \<Rightarrow> Some [] | Some (JStr s) \<Rightarrow> Some s | _ \<Rightarrow> None)"

definition rd_opt :: "json option \<Rightarrow> string option option" where
  "rd_opt v = (case v of None \<Rightarrow> Some None | Some JNull \<Rightarrow> Some None | Some (JStr s) \<Rightarrow> Some (Some s) | _ \<Rightarrow> None)"

definition rd_bool :: "json option \<Rightarrow> bool option" where
  "rd_bool v = (case v of None \<Rightarrow> Some False | Some (JBool b) \<Rightarrow> Some b | _ \<Rightarrow> None)"

definition rd_usize :: "json option \<Rightarrow> nat option" where
  "rd_usize v =
     (case v of None \<Rightarrow> Some 0 | Some (JNat n) \<Rightarrow> if n \<le> usize_max then Some n else None | _ \<Rightarrow> None)"

text \<open>A unit variant is its name, or an object with that one key and \<open>null\<close>.\<close>

definition rd_variant :: "(string \<times> 'a) list \<Rightarrow> 'a \<Rightarrow> json option \<Rightarrow> 'a option" where
  "rd_variant names dflt v =
     (case v of None \<Rightarrow> Some dflt | Some (JStr s) \<Rightarrow> map_of names s
      | Some (JObj [(s, JNull)]) \<Rightarrow> map_of names s | _ \<Rightarrow> None)"

definition body1 :: "field \<Rightarrow> (json option \<Rightarrow> 'a option) \<Rightarrow> json \<Rightarrow> 'a option" where
  "body1 f ra v = do { fs \<leftarrow> read_fields [f] v; ra (fs ! 0) }"

definition body2 :: "field \<Rightarrow> field \<Rightarrow> (json option \<Rightarrow> 'a option) \<Rightarrow> (json option \<Rightarrow> 'b option) \<Rightarrow> json \<Rightarrow> ('a \<times> 'b) option" where
  "body2 f g ra rb v = do { fs \<leftarrow> read_fields [f, g] v; a \<leftarrow> ra (fs ! 0); b \<leftarrow> rb (fs ! 1); Some (a, b) }"

definition body3 ::
    "field \<Rightarrow> field \<Rightarrow> field \<Rightarrow> (json option \<Rightarrow> 'a option) \<Rightarrow> (json option \<Rightarrow> 'b option) \<Rightarrow> (json option \<Rightarrow> 'c option)
     \<Rightarrow> json \<Rightarrow> ('a \<times> 'b \<times> 'c) option" where
  "body3 f g h ra rb rc v =
     do { fs \<leftarrow> read_fields [f, g, h] v; a \<leftarrow> ra (fs ! 0); b \<leftarrow> rb (fs ! 1); c \<leftarrow> rc (fs ! 2); Some (a, b, c) }"

definition body4 ::
    "field \<Rightarrow> field \<Rightarrow> field \<Rightarrow> field \<Rightarrow> (json option \<Rightarrow> 'a option) \<Rightarrow> (json option \<Rightarrow> 'b option)
     \<Rightarrow> (json option \<Rightarrow> 'c option) \<Rightarrow> (json option \<Rightarrow> 'd option) \<Rightarrow> json \<Rightarrow> ('a \<times> 'b \<times> 'c \<times> 'd) option" where
  "body4 f g h k ra rb rc rd v =
     do { fs \<leftarrow> read_fields [f, g, h, k] v; a \<leftarrow> ra (fs ! 0); b \<leftarrow> rb (fs ! 1); c \<leftarrow> rc (fs ! 2); d \<leftarrow> rd (fs ! 3);
          Some (a, b, c, d) }"

definition field_req :: "string \<Rightarrow> field" where "field_req k = ([k], Required)"
definition field_opt :: "string \<Rightarrow> field" where "field_opt k = ([k], Optional)"
definition field_def :: "string \<Rightarrow> field" where "field_def k = ([k], Defaulted)"

text \<open>The structs, in the order of the file.\<close>

definition new_ws_body :: "json \<Rightarrow> (string option \<times> string option \<times> string option) option" where
  "new_ws_body = body3 (field_opt ''name'') (field_opt ''layout'') (field_opt ''path'') rd_opt rd_opt rd_opt"

definition checkout_body :: "json \<Rightarrow> (string \<times> bool) option" where
  "checkout_body = body2 (field_req ''branch'') (field_def ''create'') rd_str rd_bool"

definition stash_body :: "json \<Rightarrow> (string option \<times> bool) option" where
  "stash_body = body2 (field_opt ''message'') (field_def ''include_untracked'') rd_opt rd_bool"

definition stash_ref_body :: "json \<Rightarrow> (nat \<times> bool) option" where
  "stash_ref_body = body2 (field_def ''index'') (field_def ''pop'') rd_usize rd_bool"

definition message_body :: "json \<Rightarrow> string option option" where
  "message_body = body1 (field_opt ''message'') rd_opt"

definition reset_modes :: "(string \<times> reset_mode) list" where
  "reset_modes = [(''soft'', Soft), (''mixed'', Mixed), (''hard'', Hard)]"

definition reset_body :: "json \<Rightarrow> (string option \<times> reset_mode) option" where
  "reset_body = body2 (field_opt ''rev'') (field_def ''mode'') rd_opt (rd_variant reset_modes Mixed)"

definition rev_body :: "json \<Rightarrow> string option" where
  "rev_body = body1 (field_def ''rev'') rd_str"

definition merge_body :: "json \<Rightarrow> (string \<times> bool) option" where
  "merge_body = body2 (field_def ''branch'') (field_def ''no_ff'') rd_str rd_bool"

definition rebase_body :: "json \<Rightarrow> string option" where
  "rebase_body = body1 (field_def ''onto'') rd_str"

definition sequence_actions :: "(string \<times> sequence_action) list" where
  "sequence_actions = [(''continue'', SContinue), (''abort'', SAbort), (''skip'', SSkip)]"

definition sequence_body :: "json \<Rightarrow> sequence_action option" where
  "sequence_body = body1 (field_req ''action'') (rd_variant sequence_actions SContinue)"

definition tag_body :: "json \<Rightarrow> (string \<times> string option \<times> string option) option" where
  "tag_body = body3 (field_def ''name'') (field_opt ''rev'') (field_opt ''message'') rd_str rd_opt rd_opt"

definition resolve_sides :: "(string \<times> resolve_side) list" where
  "resolve_sides = [(''ours'', Ours), (''theirs'', Theirs), (''resolved'', Resolved)]"

definition resolve_body :: "json \<Rightarrow> (string \<times> resolve_side) option" where
  "resolve_body = body2 (field_req ''path'') (field_req ''take'') rd_str (rd_variant resolve_sides Resolved)"

definition remote_body :: "json \<Rightarrow> (string \<times> string) option" where
  "remote_body = body2 (field_req ''name'') (field_req ''url'') rd_str rd_str"

definition worktree_body :: "json \<Rightarrow> (string \<times> string option \<times> bool) option" where
  "worktree_body = body3 (field_req ''path'') (field_def ''branch'') (field_def ''new_branch'') rd_str rd_opt rd_bool"

definition apply_targets :: "(string \<times> apply_target) list" where
  "apply_targets = [(''index'', Index), (''worktree'', Worktree)]"

definition apply_body :: "json \<Rightarrow> (string \<times> apply_target \<times> bool) option" where
  "apply_body = body3 (field_req ''patch'') (field_def ''target'') (field_def ''reverse'')
     rd_str (rd_variant apply_targets Index) rd_bool"

definition branch_body :: "json \<Rightarrow> (string \<times> string option) option" where
  "branch_body = body2 (field_req ''name'') (field_def ''from'') rd_str rd_opt"

definition rename_body :: "json \<Rightarrow> (string option \<times> string) option" where
  "rename_body = body2 (field_def ''from'') (field_req ''to'') rd_opt rd_str"

definition fetch_body :: "json \<Rightarrow> (string option \<times> bool \<times> bool) option" where
  "fetch_body = body3 (field_opt ''remote'') (field_def ''all'') (field_def ''prune'') rd_opt rd_bool rd_bool"

definition pull_body :: "json \<Rightarrow> (string option \<times> string option \<times> bool \<times> bool) option" where
  "pull_body = body4 (field_opt ''remote'') (field_opt ''branch'') (field_def ''rebase'') (field_def ''ff_only'')
     rd_opt rd_opt rd_bool rd_bool"

definition push_body :: "json \<Rightarrow> (string option \<times> string option \<times> bool \<times> bool) option" where
  "push_body = body4 (field_opt ''remote'') (field_opt ''branch'') (field_def ''set_upstream'') (field_def ''force_with_lease'')
     rd_opt rd_opt rd_bool rd_bool"

definition spawn_agent_body :: "json \<Rightarrow> (string \<times> bool) option" where
  "spawn_agent_body = body2 ([''type'', ''name'', ''agent''], Required) (field_def ''background'') rd_str rd_bool"

definition new_proc_body :: "json \<Rightarrow> (string \<times> string) option" where
  "new_proc_body = body2 (field_req ''name'') (field_def ''command'') rd_str rd_str"

definition mkdir_body :: "json \<Rightarrow> (string option \<times> string) option" where
  "mkdir_body = body2 (field_def ''path'') (field_req ''name'') rd_opt rd_str"

definition path_body :: "json \<Rightarrow> string option" where
  "path_body = body1 (field_req ''path'') rd_str"

definition commit_body :: "json \<Rightarrow> string option" where
  "commit_body = body1 (field_req ''message'') rd_str"

section \<open>Routes\<close>

datatype http_method = GET | POST | DELETE | Method string

fun method_text :: "http_method \<Rightarrow> string" where
  "method_text GET = ''GET''"
| "method_text POST = ''POST''"
| "method_text DELETE = ''DELETE''"
| "method_text (Method m) = m"

record http_request =
  rq_method :: http_method
  rq_target :: string
  rq_body :: string

text \<open>
  The library: lossy decoding, the \<open>{:?}\<close> of a string, the reading of JSON text, the message of a body
  that cannot be read as a struct, and the reading of an input event.
\<close>

record http_lib =
  h_lossy :: "string \<Rightarrow> string"
  h_debug :: "string \<Rightarrow> string"
  h_json :: "string \<Rightarrow> json option"
  h_why :: "string \<Rightarrow> string"
  h_event :: "json \<Rightarrow> input_event option"

text \<open>What a request comes to: the event stream, a question to the core, or an answer given here.\<close>

datatype routed = Events | Ask api_request | Bad string | Missing string

definition sid :: "string \<Rightarrow> nat option" where
  "sid s = parse_uint u64_max s"

definition parse_body :: "http_lib \<Rightarrow> (json \<Rightarrow> 'a option) \<Rightarrow> string \<Rightarrow> string + 'a" where
  "parse_body d dec body =
     (case Option.bind (h_json d body) dec of Some b \<Rightarrow> Inr b | None \<Rightarrow> Inl (''bad json body: '' @ h_why d body))"

definition parse_or_default :: "http_lib \<Rightarrow> (json \<Rightarrow> 'a option) \<Rightarrow> 'a \<Rightarrow> string \<Rightarrow> string + 'a" where
  "parse_or_default d dec dflt body = (if body = [] then Inr dflt else parse_body d dec body)"

definition bad_ws :: "http_lib \<Rightarrow> string \<Rightarrow> routed" where
  "bad_ws d s = Bad (''bad workspace id '' @ h_debug d s)"

definition with_ws :: "http_lib \<Rightarrow> (session_id \<Rightarrow> api_request) \<Rightarrow> string \<Rightarrow> routed" where
  "with_ws d build s = (case sid s of Some ws \<Rightarrow> Ask (build ws) | None \<Rightarrow> bad_ws d s)"

text \<open>The arms that need a query parameter besides the workspace.\<close>

definition with_query ::
    "http_lib \<Rightarrow> string option \<Rightarrow> string \<Rightarrow> (session_id \<Rightarrow> string \<Rightarrow> api_request) \<Rightarrow> string \<Rightarrow> routed" where
  "with_query d value missing build s =
     (case (sid s, value) of
        (Some ws, Some v) \<Rightarrow> Ask (build ws v)
      | (None, _) \<Rightarrow> bad_ws d s
      | (_, None) \<Rightarrow> Bad (''missing ?'' @ missing @ ''=''))"

text \<open>The arms that need a body.\<close>

definition with_body :: "http_lib \<Rightarrow> (json \<Rightarrow> 'a option) \<Rightarrow> string \<Rightarrow> (session_id \<Rightarrow> 'a \<Rightarrow> api_request) \<Rightarrow> string \<Rightarrow> routed" where
  "with_body d dec body build s =
     (case (sid s, parse_body d dec body) of
        (Some ws, Inr b) \<Rightarrow> Ask (build ws b)
      | (None, _) \<Rightarrow> bad_ws d s
      | (_, Inl e) \<Rightarrow> Bad e)"

definition git_run :: "http_lib \<Rightarrow> (json \<Rightarrow> 'a option) \<Rightarrow> 'a \<Rightarrow> string \<Rightarrow> ('a \<Rightarrow> git_op) \<Rightarrow> string \<Rightarrow> routed" where
  "git_run d dec dflt body build s =
     (case sid s of
        None \<Rightarrow> bad_ws d s
      | Some ws \<Rightarrow> (case parse_or_default d dec dflt body of Inr b \<Rightarrow> Ask (GitRun ws (build b)) | Inl e \<Rightarrow> Bad e))"

definition with_pane :: "(session_id \<Rightarrow> pane_id \<Rightarrow> api_request) \<Rightarrow> string \<Rightarrow> string \<Rightarrow> routed" where
  "with_pane build s p =
     (case (sid s, sid p) of (Some ws, Some pane) \<Rightarrow> Ask (build ws pane) | _ \<Rightarrow> Bad ''bad workspace or pane id'')"

text \<open>
  The arms of \<open>route\<close>, in the order of the source: a method, the segments of a path with \<open>Any\<close> for those
  that are variables, and what is done with these.
\<close>

datatype seg = Lit string | Any

type_synonym arm = "http_method \<times> seg list \<times> (string list \<Rightarrow> routed)"

fun captures :: "seg list \<Rightarrow> string list \<Rightarrow> string list option" where
  "captures [] [] = Some []"
| "captures (Lit l # ps) (s # ss) = (if l = s then captures ps ss else None)"
| "captures (Any # ps) (s # ss) = map_option (Cons s) (captures ps ss)"
| "captures _ _ = None"

fun first_arm :: "arm list \<Rightarrow> http_method \<Rightarrow> string list \<Rightarrow> routed option" where
  "first_arm [] m segs = None"
| "first_arm ((am, pat, f) # arms) m segs =
     (case if am = m then captures pat segs else None of Some caps \<Rightarrow> Some (f caps) | None \<Rightarrow> first_arm arms m segs)"

definition top :: "string list \<Rightarrow> seg list" where
  "top ls = Lit ''v1'' # map Lit ls"

definition ws_path :: "string list \<Rightarrow> seg list" where
  "ws_path ls = [Lit ''v1'', Lit ''workspaces'', Any] @ map Lit ls"

definition pane_path :: "string \<Rightarrow> string list \<Rightarrow> seg list" where
  "pane_path rail ls = [Lit ''v1'', Lit ''workspaces'', Any, Lit rail, Any] @ map Lit ls"

definition on_ws :: "(string \<Rightarrow> routed) \<Rightarrow> string list \<Rightarrow> routed" where
  "on_ws f caps = f (caps ! 0)"

definition on_pane :: "(string \<Rightarrow> string \<Rightarrow> routed) \<Rightarrow> string list \<Rightarrow> routed" where
  "on_pane f caps = f (caps ! 0) (caps ! 1)"

definition truthy :: "string option \<Rightarrow> bool" where
  "truthy v \<longleftrightarrow> v = Some ''true'' \<or> v = Some ''1''"

definition parse_at :: "string option \<Rightarrow> nat option" where
  "parse_at v = Option.bind v (parse_uint usize_max)"

definition DEFAULT_OUTPUT_LINES :: nat where "DEFAULT_OUTPUT_LINES = 200"

definition source_of :: "string option \<Rightarrow> output_source option" where
  "source_of v = (case v of None \<Rightarrow> Some Scrollback
     | Some s \<Rightarrow> map_of [(''scrollback'', Scrollback), (''screen'', Screen), (''footer'', Footer)] s)"

definition format_of :: "string option \<Rightarrow> output_format option" where
  "format_of v = (case v of None \<Rightarrow> Some PlainText | Some s \<Rightarrow> map_of [(''text'', PlainText), (''ansi'', Ansi)] s)"

definition tree_arm :: "http_lib \<Rightarrow> (string \<Rightarrow> string option) \<Rightarrow> string \<Rightarrow> routed" where
  "tree_arm d q s =
     (case (sid s, tree_filter_parse (case q ''filter'' of Some f \<Rightarrow> f | None \<Rightarrow> [])) of
        (Some ws, Some f) \<Rightarrow> Ask (Tree ws (case q ''path'' of Some p \<Rightarrow> p | None \<Rightarrow> []) f)
      | (None, _) \<Rightarrow> bad_ws d s
      | (_, None) \<Rightarrow> Bad ''?filter= must be `all` or `docs`'')"

definition output_arm :: "http_lib \<Rightarrow> (string \<Rightarrow> string option) \<Rightarrow> string \<Rightarrow> string \<Rightarrow> routed" where
  "output_arm d q s p =
     (case (sid s, sid p) of
        (Some ws, Some pane) \<Rightarrow>
          (case (source_of (q ''source''), format_of (q ''format''),
                 case q ''lines'' of None \<Rightarrow> Some DEFAULT_OUTPUT_LINES | Some n \<Rightarrow> parse_uint usize_max n) of
             (Some source, Some format, Some n) \<Rightarrow> Ask (PaneOutput ws pane n source format)
           | (None, _, _) \<Rightarrow> Bad ''?source= must be scrollback, screen or footer''
           | (_, None, _) \<Rightarrow> Bad ''?format= must be text or ansi''
           | (_, _, None) \<Rightarrow> Bad ''?lines= must be a whole number'')
      | (None, _) \<Rightarrow> bad_ws d s
      | (_, None) \<Rightarrow> Bad (''bad pane id '' @ h_debug d p))"

definition input_arm :: "http_lib \<Rightarrow> string \<Rightarrow> string \<Rightarrow> string \<Rightarrow> routed" where
  "input_arm d body s p =
     (case (sid s, sid p, parse_body d (h_event d) body) of
        (Some ws, Some pane, Inr ev) \<Rightarrow> Ask (PaneInput ws pane ev)
      | (None, _, _) \<Rightarrow> bad_ws d s
      | (_, None, _) \<Rightarrow> Bad (''bad pane id '' @ h_debug d p)
      | (_, _, Inl e) \<Rightarrow> Bad e)"

definition log_request :: "(string \<Rightarrow> string option) \<Rightarrow> session_id \<Rightarrow> api_request" where
  "log_request q ws =
     GitLog ws (max 1 (min 500 (case parse_at (q ''limit'') of Some n \<Rightarrow> n | None \<Rightarrow> 50)))
       (case parse_at (q ''skip'') of Some n \<Rightarrow> n | None \<Rightarrow> 0) (q ''rev'') (q ''path'')
       (case q ''all'' of Some v \<Rightarrow> v \<noteq> ''0'' | None \<Rightarrow> False)"

definition mkdir_arm :: "http_lib \<Rightarrow> string \<Rightarrow> routed" where
  "mkdir_arm d body =
     (case parse_body d mkdir_body body of Inr (path, name) \<Rightarrow> Ask (MakeDir path name) | Inl e \<Rightarrow> Bad e)"

definition new_ws_arm :: "http_lib \<Rightarrow> string \<Rightarrow> routed" where
  "new_ws_arm d body =
     (case parse_or_default d new_ws_body (None, None, None) body of
        Inr (name, layout, path) \<Rightarrow> Ask (NewWorkspace name layout path) | Inl e \<Rightarrow> Bad e)"

text \<open>The queries; \<open>q\<close> reads a parameter.\<close>

definition query_arms :: "http_lib \<Rightarrow> (string \<Rightarrow> string option) \<Rightarrow> string \<Rightarrow> arm list" where
  "query_arms d q body =
    [(GET, top [''workspaces''], \<lambda>_. Ask ListWorkspaces),
     (GET, top [''system''], \<lambda>_. Ask System),
     (GET, top [''agents''], \<lambda>_. Ask AgentTypes),
     (GET, top [''usage''], \<lambda>_. Ask Usage),
     (POST, top [''update''], \<lambda>_. Ask UpdateDaemon),
     (GET, top [''fs''], \<lambda>_. Ask (BrowseFs (q ''path''))),
     (POST, top [''fs'', ''mkdir''], \<lambda>_. mkdir_arm d body),
     (GET, top [''notifications''],
       \<lambda>_. Ask (Notifications (case Option.bind (q ''since'') (parse_uint u64_max) of Some n \<Rightarrow> n | None \<Rightarrow> 0))),
     (GET, ws_path [''branches''], on_ws (with_ws d Branches)),
     (GET, ws_path [''download''], on_ws (with_query d (q ''path'') ''path'' Download)),
     (GET, ws_path [], on_ws (with_ws d Workspace)),
     (GET, ws_path [''agents''], on_ws (with_ws d Agents)),
     (GET, ws_path [''processes''], on_ws (with_ws d Processes)),
     (GET, ws_path [''changes''], on_ws (with_ws d Changes)),
     (GET, ws_path [''tree''], on_ws (tree_arm d q)),
     (GET, ws_path [''file''], on_ws (with_query d (q ''path'') ''path'' File)),
     (GET, ws_path [''show''],
       on_ws (with_query d (case q ''id'' of Some v \<Rightarrow> Some v | None \<Rightarrow> q ''rev'') ''id'' Show)),
     (GET, ws_path [''search''], on_ws (with_query d (q ''q'') ''q'' Search)),
     (GET, ws_path [''diff''],
       on_ws (with_query d (q ''path'') ''path''
         (\<lambda>ws path. Diff ws path (q ''kind'' = Some ''staged'' \<or> truthy (q ''staged''))))),
     (GET, pane_path ''panes'' [''output''], on_pane (output_arm d q))]"

definition action_arms :: "http_lib \<Rightarrow> (string \<Rightarrow> string option) \<Rightarrow> string \<Rightarrow> arm list" where
  "action_arms d q body =
    [(POST, top [''workspaces''], \<lambda>_. new_ws_arm d body),
     (DELETE, ws_path [], on_ws (with_ws d KillWorkspace)),
     (POST, ws_path [''agents''],
       on_ws (with_body d spawn_agent_body body (\<lambda>ws (name, background). SpawnAgent ws name background))),
     (POST, ws_path [''processes''],
       on_ws (with_body d new_proc_body body (\<lambda>ws (name, command). NewProcess ws name command))),
     (POST, pane_path ''processes'' [''restart''], on_pane (with_pane RestartProcess)),
     (DELETE, pane_path ''panes'' [], on_pane (with_pane KillPane)),
     (DELETE, pane_path ''processes'' [], on_pane (with_pane KillPane)),
     (POST, pane_path ''panes'' [''input''], on_pane (input_arm d body)),
     (POST, pane_path ''panes'' [''ack''], on_pane (with_pane AckPane)),
     (POST, ws_path [''changes'', ''stage''], on_ws (with_body d path_body body StageFile)),
     (POST, ws_path [''changes'', ''unstage''], on_ws (with_body d path_body body UnstageFile)),
     (POST, ws_path [''changes'', ''discard''], on_ws (with_body d path_body body DiscardFile)),
     (POST, ws_path [''changes'', ''commit''], on_ws (with_body d commit_body body Commit)),
     (POST, ws_path [''changes'', ''commit-all''], on_ws (with_body d commit_body body CommitAll)),
     (POST, ws_path [''checkout''],
       on_ws (with_body d checkout_body body (\<lambda>ws (branch, create). Checkout ws branch create))),
     (POST, ws_path [''upload''], on_ws (with_query d (q ''path'') ''path'' (\<lambda>ws path. Upload ws path body))),
     (DELETE, ws_path [''file''], on_ws (with_query d (q ''path'') ''path'' DeleteFile))]"

definition git_run_arms :: "http_lib \<Rightarrow> (string \<Rightarrow> string option) \<Rightarrow> string \<Rightarrow> arm list" where
  "git_run_arms d q body =
    [(POST, ws_path [''git'', ''fetch''],
       on_ws (git_run d fetch_body (None, False, False) body (\<lambda>(remote, all, prune). Fetch remote all prune))),
     (POST, ws_path [''git'', ''pull''],
       on_ws (git_run d pull_body (None, None, False, False) body (\<lambda>(remote, branch, rebase, ff). Pull remote branch rebase ff))),
     (POST, ws_path [''git'', ''push''],
       on_ws (git_run d push_body (None, None, False, False) body (\<lambda>(remote, branch, up, lease). Push remote branch up lease))),
     (POST, ws_path [''git'', ''stash''],
       on_ws (git_run d stash_body (None, False) body (\<lambda>(message, untracked). Stash message untracked))),
     (POST, ws_path [''git'', ''stash'', ''apply''],
       on_ws (git_run d stash_ref_body (0, False) body (\<lambda>(index, pop). StashApply index pop))),
     (DELETE, ws_path [''git'', ''stash''],
       on_ws (with_ws d (\<lambda>ws. GitRun ws (StashDrop (case parse_at (q ''index'') of Some n \<Rightarrow> n | None \<Rightarrow> 0))))),
     (POST, ws_path [''git'', ''amend''], on_ws (git_run d message_body None body Amend)),
     (POST, ws_path [''git'', ''reset''],
       on_ws (git_run d reset_body (None, Mixed) body (\<lambda>(rev, mode). Reset_To rev mode))),
     (POST, ws_path [''git'', ''revert''], on_ws (git_run d rev_body [] body Revert)),
     (POST, ws_path [''git'', ''cherry-pick''], on_ws (git_run d rev_body [] body CherryPick)),
     (POST, ws_path [''git'', ''merge''],
       on_ws (git_run d merge_body ([], False) body (\<lambda>(branch, no_ff). Merge branch no_ff))),
     (POST, ws_path [''git'', ''rebase''], on_ws (git_run d rebase_body [] body Rebase)),
     (POST, ws_path [''git'', ''sequence''], on_ws (git_run d sequence_body SContinue body Sequence)),
     (POST, ws_path [''git'', ''tag''],
       on_ws (git_run d tag_body ([], None, None) body (\<lambda>(name, rev, message). Tag name rev message))),
     (DELETE, ws_path [''git'', ''tag''],
       on_ws (with_query d (q ''name'') ''name'' (\<lambda>ws name. GitRun ws (TagDelete name))))]"

definition git_read_arms :: "http_lib \<Rightarrow> (string \<Rightarrow> string option) \<Rightarrow> string \<Rightarrow> arm list" where
  "git_read_arms d q body =
    [(GET, ws_path [''git'', ''log''], on_ws (with_ws d (log_request q))),
     (GET, ws_path [''git'', ''stashes''], on_ws (with_ws d GitStashes)),
     (GET, ws_path [''git'', ''remotes''], on_ws (with_ws d GitRemotes)),
     (GET, ws_path [''git'', ''tags''], on_ws (with_ws d GitTags)),
     (GET, ws_path [''git'', ''conflict''], on_ws (with_query d (q ''path'') ''path'' GitConflict)),
     (GET, ws_path [''git'', ''op''], on_ws (with_ws d GitOpStatus)),
     (POST, ws_path [''git'', ''remote''],
       on_ws (with_body d remote_body body (\<lambda>ws (name, url). GitRun ws (RemoteAdd name url)))),
     (DELETE, ws_path [''git'', ''remote''],
       on_ws (with_query d (q ''name'') ''name'' (\<lambda>ws name. GitRun ws (RemoteRemove name)))),
     (GET, ws_path [''git'', ''worktrees''], on_ws (with_ws d GitWorktrees)),
     (POST, ws_path [''git'', ''worktree''],
       on_ws (with_body d worktree_body body (\<lambda>ws (path, branch, new). GitRun ws (WorktreeAdd path branch new)))),
     (DELETE, ws_path [''git'', ''worktree''],
       on_ws (with_query d (q ''path'') ''path'' (\<lambda>ws path. GitRun ws (WorktreeRemove path (truthy (q ''force'')))))),
     (POST, ws_path [''git'', ''worktree'', ''prune''], on_ws (with_ws d (\<lambda>ws. GitRun ws WorktreePrune))),
     (DELETE, ws_path [''git'', ''op''], on_ws (with_ws d GitOpCancel))]"

definition index_arms :: "http_lib \<Rightarrow> (string \<Rightarrow> string option) \<Rightarrow> string \<Rightarrow> arm list" where
  "index_arms d q body =
    [(POST, ws_path [''git'', ''resolve''],
       on_ws (with_body d resolve_body body (\<lambda>ws (path, side). GitResolve ws path side))),
     (POST, ws_path [''git'', ''apply''],
       on_ws (with_body d apply_body body (\<lambda>ws (patch, target, reverse). GitApply ws patch target reverse))),
     (POST, ws_path [''git'', ''branch''],
       on_ws (with_body d branch_body body (\<lambda>ws (name, start). GitBranchCreate ws name start))),
     (DELETE, ws_path [''git'', ''branch''],
       on_ws (with_query d (q ''name'') ''name'' (\<lambda>ws name. GitBranchDelete ws name (truthy (q ''force''))))),
     (POST, ws_path [''git'', ''branch'', ''rename''],
       on_ws (with_body d rename_body body (\<lambda>ws (old, new). GitBranchRename ws old new)))]"

definition arms :: "http_lib \<Rightarrow> (string \<Rightarrow> string option) \<Rightarrow> string \<Rightarrow> arm list" where
  "arms d q body = query_arms d q body @ action_arms d q body @ git_run_arms d q body @ git_read_arms d q body @ index_arms d q body"

definition route :: "http_lib \<Rightarrow> http_request \<Rightarrow> routed" where
  "route d r =
     (let segs = segments (target_path (rq_target r)); q = query_get (h_lossy d) (target_query (rq_target r))
      in if rq_method r = GET \<and> segs = [''v1'', ''events''] then Events
         else case first_arm (arms d q (rq_body r)) (rq_method r) segs of
           Some x \<Rightarrow> x
         | None \<Rightarrow> Missing (''no route: '' @ method_text (rq_method r) @ '' /'' @ join ''/'' segs))"

end
