(* ===== verification/Http_Core.thy ===== *)
theory Http_Core
  imports Http Core_Api
begin

text \<open>
  What the HTTP face may do to the core: which requests can change something, that reading never does,
  and that a request acts on the workspace its path names.
\<close>

section \<open>Requests that change something\<close>

definition writes :: "Http.api_request \<Rightarrow> bool" where
  "writes q =
     (case q of
        Http.MakeDir _ _ \<Rightarrow> True | Http.NewWorkspace _ _ _ \<Rightarrow> True | Http.KillWorkspace _ \<Rightarrow> True
      | Http.SpawnAgent _ _ _ \<Rightarrow> True | Http.NewProcess _ _ _ \<Rightarrow> True | Http.RestartProcess _ _ \<Rightarrow> True
      | Http.KillPane _ _ \<Rightarrow> True | Http.PaneInput _ _ _ \<Rightarrow> True | Http.AckPane _ _ \<Rightarrow> True
      | Http.StageFile _ _ \<Rightarrow> True | Http.UnstageFile _ _ \<Rightarrow> True | Http.DiscardFile _ _ \<Rightarrow> True
      | Http.Commit _ _ \<Rightarrow> True | Http.CommitAll _ _ \<Rightarrow> True | Http.Checkout _ _ _ \<Rightarrow> True
      | Http.Upload _ _ _ \<Rightarrow> True | Http.DeleteFile _ _ \<Rightarrow> True | Http.GitRun _ _ \<Rightarrow> True
      | Http.GitOpCancel _ \<Rightarrow> True | Http.GitResolve _ _ _ \<Rightarrow> True | Http.GitApply _ _ _ _ \<Rightarrow> True
      | Http.GitBranchCreate _ _ _ \<Rightarrow> True | Http.GitBranchDelete _ _ _ \<Rightarrow> True
      | Http.GitBranchRename _ _ _ \<Rightarrow> True | Http.UpdateDaemon \<Rightarrow> True | _ \<Rightarrow> False)"

definition workspace_of :: "Http.api_request \<Rightarrow> session_id option" where
  "workspace_of q =
     (case q of
        Http.ListWorkspaces \<Rightarrow> None | Http.System \<Rightarrow> None | Http.AgentTypes \<Rightarrow> None | Http.Usage \<Rightarrow> None
      | Http.BrowseFs _ \<Rightarrow> None | Http.MakeDir _ _ \<Rightarrow> None | Http.Notifications _ \<Rightarrow> None
      | Http.NewWorkspace _ _ _ \<Rightarrow> None | Http.UpdateDaemon \<Rightarrow> None
      | Http.Workspace ws \<Rightarrow> Some ws | Http.Agents ws \<Rightarrow> Some ws | Http.Processes ws \<Rightarrow> Some ws
      | Http.Changes ws \<Rightarrow> Some ws | Http.Tree ws _ _ \<Rightarrow> Some ws | Http.File ws _ \<Rightarrow> Some ws
      | Http.Diff ws _ _ \<Rightarrow> Some ws | Http.Search ws _ \<Rightarrow> Some ws | Http.Show ws _ \<Rightarrow> Some ws
      | Http.GitOpStatus ws \<Rightarrow> Some ws | Http.GitLog ws _ _ _ _ _ \<Rightarrow> Some ws | Http.GitStashes ws \<Rightarrow> Some ws
      | Http.GitRemotes ws \<Rightarrow> Some ws | Http.GitTags ws \<Rightarrow> Some ws | Http.GitWorktrees ws \<Rightarrow> Some ws
      | Http.GitConflict ws _ \<Rightarrow> Some ws | Http.Branches ws \<Rightarrow> Some ws | Http.Download ws _ \<Rightarrow> Some ws
      | Http.PaneOutput ws _ _ _ _ \<Rightarrow> Some ws | Http.KillWorkspace ws \<Rightarrow> Some ws
      | Http.SpawnAgent ws _ _ \<Rightarrow> Some ws | Http.NewProcess ws _ _ \<Rightarrow> Some ws
      | Http.RestartProcess ws _ \<Rightarrow> Some ws | Http.KillPane ws _ \<Rightarrow> Some ws | Http.PaneInput ws _ _ \<Rightarrow> Some ws
      | Http.AckPane ws _ \<Rightarrow> Some ws | Http.StageFile ws _ \<Rightarrow> Some ws | Http.UnstageFile ws _ \<Rightarrow> Some ws
      | Http.DiscardFile ws _ \<Rightarrow> Some ws | Http.Commit ws _ \<Rightarrow> Some ws | Http.CommitAll ws _ \<Rightarrow> Some ws
      | Http.Checkout ws _ _ \<Rightarrow> Some ws | Http.Upload ws _ _ \<Rightarrow> Some ws | Http.DeleteFile ws _ \<Rightarrow> Some ws
      | Http.GitRun ws _ \<Rightarrow> Some ws | Http.GitOpCancel ws \<Rightarrow> Some ws | Http.GitResolve ws _ _ \<Rightarrow> Some ws
      | Http.GitApply ws _ _ _ \<Rightarrow> Some ws | Http.GitBranchCreate ws _ _ \<Rightarrow> Some ws
      | Http.GitBranchDelete ws _ _ \<Rightarrow> Some ws | Http.GitBranchRename ws _ _ \<Rightarrow> Some ws)"

section \<open>What the core does with them\<close>

text \<open>
  The requests the actor answers itself; \<open>index\<close> is the work libgit2 does on the index. The others read
  or write files on a thread of their own and are not answered here.
\<close>

definition core_request :: "(Http.api_request \<Rightarrow> 'g \<Rightarrow> string + 'g) \<Rightarrow> Http.api_request \<Rightarrow> 'g Core_Api.api_request option" where
  "core_request index q =
     (case q of
        Http.ListWorkspaces \<Rightarrow> Some Core_Api.ListWorkspaces
      | Http.AgentTypes \<Rightarrow> Some Core_Api.AgentTypes
      | Http.Notifications since \<Rightarrow> Some (Core_Api.Notifications since)
      | Http.GitOpStatus ws \<Rightarrow> Some (Core_Api.GitOpStatus ws)
      | Http.GitOpCancel ws \<Rightarrow> Some (Core_Api.GitOpCancel ws)
      | Http.GitRun ws op \<Rightarrow> Some (Core_Api.GitRun ws op)
      | Http.KillWorkspace ws \<Rightarrow> Some (Core_Api.KillWorkspace ws)
      | Http.SpawnAgent ws name background \<Rightarrow> Some (Core_Api.ApiSpawnAgent ws name background)
      | Http.NewProcess ws name command \<Rightarrow> Some (Core_Api.ApiNewProcess ws name command)
      | Http.RestartProcess ws p \<Rightarrow> Some (Core_Api.RestartProcess ws p)
      | Http.KillPane ws p \<Rightarrow> Some (Core_Api.KillPane ws p)
      | Http.PaneInput ws p ev \<Rightarrow> Some (Core_Api.PaneInput ws p ev)
      | Http.AckPane ws p \<Rightarrow> Some (Core_Api.AckPane ws p)
      | Http.StageFile ws _ \<Rightarrow> Some (Core_Api.GitIndex ws (index q))
      | Http.UnstageFile ws _ \<Rightarrow> Some (Core_Api.GitIndex ws (index q))
      | Http.DiscardFile ws _ \<Rightarrow> Some (Core_Api.GitIndex ws (index q))
      | Http.Commit ws _ \<Rightarrow> Some (Core_Api.GitIndex ws (index q))
      | Http.CommitAll ws _ \<Rightarrow> Some (Core_Api.GitIndex ws (index q))
      | Http.Checkout ws _ _ \<Rightarrow> Some (Core_Api.GitIndex ws (index q))
      | Http.GitResolve ws _ _ \<Rightarrow> Some (Core_Api.GitIndex ws (index q))
      | Http.GitApply ws _ _ _ \<Rightarrow> Some (Core_Api.GitIndex ws (index q))
      | Http.GitBranchCreate ws _ _ \<Rightarrow> Some (Core_Api.GitIndex ws (index q))
      | Http.GitBranchDelete ws _ _ \<Rightarrow> Some (Core_Api.GitIndex ws (index q))
      | Http.GitBranchRename ws _ _ \<Rightarrow> Some (Core_Api.GitIndex ws (index q))
      | _ \<Rightarrow> None)"

lemma reading_keeps_core:
  "\<not> writes q \<Longrightarrow> core_request index q = Some req \<Longrightarrow> snd (serve_api env req c) = c"
  by (auto simp: writes_def core_request_def serve_api_def handle_api_def structural_def split: Http.api_request.splits option.splits)

section \<open>The arms of the router\<close>

lemma first_arm_Some:
  "first_arm xs m segs = Some x \<Longrightarrow> \<exists>pat f caps. (m, pat, f) \<in> set xs \<and> captures pat segs = Some caps \<and> x = f caps"
  by (induction xs m segs rule: first_arm.induct) (auto split: option.splits if_splits)

text \<open>An arm is sound if what it asks reads only, for a \<open>GET\<close>, and is about the workspace of the path.\<close>

definition sound_arm :: "arm \<Rightarrow> bool" where
  "sound_arm a = (case a of (m, pat, f) \<Rightarrow>
     (\<forall>caps q. f caps = Ask q \<longrightarrow>
        (m = GET \<longrightarrow> \<not> writes q)
        \<and> (\<forall>ws. workspace_of q = Some ws \<longrightarrow> (\<exists>ls. pat = [Lit ''v1'', Lit ''workspaces'', Any] @ ls) \<and> sid (caps ! 0) = Some ws)))"

lemmas arm_defs = with_ws_def with_query_def with_body_def git_run_def Http.with_pane_def tree_arm_def output_arm_def
  input_arm_def log_request_def mkdir_arm_def new_ws_arm_def bad_ws_def on_ws_def on_pane_def top_def ws_path_def pane_path_def

lemma sound_query_arms: "list_all sound_arm (query_arms d q b)"
  unfolding query_arms_def list.pred_inject
  by (intro conjI TrueI) (auto simp: sound_arm_def arm_defs writes_def workspace_of_def split: option.splits sum.splits)

lemma sound_action_arms: "list_all sound_arm (action_arms d q b)"
  unfolding action_arms_def list.pred_inject
  by (intro conjI TrueI) (auto simp: sound_arm_def arm_defs writes_def workspace_of_def split: option.splits sum.splits)

lemma sound_git_run_arms: "list_all sound_arm (git_run_arms d q b)"
  unfolding git_run_arms_def list.pred_inject
  by (intro conjI TrueI) (auto simp: sound_arm_def arm_defs writes_def workspace_of_def split: option.splits sum.splits)

lemma sound_git_read_arms: "list_all sound_arm (git_read_arms d q b)"
  unfolding git_read_arms_def list.pred_inject
  by (intro conjI TrueI) (auto simp: sound_arm_def arm_defs writes_def workspace_of_def split: option.splits sum.splits)

lemma sound_index_arms: "list_all sound_arm (index_arms d q b)"
  unfolding index_arms_def list.pred_inject
  by (intro conjI TrueI) (auto simp: sound_arm_def arm_defs writes_def workspace_of_def split: option.splits sum.splits)

lemma sound_arms: "a \<in> set (arms d q b) \<Longrightarrow> sound_arm a"
  using sound_query_arms sound_action_arms sound_git_run_arms sound_git_read_arms sound_index_arms by (auto simp: arms_def list_all_iff)

lemma sound_armD:
  assumes "sound_arm (m, pat, f)" "f caps = Ask q"
  shows "m = GET \<Longrightarrow> \<not> writes q"
    "workspace_of q = Some ws \<Longrightarrow> \<exists>ls. pat = [Lit ''v1'', Lit ''workspaces'', Any] @ ls"
    "workspace_of q = Some ws \<Longrightarrow> sid (caps ! 0) = Some ws"
  using assms by (simp_all add: sound_arm_def)

lemma route_arm:
  assumes "route d r = Ask q"
  obtains pat f caps where "sound_arm (rq_method r, pat, f)"
    "captures pat (segments (target_path (rq_target r))) = Some caps" "f caps = Ask q"
proof -
  let ?arms = "arms d (query_get (h_lossy d) (target_query (rq_target r))) (rq_body r)"
  have "first_arm ?arms (rq_method r) (segments (target_path (rq_target r))) = Some (Ask q)"
    using assms by (auto simp: route_def Let_def split: if_splits option.splits)
  from first_arm_Some [OF this] show thesis using sound_arms that by metis
qed


definition quiet_lib :: http_lib where
  "quiet_lib = \<lparr>h_lossy = \<lambda>s. s, h_debug = \<lambda>s. s, h_json = \<lambda>_. None, h_why = \<lambda>s. s, h_event = \<lambda>_. None\<rparr>"

lemma sid_literals: "sid ''7'' = Some 7"
  by (simp add: sid_def parse_uint_def undigits_def digit_val_def is_digit_def u64_max_def)

lemma status_route:
  "route quiet_lib \<lparr>rq_method = GET, rq_target = ''/v1/workspaces/7/git/op'', rq_body = []\<rparr> = Ask (Http.GitOpStatus 7)"
proof -
  have "segments (target_path ''/v1/workspaces/7/git/op'') = [''v1'', ''workspaces'', ''7'', ''git'', ''op'']" by code_simp
  then show ?thesis
    by (simp add: route_def arms_def query_arms_def action_arms_def git_run_arms_def git_read_arms_def arm_defs sid_literals)
qed


lemma captures_ws:
  "captures ([Lit ''v1'', Lit ''workspaces'', Any] @ ls) segs = Some caps \<Longrightarrow>
    \<exists>ss. segs = [''v1'', ''workspaces'', caps ! 0] @ ss"
  by (cases segs; cases "tl segs"; cases "tl (tl segs)") (auto split: if_splits)

text \<open>
  A request acts on the workspace its path names. When it asks for something of a workspace, the path
  is \<open>/v1/workspaces/<id>/...\<close> and that is the number of its third segment; an id that is not a number
  of 64 bits asks nothing.
\<close>

theorem workspace_is_the_paths:
  assumes "route d r = Ask q" "workspace_of q = Some ws"
  shows "\<exists>s ls. segments (target_path (rq_target r)) = [''v1'', ''workspaces'', s] @ ls \<and> sid s = Some ws"
proof -
  obtain pat f caps where a: "sound_arm (rq_method r, pat, f)" "f caps = Ask q"
    and c: "captures pat (segments (target_path (rq_target r))) = Some caps"
    by (rule route_arm [OF assms(1)])
  obtain ls where "pat = [Lit ''v1'', Lit ''workspaces'', Any] @ ls" using sound_armD(2) [OF a assms(2)] by blast
  then obtain ss where "segments (target_path (rq_target r)) = [''v1'', ''workspaces'', caps ! 0] @ ss"
    using captures_ws c by blast
  then show ?thesis using sound_armD(3) [OF a assms(2)] by blast
qed

theorem workspace_is_the_paths_witness:
  "\<exists>s ls. segments (target_path ''/v1/workspaces/7/git/op'') = [''v1'', ''workspaces'', s] @ ls \<and> sid s = Some 7"
  using workspace_is_the_paths [OF status_route, of 7] by (simp add: workspace_of_def)

text \<open>A malformed index of a stash is passed over: the newest one is dropped.\<close>

lemma malformed_index_drops_newest:
  "route quiet_lib \<lparr>rq_method = DELETE, rq_target = ''/v1/workspaces/7/git/stash?index=two'', rq_body = []\<rparr>
    = Ask (Http.GitRun 7 (StashDrop 0))"
proof -
  have "segments (target_path ''/v1/workspaces/7/git/stash?index=two'') = [''v1'', ''workspaces'', ''7'', ''git'', ''stash'']"
    "query_get (\<lambda>s. s) (target_query ''/v1/workspaces/7/git/stash?index=two'') ''index'' = Some ''two''"
    by code_simp+
  then show ?thesis
    by (simp add: route_def arms_def query_arms_def action_arms_def git_run_arms_def arm_defs sid_literals quiet_lib_def
        parse_at_def parse_uint_def is_digit_def)
qed

end
