(* ===== verification/Git_Menu.thy ===== *)
theory Git_Menu
  imports Rust_Str
begin

text \<open>
  The git menu of the client (\<open>butai-client/src/git_menu.rs\<close>) and the questions its rows ask first
  (\<open>needs_asking\<close>, \<open>menu_action\<close> of \<open>butai-client/src/workbench.rs\<close>).
\<close>

datatype menu_group = GBranch | GRemote | GStash | GIntegrate | GFixup | GWorktree | GTag

definition all_groups :: "menu_group list" where
  "all_groups = [GBranch, GRemote, GStash, GIntegrate, GFixup, GWorktree, GTag]"

fun group_label :: "menu_group \<Rightarrow> string" where
  "group_label GBranch = ''Branch''"
| "group_label GRemote = ''Remote''"
| "group_label GStash = ''Stash''"
| "group_label GIntegrate = ''Integrate''"
| "group_label GFixup = ''Fixup''"
| "group_label GWorktree = ''Worktree''"
| "group_label GTag = ''Tag''"

fun group_key :: "menu_group \<Rightarrow> char" where
  "group_key GBranch = CHR ''b''"
| "group_key GRemote = CHR ''r''"
| "group_key GStash = CHR ''z''"
| "group_key GIntegrate = CHR ''i''"
| "group_key GFixup = CHR ''f''"
| "group_key GWorktree = CHR ''w''"
| "group_key GTag = CHR ''t''"

datatype menu_action =
  MCheckout | MNewBranch | MDeleteBranch | MStashList | MStashDrop | MTagCreate | MTagDelete
  | MRemoteRemove | MWorktreeList | MWorktreeAdd | MWorktreeRemove | MWorktreePrune
  | MFetch | MPull | MPullRebase | MPush | MPushUpstream | MPushForce | MStashPush | MStashPop
  | MMerge | MRebase | MSequenceContinue | MSequenceAbort | MSequenceSkip | MAmend | MResetSoft | MResetHard

record menu_item =
  mi_group :: menu_group
  mi_key :: char
  mi_label :: string
  mi_action :: menu_action

definition item :: "menu_group \<Rightarrow> char \<Rightarrow> string \<Rightarrow> menu_action \<Rightarrow> menu_item" where
  "item g k l a = \<lparr>mi_group = g, mi_key = k, mi_label = l, mi_action = a\<rparr>"

text \<open>The ellipsis of the labels, in UTF-8.\<close>

definition dots :: string where "dots = [CHR 0xE2, CHR 0x80, CHR 0xA6]"

definition ITEMS :: "menu_item list" where
  "ITEMS =
    [item GBranch CHR ''c'' (''checkout'' @ dots) MCheckout,
     item GBranch CHR ''n'' (''new branch'' @ dots) MNewBranch,
     item GBranch CHR ''d'' (''delete branch'' @ dots) MDeleteBranch,
     item GRemote CHR ''f'' ''fetch --prune'' MFetch,
     item GRemote CHR ''l'' ''pull'' MPull,
     item GRemote CHR ''r'' ''pull --rebase'' MPullRebase,
     item GRemote CHR ''p'' ''push'' MPush,
     item GRemote CHR ''u'' ''push --set-upstream'' MPushUpstream,
     item GRemote CHR ''F'' ''push --force-with-lease'' MPushForce,
     item GStash CHR ''z'' ''stash everything'' MStashPush,
     item GStash CHR ''p'' ''pop the latest'' MStashPop,
     item GStash CHR ''l'' (''pop a specific one'' @ dots) MStashList,
     item GStash CHR ''x'' (''drop one'' @ dots) MStashDrop,
     item GRemote CHR ''x'' (''remove a remote'' @ dots) MRemoteRemove,
     item GTag CHR ''n'' (''new tag'' @ dots) MTagCreate,
     item GTag CHR ''x'' (''delete a tag'' @ dots) MTagDelete,
     item GIntegrate CHR ''c'' ''continue'' MSequenceContinue,
     item GIntegrate CHR ''a'' ''abort'' MSequenceAbort,
     item GIntegrate CHR ''s'' ''skip this commit'' MSequenceSkip,
     item GIntegrate CHR ''m'' (''merge'' @ dots) MMerge,
     item GIntegrate CHR ''r'' (''rebase onto'' @ dots) MRebase,
     item GFixup CHR ''a'' ''amend last commit'' MAmend,
     item GFixup CHR ''s'' ''reset --soft HEAD~1'' MResetSoft,
     item GFixup CHR ''h'' ''reset --hard'' MResetHard,
     item GWorktree CHR ''l'' (''open worktree'' @ dots) MWorktreeList,
     item GWorktree CHR ''n'' (''new worktree'' @ dots) MWorktreeAdd,
     item GWorktree CHR ''x'' (''remove worktree'' @ dots) MWorktreeRemove,
     item GWorktree CHR ''p'' ''prune gone worktrees'' MWorktreePrune]"

definition way_out :: "menu_action \<Rightarrow> bool" where
  "way_out a \<longleftrightarrow> a = MSequenceContinue \<or> a = MSequenceAbort \<or> a = MSequenceSkip"

definition available :: "bool \<Rightarrow> menu_action \<Rightarrow> bool" where
  "available in_sequence a = (if way_out a then in_sequence else \<not> in_sequence)"

definition needs_confirm :: "menu_action \<Rightarrow> bool" where
  "needs_confirm a \<longleftrightarrow> a = MPushForce \<or> a = MResetHard \<or> a = MSequenceAbort"

definition items_for :: "menu_group \<Rightarrow> bool \<Rightarrow> menu_item list" where
  "items_for g in_sequence = filter (\<lambda>i. mi_group i = g \<and> available in_sequence (mi_action i)) ITEMS"

definition groups_for :: "bool \<Rightarrow> menu_group list" where
  "groups_for in_sequence = filter (\<lambda>g. items_for g in_sequence \<noteq> []) all_groups"

definition menu_action_of :: "menu_group \<Rightarrow> string \<Rightarrow> bool \<Rightarrow> menu_action option" where
  "menu_action_of g label in_sequence = map_option mi_action (find (\<lambda>i. mi_label i = label) (items_for g in_sequence))"

definition label_of :: "menu_action \<Rightarrow> string" where
  "label_of a = (case find (\<lambda>i. mi_action i = a) ITEMS of Some i \<Rightarrow> mi_label i | None \<Rightarrow> ''this'')"

text \<open>
  Whether a row still has to be asked about; the answer of the confirm box is taken out of its slot.
\<close>

definition needs_asking :: "menu_action \<Rightarrow> menu_action option \<Rightarrow> bool \<times> menu_action option" where
  "needs_asking a confirmed = (if \<not> needs_confirm a then (False, confirmed) else (confirmed \<noteq> Some a, None))"

section \<open>The menu is unambiguous\<close>

lemma every_action_once: "distinct (map mi_action ITEMS)" "\<And>a. a \<in> mi_action ` set ITEMS"
proof -
  show "distinct (map mi_action ITEMS)" by (simp add: ITEMS_def item_def)
  show "a \<in> mi_action ` set ITEMS" for a by (cases a) (simp_all add: ITEMS_def item_def)
qed

lemma groups_complete: "g \<in> set all_groups" by (cases g) (simp_all add: all_groups_def)

lemma keys_distinct: "distinct (map mi_key (items_for g s))" "distinct (map mi_label (items_for g s))"
proof -
  have "list_all (\<lambda>g. list_all (\<lambda>s. distinct (map mi_key (items_for g s)) \<and> distinct (map mi_label (items_for g s))) [False, True]) all_groups"
    by code_simp
  then have "distinct (map mi_key (items_for g s)) \<and> distinct (map mi_label (items_for g s))"
    using groups_complete [of g] by (cases s) (auto simp: list_all_iff)
  then show "distinct (map mi_key (items_for g s))" "distinct (map mi_label (items_for g s))" by simp_all
qed

text \<open>A row that is drawn is the row that is run.\<close>

lemma drawn_row_runs:
  assumes "i \<in> set (items_for g s)"
  shows "menu_action_of g (mi_label i) s = Some (mi_action i)"
proof -
  obtain j where j: "find (\<lambda>k. mi_label k = mi_label i) (items_for g s) = Some j"
    using assms by (cases "find (\<lambda>k. mi_label k = mi_label i) (items_for g s)") (auto simp: find_None_iff)
  then have "mi_label j = mi_label i" "j \<in> set (items_for g s)" by (auto simp: find_Some_iff)
  then have "j = i" using assms keys_distinct(2) [of g s] by (metis distinct_map inj_onD)
  then show ?thesis using j by (simp add: menu_action_of_def)
qed

lemma stuck_repository: "groups_for True = [GIntegrate]"
    "map mi_action (items_for GIntegrate True) = [MSequenceContinue, MSequenceAbort, MSequenceSkip]"
  by code_simp+

lemma reachable_when_clean: "\<not> way_out a \<Longrightarrow> \<exists>g i. g \<in> set (groups_for False) \<and> i \<in> set (items_for g False) \<and> mi_action i = a"
proof -
  assume a: "\<not> way_out a"
  obtain i where i: "i \<in> set ITEMS" "mi_action i = a" using every_action_once(2) [of a] by auto
  then have "i \<in> set (items_for (mi_group i) False)" using a by (simp add: items_for_def available_def)
  moreover from this have "mi_group i \<in> set (groups_for False)"
    using groups_complete by (auto simp: groups_for_def)
  ultimately show ?thesis using i(2) by blast
qed

text \<open>An answer is good for one run: the row asks, runs once answered, and asks again after that.\<close>

lemma asked_each_time:
  "needs_confirm a \<Longrightarrow> fst (needs_asking a None)"
  "needs_confirm a \<Longrightarrow> needs_asking a (Some a) = (False, None)"
  "needs_confirm a \<Longrightarrow> b \<noteq> a \<Longrightarrow> fst (needs_asking a (Some b))"
  by (simp_all add: needs_asking_def)

end
