(* ===== verification/Client_Calls.thy ===== *)
theory Client_Calls
  imports Http Git_Menu Names
begin

text \<open>
  The calls the terminal client makes (\<open>butai-client/src/workbench.rs\<close>) and their meeting with the
  daemon's router: what a gesture asks for is what the core is asked. JSON text is written and read by
  serde_json; that reading undoes writing is a hypothesis of the theorems.
\<close>

section \<open>Calls\<close>

datatype payload = NoBody | JsonBody json | RawBody string

record call =
  c_method :: http_method
  c_target :: string
  c_payload :: payload

definition get_call :: "string \<Rightarrow> call" where
  "get_call t = \<lparr>c_method = GET, c_target = t, c_payload = NoBody\<rparr>"

definition delete_call :: "string \<Rightarrow> call" where
  "delete_call t = \<lparr>c_method = DELETE, c_target = t, c_payload = NoBody\<rparr>"

definition post_call :: "string \<Rightarrow> json \<Rightarrow> call" where
  "post_call t v = \<lparr>c_method = POST, c_target = t, c_payload = JsonBody v\<rparr>"

definition post_bytes :: "string \<Rightarrow> string \<Rightarrow> call" where
  "post_bytes t b = \<lparr>c_method = POST, c_target = t, c_payload = RawBody b\<rparr>"

text \<open>What arrives at the daemon; \<open>txt\<close> writes JSON.\<close>

definition on_wire :: "(json \<Rightarrow> string) \<Rightarrow> call \<Rightarrow> http_request" where
  "on_wire txt c = \<lparr>rq_method = c_method c, rq_target = c_target c,
     rq_body = (case c_payload c of NoBody \<Rightarrow> [] | JsonBody v \<Rightarrow> txt v | RawBody b \<Rightarrow> b)\<rparr>"

definition at :: "session_id \<Rightarrow> string \<Rightarrow> string" where
  "at ws tail = ''/v1/workspaces/'' @ show_nat ws @ ''/'' @ tail"

text \<open>A query with one encoded value.\<close>

definition param :: "string \<Rightarrow> string \<Rightarrow> string \<Rightarrow> string" where
  "param tail key v = tail @ ''?'' @ key @ ''='' @ urlencode v"

section \<open>What the gestures send\<close>

datatype diff_kind = DUnstaged "string option" | DStaged "string option" | DCommit string string

definition or_empty :: "string option \<Rightarrow> string" where
  "or_empty p = (case p of Some s \<Rightarrow> s | None \<Rightarrow> [])"

fun diff_route :: "session_id \<Rightarrow> diff_kind \<Rightarrow> string" where
  "diff_route ws (DUnstaged p) = at ws (param ''diff'' ''path'' (or_empty p))"
| "diff_route ws (DStaged p) = at ws (''diff?kind=staged&path='' @ urlencode (or_empty p))"
| "diff_route ws (DCommit c _) = at ws (param ''show'' ''id'' c)"

definition dir_route :: "bool \<Rightarrow> session_id \<Rightarrow> string \<Rightarrow> string" where
  "dir_route docs ws dir = at ws (param ''tree'' ''path'' dir @ (if docs then ''&filter=docs'' else []))"

fun target_name :: "apply_target \<Rightarrow> string" where
  "target_name Index = ''index''"
| "target_name Worktree = ''worktree''"

fun side_name :: "resolve_side \<Rightarrow> string" where
  "side_name Ours = ''ours''"
| "side_name Theirs = ''theirs''"
| "side_name Resolved = ''resolved''"

definition apply_call :: "session_id \<Rightarrow> string \<Rightarrow> apply_target \<Rightarrow> bool \<Rightarrow> call" where
  "apply_call ws patch target backwards =
     post_call (at ws ''git/apply'')
       (JObj [(''patch'', JStr patch), (''target'', JStr (target_name target)), (''reverse'', JBool backwards)])"

definition worktree_path :: "path \<Rightarrow> string \<Rightarrow> path" where
  "worktree_path cwd branch =
     (let base = (case file_name cwd of Some n \<Rightarrow> n | None \<Rightarrow> []);
          safe = map (\<lambda>c. if c = CHR ''/'' then CHR ''-'' else c) branch;
          dir = (case parent cwd of Some d \<Rightarrow> d | None \<Rightarrow> ''.'')
      in join_path dir (base @ ''-'' @ safe))"

datatype git_action =
  AStage string | AUnstage string | ADiscard string | ACommit string bool | APush
  | AResolve string resolve_side | ANewBranch string | ANewTag string | ANewWorktree string

fun git_call :: "session_id \<Rightarrow> path \<Rightarrow> git_action \<Rightarrow> call" where
  "git_call ws cwd (AStage p) = post_call (at ws ''changes/stage'') (JObj [(''path'', JStr p)])"
| "git_call ws cwd (AUnstage p) = post_call (at ws ''changes/unstage'') (JObj [(''path'', JStr p)])"
| "git_call ws cwd (ADiscard p) = post_call (at ws ''changes/discard'') (JObj [(''path'', JStr p)])"
| "git_call ws cwd (ACommit message everything) =
     post_call (at ws (if everything then ''changes/commit-all'' else ''changes/commit'')) (JObj [(''message'', JStr message)])"
| "git_call ws cwd APush = post_call (at ws ''git/push'') (JObj [])"
| "git_call ws cwd (ANewBranch name) =
     post_call (at ws ''checkout'') (JObj [(''branch'', JStr name), (''create'', JBool True)])"
| "git_call ws cwd (ANewTag name) = post_call (at ws ''git/tag'') (JObj [(''name'', JStr name)])"
| "git_call ws cwd (ANewWorktree branch) =
     post_call (at ws ''git/worktree'')
       (JObj [(''path'', JStr (worktree_path cwd branch)), (''branch'', JStr branch), (''new_branch'', JBool True)])"
| "git_call ws cwd (AResolve p side) =
     post_call (at ws ''git/resolve'') (JObj [(''path'', JStr p), (''take'', JStr (side_name side))])"

datatype pick_target =
  PCheckout | PRevert | PCherryPick | PDeleteBranch | PMerge | PRebase | PStashPop | PStashDrop
  | PTagDelete | PRemoteRemove | POpenWorktree | PRemoveWorktree

definition index_of_pick :: "string \<Rightarrow> nat" where
  "index_of_pick v = (case parse_uint usize_max v of Some n \<Rightarrow> n | None \<Rightarrow> 0)"

fun pick_call :: "session_id \<Rightarrow> pick_target \<Rightarrow> string \<Rightarrow> call" where
  "pick_call ws PCheckout v = post_call (at ws ''checkout'') (JObj [(''branch'', JStr v)])"
| "pick_call ws PRevert v = post_call (at ws ''git/revert'') (JObj [(''rev'', JStr v)])"
| "pick_call ws PCherryPick v = post_call (at ws ''git/cherry-pick'') (JObj [(''rev'', JStr v)])"
| "pick_call ws PDeleteBranch v = delete_call (at ws (param ''git/branch'' ''name'' v))"
| "pick_call ws PMerge v = post_call (at ws ''git/merge'') (JObj [(''branch'', JStr v)])"
| "pick_call ws PRebase v = post_call (at ws ''git/rebase'') (JObj [(''onto'', JStr v)])"
| "pick_call ws PStashPop v =
     post_call (at ws ''git/stash/apply'') (JObj [(''index'', JNat (index_of_pick v)), (''pop'', JBool True)])"
| "pick_call ws PStashDrop v = delete_call (at ws (param ''git/stash'' ''index'' v))"
| "pick_call ws PTagDelete v = delete_call (at ws (param ''git/tag'' ''name'' v))"
| "pick_call ws PRemoteRemove v = delete_call (at ws (param ''git/remote'' ''name'' v))"
| "pick_call ws POpenWorktree v = post_call ''/v1/workspaces'' (JObj [(''path'', JStr v)])"
| "pick_call ws PRemoveWorktree v = delete_call (at ws (param ''git/worktree'' ''path'' v))"

text \<open>The rows of the git menu that are one call.\<close>

fun menu_request :: "menu_action \<Rightarrow> (string \<times> json) option" where
  "menu_request MFetch = Some (''git/fetch'', JObj [(''all'', JBool True), (''prune'', JBool True)])"
| "menu_request MPull = Some (''git/pull'', JObj [])"
| "menu_request MPullRebase = Some (''git/pull'', JObj [(''rebase'', JBool True)])"
| "menu_request MPush = Some (''git/push'', JObj [])"
| "menu_request MPushUpstream = Some (''git/push'', JObj [(''set_upstream'', JBool True)])"
| "menu_request MPushForce = Some (''git/push'', JObj [(''force'', JBool True)])"
| "menu_request MStashPush = Some (''git/stash'', JObj [])"
| "menu_request MStashPop = Some (''git/stash/apply'', JObj [(''pop'', JBool True)])"
| "menu_request MSequenceContinue = Some (''git/sequence'', JObj [(''action'', JStr ''continue'')])"
| "menu_request MSequenceAbort = Some (''git/sequence'', JObj [(''action'', JStr ''abort'')])"
| "menu_request MSequenceSkip = Some (''git/sequence'', JObj [(''action'', JStr ''skip'')])"
| "menu_request MAmend = Some (''git/amend'', JObj [])"
| "menu_request MResetSoft = Some (''git/reset'', JObj [(''rev'', JStr ''HEAD~1''), (''mode'', JStr ''soft'')])"
| "menu_request MResetHard = Some (''git/reset'', JObj [(''mode'', JStr ''hard'')])"
| "menu_request MWorktreePrune = Some (''git/worktree/prune'', JObj [])"
| "menu_request _ = None"

definition menu_call :: "session_id \<Rightarrow> menu_action \<Rightarrow> call option" where
  "menu_call ws a = map_option (\<lambda>(tail, body). post_call (at ws tail) body) (menu_request a)"

text \<open>Files, searches and programs.\<close>

definition search_call :: "session_id \<Rightarrow> string \<Rightarrow> call" where
  "search_call ws query = get_call (at ws (param ''search'' ''q'' query))"

definition file_call :: "session_id \<Rightarrow> string \<Rightarrow> call" where
  "file_call ws p = get_call (at ws (param ''file'' ''path'' p))"

definition save_call :: "session_id \<Rightarrow> string \<Rightarrow> string \<Rightarrow> call" where
  "save_call ws p contents = post_bytes (at ws (param ''upload'' ''path'' p)) contents"

definition remove_call :: "session_id \<Rightarrow> string \<Rightarrow> call" where
  "remove_call ws p = delete_call (at ws (param ''file'' ''path'' p))"

definition spawn_agent_call :: "session_id \<Rightarrow> string \<Rightarrow> call" where
  "spawn_agent_call ws name = post_call (at ws ''agents'') (JObj [(''type'', JStr name)])"

definition run_process_call :: "session_id \<Rightarrow> string \<Rightarrow> string \<Rightarrow> call" where
  "run_process_call ws name command = post_call (at ws ''processes'') (JObj [(''name'', JStr name), (''command'', JStr command)])"

definition restart_call :: "session_id \<Rightarrow> pane_id \<Rightarrow> call" where
  "restart_call ws p = post_call (at ws (''processes/'' @ show_nat p @ ''/restart'')) (JObj [])"

definition kill_call :: "session_id \<Rightarrow> pane_id \<Rightarrow> call" where
  "kill_call ws p = delete_call (at ws (''processes/'' @ show_nat p))"

definition open_workspace_call :: "string \<Rightarrow> call" where
  "open_workspace_call p = post_call ''/v1/workspaces'' (JObj [(''path'', JStr p)])"

lemmas gesture_call_defs [simp] = search_call_def file_call_def save_call_def remove_call_def spawn_agent_call_def run_process_call_def restart_call_def kill_call_def open_workspace_call_def

text \<open>
  Everything a gesture on a workspace sends, named by the gesture. A row of the git menu that opens a list
  or a prompt instead of making a call sends nothing by itself.
\<close>

datatype gesture =
  LookUp string | OpenFile string | SaveFile string string | RemoveFile string | ListDir bool string
  | ShowDiff diff_kind | ApplyPatch string apply_target bool | GitGesture git_action
  | Picked pick_target string | StartAgent string | StartProcess string string
  | RestartPane pane_id | KillAPane pane_id | OpenFolder string | MenuRow menu_action

fun gesture_call :: "session_id \<Rightarrow> path \<Rightarrow> gesture \<Rightarrow> call option" where
  "gesture_call ws cwd (LookUp query) = Some (search_call ws query)"
| "gesture_call ws cwd (OpenFile p) = Some (file_call ws p)"
| "gesture_call ws cwd (SaveFile p contents) = Some (save_call ws p contents)"
| "gesture_call ws cwd (RemoveFile p) = Some (remove_call ws p)"
| "gesture_call ws cwd (ListDir docs dir) = Some (get_call (dir_route docs ws dir))"
| "gesture_call ws cwd (ShowDiff k) = Some (get_call (diff_route ws k))"
| "gesture_call ws cwd (ApplyPatch patch target backwards) = Some (apply_call ws patch target backwards)"
| "gesture_call ws cwd (GitGesture a) = Some (git_call ws cwd a)"
| "gesture_call ws cwd (Picked t v) = Some (pick_call ws t v)"
| "gesture_call ws cwd (StartAgent name) = Some (spawn_agent_call ws name)"
| "gesture_call ws cwd (StartProcess name command) = Some (run_process_call ws name command)"
| "gesture_call ws cwd (RestartPane p) = Some (restart_call ws p)"
| "gesture_call ws cwd (KillAPane p) = Some (kill_call ws p)"
| "gesture_call ws cwd (OpenFolder p) = Some (open_workspace_call p)"
| "gesture_call ws cwd (MenuRow a) = menu_call ws a"

section \<open>Finding the arm\<close>

lemmas arm_simps = arms_def query_arms_def action_arms_def git_run_arms_def git_read_arms_def index_arms_def
  top_def ws_path_def pane_path_def on_ws_def on_pane_def

lemma at_path:
  assumes "CHR ''?'' \<notin> set tail"
  shows "segments (target_path (at ws tail)) = [''v1'', ''workspaces'', show_nat ws] @ segments tail"
    "target_query (at ws tail) = []"
    "segments (target_path (at ws (tail @ ''?'' @ q))) = [''v1'', ''workspaces'', show_nat ws] @ segments tail"
    "target_query (at ws (tail @ ''?'' @ q)) = q"
proof -
  have nq: "CHR ''?'' \<notin> set (at ws tail)"
    using assms not_in_show_nat [of "CHR ''?''" ws] by (simp add: at_def is_digit_def)
  have "segments (at ws tail) = segments ([] @ ''/'' @ ''v1'' @ ''/'' @ ''workspaces'' @ ''/'' @ show_nat ws @ ''/'' @ tail)"
    by (simp add: at_def)
  also have "\<dots> = [''v1'', ''workspaces'', show_nat ws] @ segments tail"
    using not_in_show_nat [of "CHR ''/''" ws] unfolding append_Nil segments_root
    by (simp add: segments_slash is_digit_def del: append.simps(2))
  finally have seg: "segments (at ws tail) = [''v1'', ''workspaces'', show_nat ws] @ segments tail" .
  have at_app: "at ws (tail @ ''?'' @ q) = at ws tail @ ''?'' @ q" by (simp add: at_def)
  show "segments (target_path (at ws tail)) = [''v1'', ''workspaces'', show_nat ws] @ segments tail"
    "target_query (at ws tail) = []"
    using nq seg by (simp_all add: target_split)
  show "segments (target_path (at ws (tail @ ''?'' @ q))) = [''v1'', ''workspaces'', show_nat ws] @ segments tail"
    "target_query (at ws (tail @ ''?'' @ q)) = q"
    unfolding at_app using target_split(1,2) [OF nq, of q] seg by simp_all
qed

section \<open>What the gestures mean\<close>

fun wanted_git :: "session_id \<Rightarrow> path \<Rightarrow> git_action \<Rightarrow> api_request" where
  "wanted_git ws cwd (AStage p) = StageFile ws p"
| "wanted_git ws cwd (AUnstage p) = UnstageFile ws p"
| "wanted_git ws cwd (ADiscard p) = DiscardFile ws p"
| "wanted_git ws cwd (ACommit message everything) = (if everything then CommitAll ws message else Commit ws message)"
| "wanted_git ws cwd APush = GitRun ws (Push None None False False)"
| "wanted_git ws cwd (ANewBranch name) = Checkout ws name True"
| "wanted_git ws cwd (ANewTag name) = GitRun ws (Tag name None None)"
| "wanted_git ws cwd (ANewWorktree branch) = GitRun ws (WorktreeAdd (worktree_path cwd branch) (Some branch) True)"
| "wanted_git ws cwd (AResolve p side) = GitResolve ws p side"

fun wanted_pick :: "session_id \<Rightarrow> pick_target \<Rightarrow> string \<Rightarrow> api_request" where
  "wanted_pick ws PCheckout v = Checkout ws v False"
| "wanted_pick ws PRevert v = GitRun ws (Revert v)"
| "wanted_pick ws PCherryPick v = GitRun ws (CherryPick v)"
| "wanted_pick ws PDeleteBranch v = GitBranchDelete ws v False"
| "wanted_pick ws PMerge v = GitRun ws (Merge v False)"
| "wanted_pick ws PRebase v = GitRun ws (Rebase v)"
| "wanted_pick ws PStashPop v = GitRun ws (StashApply (index_of_pick v) True)"
| "wanted_pick ws PStashDrop v = GitRun ws (StashDrop (index_of_pick v))"
| "wanted_pick ws PTagDelete v = GitRun ws (TagDelete v)"
| "wanted_pick ws PRemoteRemove v = GitRun ws (RemoteRemove v)"
| "wanted_pick ws POpenWorktree v = NewWorkspace None None (Some v)"
| "wanted_pick ws PRemoveWorktree v = GitRun ws (WorktreeRemove v False)"

fun wanted_diff :: "session_id \<Rightarrow> diff_kind \<Rightarrow> api_request" where
  "wanted_diff ws (DUnstaged p) = Diff ws (or_empty p) False"
| "wanted_diff ws (DStaged p) = Diff ws (or_empty p) True"
| "wanted_diff ws (DCommit c _) = Show ws c"

text \<open>What the label of a menu row says it does.\<close>

fun wanted_menu :: "session_id \<Rightarrow> menu_action \<Rightarrow> api_request option" where
  "wanted_menu ws MFetch = Some (GitRun ws (Fetch None True True))"
| "wanted_menu ws MPull = Some (GitRun ws (Pull None None False False))"
| "wanted_menu ws MPullRebase = Some (GitRun ws (Pull None None True False))"
| "wanted_menu ws MPush = Some (GitRun ws (Push None None False False))"
| "wanted_menu ws MPushUpstream = Some (GitRun ws (Push None None True False))"
| "wanted_menu ws MPushForce = Some (GitRun ws (Push None None False True))"
| "wanted_menu ws MStashPush = Some (GitRun ws (Stash None False))"
| "wanted_menu ws MStashPop = Some (GitRun ws (StashApply 0 True))"
| "wanted_menu ws MSequenceContinue = Some (GitRun ws (Sequence SContinue))"
| "wanted_menu ws MSequenceAbort = Some (GitRun ws (Sequence SAbort))"
| "wanted_menu ws MSequenceSkip = Some (GitRun ws (Sequence SSkip))"
| "wanted_menu ws MAmend = Some (GitRun ws (Amend None))"
| "wanted_menu ws MResetSoft = Some (GitRun ws (Reset_To (Some ''HEAD~1'') Soft))"
| "wanted_menu ws MResetHard = Some (GitRun ws (Reset_To None Hard))"
| "wanted_menu ws MWorktreePrune = Some (GitRun ws WorktreePrune)"
| "wanted_menu ws _ = None"

fun wanted :: "session_id \<Rightarrow> path \<Rightarrow> gesture \<Rightarrow> api_request option" where
  "wanted ws cwd (LookUp query) = Some (Search ws query)"
| "wanted ws cwd (OpenFile p) = Some (File ws p)"
| "wanted ws cwd (SaveFile p contents) = Some (Upload ws p contents)"
| "wanted ws cwd (RemoveFile p) = Some (DeleteFile ws p)"
| "wanted ws cwd (ListDir docs dir) = Some (Tree ws dir (if docs then Docs else AllFiles))"
| "wanted ws cwd (ShowDiff k) = Some (wanted_diff ws k)"
| "wanted ws cwd (ApplyPatch patch target backwards) = Some (GitApply ws patch target backwards)"
| "wanted ws cwd (GitGesture a) = Some (wanted_git ws cwd a)"
| "wanted ws cwd (Picked t v) = Some (wanted_pick ws t v)"
| "wanted ws cwd (StartAgent name) = Some (SpawnAgent ws name False)"
| "wanted ws cwd (StartProcess name command) = Some (NewProcess ws name command)"
| "wanted ws cwd (RestartPane p) = Some (RestartProcess ws p)"
| "wanted ws cwd (KillAPane p) = Some (KillPane ws p)"
| "wanted ws cwd (OpenFolder p) = Some (NewWorkspace None None (Some p))"
| "wanted ws cwd (MenuRow a) = wanted_menu ws a"

text \<open>The text a gesture puts in a query.\<close>

fun query_text :: "gesture \<Rightarrow> string" where
  "query_text (LookUp q) = q"
| "query_text (OpenFile p) = p"
| "query_text (SaveFile p _) = p"
| "query_text (RemoveFile p) = p"
| "query_text (ListDir _ dir) = dir"
| "query_text (ShowDiff (DUnstaged p)) = or_empty p"
| "query_text (ShowDiff (DStaged p)) = or_empty p"
| "query_text (ShowDiff (DCommit c _)) = c"
| "query_text (Picked _ v) = v"
| "query_text _ = []"

fun panes_of :: "gesture \<Rightarrow> pane_id list" where
  "panes_of (RestartPane p) = [p]"
| "panes_of (KillAPane p) = [p]"
| "panes_of _ = []"

section \<open>The router gives the core what the gesture means\<close>

text \<open>The router on a path of a workspace.\<close>

definition routed_at :: "http_lib \<Rightarrow> http_method \<Rightarrow> session_id \<Rightarrow> string list \<Rightarrow> string \<Rightarrow> string \<Rightarrow> routed option" where
  "routed_at d m ws tail query body =
     first_arm (arms d (query_get (h_lossy d) query) body) m ([''v1'', ''workspaces'', show_nat ws] @ tail)"

lemma route_at:
  assumes "CHR ''?'' \<notin> set tail"
  shows "routed_at d m ws (segments tail) [] b = Some x \<Longrightarrow>
      route d \<lparr>rq_method = m, rq_target = at ws tail, rq_body = b\<rparr> = x"
    "routed_at d m ws (segments tail) query b = Some x \<Longrightarrow>
      route d \<lparr>rq_method = m, rq_target = at ws (tail @ ''?'' @ query), rq_body = b\<rparr> = x"
  using at_path [OF assms] by (simp_all add: route_def routed_at_def Let_def)

lemma route_param:
  assumes "routed_at d m ws (segments tail) (key @ ''='' @ urlencode v) b = Some x" "CHR ''?'' \<notin> set tail"
  shows "route d \<lparr>rq_method = m, rq_target = at ws (param tail key v), rq_body = b\<rparr> = x"
  using route_at(2) [OF assms(2,1)] by (simp add: param_def)

lemma sid_show: "ws \<le> u64_max \<Longrightarrow> sid (show_nat ws) = Some ws"
  by (simp add: sid_def parse_show_nat)

text \<open>The queries with one value, on every endpoint that takes one.\<close>

lemma routed_query:
  assumes "ws \<le> u64_max" "h_lossy d v = v"
  shows "routed_at d GET ws [''search''] (''q='' @ urlencode v) b = Some (Ask (Search ws v))"
    "routed_at d GET ws [''file''] (''path='' @ urlencode v) b = Some (Ask (File ws v))"
    "routed_at d DELETE ws [''file''] (''path='' @ urlencode v) b = Some (Ask (DeleteFile ws v))"
    "routed_at d POST ws [''upload''] (''path='' @ urlencode v) b = Some (Ask (Upload ws v b))"
    "routed_at d GET ws [''show''] (''id='' @ urlencode v) b = Some (Ask (Show ws v))"
    "routed_at d DELETE ws [''git'', ''tag''] (''name='' @ urlencode v) b = Some (Ask (GitRun ws (TagDelete v)))"
    "routed_at d DELETE ws [''git'', ''remote''] (''name='' @ urlencode v) b = Some (Ask (GitRun ws (RemoteRemove v)))"
proof -
  have q: "query_get (h_lossy d) (''q='' @ urlencode v) ''q'' = Some v"
    "query_get (h_lossy d) (''path='' @ urlencode v) ''path'' = Some v"
    "query_get (h_lossy d) (''id='' @ urlencode v) ''id'' = Some v"
    "query_get (h_lossy d) (''name='' @ urlencode v) ''name'' = Some v"
    using query_get_encoded [of "h_lossy d" v "''q''"] query_get_encoded [of "h_lossy d" v "''path''"]
      query_get_encoded [of "h_lossy d" v "''id''"] query_get_encoded [of "h_lossy d" v "''name''"] assms(2)
    by simp_all
  note route_simps = routed_at_def arm_simps with_query_def sid_show
  show "routed_at d GET ws [''search''] (''q='' @ urlencode v) b = Some (Ask (Search ws v))"
    "routed_at d GET ws [''file''] (''path='' @ urlencode v) b = Some (Ask (File ws v))"
    "routed_at d DELETE ws [''file''] (''path='' @ urlencode v) b = Some (Ask (DeleteFile ws v))"
    "routed_at d POST ws [''upload''] (''path='' @ urlencode v) b = Some (Ask (Upload ws v b))"
    "routed_at d GET ws [''show''] (''id='' @ urlencode v) b = Some (Ask (Show ws v))"
    "routed_at d DELETE ws [''git'', ''tag''] (''name='' @ urlencode v) b = Some (Ask (GitRun ws (TagDelete v)))"
    "routed_at d DELETE ws [''git'', ''remote''] (''name='' @ urlencode v) b = Some (Ask (GitRun ws (RemoteRemove v)))"
    using q assms by (simp_all add: route_simps)
qed

lemma routed_query_other:
  assumes "ws \<le> u64_max" "h_lossy d v = v"
  shows "routed_at d GET ws [''diff''] (''path='' @ urlencode v) b = Some (Ask (Diff ws v False))"
    "routed_at d GET ws [''tree''] (''path='' @ urlencode v) b = Some (Ask (Tree ws v AllFiles))"
    "routed_at d DELETE ws [''git'', ''branch''] (''name='' @ urlencode v) b = Some (Ask (GitBranchDelete ws v False))"
    "routed_at d DELETE ws [''git'', ''worktree''] (''path='' @ urlencode v) b
      = Some (Ask (GitRun ws (WorktreeRemove v False)))"
    "routed_at d DELETE ws [''git'', ''stash''] (''index='' @ urlencode v) b
      = Some (Ask (GitRun ws (StashDrop (index_of_pick v))))"
proof -
  have q: "query_get (h_lossy d) (''path='' @ urlencode v) ''path'' = Some v"
    "query_get (h_lossy d) (''name='' @ urlencode v) ''name'' = Some v"
    "query_get (h_lossy d) (''index='' @ urlencode v) ''index'' = Some v"
    using query_get_encoded [of "h_lossy d" v "''path''"] query_get_encoded [of "h_lossy d" v "''name''"]
      query_get_encoded [of "h_lossy d" v "''index''"] assms(2) by simp_all
  have n: "query_get (h_lossy d) (''path='' @ urlencode v) ''kind'' = None"
    "query_get (h_lossy d) (''path='' @ urlencode v) ''staged'' = None"
    "query_get (h_lossy d) (''path='' @ urlencode v) ''filter'' = None"
    "query_get (h_lossy d) (''path='' @ urlencode v) ''force'' = None"
    "query_get (h_lossy d) (''name='' @ urlencode v) ''force'' = None"
    using query_get_other [of "''path''" "''kind''" "h_lossy d" v] query_get_other [of "''path''" "''staged''" "h_lossy d" v]
      query_get_other [of "''path''" "''filter''" "h_lossy d" v] query_get_other [of "''path''" "''force''" "h_lossy d" v]
      query_get_other [of "''name''" "''force''" "h_lossy d" v] by simp_all
  note route_simps = routed_at_def arm_simps with_query_def with_ws_def sid_show tree_arm_def tree_filter_parse_def
    truthy_def parse_at_def index_of_pick_def
  show "routed_at d GET ws [''diff''] (''path='' @ urlencode v) b = Some (Ask (Diff ws v False))"
    "routed_at d GET ws [''tree''] (''path='' @ urlencode v) b = Some (Ask (Tree ws v AllFiles))"
    "routed_at d DELETE ws [''git'', ''branch''] (''name='' @ urlencode v) b = Some (Ask (GitBranchDelete ws v False))"
    "routed_at d DELETE ws [''git'', ''worktree''] (''path='' @ urlencode v) b
      = Some (Ask (GitRun ws (WorktreeRemove v False)))"
    "routed_at d DELETE ws [''git'', ''stash''] (''index='' @ urlencode v) b
      = Some (Ask (GitRun ws (StashDrop (index_of_pick v))))"
    using q n assms(1) by (simp_all add: route_simps)
qed

lemma routed_query_two:
  assumes "ws \<le> u64_max" "h_lossy d v = v" "h_lossy d ''staged'' = ''staged''" "h_lossy d ''docs'' = ''docs''"
  shows "routed_at d GET ws [''diff''] (''kind=staged&path='' @ urlencode v) b = Some (Ask (Diff ws v True))"
    "routed_at d GET ws [''tree''] (''path='' @ urlencode v @ ''&filter=docs'') b = Some (Ask (Tree ws v Docs))"
proof -
  have e: "urlencode ''staged'' = ''staged''" "urlencode ''docs'' = ''docs''" by code_simp+
  have q: "query_get (h_lossy d) (''kind=staged&path='' @ urlencode v) ''path'' = Some v"
    "query_get (h_lossy d) (''kind=staged&path='' @ urlencode v) ''kind'' = Some ''staged''"
    "query_get (h_lossy d) (''path='' @ urlencode v @ ''&filter=docs'') ''path'' = Some v"
    "query_get (h_lossy d) (''path='' @ urlencode v @ ''&filter=docs'') ''filter'' = Some ''docs''"
    using query_get_first [of "''kind''" "h_lossy d" "''staged''" "''path='' @ urlencode v", unfolded e]
      query_get_encoded [of "h_lossy d" v "''path''"] query_get_encoded [of "h_lossy d" "''docs''" "''filter''", unfolded e]
      query_get_first [of "''path''" "h_lossy d" v "''filter='' @ urlencode ''docs''", unfolded e] assms
    by simp_all
  show "routed_at d GET ws [''diff''] (''kind=staged&path='' @ urlencode v) b = Some (Ask (Diff ws v True))"
    "routed_at d GET ws [''tree''] (''path='' @ urlencode v @ ''&filter=docs'') b = Some (Ask (Tree ws v Docs))"
    using q assms(1)
    by (simp_all add: routed_at_def arm_simps with_query_def sid_show tree_arm_def tree_filter_parse_def)
qed

text \<open>Calls with a JSON body: the daemon reads the value the client wrote.\<close>

lemmas body_simps = body1_def body2_def body3_def body4_def read_fields_def from_object_def values_of_def
  field_req_def field_opt_def field_def_def rd_str_def rd_opt_def rd_bool_def rd_usize_def rd_variant_def
  checkout_body_def stash_body_def stash_ref_body_def message_body_def reset_modes_def reset_body_def rev_body_def
  merge_body_def rebase_body_def sequence_actions_def sequence_body_def tag_body_def resolve_sides_def
  resolve_body_def worktree_body_def apply_targets_def apply_body_def fetch_body_def pull_body_def push_body_def
  spawn_agent_body_def new_proc_body_def path_body_def commit_body_def

lemmas post_simps = routed_at_def arm_simps with_body_def git_run_def parse_or_default_def parse_body_def with_ws_def sid_show body_simps

lemma route_post:
  assumes "CHR ''?'' \<notin> set tail" "h_json d (txt v) = Some v" "txt v \<noteq> []"
    "\<And>b. h_json d b = Some v \<Longrightarrow> b \<noteq> [] \<Longrightarrow> routed_at d POST ws (segments tail) [] b = Some x"
  shows "route d (on_wire txt (post_call (at ws tail) v)) = x"
  using route_at(1) [OF assms(1) assms(4) [OF assms(2,3)]] by (simp add: on_wire_def post_call_def)

text \<open>The law of the library that the calls rely on, for the body of one call.\<close>

definition json_law :: "http_lib \<Rightarrow> (json \<Rightarrow> string) \<Rightarrow> call \<Rightarrow> bool" where
  "json_law d txt c \<longleftrightarrow> (case c_payload c of JsonBody v \<Rightarrow> h_json d (txt v) = Some v \<and> txt v \<noteq> [] | _ \<Rightarrow> True)"

lemma json_law_post: "json_law d txt (post_call t v) \<longleftrightarrow> h_json d (txt v) = Some v \<and> txt v \<noteq> []"
  by (simp add: json_law_def post_call_def)

lemma git_reaches:
  assumes "ws \<le> u64_max" "json_law d txt (git_call ws cwd a)"
  shows "route d (on_wire txt (git_call ws cwd a)) = Ask (wanted_git ws cwd a)"
proof (cases a)
  case (AResolve p side)
  then show ?thesis
    using assms by (cases side) (auto simp: json_law_post segments_def post_simps intro!: route_post)
qed (use assms in \<open>auto simp: json_law_post segments_def post_simps intro!: route_post\<close>)

lemma open_reaches:
  assumes "json_law d txt (post_call ''/v1/workspaces'' (JObj [(''path'', JStr p)]))"
  shows "route d (on_wire txt (post_call ''/v1/workspaces'' (JObj [(''path'', JStr p)]))) = Ask (NewWorkspace None None (Some p))"
proof -
  have "segments (target_path ''/v1/workspaces'') = [''v1'', ''workspaces'']" by code_simp
  then show ?thesis
    using assms [unfolded json_law_post]
    by (simp add: route_def on_wire_def post_call_def arm_simps new_ws_arm_def new_ws_body_def post_simps)
qed

lemma route_delete:
  assumes "routed_at d DELETE ws (segments tail) (key @ ''='' @ urlencode v) [] = Some x" "CHR ''?'' \<notin> set tail"
  shows "route d (on_wire txt (delete_call (at ws (param tail key v)))) = x"
  using route_param [OF assms] by (simp add: on_wire_def delete_call_def)

lemma pick_deletes:
  assumes "ws \<le> u64_max" "h_lossy d v = v"
    "t \<in> {PDeleteBranch, PStashDrop, PTagDelete, PRemoteRemove, PRemoveWorktree}"
  shows "route d (on_wire txt (pick_call ws t v)) = Ask (wanted_pick ws t v)"
proof -
  have seg: "segments ''git/branch'' = [''git'', ''branch'']" "segments ''git/stash'' = [''git'', ''stash'']"
    "segments ''git/tag'' = [''git'', ''tag'']" "segments ''git/remote'' = [''git'', ''remote'']"
    "segments ''git/worktree'' = [''git'', ''worktree'']"
    by code_simp+
  note r = routed_query [OF assms(1,2), where b = "[]"] routed_query_other [OF assms(1,2), where b = "[]"]
  show ?thesis
    using assms(3)
  proof (elim insertE emptyE)
    assume "t = PDeleteBranch"
    then show ?thesis using route_delete [of d ws "''git/branch''" "''name''" v _ "txt"] r(10) seg by simp
  next
    assume "t = PStashDrop"
    then show ?thesis using route_delete [of d ws "''git/stash''" "''index''" v _ "txt"] r(12) seg by simp
  next
    assume "t = PTagDelete"
    then show ?thesis using route_delete [of d ws "''git/tag''" "''name''" v _ "txt"] r(6) seg by simp
  next
    assume "t = PRemoteRemove"
    then show ?thesis using route_delete [of d ws "''git/remote''" "''name''" v _ "txt"] r(7) seg by simp
  next
    assume "t = PRemoveWorktree"
    then show ?thesis using route_delete [of d ws "''git/worktree''" "''path''" v _ "txt"] r(11) seg by simp
  qed
qed

lemma pick_reaches:
  assumes "ws \<le> u64_max" "h_lossy d v = v" "json_law d txt (pick_call ws t v)"
  shows "route d (on_wire txt (pick_call ws t v)) = Ask (wanted_pick ws t v)"
proof (cases t)
  case POpenWorktree
  then show ?thesis using assms(3) open_reaches by simp
next
  case PStashPop
  have "index_of_pick v \<le> usize_max"
    using parse_uint_le [of usize_max v] by (auto simp: index_of_pick_def split: option.splits)
  with PStashPop assms show ?thesis by (auto simp: json_law_post segments_def post_simps intro!: route_post)
next
  case PDeleteBranch then show ?thesis using pick_deletes [OF assms(1,2), of t] by simp
next
  case PStashDrop then show ?thesis using pick_deletes [OF assms(1,2), of t] by simp
next
  case PTagDelete then show ?thesis using pick_deletes [OF assms(1,2), of t] by simp
next
  case PRemoteRemove then show ?thesis using pick_deletes [OF assms(1,2), of t] by simp
next
  case PRemoveWorktree then show ?thesis using pick_deletes [OF assms(1,2), of t] by simp
qed (use assms in \<open>auto simp: json_law_post segments_def post_simps intro!: route_post\<close>)

lemma route_get:
  assumes "routed_at d GET ws (segments tail) (key @ ''='' @ urlencode v) [] = Some x" "CHR ''?'' \<notin> set tail"
  shows "route d (on_wire txt (get_call (at ws (param tail key v)))) = x"
  using route_param [OF assms] by (simp add: on_wire_def get_call_def)

lemma single_segments:
  "segments ''search'' = [''search'']" "segments ''file'' = [''file'']" "segments ''upload'' = [''upload'']"
  "segments ''show'' = [''show'']" "segments ''diff'' = [''diff'']" "segments ''tree'' = [''tree'']"
  by code_simp+

lemma diff_reaches:
  assumes "ws \<le> u64_max" "h_lossy d (query_text (ShowDiff k)) = query_text (ShowDiff k)"
    "h_lossy d ''staged'' = ''staged''" "h_lossy d ''docs'' = ''docs''"
  shows "route d (on_wire txt (get_call (diff_route ws k))) = Ask (wanted_diff ws k)"
proof (cases k)
  case (DUnstaged p)
  then show ?thesis
    using route_get [of d ws "''diff''" "''path''" "or_empty p" _ "txt"] assms single_segments
      routed_query_other(1) [of ws d "or_empty p" "[]"] by simp
next
  case (DStaged p)
  then show ?thesis
    using route_at(2) [of "''diff''" d GET ws "''kind=staged&path='' @ urlencode (or_empty p)" "[]"] assms single_segments
      routed_query_two(1) [of ws d "or_empty p" "[]"] by (simp add: on_wire_def get_call_def)
next
  case (DCommit c s)
  then show ?thesis
    using route_get [of d ws "''show''" "''id''" c _ "txt"] assms single_segments
      routed_query(5) [of ws d c "[]"] by simp
qed

lemma list_reaches:
  assumes "ws \<le> u64_max" "h_lossy d dir = dir" "h_lossy d ''staged'' = ''staged''" "h_lossy d ''docs'' = ''docs''"
  shows "route d (on_wire txt (get_call (dir_route docs ws dir))) = Ask (Tree ws dir (if docs then Docs else AllFiles))"
proof (cases docs)
  case True
  then show ?thesis
    using route_at(2) [of "''tree''" d GET ws "''path='' @ urlencode dir @ ''&filter=docs''" "[]"] assms single_segments
      routed_query_two(2) [of ws d dir "[]"] by (simp add: on_wire_def get_call_def dir_route_def param_def)
next
  case False
  then show ?thesis
    using route_get [of d ws "''tree''" "''path''" dir _ "txt"] assms single_segments
      routed_query_other(2) [of ws d dir "[]"] by (simp add: dir_route_def)
qed

text \<open>The paths of a pane.\<close>

lemma pane_segments:
  "segments (''processes/'' @ show_nat p @ ''/restart'') = [''processes'', show_nat p, ''restart'']"
  "segments (''processes/'' @ show_nat p) = [''processes'', show_nat p]"
proof -
  have n: "CHR ''/'' \<notin> set (show_nat p)" using not_in_show_nat [of "CHR ''/''" p] by (simp add: is_digit_def)
  have "segments (''processes'' @ ''/'' @ show_nat p @ ''/'' @ ''restart'') = [''processes'', show_nat p, ''restart'']"
    using n by (simp add: segments_slash segments_last del: append.simps(2))
  then show "segments (''processes/'' @ show_nat p @ ''/restart'') = [''processes'', show_nat p, ''restart'']" by simp
  have "segments (''processes'' @ ''/'' @ show_nat p) = [''processes'', show_nat p]"
    using n by (simp add: segments_slash segments_last del: append.simps(2))
  then show "segments (''processes/'' @ show_nat p) = [''processes'', show_nat p]" by simp
qed

lemma pane_tails: "CHR ''?'' \<notin> set (''processes/'' @ show_nat p @ ''/restart'')" "CHR ''?'' \<notin> set (''processes/'' @ show_nat p)"
  using not_in_show_nat [of "CHR ''?''" p] by (simp_all add: is_digit_def)

lemma pane_reaches:
  assumes "ws \<le> u64_max" "p \<le> u64_max"
  shows "route d (on_wire txt (post_call (at ws (''processes/'' @ show_nat p @ ''/restart'')) v)) = Ask (RestartProcess ws p)"
    "route d (on_wire txt (delete_call (at ws (''processes/'' @ show_nat p)))) = Ask (KillPane ws p)"
proof -
  have "routed_at d POST ws (segments (''processes/'' @ show_nat p @ ''/restart'')) [] b = Some (Ask (RestartProcess ws p))" for b
    using assms unfolding pane_segments by (simp add: routed_at_def arm_simps with_pane_def sid_show)
  from route_at(1) [OF pane_tails(1) this]
  show "route d (on_wire txt (post_call (at ws (''processes/'' @ show_nat p @ ''/restart'')) v)) = Ask (RestartProcess ws p)"
    by (simp add: on_wire_def post_call_def)
  have "routed_at d DELETE ws (segments (''processes/'' @ show_nat p)) [] b = Some (Ask (KillPane ws p))" for b
    using assms unfolding pane_segments by (simp add: routed_at_def arm_simps with_pane_def sid_show)
  from route_at(1) [OF pane_tails(2) this]
  show "route d (on_wire txt (delete_call (at ws (''processes/'' @ show_nat p)))) = Ask (KillPane ws p)"
    by (simp add: on_wire_def delete_call_def)
qed

lemma gesture_reaches:
  assumes "ws \<le> u64_max" "list_all (\<lambda>p. p \<le> u64_max) (panes_of g)" "json_law d txt c"
    "h_lossy d (query_text g) = query_text g" "h_lossy d ''staged'' = ''staged''" "h_lossy d ''docs'' = ''docs''"
    and c: "gesture_call ws cwd g = Some c" and r: "wanted ws cwd g = Some r" and m: "\<And>a. g \<noteq> MenuRow a"
  shows "route d (on_wire txt c) = Ask r"
proof (cases g)
  case (LookUp q)
  then show ?thesis
    using route_get [of d ws "''search''" "''q''" q _ "txt"] assms single_segments routed_query(1) [of ws d q "[]"] c r by auto
next
  case (OpenFile p)
  then show ?thesis
    using route_get [of d ws "''file''" "''path''" p _ "txt"] assms single_segments routed_query(2) [of ws d p "[]"] c r by auto
next
  case (SaveFile p b)
  then show ?thesis
    using route_param [of d POST ws "''upload''" "''path''" p b] assms single_segments routed_query(4) [of ws d p b] c r
    by (auto simp: on_wire_def post_bytes_def)
next
  case (RemoveFile p)
  then show ?thesis
    using route_delete [of d ws "''file''" "''path''" p _ "txt"] assms single_segments routed_query(3) [of ws d p "[]"] c r by auto
next
  case (ApplyPatch patch target backwards)
  then show ?thesis
    using assms(1,3) c r
    by (cases target) (auto simp: apply_call_def json_law_post segments_def post_simps intro!: route_post)
next
  case (RestartPane p)
  then show ?thesis using pane_reaches(1) [of ws p d "txt" "JObj []"] assms(1,2) c r by auto
next
  case (KillAPane p)
  then show ?thesis using pane_reaches(2) [of ws p d "txt"] assms(1,2) c r by auto
next
  case (MenuRow a)
  then show ?thesis using m by blast
qed (use assms diff_reaches list_reaches git_reaches pick_reaches open_reaches in
      \<open>auto simp: json_law_post segments_def post_simps intro!: route_post\<close>)

text \<open>
  A row of the git menu that is one call runs the operation its label names - all of them but one,
  the force push.
\<close>

theorem menu_rows_run:
  assumes "ws \<le> u64_max" "a \<noteq> MPushForce" "menu_call ws a = Some c" "json_law d txt c"
  shows "Some (route d (on_wire txt c)) = map_option Ask (wanted_menu ws a)"
  using assms
  by (cases a) (auto simp: menu_call_def json_law_post segments_def post_simps intro!: route_post)

lemma json_law_const: "json_law (d\<lparr>h_json := \<lambda>_. Some v\<rparr>) (\<lambda>_. ''{}'') (post_call t v)"
  by (simp add: json_law_post)

definition plain_lib :: "json \<Rightarrow> http_lib" where
  "plain_lib v = \<lparr>h_lossy = \<lambda>s. s, h_debug = \<lambda>s. s, h_json = \<lambda>_. Some v, h_why = \<lambda>s. s, h_event = \<lambda>_. None\<rparr>"

lemma plain_law: "json_law (plain_lib v) (\<lambda>_. ''{}'') (post_call t v)"
  by (simp add: json_law_post plain_lib_def)

theorem menu_rows_run_witness:
  "Some (route (plain_lib (JObj [(''mode'', JStr ''hard'')]))
      (on_wire (\<lambda>_. ''{}'') (post_call (at 7 ''git/reset'') (JObj [(''mode'', JStr ''hard'')]))))
    = Some (Ask (GitRun 7 (Reset_To None Hard)))"
proof -
  have "menu_call 7 MResetHard = Some (post_call (at 7 ''git/reset'') (JObj [(''mode'', JStr ''hard'')]))"
    by (simp add: menu_call_def)
  from menu_rows_run [OF _ _ this plain_law] show ?thesis by (simp add: u64_max_def)
qed

text \<open>
  The force push: its body names \<open>force\<close>, the daemon's struct has \<open>force_with_lease\<close> and passes over
  every other key, so a row that has just been confirmed as a force push runs a plain one.
\<close>

lemma force_push_is_a_push:
  assumes "ws \<le> u64_max" "menu_call ws MPushForce = Some c" "json_law d txt c"
  shows "route d (on_wire txt c) = Ask (GitRun ws (Push None None False False))"
  using assms by (auto simp: menu_call_def json_law_post segments_def post_simps intro!: route_post)

text \<open>
  C10. What a gesture means is what the core is asked. Every search, file, listing, diff, patch, git
  action, chosen row, row of the git menu, start and end of a program that the client sends for a
  workspace reaches the core as that request on that workspace, with every path, name and message as it
  was, whatever characters they hold. The one exception is the force push of the git menu, which reaches
  the core as a plain push.
\<close>

theorem gestures_reach_the_core:
  assumes "ws \<le> u64_max" "list_all (\<lambda>p. p \<le> u64_max) (panes_of g)"
    and "gesture_call ws cwd g = Some c" "json_law d txt c"
    and "list_all (\<lambda>s. h_lossy d s = s) [query_text g, ''staged'', ''docs'']"
  shows "if g = MenuRow MPushForce then route d (on_wire txt c) = Ask (GitRun ws (Push None None False False))
    else \<exists>r. wanted ws cwd g = Some r \<and> route d (on_wire txt c) = Ask r"
proof (cases "\<exists>a. g = MenuRow a")
  case True
  then obtain a where a: "g = MenuRow a" "menu_call ws a = Some c" using assms(3) by auto
  then show ?thesis
    using menu_rows_run [OF assms(1) _ a(2) assms(4)] force_push_is_a_push [OF assms(1) _ assms(4)]
    by (cases "wanted_menu ws a") auto
next
  case False
  have l: "h_lossy d (query_text g) = query_text g" "h_lossy d ''staged'' = ''staged''" "h_lossy d ''docs'' = ''docs''"
    using assms(5) by simp_all
  obtain r where r: "wanted ws cwd g = Some r" using False by (cases g) auto
  show ?thesis
    using gesture_reaches [OF assms(1,2,4) l assms(3) r] r False by auto
qed

theorem gestures_reach_the_core_witness:
  "route (plain_lib JNull) (on_wire (\<lambda>_. ''{}'') (get_call (at 3 (param ''file'' ''path'' ''50% of a+b & c?.txt''))))
    = Ask (File 3 ''50% of a+b & c?.txt'')"
proof -
  let ?c = "get_call (at 3 (param ''file'' ''path'' ''50% of a+b & c?.txt''))"
  have "gesture_call 3 ''/w'' (OpenFile ''50% of a+b & c?.txt'') = Some ?c" by simp
  from gestures_reach_the_core [OF _ _ this, of "plain_lib JNull" "\<lambda>_. ''{}''"] show ?thesis
    by (simp add: u64_max_def json_law_def get_call_def plain_lib_def)
qed

end
