(* ===== verification/Menu_Run.thy ===== *)
theory Menu_Run
  imports Client_Calls
begin

text \<open>
  Running a row of the git menu (\<open>run_menu_action\<close>, \<open>confirm\<close> in \<open>butai-client/src/workbench.rs\<close>): the
  box that asks, the pickers and prompts a row opens, the call it makes, and the order of these as a
  step relation.
\<close>

section \<open>One row\<close>

datatype menu_prompt = NewBranch | NewTag | NewWorktree

datatype menu_out =
  Asked | BranchPicker | Prompted menu_prompt | PickFrom pick_target | NotWired string | Sent menu_action call

text \<open>
  The slots of the view: the header of an open box that asks about a menu row, the row it is about, and
  the row it was answered for.
\<close>

record menu_view =
  mv_box :: "string option"
  mv_pending :: "menu_action option"
  mv_confirmed :: "menu_action option"

definition undoable :: string where "undoable = '' '' @ [CHR 0xE2, CHR 0x80, CHR 0x94] @ '' this cannot be undone''"

fun opens_first :: "menu_action \<Rightarrow> menu_out option" where
  "opens_first MCheckout = Some BranchPicker"
| "opens_first MNewBranch = Some (Prompted NewBranch)"
| "opens_first MDeleteBranch = Some (PickFrom PDeleteBranch)"
| "opens_first MMerge = Some (PickFrom PMerge)"
| "opens_first MRebase = Some (PickFrom PRebase)"
| "opens_first MStashList = Some (PickFrom PStashPop)"
| "opens_first MStashDrop = Some (PickFrom PStashDrop)"
| "opens_first MTagDelete = Some (PickFrom PTagDelete)"
| "opens_first MRemoteRemove = Some (PickFrom PRemoteRemove)"
| "opens_first MWorktreeList = Some (PickFrom POpenWorktree)"
| "opens_first MWorktreeRemove = Some (PickFrom PRemoveWorktree)"
| "opens_first MTagCreate = Some (Prompted NewTag)"
| "opens_first MWorktreeAdd = Some (Prompted NewWorktree)"
| "opens_first _ = None"

definition run_menu_action :: "session_id \<Rightarrow> menu_action \<Rightarrow> menu_view \<Rightarrow> menu_view \<times> menu_out" where
  "run_menu_action ws a v =
     (let (asks, confirmed) = needs_asking a (mv_confirmed v); v = v\<lparr>mv_confirmed := confirmed\<rparr>
      in if asks then (v\<lparr>mv_box := Some (label_of a @ undoable), mv_pending := Some a\<rparr>, Asked)
         else (case opens_first a of
             Some out \<Rightarrow> (v\<lparr>mv_box := None\<rparr>, out)
           | None \<Rightarrow> (case menu_call ws a of Some c \<Rightarrow> (v, Sent a c) | None \<Rightarrow> (v, NotWired (label_of a)))))"

text \<open>The answer yes to the box: the row it was about runs again, with the answer in its slot.\<close>

definition answer_yes :: "session_id \<Rightarrow> menu_view \<Rightarrow> menu_view \<times> menu_out option" where
  "answer_yes ws v =
     (if mv_box v = None then (v, None)
      else (case mv_pending v of
          None \<Rightarrow> (v\<lparr>mv_box := None\<rparr>, None)
        | Some a \<Rightarrow>
            (let (v, out) = run_menu_action ws a (v\<lparr>mv_box := None, mv_pending := None, mv_confirmed := Some a\<rparr>)
             in (v, Some out))))"

section \<open>What a user does\<close>

datatype menu_event = Choose menu_group string bool | Yes | Dismiss

text \<open>
  A row chosen from the menu, the answer yes, and everything else that takes the box away: the answer
  no, escape, a click beside it, another overlay.
\<close>

inductive menu_step :: "session_id \<Rightarrow> menu_event \<Rightarrow> menu_view \<Rightarrow> menu_view \<times> menu_out option \<Rightarrow> bool" for ws where
  chosen: "menu_action_of g label s = Some a \<Longrightarrow> run_menu_action ws a (v\<lparr>mv_box := None\<rparr>) = (v', out) \<Longrightarrow>
    menu_step ws (Choose g label s) v (v', Some out)"
| answered: "answer_yes ws v = r \<Longrightarrow> menu_step ws Yes v r"
| dismissed: "menu_step ws Dismiss v (v\<lparr>mv_box := None\<rparr>, None)"

inductive menu_reached :: "session_id \<Rightarrow> menu_view \<Rightarrow> bool" for ws where
  start: "menu_reached ws \<lparr>mv_box = None, mv_pending = None, mv_confirmed = None\<rparr>"
| step: "menu_reached ws v \<Longrightarrow> menu_step ws e v (v', out) \<Longrightarrow> menu_reached ws v'"

inductive_cases menu_stepE: "menu_step ws e v r"

text \<open>No answer is kept, what is pending is a row that asks, and an open box is about what is pending.\<close>

definition menu_ok :: "menu_view \<Rightarrow> bool" where
  "menu_ok v \<longleftrightarrow> mv_confirmed v = None \<and> (\<forall>a. mv_pending v = Some a \<longrightarrow> needs_confirm a)
     \<and> (\<forall>h. mv_box v = Some h \<longrightarrow> (\<exists>a. mv_pending v = Some a \<and> h = label_of a @ undoable))"

lemmas run_defs = run_menu_action_def needs_asking_def Let_def

lemma run_outcome:
  assumes "run_menu_action ws a v = (v', out)"
  shows "out \<noteq> NotWired label"
    "out = Sent b c \<Longrightarrow> b = a \<and> menu_call ws a = Some c \<and> (needs_confirm a \<longrightarrow> mv_confirmed v = Some a)"
  using assms by (cases a; auto simp: run_defs needs_confirm_def menu_call_def split: if_splits)+

lemma menu_okI:
  "menu_step ws e v (v', out) \<Longrightarrow> menu_ok v \<Longrightarrow> menu_ok v'"
  by (elim menu_stepE) (auto simp: menu_ok_def run_defs answer_yes_def split: if_splits option.splits)

lemma reached_ok: "menu_reached ws v \<Longrightarrow> menu_ok v"
  by (induction rule: menu_reached.induct) (auto simp: menu_ok_def [of "\<lparr>mv_box = _, mv_pending = _, mv_confirmed = _\<rparr>"] intro: menu_okI)

lemma label_read: "menu_action_of g label s = Some a \<Longrightarrow> label = label_of a"
proof -
  assume "menu_action_of g label s = Some a"
  then obtain i where i: "i \<in> set (items_for g s)" "mi_label i = label" "mi_action i = a"
    by (auto simp: menu_action_of_def find_Some_iff dest: nth_mem)
  have "i \<in> set ITEMS" using i(1) by (simp add: items_for_def)
  moreover from this obtain j where j: "find (\<lambda>k. mi_action k = mi_action i) ITEMS = Some j"
    by (cases "find (\<lambda>k. mi_action k = mi_action i) ITEMS") (auto simp: find_None_iff)
  then have "mi_action j = mi_action i" "j \<in> set ITEMS" by (auto simp: find_Some_iff)
  ultimately have "j = i" using every_action_once(1) by (metis distinct_map inj_onD)
  then have "label_of (mi_action i) = mi_label i" using j by (simp add: label_of_def)
  then show ?thesis using i by simp
qed

lemma chosen_row:
  assumes "run_menu_action ws a (v\<lparr>mv_box := None\<rparr>) = (v', out)" "mv_confirmed v = None"
  shows "if needs_confirm a then out = Asked \<and> mv_box v' = Some (label_of a @ undoable) \<and> mv_pending v' = Some a
    else opens_first a = Some out \<or> (\<exists>c. menu_call ws a = Some c \<and> out = Sent a c)"
  using assms by (cases a) (auto simp: run_defs needs_confirm_def menu_call_def)

lemma confirmed_row:
  assumes "run_menu_action ws a (v\<lparr>mv_confirmed := Some a\<rparr>) = (v', out)" "needs_confirm a"
  shows "\<exists>c. menu_call ws a = Some c \<and> out = Sent a c"
  using assms by (auto simp: run_defs needs_confirm_def menu_call_def)

text \<open>
  C18. A row of the git menu that cannot be undone is asked about by name, every time, and no other is.
  In every reachable state what a step sends is the call of one row; if that row is destructive the step
  is the answer yes to an open box whose header is that row's label, and otherwise it is the choice of
  that label. The choice of a destructive row opens that box; the choice of any other row at once makes
  its call or opens the list or the prompt it needs first; and the answer yes makes the call of the
  destructive row it was asked about. No row that is chosen is left unwired.
\<close>

theorem destruction_is_confirmed:
  assumes "menu_reached ws v" "menu_step ws e v (v', Some out)"
  shows "(\<forall>label. out \<noteq> NotWired label)
     \<and> (\<forall>a c. out = Sent a c \<longrightarrow> menu_call ws a = Some c
         \<and> (if needs_confirm a then e = Yes \<and> mv_box v = Some (label_of a @ undoable)
            else (\<exists>g s. e = Choose g (label_of a) s)))
     \<and> (\<forall>g label s. e = Choose g label s \<longrightarrow> (\<exists>a. menu_action_of g label s = Some a
         \<and> (if needs_confirm a then out = Asked \<and> mv_box v' = Some (label_of a @ undoable) \<and> mv_pending v' = Some a
            else opens_first a = Some out \<or> (\<exists>c. menu_call ws a = Some c \<and> out = Sent a c))))
     \<and> (e = Yes \<longrightarrow> (\<exists>a c. needs_confirm a \<and> mv_pending v = Some a \<and> menu_call ws a = Some c \<and> out = Sent a c))"
proof -
  have ok: "menu_ok v" by (rule reached_ok [OF assms(1)])
  show ?thesis
    using assms(2)
  proof cases
    case (chosen g label s a)
    have n: "mv_confirmed v = None" using ok by (simp add: menu_ok_def)
    have sent: "menu_call ws b = Some c \<and> (if needs_confirm b then e = Yes \<and> mv_box v = Some (label_of b @ undoable)
        else (\<exists>g s. e = Choose g (label_of b) s))" if "out = Sent b c" for b c
    proof -
      have "b = a" "menu_call ws a = Some c" "\<not> needs_confirm a"
        using run_outcome(2) [OF chosen(3) that] n by auto
      moreover have "e = Choose g (label_of a) s" using chosen(1) label_read [OF chosen(2)] by simp
      ultimately show ?thesis by auto
    qed
    show ?thesis
      using run_outcome(1) [OF chosen(3)] sent chosen_row [OF chosen(3) n] chosen(2) unfolding chosen(1) by blast
  next
    case answered
    then obtain a where a: "mv_pending v = Some a" "mv_box v = Some (label_of a @ undoable)"
      and run: "run_menu_action ws a (v\<lparr>mv_box := None, mv_pending := None, mv_confirmed := Some a\<rparr>) = (v', out)"
      using ok by (auto simp: answer_yes_def menu_ok_def Let_def split: if_splits option.splits prod.splits)
    then have d: "needs_confirm a" using ok by (simp add: menu_ok_def)
    have "\<exists>c. menu_call ws a = Some c \<and> out = Sent a c"
      by (rule confirmed_row [OF _ d, of ws "v\<lparr>mv_box := None, mv_pending := None\<rparr>"]) (use run in simp)
    then show ?thesis using run_outcome [OF run] a answered d by auto
  qed
qed

theorem destruction_is_confirmed_witness:
  "mv_box (fst (run_menu_action 7 MResetHard \<lparr>mv_box = None, mv_pending = None, mv_confirmed = None\<rparr>))
    = Some (label_of MResetHard @ undoable)"
proof -
  let ?v = "\<lparr>mv_box = None, mv_pending = None, mv_confirmed = None\<rparr>"
  let ?w = "fst (run_menu_action 7 MResetHard ?v)"
  have "menu_action_of GFixup ''reset --hard'' False = Some MResetHard" by code_simp
  then have "menu_step 7 (Choose GFixup ''reset --hard'' False) ?v (?w, Some Asked)"
    by (rule menu_step.chosen) (simp add: run_defs needs_confirm_def)
  then have r: "menu_reached 7 ?w" by (rule menu_reached.step [OF menu_reached.start])
  have "menu_step 7 Yes ?w (answer_yes 7 ?w)" by (rule menu_step.answered) simp
  moreover obtain v' c where "answer_yes 7 ?w = (v', Some (Sent MResetHard c))"
    by (simp add: run_defs needs_confirm_def answer_yes_def menu_call_def)
  ultimately show ?thesis
    using destruction_is_confirmed [OF r, of Yes] by (auto simp: needs_confirm_def)
qed

end
