(* ===== verification/Layout.thy ===== *)
theory Layout
  imports Protocol "HOL-Library.Product_Lexorder"
begin

text \<open>
  The split tree of a window (\<open>butai-client/src/layout.rs\<close>). Cells are natural numbers; \<open>rects_in_range\<close>
  shows that none of the sums leaves the 16 bits of the code when the area does not. The share of a
  split is an \<open>f32\<close>: its arithmetic is the record \<open>ratio_ops\<close>, with \<open>cells inner r\<close> for
  \<open>(inner as f32 * r).round() as u16\<close> and \<open>moved r n extent\<close> for \<open>clamp_ratio\<close> of \<open>r + n / extent\<close>.
\<close>

definition MIN_PANE :: nat where "MIN_PANE = 2"

record rect =
  rx :: nat
  ry :: nat
  rwidth :: nat
  rheight :: nat

definition mk_rect :: "nat \<Rightarrow> nat \<Rightarrow> nat \<Rightarrow> nat \<Rightarrow> rect" where
  "mk_rect x y w h = \<lparr>rx = x, ry = y, rwidth = w, rheight = h\<rparr>"

definition right :: "rect \<Rightarrow> nat" where "right r = rx r + rwidth r"
definition bottom :: "rect \<Rightarrow> nat" where "bottom r = ry r + rheight r"

definition rect_contains :: "rect \<Rightarrow> nat \<Rightarrow> nat \<Rightarrow> bool" where
  "rect_contains r x y \<longleftrightarrow> x \<ge> rx r \<and> x < right r \<and> y \<ge> ry r \<and> y < bottom r"

record 'r ratio_ops =
  half :: 'r
  cells :: "nat \<Rightarrow> 'r \<Rightarrow> nat"
  moved :: "'r \<Rightarrow> int \<Rightarrow> nat \<Rightarrow> 'r"

datatype 'r node = Leaf pane_id | Split split_dir 'r "'r node" "'r node"

section \<open>The tree\<close>

fun node_panes :: "'r node \<Rightarrow> pane_id list" where
  "node_panes (Leaf p) = [p]"
| "node_panes (Split _ _ a b) = node_panes a @ node_panes b"

fun has :: "'r node \<Rightarrow> pane_id \<Rightarrow> bool" where
  "has (Leaf q) p = (q = p)"
| "has (Split _ _ a b) p = (has a p \<or> has b p)"

fun first_pane :: "'r node \<Rightarrow> pane_id" where
  "first_pane (Leaf p) = p"
| "first_pane (Split _ _ a b) = first_pane a"

text \<open>\<open>split\<close> and \<open>remove\<close> give the new tree and whether they found the pane.\<close>

fun split_node :: "'r ratio_ops \<Rightarrow> pane_id \<Rightarrow> split_dir \<Rightarrow> pane_id \<Rightarrow> 'r node \<Rightarrow> bool \<times> 'r node" where
  "split_node R target d new (Leaf p) =
     (if p = target then (True, Split d (half R) (Leaf target) (Leaf new)) else (False, Leaf p))"
| "split_node R target d new (Split s r a b) =
     (case split_node R target d new a of
        (True, a') \<Rightarrow> (True, Split s r a' b)
      | (False, a') \<Rightarrow> (case split_node R target d new b of (ok, b') \<Rightarrow> (ok, Split s r a' b')))"

fun remove_node :: "pane_id \<Rightarrow> 'r node \<Rightarrow> bool \<times> 'r node" where
  "remove_node target (Leaf p) = (False, Leaf p)"
| "remove_node target (Split s r a b) =
     (if a = Leaf target then (True, b)
      else if b = Leaf target then (True, a)
      else case remove_node target a of
        (True, a') \<Rightarrow> (True, Split s r a' b)
      | (False, a') \<Rightarrow> (case remove_node target b of (ok, b') \<Rightarrow> (ok, Split s r a' b')))"

section \<open>Areas\<close>

definition share :: "'r ratio_ops \<Rightarrow> nat \<Rightarrow> 'r \<Rightarrow> nat" where
  "share R inner r =
     (if inner = 0 then 0
      else let first = cells R inner r
           in if inner \<le> 2 * MIN_PANE then min first inner
              else max MIN_PANE (min (inner - MIN_PANE) first))"

definition split_area :: "'r ratio_ops \<Rightarrow> rect \<Rightarrow> split_dir \<Rightarrow> 'r \<Rightarrow> rect \<times> rect" where
  "split_area R area d r =
     (case d of
        Horizontal \<Rightarrow>
          (let inner = rwidth area - 1; first_w = share R inner r; second_w = inner - first_w
           in (mk_rect (rx area) (ry area) first_w (rheight area),
               mk_rect (rx area + first_w + (if rwidth area > first_w then 1 else 0)) (ry area) second_w (rheight area)))
      | Vertical \<Rightarrow>
          (let inner = rheight area - 1; first_h = share R inner r; second_h = inner - first_h
           in (mk_rect (rx area) (ry area) (rwidth area) first_h,
               mk_rect (rx area) (ry area + first_h + (if rheight area > first_h then 1 else 0)) (rwidth area) second_h)))"

fun rects :: "'r ratio_ops \<Rightarrow> 'r node \<Rightarrow> rect \<Rightarrow> (pane_id \<times> rect) list" where
  "rects R (Leaf p) area = [(p, area)]"
| "rects R (Split d r a b) area =
     (let (x, y) = split_area R area d r in rects R a x @ rects R b y)"

fun axis :: "dir \<Rightarrow> split_dir" where
  "axis DLeft = Horizontal" | "axis DRight = Horizontal" | "axis DUp = Vertical" | "axis DDown = Vertical"

definition grows_first :: "dir \<Rightarrow> bool \<Rightarrow> bool" where
  "grows_first d in_first = (case d of DRight \<Rightarrow> in_first | DDown \<Rightarrow> in_first | DLeft \<Rightarrow> \<not> in_first | DUp \<Rightarrow> \<not> in_first)"

text \<open>The nearest split of the wanted direction above the pane, deepest first.\<close>

fun resize_node :: "'r ratio_ops \<Rightarrow> pane_id \<Rightarrow> dir \<Rightarrow> int \<Rightarrow> 'r node \<Rightarrow> rect \<Rightarrow> bool \<times> 'r node" where
  "resize_node R target d delta (Leaf p) area = (False, Leaf p)"
| "resize_node R target d delta (Split s r a b) area =
     (let (x, y) = split_area R area s r;
          extent = (case s of Horizontal \<Rightarrow> rwidth area | Vertical \<Rightarrow> rheight area);
          here = (if s \<noteq> axis d \<or> extent \<le> 2 * MIN_PANE + 1 then (False, Split s r a b)
                  else (True, Split s (moved R r (if grows_first d (has a target) then delta else - delta) extent) a b))
      in if has a target then
           (case resize_node R target d delta a x of (True, a') \<Rightarrow> (True, Split s r a' b) | (False, _) \<Rightarrow> here)
         else if has b target then
           (case resize_node R target d delta b y of (True, b') \<Rightarrow> (True, Split s r a b') | (False, _) \<Rightarrow> here)
         else (False, Split s r a b))"

section \<open>Neighbours\<close>

definition overlap :: "nat \<Rightarrow> nat \<Rightarrow> nat \<Rightarrow> nat \<Rightarrow> nat" where
  "overlap a0 a1 b0 b1 = min a1 b1 - max a0 b0"

definition v_overlap :: "rect \<Rightarrow> rect \<Rightarrow> nat" where
  "v_overlap a b = overlap (ry a) (bottom a) (ry b) (bottom b)"

definition h_overlap :: "rect \<Rightarrow> rect \<Rightarrow> nat" where
  "h_overlap a b = overlap (rx a) (right a) (rx b) (right b)"

definition beside :: "dir \<Rightarrow> rect \<Rightarrow> rect \<Rightarrow> bool" where
  "beside d fr r =
     (case d of
        DLeft \<Rightarrow> right r \<le> rx fr \<and> v_overlap r fr > 0
      | DRight \<Rightarrow> rx r \<ge> right fr \<and> v_overlap r fr > 0
      | DUp \<Rightarrow> bottom r \<le> ry fr \<and> h_overlap r fr > 0
      | DDown \<Rightarrow> ry r \<ge> bottom fr \<and> h_overlap r fr > 0)"

definition gap :: "dir \<Rightarrow> rect \<Rightarrow> rect \<Rightarrow> nat" where
  "gap d fr r =
     (case d of DLeft \<Rightarrow> rx fr - right r | DRight \<Rightarrow> rx r - right fr | DUp \<Rightarrow> ry fr - bottom r | DDown \<Rightarrow> ry r - bottom fr)"

definition edge :: "dir \<Rightarrow> rect \<Rightarrow> rect \<Rightarrow> nat" where
  "edge d fr r = (case axis d of Horizontal \<Rightarrow> v_overlap r fr | Vertical \<Rightarrow> h_overlap r fr)"

definition neighbour_key :: "dir \<Rightarrow> rect \<Rightarrow> rect \<Rightarrow> nat \<times> nat" where
  "neighbour_key d fr r = (gap d fr r, 2 ^ 32 - 1 - edge d fr r)"

text \<open>\<open>Iterator::min_by_key\<close>: the first of several least elements.\<close>

fun least_first :: "('a \<Rightarrow> 'k::linorder) \<Rightarrow> 'a \<Rightarrow> 'a list \<Rightarrow> 'a" where
  "least_first k x [] = x"
| "least_first k x (y # ys) = least_first k (if k y < k x then y else x) ys"

definition neighbour :: "'r ratio_ops \<Rightarrow> 'r node \<Rightarrow> pane_id \<Rightarrow> dir \<Rightarrow> rect \<Rightarrow> pane_id option" where
  "neighbour R t start d area =
     (case find (\<lambda>(p, _). p = start) (rects R t area) of
        None \<Rightarrow> None
      | Some (_, fr) \<Rightarrow>
         (case filter (\<lambda>(_, r). beside d fr r) (filter (\<lambda>(p, _). p \<noteq> start) (rects R t area)) of
            [] \<Rightarrow> None
          | x # xs \<Rightarrow> Some (fst (least_first (\<lambda>(_, r). neighbour_key d fr r) x xs))))"

section \<open>Windows\<close>

record 'r window =
  win_name :: string
  root :: "'r node"
  focused :: pane_id
  zoomed :: "pane_id option"

datatype remove_outcome = Removed | WindowEmpty | NotFound

definition window_new :: "string \<Rightarrow> pane_id \<Rightarrow> 'r window" where
  "window_new name p = \<lparr>win_name = name, root = Leaf p, focused = p, zoomed = None\<rparr>"

definition visible_rects :: "'r ratio_ops \<Rightarrow> 'r window \<Rightarrow> rect \<Rightarrow> (pane_id \<times> rect) list" where
  "visible_rects R w area =
     (case zoomed w of
        Some z \<Rightarrow> if has (root w) z then [(z, area)] else rects R (root w) area
      | None \<Rightarrow> rects R (root w) area)"

definition split_window :: "'r ratio_ops \<Rightarrow> split_dir \<Rightarrow> pane_id \<Rightarrow> 'r window \<Rightarrow> bool \<times> 'r window" where
  "split_window R d new w =
     (let w = w\<lparr>zoomed := None\<rparr>; (ok, t) = split_node R (focused w) d new (root w); w = w\<lparr>root := t\<rparr>
      in (ok, if ok then w\<lparr>focused := new\<rparr> else w))"

definition remove_window :: "pane_id \<Rightarrow> 'r window \<Rightarrow> remove_outcome \<times> 'r window" where
  "remove_window p w =
     (let w = (if zoomed w = Some p then w\<lparr>zoomed := None\<rparr> else w)
      in if root w = Leaf p then (WindowEmpty, w)
         else case remove_node p (root w) of
           (True, t) \<Rightarrow> (Removed, (if focused w = p then w\<lparr>root := t, focused := first_pane t\<rparr> else w\<lparr>root := t\<rparr>))
         | (False, t) \<Rightarrow> (NotFound, w\<lparr>root := t\<rparr>))"

definition focus_dir :: "'r ratio_ops \<Rightarrow> dir \<Rightarrow> rect \<Rightarrow> 'r window \<Rightarrow> bool \<times> 'r window" where
  "focus_dir R d area w =
     (if zoomed w \<noteq> None then (False, w)
      else case neighbour R (root w) (focused w) d area of Some p \<Rightarrow> (True, w\<lparr>focused := p\<rparr>) | None \<Rightarrow> (False, w))"

definition toggle_zoom :: "'r window \<Rightarrow> 'r window" where
  "toggle_zoom w =
     (case zoomed w of
        Some _ \<Rightarrow> w\<lparr>zoomed := None\<rparr>
      | None \<Rightarrow> (case root w of Split _ _ _ _ \<Rightarrow> w\<lparr>zoomed := Some (focused w)\<rparr> | Leaf _ \<Rightarrow> w))"

section \<open>Panes of the tree\<close>

lemma has_iff [simp]: "has t p \<longleftrightarrow> p \<in> set (node_panes t)"
  by (induction t) auto

lemma node_panes_nonempty [simp]: "node_panes t \<noteq> []"
  by (induction t) auto

lemma first_pane_in [simp]: "first_pane t \<in> set (node_panes t)"
  by (induction t) auto

fun put_after :: "pane_id \<Rightarrow> pane_id \<Rightarrow> pane_id list \<Rightarrow> pane_id list" where
  "put_after target new [] = []"
| "put_after target new (p # ps) = (if p = target then p # new # ps else p # put_after target new ps)"

lemma put_after_append:
  "put_after t n (xs @ ys) = (if t \<in> set xs then put_after t n xs @ ys else xs @ put_after t n ys)"
  by (induction xs) auto

lemma put_after_absent: "t \<notin> set xs \<Longrightarrow> put_after t n xs = xs"
  by (induction xs) auto

lemma set_put_after: "set (put_after t n xs) = (if t \<in> set xs then insert n (set xs) else set xs)"
  by (induction xs) auto

lemma distinct_put_after: "distinct xs \<Longrightarrow> n \<notin> set xs \<Longrightarrow> distinct (put_after t n xs)"
  by (induction xs) (auto simp: set_put_after)

lemma split_node_panes:
  "fst (split_node R target d new t) \<longleftrightarrow> target \<in> set (node_panes t)"
  "node_panes (snd (split_node R target d new t)) = put_after target new (node_panes t)"
proof (induction t)
  case (Split s r a b)
  {
    case 1
    then show ?case using Split.IH by (auto split: prod.splits bool.splits)
  next
    case 2
    then show ?case using Split.IH
      by (auto simp: put_after_append put_after_absent split: prod.splits bool.splits)
  }
qed auto

lemma split_node_same: "\<not> fst (split_node R target d new t) \<Longrightarrow> snd (split_node R target d new t) = t"
  by (induction t) (auto split: prod.splits bool.splits if_splits)

lemma remove_node_same: "\<not> fst (remove_node p t) \<Longrightarrow> snd (remove_node p t) = t"
proof (induction t)
  case (Split s r a b)
  obtain oka a' okb b' where r: "remove_node p a = (oka, a')" "remove_node p b = (okb, b')" by fastforce
  then show ?case using Split by (cases "a = Leaf p"; cases "b = Leaf p"; cases oka; cases okb) simp_all
qed simp

lemma remove_node_both:
  "distinct (node_panes t) \<Longrightarrow> t \<noteq> Leaf p \<Longrightarrow>
    fst (remove_node p t) = (p \<in> set (node_panes t))
    \<and> node_panes (snd (remove_node p t)) = filter (\<lambda>q. q \<noteq> p) (node_panes t)"
proof (induction t)
  case (Split s r a b)
  have d: "distinct (node_panes a)" "distinct (node_panes b)" "set (node_panes a) \<inter> set (node_panes b) = {}"
    using Split.prems(1) by auto
  have keep: "p \<notin> set xs \<Longrightarrow> filter (\<lambda>q. q \<noteq> p) xs = xs" for xs :: "pane_id list" by (induction xs) auto
  show ?case
  proof (cases "a = Leaf p \<or> b = Leaf p")
    case True
    then show ?thesis using d keep by auto
  next
    case False
    obtain oka a' okb b' where r: "remove_node p a = (oka, a')" "remove_node p b = (okb, b')" by fastforce
    have a: "oka = (p \<in> set (node_panes a))" "node_panes a' = filter (\<lambda>q. q \<noteq> p) (node_panes a)"
      and b: "okb = (p \<in> set (node_panes b))" "node_panes b' = filter (\<lambda>q. q \<noteq> p) (node_panes b)"
      using Split.IH d False r by auto
    then show ?thesis
      using False r d keep [of "node_panes a"] keep [of "node_panes b"] by (cases oka) auto
  qed
qed auto

lemmas remove_node_panes = remove_node_both [THEN conjunct1] remove_node_both [THEN conjunct2]

lemma resize_node_panes: "node_panes (snd (resize_node R target d delta t area)) = node_panes t"
proof (induction t arbitrary: area)
  case (Split s r a b)
  obtain x y where xy: "split_area R area s r = (x, y)" by fastforce
  obtain oka a' okb b' where c: "resize_node R target d delta a x = (oka, a')" "resize_node R target d delta b y = (okb, b')"
    by fastforce
  have "node_panes a' = node_panes a" "node_panes b' = node_panes b" using Split.IH(1) [of x] Split.IH(2) [of y] c by simp_all
  then show ?case by (cases oka; cases okb) (simp_all add: xy c Let_def)
qed simp

section \<open>The areas tile\<close>

lemma share_le: "share R inner r \<le> inner"
  by (auto simp: share_def MIN_PANE_def Let_def)

text \<open>One rectangle inside another, on every side.\<close>

definition inside :: "rect \<Rightarrow> rect \<Rightarrow> bool" where
  "inside a b \<longleftrightarrow> rx b \<le> rx a \<and> right a \<le> right b \<and> ry b \<le> ry a \<and> bottom a \<le> bottom b"

definition apart :: "rect \<Rightarrow> rect \<Rightarrow> bool" where
  "apart a b \<longleftrightarrow> (\<forall>x y. \<not> (rect_contains a x y \<and> rect_contains b x y))"

lemma split_area_inside:
  assumes "split_area R area d r = (a, b)"
  shows "inside a area" "inside b area"
  using assms share_le [of R "rwidth area - 1" r] share_le [of R "rheight area - 1" r]
  by (cases d; auto simp: split_area_def inside_def mk_rect_def right_def bottom_def Let_def split: if_splits)+

lemma split_area_apart:
  assumes "split_area R area d r = (a, b)" "inside c a" "inside e b"
  shows "apart c e"
  using assms
  by (cases d) (auto simp: split_area_def inside_def apart_def mk_rect_def right_def bottom_def rect_contains_def Let_def)

lemma inside_trans: "inside a b \<Longrightarrow> inside b c \<Longrightarrow> inside a c"
  by (auto simp: inside_def)

lemma rects_inside: "q \<in> set (rects R t area) \<Longrightarrow> inside (snd q) area"
proof (induction t arbitrary: area)
  case (Split s r a b)
  obtain x y where xy: "split_area R area s r = (x, y)" by fastforce
  then show ?case using Split split_area_inside [OF xy] inside_trans by fastforce
qed (simp add: inside_def)

lemma rects_panes: "map fst (rects R t area) = node_panes t"
  by (induction t arbitrary: area) (auto split: prod.splits)

text \<open>
  The bars between the panes: at every split what lies between the end of the first half and the start of
  the second, over the whole of the other side.
\<close>

definition bar :: "split_dir \<Rightarrow> rect \<Rightarrow> rect \<Rightarrow> rect \<Rightarrow> rect" where
  "bar d a b area =
     (case d of
        Horizontal \<Rightarrow> mk_rect (right a) (ry area) (rx b - right a) (rheight area)
      | Vertical \<Rightarrow> mk_rect (rx area) (bottom a) (rwidth area) (ry b - bottom a))"

fun bars :: "'r ratio_ops \<Rightarrow> 'r node \<Rightarrow> rect \<Rightarrow> rect list" where
  "bars R (Leaf p) area = []"
| "bars R (Split d r a b) area =
     (let (x, y) = split_area R area d r in bar d x y area # bars R a x @ bars R b y)"

lemmas rect_simps = split_area_def bar_def mk_rect_def right_def bottom_def rect_contains_def Let_def

lemma split_area_cover:
  assumes "split_area R area d r = (a, b)"
  shows "rect_contains area x y \<longleftrightarrow>
    rect_contains a x y \<or> rect_contains b x y \<or> rect_contains (bar d a b area) x y"
proof (cases d)
  case Horizontal
  then show ?thesis
    using assms share_le [of R "rwidth area - 1" r] by (auto simp: rect_simps split: if_splits)
next
  case Vertical
  then show ?thesis
    using assms share_le [of R "rheight area - 1" r] by (auto simp: rect_simps split: if_splits)
qed

lemma bar_thin:
  assumes "split_area R area d r = (a, b)"
  shows "rwidth (bar d a b area) \<le> 1 \<or> rheight (bar d a b area) \<le> 1"
    and "inside (bar d a b area) area"
  using assms share_le [of R "rwidth area - 1" r] share_le [of R "rheight area - 1" r]
  by (cases d; auto simp: rect_simps inside_def split: if_splits)+

lemma bar_apart:
  assumes "split_area R area d r = (a, b)" "inside c a \<or> inside c b"
  shows "apart c (bar d a b area)"
  using assms by (cases d) (auto simp: rect_simps inside_def apart_def)

lemma bars_inside: "q \<in> set (bars R t area) \<Longrightarrow> inside q area"
proof (induction t arbitrary: area)
  case (Split s r a b)
  obtain x y where xy: "split_area R area s r = (x, y)" by fastforce
  then show ?case using Split split_area_inside [OF xy] bar_thin(2) [OF xy] inside_trans by fastforce
qed simp

lemma apart_sym: "apart a b \<Longrightarrow> apart b a"
  by (auto simp: apart_def)

lemma rects_apart: "sorted_wrt apart (map snd (rects R t area))"
proof (induction t arbitrary: area)
  case (Split s r a b)
  obtain x y where xy: "split_area R area s r = (x, y)" by fastforce
  have "apart (snd p) (snd q)" if "p \<in> set (rects R a x)" "q \<in> set (rects R b y)" for p q
    by (rule split_area_apart [OF xy rects_inside [OF that(1)] rects_inside [OF that(2)]])
  then show ?case using Split xy by (auto simp: sorted_wrt_append)
qed simp

lemma bars_apart:
  "sorted_wrt apart (bars R t area) \<and> (\<forall>p \<in> set (rects R t area). \<forall>q \<in> set (bars R t area). apart (snd p) q)"
proof (induction t arbitrary: area)
  case (Split s r a b)
  obtain x y where xy: "split_area R area s r = (x, y)" by fastforce
  let ?k = "bar s x y area"
  have i: "\<forall>p \<in> set (rects R a x). inside (snd p) x" "\<forall>p \<in> set (rects R b y). inside (snd p) y"
    "\<forall>q \<in> set (bars R a x). inside q x" "\<forall>q \<in> set (bars R b y). inside q y"
    using rects_inside bars_inside by blast+
  have k: "\<forall>q \<in> snd ` set (rects R a x) \<union> snd ` set (rects R b y) \<union> set (bars R a x) \<union> set (bars R b y). apart q ?k"
    using i bar_apart [OF xy] by blast
  have cross: "\<forall>p \<in> snd ` set (rects R a x) \<union> set (bars R a x). \<forall>q \<in> snd ` set (rects R b y) \<union> set (bars R b y). apart p q"
    using i split_area_apart [OF xy] by blast
  show ?case
    unfolding bars.simps rects.simps xy Let_def case_prod_conv
    using Split.IH(1) [of x] Split.IH(2) [of y] k cross by (auto simp: sorted_wrt_append dest: apart_sym)
qed simp

lemma bars_cover:
  "rect_contains area x y \<longleftrightarrow>
     list_ex (\<lambda>r. rect_contains r x y) (map snd (rects R t area)) \<or> list_ex (\<lambda>r. rect_contains r x y) (bars R t area)"
proof (induction t arbitrary: area)
  case (Split s r a b)
  obtain u v where uv: "split_area R area s r = (u, v)" by fastforce
  show ?case unfolding split_area_cover [OF uv, of x y] Split.IH(1) [of u] Split.IH(2) [of v] by (auto simp: uv)
qed simp

lemma bars_thin: "list_all (\<lambda>k. rwidth k \<le> 1 \<or> rheight k \<le> 1) (bars R t area)"
proof (induction t arbitrary: area)
  case (Split s r a b)
  obtain x y where xy: "split_area R area s r = (x, y)" by fastforce
  then show ?case using Split bar_thin(1) [OF xy] by simp
qed simp

lemma bars_count: "Suc (length (bars R t area)) = length (node_panes t)"
proof (induction t arbitrary: area)
  case (Split s r a b)
  obtain x y where xy: "split_area R area s r = (x, y)" by fastforce
  show ?case using Split.IH(1) [of x] Split.IH(2) [of y] xy by simp
qed simp

text \<open>
  C36. The panes of a window tile its area. For every tree and every area there is one rectangle for each
  pane, in the order of the tree; each lies inside the area, so that no sum of the layout leaves the
  range the area is in; no cell belongs to two of them; and together with the bars, one for each split and
  one cell thin, they fill the area: a cell is in the area exactly if it is in a pane or in a bar, and in
  no two of these.
\<close>

theorem panes_tile:
  "map fst (rects R t area) = node_panes t \<and> list_all (\<lambda>(_, r). inside r area) (rects R t area)
    \<and> (\<forall>x y. rect_contains area x y \<longleftrightarrow>
          list_ex (\<lambda>r. rect_contains r x y) (map snd (rects R t area) @ bars R t area))
    \<and> sorted_wrt apart (map snd (rects R t area) @ bars R t area)
    \<and> list_all (\<lambda>k. rwidth k \<le> 1 \<or> rheight k \<le> 1) (bars R t area)
    \<and> Suc (length (bars R t area)) = length (node_panes t)"
proof (intro conjI allI)
  show "map fst (rects R t area) = node_panes t" by (rule rects_panes)
  show "list_all (\<lambda>(_, r). inside r area) (rects R t area)" using rects_inside by (fastforce simp: list_all_iff)
  show "rect_contains area x y \<longleftrightarrow> list_ex (\<lambda>r. rect_contains r x y) (map snd (rects R t area) @ bars R t area)" for x y
    unfolding list_ex_append by (rule bars_cover)
  show "sorted_wrt apart (map snd (rects R t area) @ bars R t area)"
    using rects_apart [of R t area] bars_apart [of R t area] by (auto simp: sorted_wrt_append)
  show "list_all (\<lambda>k. rwidth k \<le> 1 \<or> rheight k \<le> 1) (bars R t area)" by (rule bars_thin)
  show "Suc (length (bars R t area)) = length (node_panes t)" by (rule bars_count)
qed

lemma rects_in_range:
  assumes "right area < 2 ^ 16" "bottom area < 2 ^ 16" "(p, r) \<in> set (rects R t area)"
  shows "right r < 2 ^ 16" "bottom r < 2 ^ 16"
  using assms rects_inside [OF assms(3)] by (auto simp: inside_def)

section \<open>A window stays consistent\<close>

definition window_ok :: "'r window \<Rightarrow> bool" where
  "window_ok w \<longleftrightarrow> distinct (node_panes (root w)) \<and> focused w \<in> set (node_panes (root w))
     \<and> (zoomed w = None \<or> zoomed w = Some (focused w))"

text \<open>What the code does to a window, one operation at a time; a pane that is put in is a new one.\<close>

inductive window_step :: "'r ratio_ops \<Rightarrow> 'r window \<Rightarrow> 'r window \<Rightarrow> bool" for R where
  split: "new \<notin> set (node_panes (root w)) \<Longrightarrow> window_step R w (snd (split_window R d new w))"
| remove: "window_step R w (snd (remove_window p w))"
| focus: "window_step R w (snd (focus_dir R d area w))"
| zoom: "window_step R w (toggle_zoom w)"
| resize: "window_step R w (w\<lparr>root := snd (resize_node R p d delta (root w) area)\<rparr>)"

inductive window_reached :: "'r ratio_ops \<Rightarrow> 'r window \<Rightarrow> bool" for R where
  opened: "window_reached R (window_new name p)"
| stepped: "window_reached R w \<Longrightarrow> window_step R w w' \<Longrightarrow> window_reached R w'"

lemma split_window_ok:
  assumes "window_ok w" "new \<notin> set (node_panes (root w))"
  shows "window_ok (snd (split_window R d new w))"
proof -
  obtain ok t where t: "split_node R (focused w) d new (root w) = (ok, t)" by fastforce
  then have "ok" "node_panes t = put_after (focused w) new (node_panes (root w))"
    using split_node_panes [of R "focused w" d new "root w"] assms(1) by (simp_all add: window_ok_def)
  then show ?thesis
    using assms t by (simp add: split_window_def window_ok_def distinct_put_after set_put_after)
qed

lemma remove_window_ok:
  assumes "window_ok w"
  shows "window_ok (snd (remove_window p w))"
proof (cases "root w = Leaf p")
  case True
  then show ?thesis using assms by (auto simp: remove_window_def window_ok_def)
next
  case False
  obtain ok t where t: "remove_node p (root w) = (ok, t)" by fastforce
  have d: "distinct (node_panes (root w))" using assms by (simp add: window_ok_def)
  have p: "ok = (p \<in> set (node_panes (root w)))" "node_panes t = filter (\<lambda>q. q \<noteq> p) (node_panes (root w))"
    using remove_node_panes [OF d False] t by simp_all
  have f: "first_pane t \<in> set (node_panes t)" by simp
  show ?thesis
  proof (cases ok)
    case True
    then show ?thesis using assms t False p f by (auto simp: remove_window_def window_ok_def Let_def)
  next
    case False
    then have "t = root w" using remove_node_same [of p "root w"] t by simp
    then show ?thesis using assms t False \<open>root w \<noteq> Leaf p\<close> by (auto simp: remove_window_def window_ok_def Let_def)
  qed
qed

lemma least_first_in: "least_first k x xs \<in> insert x (set xs)"
  by (induction xs arbitrary: x) force+

lemma least_first_least: "y \<in> insert x (set xs) \<Longrightarrow> k (least_first k x xs) \<le> k y"
proof (induction xs arbitrary: x y)
  case (Cons z xs)
  let ?m = "if k z < k x then z else x"
  have m: "k ?m \<le> k x" "k ?m \<le> k z" by auto
  have le: "k (least_first k ?m xs) \<le> k ?m" by (rule Cons.IH) simp
  show ?case
  proof (cases "y \<in> set xs")
    case True
    then show ?thesis using Cons.IH [of y ?m] by simp
  next
    case False
    then have "y = x \<or> y = z" using Cons.prems by auto
    then show ?thesis using le m order_trans by auto
  qed
qed simp

text \<open>
  A neighbour is another pane of the tree, wholly on that side and level with part of it, and none that
  is closer, or as close with a longer common edge, was passed over.
\<close>

lemma neighbour_spec:
  assumes "neighbour R t start d area = Some p" "distinct (node_panes t)"
  shows "\<exists>fr r. (start, fr) \<in> set (rects R t area) \<and> (p, r) \<in> set (rects R t area) \<and> p \<noteq> start \<and> beside d fr r
    \<and> (\<forall>q s. (q, s) \<in> set (rects R t area) \<longrightarrow> q \<noteq> start \<longrightarrow> beside d fr s \<longrightarrow> neighbour_key d fr r \<le> neighbour_key d fr s)"
proof -
  obtain s0 fr where f: "find (\<lambda>(q, _). q = start) (rects R t area) = Some (s0, fr)"
    using assms(1) by (auto simp: neighbour_def split: option.splits)
  let ?c = "filter (\<lambda>(_, r). beside d fr r) (filter (\<lambda>(q, _). q \<noteq> start) (rects R t area))"
  obtain x xs where c: "?c = x # xs"
    using assms(1) f by (cases ?c) (auto simp: neighbour_def)
  let ?y = "least_first (\<lambda>(_, r). neighbour_key d fr r) x xs"
  have y: "p = fst ?y" using assms(1) f c by (simp add: neighbour_def)
  have "?y \<in> set ?c" using least_first_in [of "\<lambda>(_, r). neighbour_key d fr r" x xs] unfolding c by simp
  then have "(p, snd ?y) \<in> set (rects R t area)" "p \<noteq> start" "beside d fr (snd ?y)"
    unfolding y by (auto simp: case_prod_beta)
  moreover have "(start, fr) \<in> set (rects R t area)" using f by (auto simp: find_Some_iff dest!: nth_mem)
  moreover have "neighbour_key d fr (snd ?y) \<le> neighbour_key d fr s"
    if "(q, s) \<in> set (rects R t area)" "q \<noteq> start" "beside d fr s" for q s
  proof -
    have "(q, s) \<in> set ?c" using that by simp
    then show ?thesis
      using least_first_least [of "(q, s)" x xs "\<lambda>(_, r). neighbour_key d fr r"] unfolding c
      by (simp add: case_prod_beta)
  qed
  ultimately show ?thesis by blast
qed

lemma neighbour_in: "neighbour R t start d area = Some p \<Longrightarrow> distinct (node_panes t) \<Longrightarrow> p \<in> set (node_panes t)"
  using neighbour_spec rects_panes [of R t area] by (metis fst_conv image_eqI set_map)

lemma window_step_ok: "window_step R w w' \<Longrightarrow> window_ok w \<Longrightarrow> window_ok w'"
proof (induction rule: window_step.induct)
  case (split new w d)
  then show ?case by (rule split_window_ok [rotated])
next
  case (remove w p)
  then show ?case by (rule remove_window_ok)
next
  case (focus w d area)
  then show ?case
    using neighbour_in [of R "root w" "focused w" d area] by (auto simp: focus_dir_def window_ok_def split: option.splits)
next
  case (zoom w)
  then show ?case by (auto simp: toggle_zoom_def window_ok_def split: option.splits node.splits)
next
  case (resize w p d delta area)
  then show ?case by (simp add: window_ok_def resize_node_panes)
qed

lemma window_reached_ok: "window_reached R w \<Longrightarrow> window_ok w"
  by (induction rule: window_reached.induct) (auto simp: window_step_ok, simp add: window_ok_def window_new_def)

text \<open>
  C37. The focus is always on a pane that is drawn. In every window that splits, removals, moves of the
  focus, zooms and resizes lead to, the panes are distinct, and whatever the area the focused pane is
  among the rectangles that are drawn.
\<close>

theorem focus_is_drawn:
  assumes "window_reached R w"
  shows "distinct (node_panes (root w)) \<and> focused w \<in> fst ` set (visible_rects R w area)"
proof -
  have ok: "window_ok w" using window_reached_ok [OF assms] .
  have "fst ` set (rects R (root w) area) = set (node_panes (root w))"
    using rects_panes [of R "root w" area] by (metis set_map)
  then show ?thesis using ok by (auto simp: window_ok_def visible_rects_def split: option.splits)
qed

definition unit_ratio :: "unit ratio_ops" where
  "unit_ratio = \<lparr>half = (), cells = \<lambda>n _. (n + 1) div 2, moved = \<lambda>_ _ _. ()\<rparr>"

theorem focus_is_drawn_witness:
  "distinct (node_panes (root (snd (split_window unit_ratio Vertical 2 (window_new ''w'' 1)))))
    \<and> 2 \<in> fst ` set (visible_rects unit_ratio (snd (split_window unit_ratio Vertical 2 (window_new ''w'' 1))) (mk_rect 0 0 80 24))"
proof -
  let ?w = "snd (split_window unit_ratio Vertical 2 (window_new ''w'' 1))"
  have "window_reached unit_ratio ?w"
    by (rule window_reached.stepped [OF window_reached.opened window_step.split]) (simp add: window_new_def)
  moreover have "focused ?w = 2" by (simp add: split_window_def window_new_def)
  ultimately show ?thesis using focus_is_drawn by metis
qed

text \<open>
  Closing a pane that was just split off gives the tree back as it was, shares and all.
\<close>

theorem split_then_remove:
  assumes "distinct (node_panes t)" "target \<in> set (node_panes t)" "new \<notin> set (node_panes t)"
  shows "remove_node new (snd (split_node R target d new t)) = (True, t)"
  using assms
proof (induction t)
  case (Split s r a b)
  have no: "a \<noteq> Leaf new" "b \<noteq> Leaf new" "new \<notin> set (node_panes a)" "new \<notin> set (node_panes b)"
    using Split.prems(3) by auto
  obtain oka a' okb b' where c: "split_node R target d new a = (oka, a')" "split_node R target d new b = (okb, b')" by fastforce
  have oka: "oka = (target \<in> set (node_panes a))" and okb: "okb = (target \<in> set (node_panes b))"
    using split_node_panes(1) [of R target d new a] split_node_panes(1) [of R target d new b] c by simp_all
  show ?case
  proof (cases oka)
    case True
    then have r: "remove_node new a' = (True, a)" using Split c oka by auto
    then have "a' \<noteq> Leaf new" by (cases a') auto
    then show ?thesis using True c no r by simp
  next
    case False
    then have tb: "target \<in> set (node_panes b)" using Split.prems(2) oka by auto
    then have r: "remove_node new b' = (True, b)" using Split c by auto
    then have nb: "b' \<noteq> Leaf new" by (cases b') auto
    have a': "a' = a" using split_node_same [of R target d new a] c False by simp
    have "fst (remove_node new a) = False"
      using remove_node_panes(1) [of a new] Split.prems(1) no by auto
    then obtain a'' where "remove_node new a = (False, a'')" by (cases "remove_node new a") auto
    moreover from this have "a'' = a" using remove_node_same [of new a] by simp
    ultimately show ?thesis using False c no r nb a' by simp
  qed
qed auto

theorem split_then_remove_witness:
  "remove_node 3 (snd (split_node unit_ratio 2 Vertical 3 (Split Horizontal () (Leaf 1) (Leaf 2))))
    = (True, Split Horizontal () (Leaf 1) (Leaf 2))"
  by (rule split_then_remove) simp_all


end
