(* ===== verification/Keymap.thy ===== *)
theory Keymap
  imports Protocol "HOL-Library.Multiset"
begin

text \<open>
  Keys and what they are bound to: the key and command languages and the prefix table
  (\<open>butai-client/src/keymap.rs\<close>), the sorting of a binding into what the client does about it
  (\<open>butai-client/src/keys.rs\<close>), and the prefix key (\<open>handle_prefix\<close> in \<open>butai-client/src/workbench.rs\<close>).
  \<open>dbg\<close> stands for the \<open>{:?}\<close> of a string; a path that came over the wire is valid UTF-8 already.
\<close>

section \<open>The vocabulary\<close>

datatype page =
  BoothPage | AgentsPage | FilesPage | DiffPage | GitPage | DockerPage | DocsPage
  | SettingsPage | HelpPage | UsagePage

datatype focus = OnAgents | OnProcesses | OnChanges | OnAllAgents | OnRefs | OnHistory | OnStage

datatype view_verb =
  VSpace page | VSpaceNext | VSpacePrev | VSpaces | VFocus focus | VTab nat | VTabNext | VTabPrev
  | VNewWorkspace | VCloseWorkspace | VHost | VLayout | VNewTerminal | VMonitor bool | VSearch
  | VLinks | VBranch | VUpdate | VHelp

datatype action = ACommand command | ADetach | ACommandPrompt | AView view_verb

datatype parse_error = UnknownKey string | UnknownCommand string | BadArgument string

fun error_text :: "(string \<Rightarrow> string) \<Rightarrow> parse_error \<Rightarrow> string" where
  "error_text dbg (UnknownKey s) = ''unknown key '' @ dbg s"
| "error_text dbg (UnknownCommand s) = ''unknown command '' @ dbg s"
| "error_text dbg (BadArgument s) = ''bad argument in '' @ dbg s"

section \<open>Keys\<close>

fun strip_mods :: "key_mods \<Rightarrow> string \<Rightarrow> key_mods \<times> string" where
  "strip_mods m (a # b # r) =
     (if b \<noteq> CHR ''-'' then (m, a # b # r)
      else if a = CHR ''C'' then strip_mods (m\<lparr>ctrl := True\<rparr>) r
      else if a = CHR ''M'' then strip_mods (m\<lparr>alt := True\<rparr>) r
      else if a = CHR ''S'' then strip_mods (m\<lparr>shift := True\<rparr>) r
      else (m, a # b # r))"
| "strip_mods m s = (m, s)"

definition named_keys :: "(string \<times> key_code) list" where
  "named_keys =
    [(''enter'', KEnter), (''return'', KEnter), (''esc'', KEsc), (''escape'', KEsc), (''space'', KChar '' ''),
     (''tab'', KTab), (''backtab'', KBackTab), (''backspace'', KBackspace), (''bspace'', KBackspace),
     (''up'', KUp), (''down'', KDown), (''left'', KLeft), (''right'', KRight), (''home'', KHome), (''end'', KEnd),
     (''pageup'', KPageUp), (''pgup'', KPageUp), (''pagedown'', KPageDown), (''pgdn'', KPageDown),
     (''delete'', KDelete), (''del'', KDelete), (''insert'', KInsert)]"

definition parse_key :: "string \<Rightarrow> parse_error + key_event" where
  "parse_key s =
     (let (mods, rest) = strip_mods no_mods s
      in case uchars rest of
           [c] \<Rightarrow> Inr \<lparr>code = KChar c, key_mods = mods\<rparr>
         | _ \<Rightarrow>
             (let name = map ascii_lower rest
              in case map_of named_keys name of
                   Some k \<Rightarrow> Inr \<lparr>code = k, key_mods = mods\<rparr>
                 | None \<Rightarrow>
                     if starts_with ''f'' name
                     then (case parse_uint 255 (tl name) of
                         Some n \<Rightarrow> Inr \<lparr>code = KF (of_nat n), key_mods = mods\<rparr>
                       | None \<Rightarrow> Inl (UnknownKey s))
                     else Inl (UnknownKey s)))"

definition normalize :: "key_event \<Rightarrow> key_event" where
  "normalize k = (case code k of KChar _ \<Rightarrow> k\<lparr>key_mods := (key_mods k)\<lparr>shift := False\<rparr>\<rparr> | _ \<Rightarrow> k)"

section \<open>Commands\<close>

definition or_bad :: "string \<Rightarrow> 'a option \<Rightarrow> ('a \<Rightarrow> parse_error + 'b) \<Rightarrow> parse_error + 'b" where
  "or_bad s v f = (case v of Some x \<Rightarrow> f x | None \<Rightarrow> Inl (BadArgument s))"

definition dir_arg :: "string option \<Rightarrow> dir option" where
  "dir_arg v = Option.bind v (map_of [(''left'', DLeft), (''right'', DRight), (''up'', DUp), (''down'', DDown)])"

definition focus_arg :: "string option \<Rightarrow> focus option" where
  "focus_arg v = Option.bind v (map_of
     [(''agents'', OnAgents), (''processes'', OnProcesses), (''procs'', OnProcesses), (''changes'', OnChanges),
      (''fleet'', OnAllAgents), (''all-agents'', OnAllAgents), (''stage'', OnStage)])"

definition space_arg :: "string option \<Rightarrow> view_verb option" where
  "space_arg v = Option.bind v (map_of
     [(''work'', VSpace AgentsPage), (''files'', VSpace FilesPage), (''docker'', VSpace DockerPage), (''docs'', VSpace DocsPage),
      (''git'', VSpace GitPage), (''booth'', VSpace BoothPage), (''home'', VSpace BoothPage), (''next'', VSpaceNext),
      (''prev'', VSpacePrev), (''menu'', VSpaces)])"

definition tab_arg :: "string option \<Rightarrow> view_verb option" where
  "tab_arg v = Option.bind v (\<lambda>a.
     case map_of [(''next'', VTabNext), (''prev'', VTabPrev), (''new'', VNewWorkspace), (''close'', VCloseWorkspace)] a of
       Some verb \<Rightarrow> Some verb
     | None \<Rightarrow> (case parse_uint usize_max a of Some n \<Rightarrow> if 1 \<le> n then Some (VTab n) else None | None \<Rightarrow> None))"

definition pane_arg :: "string option \<Rightarrow> pane_kind option" where
  "pane_arg v = Option.bind v (map_of
     [(''filetree'', FileTree), (''git'', Git), (''diff'', Diff), (''editor'', Editor None), (''terminal'', Terminal None)])"

definition split_arg :: "string option \<Rightarrow> split_dir option" where
  "split_arg v = Option.bind v (map_of
     [(''horizontal'', Horizontal), (''h'', Horizontal), (''vertical'', Vertical), (''v'', Vertical)])"

definition monitor_arg :: "string option \<Rightarrow> bool option" where
  "monitor_arg v = (case v of None \<Rightarrow> Some False | Some a \<Rightarrow> if a = ''gpu'' then Some True else None)"

definition kill_arg :: "string option \<Rightarrow> command option" where
  "kill_arg v = (case v of None \<Rightarrow> Some KillServer | Some a \<Rightarrow> if a = ''clear'' then Some KillServerClear else None)"

definition cmd :: "command \<Rightarrow> parse_error + action" where
  "cmd c = Inr (ACommand c)"

definition view_as :: "view_verb \<Rightarrow> parse_error + action" where
  "view_as v = Inr (AView v)"

text \<open>\<open>parse_action\<close>: the word that names the command, its first argument, and the words after that.\<close>

definition resize_action :: "string \<Rightarrow> string option \<Rightarrow> string list \<Rightarrow> parse_error + action" where
  "resize_action s arg rest =
     or_bad s (dir_arg arg) (\<lambda>d. case rest of
         n # _ \<Rightarrow> or_bad s (parse_int 16 n) (\<lambda>cells. cmd (ResizePane d cells))
       | [] \<Rightarrow> cmd (ResizePane d 2))"

definition process_action :: "string \<Rightarrow> string option \<Rightarrow> string list \<Rightarrow> parse_error + action" where
  "process_action s arg rest =
     or_bad s arg (\<lambda>name. let command = join '' '' rest
       in if command = [] then Inl (BadArgument s) else cmd (NewProcess name command))"

text \<open>The commands that are a word of their own, whatever follows it.\<close>

definition plain_actions :: "(string \<times> action) list" where
  "plain_actions =
    [(''host'', AView VHost), (''terminal'', AView VNewTerminal), (''term'', AView VNewTerminal),
     (''find'', AView VSearch), (''search'', AView VSearch), (''links'', AView VLinks), (''urls'', AView VLinks),
     (''branch'', AView VBranch), (''update'', AView VUpdate), (''help'', AView VHelp),
     (''close-pane'', ACommand ClosePane), (''kill-pane'', ACommand ClosePane), (''zoom'', ACommand ZoomToggle),
     (''scroll-up'', ACommand (ScrollPage (- 1))), (''scroll-down'', ACommand (ScrollPage 1)),
     (''new-window'', ACommand NewWindow), (''next-window'', ACommand NextWindow), (''prev-window'', ACommand PrevWindow),
     (''list-sessions'', ACommand ListSessions), (''reload-config'', ACommand ReloadConfig),
     (''all-agents'', ACommand ToggleAllAgents), (''git-menu'', ACommand GitMenu), (''paste-image'', ACommand PasteImage),
     (''detach'', ADetach), (''prompt'', ACommandPrompt)]"

definition parse_action :: "string \<Rightarrow> parse_error + action" where
  "parse_action s =
     (case split_whitespace s of
        [] \<Rightarrow> Inl (UnknownCommand s)
      | head # words \<Rightarrow>
         (let arg = (case words of a # _ \<Rightarrow> Some a | [] \<Rightarrow> None); rest = drop 1 words
          in if head = ''split'' then or_bad s (split_arg arg) (\<lambda>d. cmd (SplitPane d (Terminal None)))
             else if head = ''open-pane'' then or_bad s (pane_arg arg) (\<lambda>k. cmd (SplitPane Horizontal k))
             else if head = ''focus'' then
               (case focus_arg arg of Some f \<Rightarrow> view_as (VFocus f) | None \<Rightarrow> or_bad s (dir_arg arg) (\<lambda>d. cmd (FocusDir d)))
             else if head = ''space'' then or_bad s (space_arg arg) view_as
             else if head = ''workspace'' \<or> head = ''ws'' then or_bad s (tab_arg arg) view_as
             else if head = ''monitor'' then or_bad s (monitor_arg arg) (\<lambda>gpu. view_as (VMonitor gpu))
             else if head = ''resize'' then resize_action s arg rest
             else if head = ''select-window'' then
               or_bad s (Option.bind arg (parse_uint usize_max)) (\<lambda>n. cmd (SelectWindow n))
             else if head = ''rename-window'' then or_bad s arg (\<lambda>_. cmd (RenameWindow (join '' '' words)))
             else if head = ''layout'' then (case arg of None \<Rightarrow> view_as VLayout | Some n \<Rightarrow> cmd (ApplyLayout n))
             else if head = ''agent'' then cmd (case arg of Some n \<Rightarrow> SpawnAgent n | None \<Rightarrow> ListAgents)
             else if head = ''agent-default'' then cmd (SetDefaultAgent arg)
             else if head = ''process'' then process_action s arg rest
             else if head = ''theme'' then cmd (case arg of Some n \<Rightarrow> SetTheme n | None \<Rightarrow> ListThemes)
             else if head = ''kill-server'' then or_bad s (kill_arg arg) cmd
             else (case map_of plain_actions head of Some a \<Rightarrow> Inr a | None \<Rightarrow> Inl (UnknownCommand s))))"

section \<open>The prefix table\<close>

record keymap =
  km_prefix :: key_event
  km_bindings :: "key_event \<rightharpoonup> action"

definition default_table :: "(string \<times> string) list" where
  "default_table =
    [(''o'', ''space files''), (''m'', ''space docs''), (''c'', ''space docker''), (''r'', ''space git''), (''w'', ''space work''),
     ('','', ''space prev''), (''.'', ''space next''), (''e'', ''space files''), (''space'', ''space menu''),
     (''n'', ''workspace new''), (''['', ''workspace prev''), ('']'', ''workspace next''),
     (''1'', ''workspace 1''), (''2'', ''workspace 2''), (''3'', ''workspace 3''), (''4'', ''workspace 4''), (''5'', ''workspace 5''),
     (''6'', ''workspace 6''), (''7'', ''workspace 7''), (''8'', ''workspace 8''), (''9'', ''workspace 9''),
     (''X'', ''workspace close''), (''H'', ''host''),
     (''A'', ''focus agents''), (''P'', ''focus processes''), (''G'', ''focus changes''), (''W'', ''focus fleet''), (''s'', ''focus stage''),
     (''a'', ''agent''), (''t'', ''terminal''), (''x'', ''close-pane''), (''g'', ''git-menu''), (''b'', ''branch''),
     (''S'', ''monitor''), (''Y'', ''monitor gpu''), (''z'', ''zoom''), (''l'', ''layout''), (''/'', ''find''), (''f'', ''links''),
     (''v'', ''paste-image''), (''?'', ''help''), (''d'', ''detach''), ('':'', ''prompt''),
     (''pageup'', ''scroll-up''), (''pagedown'', ''scroll-down'')]"

text \<open>One entry of a table; the shipped one must have no error, which the source expects.\<close>

definition entry :: "string \<times> string \<Rightarrow> parse_error + key_event \<times> action" where
  "entry kv = (case (parse_key (fst kv), parse_action (snd kv)) of
     (Inr key, Inr action) \<Rightarrow> Inr (normalize key, action)
   | (Inl e, _) \<Rightarrow> Inl e
   | (_, Inl e) \<Rightarrow> Inl e)"

definition insert_all :: "('k \<times> 'v) list \<Rightarrow> ('k \<rightharpoonup> 'v) \<Rightarrow> 'k \<rightharpoonup> 'v" where
  "insert_all es m = fold (\<lambda>(k, v) m. m(k \<mapsto> v)) es m"

definition right_of :: "'e + 'a \<Rightarrow> 'a option" where
  "right_of r = (case r of Inr x \<Rightarrow> Some x | Inl _ \<Rightarrow> None)"

definition default_entries :: "(key_event \<times> action) list option" where
  "default_entries = those (map (right_of \<circ> entry) default_table)"

definition default_bindings :: "(key_event \<rightharpoonup> action) option" where
  "default_bindings = map_option (\<lambda>es. insert_all es Map.empty) default_entries"

definition resolve :: "keymap \<Rightarrow> key_event \<Rightarrow> action option" where
  "resolve km k = km_bindings km (normalize k)"

text \<open>
  The table with the overrides of the configuration, which arrive in the order a \<open>HashMap\<close> gives them.
\<close>

fun add_overrides :: "(string \<Rightarrow> string) \<Rightarrow> (string \<times> string) list \<Rightarrow> (key_event \<rightharpoonup> action) \<Rightarrow> string list \<Rightarrow>
    (key_event \<rightharpoonup> action) \<times> string list" where
  "add_overrides dbg [] m ws = (m, ws)"
| "add_overrides dbg (kv # os) m ws =
     (case entry kv of
        Inr (key, action) \<Rightarrow> add_overrides dbg os (m(key \<mapsto> action)) ws
      | Inl e \<Rightarrow> add_overrides dbg os m (ws @ [''[keys] '' @ dbg (fst kv) @ '': '' @ error_text dbg e]))"

definition from_config :: "(string \<Rightarrow> string) \<Rightarrow> string \<Rightarrow> (string \<times> string) list \<Rightarrow> (keymap \<times> string list) option" where
  "from_config dbg pre overrides =
     map_option (\<lambda>defaults.
       let (prefix, warnings) = (case parse_key pre of
             Inr k \<Rightarrow> (k, [])
           | Inl e \<Rightarrow> (ctrl_key ''b'', [''bad prefix ('' @ error_text dbg e @ ''); falling back to C-b'']));
           (bindings, warnings) = add_overrides dbg overrides defaults warnings
       in (\<lparr>km_prefix = normalize prefix, km_bindings = bindings\<rparr>, warnings)) default_bindings"

section \<open>What a binding means to this client\<close>

datatype local =
  LZen | LGitMenu | LPickAgent | LOpenFile string | LTheme "string option" | LScroll int
  | LPinAgent "string option" | LPasteImage | LView view_verb

datatype ask = AskSpawnAgent string | AskNewProcess string string | AskClosePane | AskKillServer bool | AskReloadConfig

datatype bound = BDetach | BPrompt | BLocal local | BAsk ask | NotHere string

fun bind_command :: "command \<Rightarrow> bound" where
  "bind_command ZoomToggle = BLocal LZen"
| "bind_command GitMenu = BLocal LGitMenu"
| "bind_command ListAgents = BLocal LPickAgent"
| "bind_command (SetTheme name) = BLocal (LTheme (Some name))"
| "bind_command ListThemes = BLocal (LTheme None)"
| "bind_command (OpenFile p) = BLocal (LOpenFile p)"
| "bind_command (SplitPane d k) = (if k = FileTree then BLocal (LOpenFile []) else NotHere ''the stage holds one pane'')"
| "bind_command (ScrollPage n) = BLocal (LScroll n)"
| "bind_command (SetDefaultAgent name) = BLocal (LPinAgent name)"
| "bind_command PasteImage = BLocal LPasteImage"
| "bind_command (SpawnAgent name) = BAsk (AskSpawnAgent name)"
| "bind_command (NewProcess name c) = BAsk (AskNewProcess name c)"
| "bind_command ClosePane = BAsk AskClosePane"
| "bind_command KillServer = BAsk (AskKillServer False)"
| "bind_command KillServerClear = BAsk (AskKillServer True)"
| "bind_command ReloadConfig = BAsk AskReloadConfig"
| "bind_command (FocusDir _) = NotHere ''nothing to focus past''"
| "bind_command (FocusPane _) = NotHere ''nothing to focus past''"
| "bind_command (ResizePane _ _) = NotHere ''the stage is sized by the rails''"
| "bind_command (ApplyLayout _) = NotHere ''the rails are the layout''"
| "bind_command NewWindow = NotHere ''tabs are workspaces, not windows''"
| "bind_command NextWindow = NotHere ''tabs are workspaces, not windows''"
| "bind_command PrevWindow = NotHere ''tabs are workspaces, not windows''"
| "bind_command (SelectWindow _) = NotHere ''tabs are workspaces, not windows''"
| "bind_command (RenameWindow _) = NotHere ''tabs are workspaces, not windows''"
| "bind_command ListSessions = NotHere ''use the tab bar, or the CLI''"
| "bind_command (NewSession _ _) = NotHere ''use the tab bar, or the CLI''"
| "bind_command (KillSession _) = NotHere ''use the tab bar, or the CLI''"
| "bind_command ToggleAllAgents = NotHere ''the BOOTH space lists every agent''"
| "bind_command (PutFile _ _) = NotHere ''nothing binds a file transfer''"

fun bind_action :: "action \<Rightarrow> bound" where
  "bind_action ADetach = BDetach"
| "bind_action ACommandPrompt = BPrompt"
| "bind_action (AView verb) = BLocal (LView verb)"
| "bind_action (ACommand c) = bind_command c"

definition why :: "bound \<Rightarrow> string option" where
  "why b = (case b of NotHere what \<Rightarrow> Some (''not in this workbench: '' @ what) | _ \<Rightarrow> None)"

section \<open>The prefix key\<close>

text \<open>
  \<open>None\<close> for an event that is no key press. What becomes of a key: it is not the prefix table's, it
  arms the table, it goes to the pane on the stage, it runs a binding, or it is bound to nothing.
\<close>

datatype prefix_outcome = NotMine | Armed | ToPane key_event | Run bound | NotBound key_event

definition handle_prefix :: "keymap \<Rightarrow> bool \<Rightarrow> key_event option \<Rightarrow> bool \<times> prefix_outcome" where
  "handle_prefix km armed ev =
     (case ev of
        None \<Rightarrow> (armed, NotMine)
      | Some k \<Rightarrow>
          if \<not> armed then (if k \<noteq> km_prefix km then (False, NotMine) else (True, Armed))
          else if k = km_prefix km then (False, ToPane k)
          else (case resolve km k of
              Some a \<Rightarrow> (False, Run (bind_action a))
            | None \<Rightarrow> (False, NotBound k)))"

definition key_code_name :: "(key_code \<Rightarrow> string) \<Rightarrow> key_event \<Rightarrow> string" where
  "key_code_name dbg_code k =
     (case code k of
        KChar c \<Rightarrow> (if c = '' '' then ''space'' else if ctrl (key_mods k) then map ascii_upper c else c)
      | KF n \<Rightarrow> ''F'' @ show_nat (unat n)
      | other \<Rightarrow> map ascii_lower (dbg_code other))"

definition key_label :: "(key_code \<Rightarrow> string) \<Rightarrow> key_event \<Rightarrow> string" where
  "key_label dbg_code k =
     (if ctrl (key_mods k) then ''^'' else []) @ (if alt (key_mods k) then ''M-'' else [])
     @ (if shift (key_mods k) then ''S-'' else []) @ key_code_name dbg_code k"

section \<open>The Option key\<close>

definition option_table :: "(uchar \<times> uchar) list" where
  "option_table =
    [([CHR 0xC3, CHR 0xA5], ''a''), ([CHR 0xC3, CHR 0xA7], ''c''), ([CHR 0xE2, CHR 0x88, CHR 0x82], ''d''), ([CHR 0xC2, CHR 0xA9], ''g''),
     ([CHR 0xCB, CHR 0x99], ''h''), ([CHR 0xC2, CHR 0xAC], ''l''), ([CHR 0xC2, CHR 0xB5], ''m''), ([CHR 0xC3, CHR 0xB8], ''o''),
     ([CHR 0xCF, CHR 0x80], ''p''), ([CHR 0xC2, CHR 0xAE], ''r''), ([CHR 0xC3, CHR 0x9F], ''s''), ([CHR 0xE2, CHR 0x80, CHR 0xA0], ''t''),
     ([CHR 0xE2, CHR 0x88, CHR 0x9A], ''v''), ([CHR 0xE2, CHR 0x88, CHR 0x91], ''w''), ([CHR 0xE2, CHR 0x89, CHR 0x88], ''x''), ([CHR 0xCE, CHR 0xA9], ''z''),
     ([CHR 0xE2, CHR 0x89, CHR 0xA4], '',''), ([CHR 0xE2, CHR 0x89, CHR 0xA5], ''.''), ([CHR 0xC2, CHR 0xAF], ''<''), ([CHR 0xCB, CHR 0x98], ''>''),
     ([CHR 0xC3, CHR 0xB7], ''/''), ([CHR 0xC2, CHR 0xBA], ''0''), ([CHR 0xC2, CHR 0xA1], ''1''), ([CHR 0xE2, CHR 0x84, CHR 0xA2], ''2''),
     ([CHR 0xC2, CHR 0xA3], ''3''), ([CHR 0xC2, CHR 0xA2], ''4''), ([CHR 0xE2, CHR 0x88, CHR 0x9E], ''5''), ([CHR 0xC2, CHR 0xA7], ''6''),
     ([CHR 0xC2, CHR 0xB6], ''7''), ([CHR 0xE2, CHR 0x80, CHR 0xA2], ''8''), ([CHR 0xC2, CHR 0xAA], ''9'')]"

definition option_char :: "uchar \<Rightarrow> uchar option" where
  "option_char c = map_of option_table c"

definition mac_option :: "key_event \<Rightarrow> key_event" where
  "mac_option k =
     (if alt (key_mods k) \<or> ctrl (key_mods k) then k
      else case code k of
          KChar c \<Rightarrow> (case option_char c of
              Some plain \<Rightarrow> \<lparr>code = KChar plain, key_mods = no_mods\<lparr>alt := True\<rparr>\<rparr>
            | None \<Rightarrow> k)
        | _ \<Rightarrow> k)"

section \<open>The Alt layer\<close>

definition alt_letters :: "(uchar \<times> view_verb) list" where
  "alt_letters =
    [(''x'', VCloseWorkspace), (''o'', VSpace FilesPage), (''c'', VSpace DockerPage), (''m'', VSpace DocsPage),
     (''r'', VSpace GitPage), ('','', VSpacePrev), (''.'', VSpaceNext), ('' '', VSpaces), (''<'', VTabPrev), (''>'', VTabNext),
     (''1'', VTab 1), (''2'', VTab 2), (''3'', VTab 3), (''4'', VTab 4), (''5'', VTab 5), (''6'', VTab 6), (''7'', VTab 7),
     (''8'', VTab 8), (''9'', VTab 9),
     (''a'', VFocus OnAgents), (''p'', VFocus OnProcesses), (''g'', VFocus OnChanges), (''w'', VFocus OnAllAgents),
     (''h'', VHost), (''l'', VLayout), (''t'', VNewTerminal), (''n'', VNewWorkspace), (''/'', VSearch)]"

definition alt_verb :: "key_code \<Rightarrow> view_verb option" where
  "alt_verb k = (case k of KEsc \<Rightarrow> Some (VFocus OnAgents) | KChar c \<Rightarrow> map_of alt_letters c | _ \<Rightarrow> None)"

text \<open>
  What a key of the Alt layer does: a view verb, or one of the seven things that are no view verb (the
  files page as the editor, BOOTH and the settings among them).
\<close>

datatype alt_deed =
  AltVerb view_verb | AltDetach | AltZen | AltEditor | AltBooth | AltSettings | AltPasteImage | AltPickAgent

definition alt_others :: "(uchar \<times> alt_deed) list" where
  "alt_others =
    [(''d'', AltDetach), (''z'', AltZen), (''e'', AltEditor), (''0'', AltBooth), (''s'', AltSettings), (''v'', AltPasteImage)]"

definition alt_binding :: "key_code \<Rightarrow> alt_deed option" where
  "alt_binding k =
     (case alt_verb k of Some verb \<Rightarrow> Some (AltVerb verb)
      | None \<Rightarrow> (case k of KChar c \<Rightarrow> map_of alt_others c | KEnter \<Rightarrow> Some AltPickAgent | _ \<Rightarrow> None))"

text \<open>The binding of the prefix table that does the same, if the table can name it at all.\<close>

fun same_binding :: "alt_deed \<Rightarrow> bound option" where
  "same_binding (AltVerb verb) = Some (BLocal (LView verb))"
| "same_binding AltDetach = Some BDetach"
| "same_binding AltZen = Some (BLocal LZen)"
| "same_binding AltPasteImage = Some (BLocal LPasteImage)"
| "same_binding AltPickAgent = Some (BLocal LPickAgent)"
| "same_binding _ = None"

section \<open>The shipped table\<close>

text \<open>What each entry says.\<close>

definition named :: "key_code \<Rightarrow> key_event" where "named k = \<lparr>code = k, key_mods = no_mods\<rparr>"

definition shipped :: "(key_event \<times> action) list" where
  "shipped =
    [(char_key ''o'', AView (VSpace FilesPage)), (char_key ''m'', AView (VSpace DocsPage)), (char_key ''c'', AView (VSpace DockerPage)),
     (char_key ''r'', AView (VSpace GitPage)), (char_key ''w'', AView (VSpace AgentsPage)), (char_key '','', AView VSpacePrev),
     (char_key ''.'', AView VSpaceNext), (char_key ''e'', AView (VSpace FilesPage)), (char_key '' '', AView VSpaces),
     (char_key ''n'', AView VNewWorkspace), (char_key ''['', AView VTabPrev), (char_key '']'', AView VTabNext),
     (char_key ''1'', AView (VTab 1)), (char_key ''2'', AView (VTab 2)), (char_key ''3'', AView (VTab 3)),
     (char_key ''4'', AView (VTab 4)), (char_key ''5'', AView (VTab 5)), (char_key ''6'', AView (VTab 6)),
     (char_key ''7'', AView (VTab 7)), (char_key ''8'', AView (VTab 8)), (char_key ''9'', AView (VTab 9)),
     (char_key ''X'', AView VCloseWorkspace), (char_key ''H'', AView VHost), (char_key ''A'', AView (VFocus OnAgents)),
     (char_key ''P'', AView (VFocus OnProcesses)), (char_key ''G'', AView (VFocus OnChanges)), (char_key ''W'', AView (VFocus OnAllAgents)),
     (char_key ''s'', AView (VFocus OnStage)), (char_key ''a'', ACommand ListAgents), (char_key ''t'', AView VNewTerminal),
     (char_key ''x'', ACommand ClosePane), (char_key ''g'', ACommand GitMenu), (char_key ''b'', AView VBranch),
     (char_key ''S'', AView (VMonitor False)), (char_key ''Y'', AView (VMonitor True)), (char_key ''z'', ACommand ZoomToggle),
     (char_key ''l'', AView VLayout), (char_key ''/'', AView VSearch), (char_key ''f'', AView VLinks),
     (char_key ''v'', ACommand PasteImage), (char_key ''?'', AView VHelp), (char_key ''d'', ADetach),
     (char_key '':'', ACommandPrompt), (named KPageUp, ACommand (ScrollPage (- 1))), (named KPageDown, ACommand (ScrollPage 1))]"

lemma tab_digit: "d \<in> set ''123456789'' \<Longrightarrow> tab_arg (Some [d]) = Some (VTab (digit_val d))"
  by (auto simp: tab_arg_def parse_uint_def undigits_def digit_val_def is_digit_def usize_max_def)

lemma digit_words:
  "list_all (\<lambda>d. parse_key [d] = Inr (char_key [d]) \<and> normalize (char_key [d]) = char_key [d]
     \<and> split_whitespace (''workspace '' @ [d]) = [''workspace'', [d]]) ''123456789''"
  by code_simp

lemma digit_entry:
  "d \<in> set ''123456789'' \<Longrightarrow> entry ([d], ''workspace '' @ [d]) = Inr (char_key [d], AView (VTab (digit_val d)))"
  using digit_words tab_digit [of d]
  by (simp only: list_all_iff) (simp add: entry_def parse_action_def or_bad_def view_as_def del: set_simps)

lemma other_entries:
  "map (right_of \<circ> entry) (take 12 default_table @ drop 21 default_table) = map Some (take 12 shipped @ drop 21 shipped)"
  by code_simp

lemma digit_rows:
  "take 9 (drop 12 default_table) = map (\<lambda>d. ([d], ''workspace '' @ [d])) ''123456789''"
  "take 9 (drop 12 shipped) = map (\<lambda>d. (char_key [d], AView (VTab (digit_val d)))) ''123456789''"
  by code_simp+

lemma three_parts: "xs = take 12 xs @ take 9 (drop 12 xs) @ drop 21 xs"
proof -
  have "take 9 (drop 12 xs) @ drop 21 xs = drop 12 xs" using append_take_drop_id [of 9 "drop 12 xs"] by simp
  then show ?thesis by simp
qed

lemma default_rows: "map (right_of \<circ> entry) default_table = map Some shipped"
proof -
  let ?f = "right_of \<circ> entry"
  have mid: "map ?f (take 9 (drop 12 default_table)) = map Some (take 9 (drop 12 shipped))"
    unfolding digit_rows map_map using digit_entry by (intro map_cong refl) (simp add: right_of_def)
  have ends: "map ?f (take 12 default_table) = map Some (take 12 shipped)"
    "map ?f (drop 21 default_table) = map Some (drop 21 shipped)"
    using other_entries unfolding map_append
    by (simp_all add: append_eq_append_conv default_table_def shipped_def)
  show ?thesis
    by (subst three_parts [of default_table], subst three_parts [of shipped]) (simp only: map_append mid ends)
qed

lemma default_entries_shipped: "default_entries = Some shipped"
proof -
  have "those (map Some xs) = Some xs" for xs :: "(key_event \<times> action) list" by (induction xs) simp_all
  then show ?thesis by (simp add: default_entries_def default_rows)
qed

lemma shipped_facts: "distinct (map fst shipped)" "list_all (\<lambda>(k, a). why (bind_action a) = None \<and> normalize k = k) shipped"
    "list_all (\<lambda>v. AView v \<in> set (map snd shipped)) (VFocus OnAgents # map snd alt_letters)"
    "list_all (\<lambda>a. a \<in> set (map snd shipped)) [ADetach, ACommand ZoomToggle, ACommand PasteImage, ACommand ListAgents]"
  by code_simp+

lemma alt_verb_in_table: "alt_verb c = Some verb \<Longrightarrow> AView verb \<in> set (map snd shipped)"
proof -
  assume "alt_verb c = Some verb"
  then have "verb \<in> set (VFocus OnAgents # map snd alt_letters)"
    by (auto simp: alt_verb_def split: key_code.splits dest!: map_of_SomeD intro: rev_image_eqI)
  then show ?thesis using shipped_facts(3) unfolding list_all_iff by blast
qed

lemma alt_deed_in_table:
  assumes "alt_binding c = Some deed"
  shows "deed \<in> {AltEditor, AltBooth, AltSettings} \<or> (\<exists>a \<in> set (map snd shipped). same_binding deed = Some (bind_action a))"
proof (cases "alt_verb c")
  case (Some verb)
  then have d: "deed = AltVerb verb" using assms by (simp add: alt_binding_def)
  then show ?thesis using alt_verb_in_table [OF Some] by (intro disjI2 bexI [of _ "AView verb"]) simp_all
next
  case None
  then have "deed \<in> {AltDetach, AltZen, AltEditor, AltBooth, AltSettings, AltPasteImage, AltPickAgent}"
    using assms by (auto simp: alt_binding_def alt_others_def split: key_code.splits if_splits dest!: map_of_SomeD)
  moreover have "ADetach \<in> set (map snd shipped)" "ACommand ZoomToggle \<in> set (map snd shipped)"
    "ACommand PasteImage \<in> set (map snd shipped)" "ACommand ListAgents \<in> set (map snd shipped)"
    using shipped_facts(4) by simp_all
  moreover have "bind_action ADetach = BDetach" "bind_action (ACommand ZoomToggle) = BLocal LZen"
    "bind_action (ACommand PasteImage) = BLocal LPasteImage" "bind_action (ACommand ListAgents) = BLocal LPickAgent"
    by simp_all
  ultimately show ?thesis by (elim insertE emptyE) (metis insertI1 insertI2 same_binding.simps)+
qed

section \<open>Tables\<close>

definition valid_overrides :: "(string \<times> string) list \<Rightarrow> (key_event \<times> action) list" where
  "valid_overrides os = List.map_filter (right_of \<circ> entry) os"

lemma valid_simps [simp]:
  "valid_overrides [] = []"
  "valid_overrides (kv # os) = (case entry kv of Inr x \<Rightarrow> x # valid_overrides os | Inl _ \<Rightarrow> valid_overrides os)"
  by (simp_all add: valid_overrides_def List.map_filter_simps right_of_def split: sum.splits)

lemma insert_all_lookup:
  "insert_all es m k = (case map_of (rev es) k of Some v \<Rightarrow> Some v | None \<Rightarrow> m k)"
  by (induction es arbitrary: m) (auto simp: insert_all_def map_add_def split: option.splits)

lemma insert_all_distinct:
  "distinct (map fst es) \<Longrightarrow> insert_all es m k = (case map_of es k of Some v \<Rightarrow> Some v | None \<Rightarrow> m k)"
  using map_of_inject_set [of "rev es" es] by (simp add: insert_all_lookup rev_map [symmetric])

lemma add_overrides_bindings: "fst (add_overrides dbg os m ws) = insert_all (valid_overrides os) m"
  by (induction os arbitrary: m ws) (auto simp: insert_all_def split: sum.splits prod.splits)

definition complaint :: "(string \<Rightarrow> string) \<Rightarrow> string \<times> string \<Rightarrow> string option" where
  "complaint dbg kv = (case entry kv of Inl e \<Rightarrow> Some (''[keys] '' @ dbg (fst kv) @ '': '' @ error_text dbg e) | Inr _ \<Rightarrow> None)"

lemma add_overrides_warnings: "snd (add_overrides dbg os m ws) = ws @ List.map_filter (complaint dbg) os"
  by (induction os arbitrary: m ws) (auto simp: List.map_filter_simps complaint_def split: sum.splits prod.splits)

lemma default_bindings_shipped: "default_bindings = Some (map_of shipped)"
  by (auto simp: default_bindings_def default_entries_shipped insert_all_distinct shipped_facts(1) split: option.splits)

lemma from_config_parts:
  assumes "from_config dbg pre os = Some (km, ws)"
  shows "km_bindings km = insert_all (valid_overrides os) (map_of shipped)"
    "ws = (case parse_key pre of Inr _ \<Rightarrow> []
        | Inl e \<Rightarrow> [''bad prefix ('' @ error_text dbg e @ ''); falling back to C-b'']) @ List.map_filter (complaint dbg) os"
    "km_prefix km = normalize (case parse_key pre of Inr k \<Rightarrow> k | Inl _ \<Rightarrow> ctrl_key ''b'')"
proof -
  let ?pw = "case parse_key pre of Inr k \<Rightarrow> (k, [])
      | Inl e \<Rightarrow> (ctrl_key ''b'', [''bad prefix ('' @ error_text dbg e @ ''); falling back to C-b''])"
  have *: "Some (km, ws) = Some (\<lparr>km_prefix = normalize (fst ?pw),
      km_bindings = fst (add_overrides dbg os (map_of shipped) (snd ?pw))\<rparr>, snd (add_overrides dbg os (map_of shipped) (snd ?pw)))"
    using assms by (simp add: from_config_def default_bindings_shipped case_prod_beta Let_def)
  then show "km_bindings km = insert_all (valid_overrides os) (map_of shipped)"
    by (simp add: add_overrides_bindings)
  from * show "ws = (case parse_key pre of Inr _ \<Rightarrow> []
        | Inl e \<Rightarrow> [''bad prefix ('' @ error_text dbg e @ ''); falling back to C-b'']) @ List.map_filter (complaint dbg) os"
    by (simp add: add_overrides_warnings split: sum.splits)
  from * show "km_prefix km = normalize (case parse_key pre of Inr k \<Rightarrow> k | Inl _ \<Rightarrow> ctrl_key ''b'')"
    by (simp split: sum.splits)
qed

lemma from_config_total: obtains km ws where "from_config dbg pre os = Some (km, ws)"
  by (metis default_bindings_shipped from_config_def option.simps(9) surj_pair)

lemma normalize_idem [simp]: "normalize (normalize k) = normalize k"
  by (simp add: normalize_def split: key_code.splits)

lemma valid_normalized: "(k, a) \<in> set (valid_overrides os) \<Longrightarrow> normalize k = k"
  by (induction os) (auto simp: entry_def split: sum.splits)

section \<open>Overrides\<close>

text \<open>
  C21. The configuration is heard. Whatever order the overrides are read in, as long as no two of them
  spell one key: a key does what its override says, and what the shipped table says if it has none; each
  override that cannot be read is answered by one warning, which names it and says what is wrong with it,
  and changes nothing; and besides there is one warning exactly when the prefix cannot be read.
\<close>

theorem overrides_are_heard:
  assumes "from_config dbg pre os = Some (km, ws)" "distinct (map fst (valid_overrides os))"
  shows "resolve km k = (case map_of (valid_overrides os) (normalize k) of
        Some a \<Rightarrow> Some a | None \<Rightarrow> the default_bindings (normalize k))
      \<and> ws = (case parse_key pre of Inr _ \<Rightarrow> []
          | Inl e \<Rightarrow> [''bad prefix ('' @ error_text dbg e @ ''); falling back to C-b''])
          @ map (\<lambda>kv. case entry kv of Inl e \<Rightarrow> ''[keys] '' @ dbg (fst kv) @ '': '' @ error_text dbg e)
              (filter (\<lambda>kv. right_of (entry kv) = None) os)
      \<and> length ws + length (valid_overrides os) = length os + (if right_of (parse_key pre) = None then 1 else 0)
      \<and> (\<forall>os'. mset os' = mset os \<longrightarrow> (\<exists>ws'. from_config dbg pre os' = Some (km, ws') \<and> mset ws' = mset ws))"
proof (intro conjI allI impI)
  note p = from_config_parts [OF assms(1)]
  show "resolve km k = (case map_of (valid_overrides os) (normalize k) of
      Some a \<Rightarrow> Some a | None \<Rightarrow> the default_bindings (normalize k))"
    by (simp add: resolve_def p(1) insert_all_distinct assms(2) default_bindings_shipped split: option.split)
  have "List.map_filter (complaint dbg) os
      = map (\<lambda>kv. case entry kv of Inl e \<Rightarrow> ''[keys] '' @ dbg (fst kv) @ '': '' @ error_text dbg e)
          (filter (\<lambda>kv. right_of (entry kv) = None) os)"
    by (induction os) (auto simp: complaint_def right_of_def List.map_filter_simps split: sum.splits)
  then show "ws = (case parse_key pre of Inr _ \<Rightarrow> []
          | Inl e \<Rightarrow> [''bad prefix ('' @ error_text dbg e @ ''); falling back to C-b''])
      @ map (\<lambda>kv. case entry kv of Inl e \<Rightarrow> ''[keys] '' @ dbg (fst kv) @ '': '' @ error_text dbg e)
          (filter (\<lambda>kv. right_of (entry kv) = None) os)"
    using p(2) by simp
  have "length (List.map_filter (complaint dbg) os) + length (valid_overrides os) = length os"
    by (induction os) (auto simp: complaint_def List.map_filter_simps split: sum.splits)
  then show "length ws + length (valid_overrides os) = length os + (if right_of (parse_key pre) = None then 1 else 0)"
    by (simp add: p(2) right_of_def split: sum.splits)
next
  fix os' :: "(string \<times> string) list"
  assume ms: "mset os' = mset os"
  have filt: "mset (List.map_filter g xs) = image_mset the (filter_mset (\<lambda>x. x \<noteq> None) (image_mset g (mset xs)))"
    for g :: "string \<times> string \<Rightarrow> 'c option" and xs
    by (induction xs) (auto simp: List.map_filter_simps split: option.splits)
  have same: "mset (valid_overrides os') = mset (valid_overrides os)"
    by (simp add: valid_overrides_def filt ms)
  then have d: "distinct (map fst (valid_overrides os'))"
    using assms(2) by (metis mset_eq_imp_distinct_iff mset_map)
  have "map_of (valid_overrides os') = map_of (valid_overrides os)"
    using map_of_inject_set [OF d assms(2)] mset_eq_setD [OF same] by simp
  then have b: "insert_all (valid_overrides os') m = insert_all (valid_overrides os) m" for m
    by (rule_tac ext) (simp add: insert_all_distinct d assms(2))
  obtain km' ws' where c: "from_config dbg pre os' = Some (km', ws')"
    by (rule from_config_total)
  note q = from_config_parts [OF c] and p = from_config_parts [OF assms(1)]
  have "km' = km" using q(1,3) p(1,3) b by (cases km; cases km') simp
  moreover have "mset ws' = mset ws" by (simp add: q(2) p(2) filt ms)
  ultimately show "\<exists>ws'. from_config dbg pre os' = Some (km, ws') \<and> mset ws' = mset ws" using c by blast
qed

lemma words_detach: "entry (''C-q'', ''detach'') = Inr (ctrl_key ''q'', ADetach)" "right_of (entry (''C-w'', ''dance'')) = None"
  by code_simp+

theorem overrides_are_heard_witness:
  "\<exists>km ws. from_config (\<lambda>s. s) ''C-a'' [(''C-q'', ''detach''), (''C-w'', ''dance'')] = Some (km, ws)
     \<and> resolve km (ctrl_key ''q'') = Some ADetach \<and> length ws = 1"
proof -
  let ?os = "[(''C-q'', ''detach''), (''C-w'', ''dance'')]"
  obtain km ws where c: "from_config (\<lambda>s. s) ''C-a'' ?os = Some (km, ws)"
    by (rule from_config_total)
  have v: "valid_overrides ?os = [(ctrl_key ''q'', ADetach)]"
    using words_detach by (simp add: right_of_def split: sum.splits)
  have n: "normalize (ctrl_key ''q'') = ctrl_key ''q''" "right_of (parse_key ''C-a'') = Some (ctrl_key ''a'')" by code_simp+
  note h = overrides_are_heard [OF c, of "ctrl_key ''q''", unfolded v n]
  have "resolve km (ctrl_key ''q'') = Some ADetach" using h [THEN conjunct1] by simp
  moreover have "length ws = 1" using h [THEN conjunct2, THEN conjunct2, THEN conjunct1] by simp
  ultimately show ?thesis using c by blast
qed

text \<open>Two spellings of one key: which one is heard depends on the order the map is read in.\<close>

lemma spellings_race:
  "map_option (\<lambda>r. resolve (fst r) (named KEnter)) (from_config dbg ''C-b'' [(''enter'', ''zoom''), (''return'', ''detach'')]) = Some (Some ADetach)"
  "map_option (\<lambda>r. resolve (fst r) (named KEnter)) (from_config dbg ''C-b'' [(''return'', ''detach''), (''enter'', ''zoom'')])
    = Some (Some (ACommand ZoomToggle))"
proof -
  have e: "entry (''enter'', ''zoom'') = Inr (named KEnter, ACommand ZoomToggle)" "entry (''return'', ''detach'') = Inr (named KEnter, ADetach)"
    "normalize (named KEnter) = named KEnter"
    by code_simp+
  show "map_option (\<lambda>r. resolve (fst r) (named KEnter)) (from_config dbg ''C-b'' [(''enter'', ''zoom''), (''return'', ''detach'')]) = Some (Some ADetach)"
    "map_option (\<lambda>r. resolve (fst r) (named KEnter)) (from_config dbg ''C-b'' [(''return'', ''detach''), (''enter'', ''zoom'')])
      = Some (Some (ACommand ZoomToggle))"
    by (simp_all add: from_config_def default_bindings_shipped resolve_def e Let_def split: sum.split prod.split)
qed

text \<open>
  An override for a shifted letter: dropping the shift makes it an override of the letter alone, and the
  key that is meant is not bound.
\<close>

lemma shifted_letter_takes_the_plain_one:
  assumes "from_config dbg pre [(''S-q'', ''detach'')] = Some (km, ws)"
  shows "resolve km (char_key ''q'') = Some ADetach" "resolve km \<lparr>code = KChar ''Q'', key_mods = no_mods\<lparr>shift := True\<rparr>\<rparr> = None"
proof -
  have e: "entry (''S-q'', ''detach'') = Inr (char_key ''q'', ADetach)" "normalize (char_key ''q'') = char_key ''q''"
    "normalize \<lparr>code = KChar ''Q'', key_mods = no_mods\<lparr>shift := True\<rparr>\<rparr> = char_key ''Q''" "map_of shipped (char_key ''Q'') = None"
    "char_key ''Q'' \<noteq> char_key ''q''"
    by code_simp+
  show "resolve km (char_key ''q'') = Some ADetach" "resolve km \<lparr>code = KChar ''Q'', key_mods = no_mods\<lparr>shift := True\<rparr>\<rparr> = None"
    using e by (simp_all add: resolve_def from_config_parts(1) [OF assms] insert_all_def)
qed

text \<open>A prefix that is a capital letter: it is kept without its shift and compared with a key that has it.\<close>

lemma capital_prefix_never_armed:
  assumes "from_config dbg ''M-B'' os = Some (km, ws)"
    and "ev = \<lparr>code = KChar ''B'', key_mods = \<lparr>ctrl = False, alt = True, shift = True\<rparr>\<rparr>"
  shows "handle_prefix km False (Some ev) = (False, NotMine)"
proof -
  have "parse_key ''M-B'' = Inr \<lparr>code = KChar ''B'', key_mods = no_mods\<lparr>alt := True\<rparr>\<rparr>"
    "normalize \<lparr>code = KChar ''B'', key_mods = no_mods\<lparr>alt := True\<rparr>\<rparr> = \<lparr>code = KChar ''B'', key_mods = no_mods\<lparr>alt := True\<rparr>\<rparr>"
    by code_simp+
  then have "km_prefix km = \<lparr>code = KChar ''B'', key_mods = no_mods\<lparr>alt := True\<rparr>\<rparr>" by (simp add: from_config_parts(3) [OF assms(1)])
  then show ?thesis by (simp add: handle_prefix_def assms(2) no_mods_def)
qed

section \<open>The shipped table\<close>

text \<open>
  C22. The shipped table works. It can be read, no entry hides another and none is bound to something this
  client cannot do; after the prefix each of its keys runs its command, with or without the shift a
  terminal reports; and whatever a key of the Alt layer does, some key of the table is bound to. Three deeds
  of the Alt layer are outside this: the editor on alt-e, BOOTH on alt-0 and the settings on alt-s.
\<close>

theorem shipped_table_works:
  assumes "from_config dbg pre [] = Some (km, ws)"
  shows "list_all (\<lambda>(key, command). \<exists>k a. parse_key key = Inr k \<and> parse_action command = Inr a
        \<and> why (bind_action a) = None
        \<and> (\<forall>ev. normalize ev = normalize k \<and> ev \<noteq> km_prefix km \<longrightarrow>
              handle_prefix km True (Some ev) = (False, Run (bind_action a)))) default_table
      \<and> (\<forall>c deed. alt_binding c = Some deed \<longrightarrow> deed \<in> {AltEditor, AltBooth, AltSettings}
            \<or> (\<exists>k a. resolve km k = Some a \<and> same_binding deed = Some (bind_action a)))"
proof (intro conjI allI impI)
  have b: "km_bindings km = map_of shipped" by (simp add: from_config_parts(1) [OF assms] insert_all_def)
  have bound: "resolve km k = Some a" "why (bind_action a) = None" if "(normalize k, a) \<in> set shipped" for k a
    using that shipped_facts(1,2) by (auto simp: resolve_def b list_all_iff)
  show "list_all (\<lambda>(key, command). \<exists>k a. parse_key key = Inr k \<and> parse_action command = Inr a
        \<and> why (bind_action a) = None
        \<and> (\<forall>ev. normalize ev = normalize k \<and> ev \<noteq> km_prefix km \<longrightarrow>
              handle_prefix km True (Some ev) = (False, Run (bind_action a)))) default_table"
    unfolding list_all_iff
  proof (intro ballI, clarify)
    fix key command
    assume "(key, command) \<in> set default_table"
    then have "(right_of \<circ> entry) (key, command) \<in> set (map Some shipped)"
      unfolding default_rows [symmetric] by (metis image_eqI set_map)
    then obtain e where e: "e \<in> set shipped" "entry (key, command) = Inr e"
      by (auto simp: right_of_def split: sum.splits)
    from e(2) obtain k a where p: "parse_key key = Inr k" "parse_action command = Inr a" "e = (normalize k, a)"
      by (auto simp: entry_def split: sum.splits)
    have "resolve km ev = Some a" if "normalize ev = normalize k" for ev
      using bound(1) [of k a] e(1) p(3) that by (simp add: resolve_def)
    then show "\<exists>k a. parse_key key = Inr k \<and> parse_action command = Inr a \<and> why (bind_action a) = None
        \<and> (\<forall>ev. normalize ev = normalize k \<and> ev \<noteq> km_prefix km \<longrightarrow> handle_prefix km True (Some ev) = (False, Run (bind_action a)))"
      using bound(2) [of k a] e(1) p by (intro exI [of _ k] exI [of _ a]) (simp add: handle_prefix_def)
  qed
  fix c deed
  assume d: "alt_binding c = Some deed"
  have "\<exists>a \<in> set (map snd shipped). same_binding deed = Some (bind_action a)" if "deed \<notin> {AltEditor, AltBooth, AltSettings}"
    using that alt_deed_in_table [OF d] by blast
  moreover have "\<exists>k. resolve km k = Some a" if "a \<in> set (map snd shipped)" for a
  proof -
    obtain k where k: "(k, a) \<in> set shipped" using \<open>a \<in> set (map snd shipped)\<close> by auto
    then have "normalize k = k" using shipped_facts(2) by (auto simp: list_all_iff)
    then show ?thesis using bound(1) [of k] k by metis
  qed
  ultimately show "deed \<in> {AltEditor, AltBooth, AltSettings} \<or> (\<exists>k a. resolve km k = Some a \<and> same_binding deed = Some (bind_action a))"
    by blast
qed

theorem shipped_table_works_witness:
  "\<exists>km ws. from_config (\<lambda>s. s) ''C-b'' [] = Some (km, ws) \<and> (\<exists>k a. resolve km k = Some a \<and> bind_action a = BLocal LPickAgent)"
proof -
  obtain km ws where c: "from_config (\<lambda>s. s) ''C-b'' [] = Some (km, ws)" by (rule from_config_total)
  have "alt_binding KEnter = Some AltPickAgent" by code_simp
  then obtain k a where "resolve km k = Some a" "same_binding AltPickAgent = Some (bind_action a)"
    using shipped_table_works [OF c, THEN conjunct2, rule_format, of KEnter AltPickAgent] by blast
  then have "\<exists>k a. resolve km k = Some a \<and> bind_action a = BLocal LPickAgent" by (metis option.inject same_binding.simps(5))
  then show ?thesis using c by blast
qed

text \<open>What the Alt layer has and the table, which calls itself the same interface, has not.\<close>

lemma booth_is_alt_only:
  "alt_binding (KChar ''0'') = Some AltBooth" "list_all (\<lambda>(k, a). a \<noteq> AView (VSpace BoothPage)) shipped"
  "alt_binding (KChar ''s'') = Some AltSettings" "map_of shipped (char_key ''s'') = Some (AView (VFocus OnStage))"
  by code_simp+

text \<open>Alt-space is no character of the Option table either, beside the four keys the source names.\<close>

lemma option_layer:
  "list_all (\<lambda>(c, v). c \<in> set ['' '', ''n''] \<or> (\<exists>g \<in> set option_table. snd g = c)) alt_letters"
  "alt_verb (KChar '' '') = Some VSpaces" "'' '' \<notin> set (map snd option_table)"
  by code_simp+

lemma option_recovers:
  "(g, c) \<in> set option_table \<Longrightarrow> mac_option (char_key g) = \<lparr>code = KChar c, key_mods = no_mods\<lparr>alt := True\<rparr>\<rparr>"
proof -
  have "list_all (\<lambda>(g, c). mac_option (char_key g) = \<lparr>code = KChar c, key_mods = no_mods\<lparr>alt := True\<rparr>\<rparr>) option_table"
    by code_simp
  then show "(g, c) \<in> set option_table \<Longrightarrow> ?thesis" by (auto simp: list_all_iff)
qed

end
