(* ===== verification/Event_Stream.thy ===== *)
theory Event_Stream
  imports Core_State
begin

text \<open>
  The event stream between a daemon and a client: the records the daemon writes
  (\<open>events_stream\<close> in \<open>butai-server/src/http_conn.rs\<close>), and the client's reader, its retries and the state
  it keeps of a daemon (\<open>butai-client/src/daemon.rs\<close>). The writing and reading of JSON are parameters.
\<close>

section \<open>Records\<close>

definition sse_record :: "('e \<Rightarrow> string option) \<Rightarrow> 'e \<Rightarrow> string" where
  "sse_record to_json ev =
     ''data: '' @ (case to_json ev of Some s \<Rightarrow> s | None \<Rightarrow> []) @ [CHR 0x0A, CHR 0x0A]"

definition MAX_SSE_RECORD :: nat where "MAX_SSE_RECORD = 8 * 1024 * 1024"

text \<open>The offset of the next record separator and its length.\<close>

fun find_record_end :: "string \<Rightarrow> (nat \<times> nat) option" where
  "find_record_end (a # b # r) =
     (if a = CHR 0x0A \<and> b = CHR 0x0A then Some (0, 2)
      else if take 4 (a # b # r) = [CHR 0x0D, CHR 0x0A, CHR 0x0D, CHR 0x0A] then Some (0, 4)
      else map_option (\<lambda>(i, n). (Suc i, n)) (find_record_end (b # r)))"
| "find_record_end _ = None"

fun data_lines :: "string list \<Rightarrow> string \<Rightarrow> string" where
  "data_lines [] acc = acc"
| "data_lines (l # ls) acc =
     (case strip_prefix ''data:'' l of
        Some rest \<Rightarrow>
          data_lines ls ((if acc = [] then [] else acc @ [CHR 0x0A])
            @ (case strip_prefix '' '' rest of Some r \<Rightarrow> r | None \<Rightarrow> rest))
      | None \<Rightarrow> data_lines ls acc)"

definition parse_record :: "(string \<Rightarrow> 'e option) \<Rightarrow> string \<Rightarrow> 'e option" where
  "parse_record from_json bytes =
     (if \<not> utf8_ok bytes then None
      else let data = data_lines (lines bytes) [] in if data = [] then None else from_json data)"

lemma record_end_bounds: "find_record_end xs = Some (i, n) \<Longrightarrow> i + n \<le> length xs \<and> 0 < n"
proof (induction xs arbitrary: i rule: find_record_end.induct)
  case (1 a b r)
  show ?case
  proof (cases "take 4 (a # b # r) = [CHR 0x0D, CHR 0x0A, CHR 0x0D, CHR 0x0A]")
    case True
    then have "length (take 4 (a # b # r)) = 4" by simp
    then show ?thesis using 1 True by (auto split: if_splits)
  next
    case False
    then show ?thesis using 1 by (fastforce split: if_splits)
  qed
qed simp_all

text \<open>The records of a buffer, and what is left over.\<close>

function drain :: "(string \<Rightarrow> 'e option) \<Rightarrow> string \<Rightarrow> 'e list \<times> string" where
  "drain from_json buf =
     (case find_record_end buf of
        None \<Rightarrow> ([], buf)
      | Some (i, n) \<Rightarrow>
          (case drain from_json (drop (i + n) buf) of
             (es, left) \<Rightarrow> ((case parse_record from_json (take i buf) of Some e \<Rightarrow> e # es | None \<Rightarrow> es), left)))"
  by pat_completeness auto
termination
  by (relation "measure (length \<circ> snd)") (auto dest!: record_end_bounds)

declare drain.simps [simp del]

text \<open>The body of \<open>read_events\<close>: what has been read, what was sent on, and whether it has given up.\<close>

record 'e sse =
  sse_buf :: string
  sse_sent :: "'e list"
  sse_broken :: bool

definition sse_start :: "'e sse" where
  "sse_start = \<lparr>sse_buf = [], sse_sent = [], sse_broken = False\<rparr>"

definition read_chunk :: "(string \<Rightarrow> 'e option) \<Rightarrow> string \<Rightarrow> 'e sse \<Rightarrow> 'e sse" where
  "read_chunk from_json chunk s =
     (if sse_broken s then s
      else let buf = sse_buf s @ chunk
        in if MAX_SSE_RECORD < length buf then s\<lparr>sse_buf := buf, sse_broken := True\<rparr>
           else case drain from_json buf of
             (es, left) \<Rightarrow> s\<lparr>sse_buf := left, sse_sent := sse_sent s @ es\<rparr>)"

section \<open>Retries\<close>

text \<open>In milliseconds.\<close>

definition BACKOFF_MIN :: nat where "BACKOFF_MIN = 250"
definition BACKOFF_MAX :: nat where "BACKOFF_MAX = 10000"
definition STABLE_STREAM :: nat where "STABLE_STREAM = 5000"

definition next_backoff :: "nat \<Rightarrow> bool \<Rightarrow> nat \<Rightarrow> nat" where
  "next_backoff previous connected up_for =
     (if connected \<and> STABLE_STREAM \<le> up_for then BACKOFF_MIN else min (previous * 2) BACKOFF_MAX)"

lemma backoff_range:
  "BACKOFF_MIN \<le> b \<Longrightarrow> b \<le> BACKOFF_MAX \<Longrightarrow> BACKOFF_MIN \<le> next_backoff b c u \<and> next_backoff b c u \<le> BACKOFF_MAX"
  by (auto simp: next_backoff_def BACKOFF_MIN_def BACKOFF_MAX_def)

section \<open>What a client knows of a daemon\<close>

datatype ('d, 's) push =
  PSystem 's | PWorkspaces "ws_summary list" | PDetail session_id 'd | PNotification notification
  | PGitOp git_op_dto | PRemoteAnnounce pane_id string string string "string list"

datatype ('d, 's) daemon_event = Connected | Lost string | Api "('d, 's) push"

record ('d, 's) client_state =
  cs_tabs :: "ws_summary list"
  cs_detail :: "session_id \<rightharpoonup> 'd"
  cs_system :: 's
  cs_notifications :: "notification list"
  cs_git_op :: "git_op_dto option"
  cs_connected :: bool

definition NOTIFICATION_CAP :: nat where "NOTIFICATION_CAP = 64"

fun apply_push :: "('d, 's) push \<Rightarrow> ('d, 's) client_state \<Rightarrow> ('d, 's) client_state" where
  "apply_push (PSystem x) s = s\<lparr>cs_system := x\<rparr>"
| "apply_push (PWorkspaces ws) s = s\<lparr>cs_tabs := ws, cs_detail := cs_detail s |` set (map su_id ws)\<rparr>"
| "apply_push (PDetail i d) s = s\<lparr>cs_detail := (cs_detail s)(i \<mapsto> d)\<rparr>"
| "apply_push (PNotification n) s = s\<lparr>cs_notifications := take_last NOTIFICATION_CAP (cs_notifications s @ [n])\<rparr>"
| "apply_push (PGitOp op) s = s\<lparr>cs_git_op := Some op\<rparr>"
| "apply_push (PRemoteAnnounce _ _ _ _ _) s = s"

fun next_event :: "('d, 's) daemon_event \<Rightarrow> ('d, 's) client_state \<Rightarrow> ('d, 's) client_state" where
  "next_event Connected s = s\<lparr>cs_connected := True\<rparr>"
| "next_event (Lost _) s = s\<lparr>cs_connected := False\<rparr>"
| "next_event (Api p) s = apply_push p s"

section \<open>The stream may be cut anywhere\<close>

lemma record_end_append: "find_record_end xs = Some r \<Longrightarrow> find_record_end (xs @ ys) = Some r"
proof (induction xs arbitrary: r rule: find_record_end.induct)
  case (1 a b xs)
  show ?case
  proof (cases "a = CHR 0x0A \<and> b = CHR 0x0A")
    case True
    then show ?thesis using 1(2) by simp
  next
    case no_lf: False
    show ?thesis
    proof (cases "take 4 (a # b # xs) = [CHR 0x0D, CHR 0x0A, CHR 0x0D, CHR 0x0A]")
      case True
      then have "length (take 4 (a # b # xs)) = 4" by simp
      then have "take 4 (a # b # xs @ ys) = take 4 (a # b # xs)" by (simp add: take_append)
      then show ?thesis using 1(2) True no_lf by simp
    next
      case False
      from 1(2) False no_lf obtain s where s: "find_record_end (b # xs) = Some s" "r = (case s of (i, n) \<Rightarrow> (Suc i, n))"
        by auto
      have "take 4 (a # b # xs @ ys) \<noteq> [CHR 0x0D, CHR 0x0A, CHR 0x0D, CHR 0x0A]"
      proof
        assume t: "take 4 (a # b # xs @ ys) = [CHR 0x0D, CHR 0x0A, CHR 0x0D, CHR 0x0A]"
        then have "length xs < 2" using False by (cases xs; cases "tl xs") (auto simp: take_Cons')
        then show False using t s(1) by (cases xs; cases "tl xs") (auto simp: take_Cons')
      qed
      then show ?thesis using 1(1) [OF no_lf False s(1)] no_lf s(2) by auto
    qed
  qed
qed simp_all

lemma drain_append:
  "drain f (xs @ ys) = (case drain f xs of (es, left) \<Rightarrow> case drain f (left @ ys) of (es', left') \<Rightarrow> (es @ es', left'))"
proof (induction f xs rule: drain.induct)
  case (1 f xs)
  show ?case
  proof (cases "find_record_end xs")
    case None
    then show ?thesis by (simp add: drain.simps [of f xs])
  next
    case (Some r)
    obtain i n where r: "r = (i, n)" by (cases r)
    have b: "i + n \<le> length xs" "i \<le> length xs" using record_end_bounds [of xs i n] Some r by auto
    have "drain f (xs @ ys) = (case drain f (drop (i + n) xs @ ys) of
        (es, left) \<Rightarrow> ((case parse_record f (take i xs) of Some e \<Rightarrow> e # es | None \<Rightarrow> es), left))"
      by (subst drain.simps) (simp add: record_end_append [OF Some] r b)
    also have "\<dots> = (case drain f xs of (es, left) \<Rightarrow> case drain f (left @ ys) of (es', left') \<Rightarrow> (es @ es', left'))"
      using 1 [OF Some r [symmetric]] by (subst (3) drain.simps) (simp add: Some r split: prod.splits option.splits)
    finally show ?thesis .
  qed
qed

text \<open>What the daemon writes for events whose JSON reads back.\<close>

definition plain_json :: "('e \<Rightarrow> string option) \<Rightarrow> (string \<Rightarrow> 'e option) \<Rightarrow> 'e \<Rightarrow> bool" where
  "plain_json to_json from_json ev \<longleftrightarrow>
     (\<exists>s. to_json ev = Some s \<and> from_json s = Some ev \<and> s \<noteq> [] \<and> utf8_ok s \<and> CHR 0x0A \<notin> set s \<and> CHR 0x0D \<notin> set s)"

lemma record_end_plain:
  "CHR 0x0A \<notin> set s \<Longrightarrow> CHR 0x0D \<notin> set s \<Longrightarrow> find_record_end (s @ [CHR 0x0A, CHR 0x0A] @ ys) = Some (length s, 2)"
proof (induction s)
  case (Cons c s)
  then show ?case by (cases s) (auto simp: take_Cons')
qed simp

lemma no_record_end: "CHR 0x0A \<notin> set s \<Longrightarrow> find_record_end (s @ zs) = None" if "zs = [] \<or> zs = [CHR 0x0A]"
  using that
proof (induction s)
  case (Cons c s)
  then show ?case by (cases s) (auto simp: take_Cons')
qed auto

lemma parse_plain:
  assumes "from_json s = Some ev" "s \<noteq> []" "utf8_ok s" "CHR 0x0A \<notin> set s"
  shows "parse_record from_json (''data: '' @ s) = Some ev"
proof -
  have "lines (''data: '' @ s) = [''data: '' @ s]"
    using assms(4) by (subst lines.simps) (simp add: split_once_char_None)
  moreover have "utf8_ok (''data: '' @ s)" using assms(3) by (simp add: byte_in_def)
  ultimately show ?thesis using assms(1,2) by (simp add: parse_record_def Let_def)
qed

lemma drain_record:
  assumes "plain_json tj fj ev"
  shows "drain fj (sse_record tj ev @ ys) = (case drain fj ys of (es, left) \<Rightarrow> (ev # es, left))"
proof -
  obtain s where s: "tj ev = Some s" "fj s = Some ev" "s \<noteq> []" "utf8_ok s" "CHR 0x0A \<notin> set s" "CHR 0x0D \<notin> set s"
    using assms by (auto simp: plain_json_def)
  let ?d = "''data: '' @ s"
  have e: "sse_record tj ev @ ys = ?d @ [CHR 0x0A, CHR 0x0A] @ ys" by (simp add: sse_record_def s(1))
  have "find_record_end (?d @ [CHR 0x0A, CHR 0x0A] @ ys) = Some (length ?d, 2)"
    by (rule record_end_plain) (use s(5,6) in simp_all)
  then show ?thesis
    unfolding e using parse_plain [of fj s ev, OF s(2-5)] by (subst drain.simps) (simp split: prod.splits)
qed

lemma drain_stream: "list_all (plain_json tj fj) es \<Longrightarrow> drain fj (concat (map (sse_record tj) es)) = (es, [])"
proof (induction es)
  case Nil
  show ?case by (simp add: drain.simps [of fj "[]"])
next
  case (Cons ev es)
  then show ?case by (simp add: drain_record)
qed

text \<open>What is left over between two reads is less than a record.\<close>

lemma prefix_of_record:
  assumes "plain_json tj fj ev" "sse_record tj ev = p @ q" "q \<noteq> []"
  shows "drain fj p = ([], p)"
proof -
  obtain s where s: "tj ev = Some s" "CHR 0x0A \<notin> set s" using assms(1) by (auto simp: plain_json_def)
  have "p @ q = (''data: '' @ s) @ [CHR 0x0A, CHR 0x0A]" using assms(2) by (simp add: sse_record_def s(1))
  then have "(\<exists>us. p @ us = ''data: '' @ s) \<or> p = (''data: '' @ s) @ [CHR 0x0A]"
    using assms(3) by (auto simp: append_eq_append_conv2 append_eq_Cons_conv)
  then obtain t zs where "p = t @ zs" "zs = [] \<or> zs = [CHR 0x0A]" "CHR 0x0A \<notin> set t"
  proof
    assume "\<exists>us. p @ us = ''data: '' @ s"
    then obtain us where "p @ us = ''data: '' @ s" by blast
    then have "set p \<subseteq> set (''data: '' @ s)" by (metis set_append sup_ge1)
    then show thesis using that [of p "[]"] s(2) by auto
  next
    assume "p = (''data: '' @ s) @ [CHR 0x0A]"
    then show thesis using that [of "''data: '' @ s" "[CHR 0x0A]"] s(2) by simp
  qed
  then have "find_record_end p = None" using no_record_end by metis
  then show ?thesis by (simp add: drain.simps [of fj p])
qed

lemma left_is_short:
  assumes "list_all (plain_json tj fj) es" "concat (map (sse_record tj) es) = p @ q"
  shows "snd (drain fj p) = [] \<or> (\<exists>ev \<in> set es. length (snd (drain fj p)) < length (sse_record tj ev))"
  using assms
proof (induction es arbitrary: p)
  case Nil
  then show ?case by (simp add: drain.simps [of fj "[]"])
next
  case (Cons ev es)
  have plain: "plain_json tj fj ev" using Cons.prems(1) by simp
  from Cons.prems(2) have eq: "sse_record tj ev @ concat (map (sse_record tj) es) = p @ q" by simp
  show ?case
  proof (cases "length p < length (sse_record tj ev)")
    case True
    then obtain q' where q': "sse_record tj ev = p @ q'" using eq by (auto simp: append_eq_append_conv2)
    then have "q' \<noteq> []" using True by auto
    then show ?thesis using prefix_of_record [OF plain q'] True by simp
  next
    case False
    then obtain p' where p': "p = sse_record tj ev @ p'" using eq by (auto simp: append_eq_append_conv2)
    then have "concat (map (sse_record tj) es) = p' @ q" using eq by simp
    from Cons.IH [OF _ this] Cons.prems(1) show ?thesis
      by (auto simp: p' drain_record [OF plain] split: prod.splits)
  qed
qed

lemma read_chunks:
  assumes "list_all (plain_json tj fj) es"
    and "concat (map (sse_record tj) es) = concat chunks @ q"
    and "\<forall>c \<in> set chunks. \<forall>ev \<in> set es. length (sse_record tj ev) + length c \<le> MAX_SSE_RECORD"
  shows "fold (read_chunk fj) chunks sse_start
    = \<lparr>sse_buf = snd (drain fj (concat chunks)), sse_sent = fst (drain fj (concat chunks)), sse_broken = False\<rparr>"
  using assms(2,3)
proof (induction chunks arbitrary: q rule: rev_induct)
  case Nil
  show ?case by (simp add: sse_start_def drain.simps [of fj "[]"])
next
  case (snoc c cs)
  let ?P = "concat cs"
  have before: "concat (map (sse_record tj) es) = ?P @ (c @ q)" using snoc.prems(1) by simp
  have small: "length (snd (drain fj ?P) @ c) \<le> MAX_SSE_RECORD"
    using left_is_short [OF assms(1) before]
  proof
    assume l: "snd (drain fj ?P) = []"
    show ?thesis
    proof (cases es)
      case Nil
      then show ?thesis using l snoc.prems(1) by simp
    next
      case (Cons ev rest)
      then have "length (sse_record tj ev) + length c \<le> MAX_SSE_RECORD" using snoc.prems(2) by simp
      then show ?thesis using l by simp
    qed
  next
    assume "\<exists>ev \<in> set es. length (snd (drain fj ?P)) < length (sse_record tj ev)"
    then show ?thesis using snoc.prems(2) by fastforce
  qed
  show ?case
    using snoc.IH [OF before] snoc.prems(2) small
    by (simp add: read_chunk_def Let_def drain_append [of fj ?P c] split: prod.splits)
qed

section \<open>What is pushed is what the client knows\<close>

definition snapshots :: "('d, 's) push list \<Rightarrow> ws_summary list list" where
  "snapshots es = List.map_filter (\<lambda>e. case e of PWorkspaces ws \<Rightarrow> Some ws | _ \<Rightarrow> None) es"

definition noted :: "('d, 's) push list \<Rightarrow> notification list" where
  "noted es = List.map_filter (\<lambda>e. case e of PNotification n \<Rightarrow> Some n | _ \<Rightarrow> None) es"

text \<open>What leaves the detail of a workspace as it is: other workspaces, and lists it is in.\<close>

definition spares :: "session_id \<Rightarrow> ('d, 's) push \<Rightarrow> bool" where
  "spares i e = (case e of PDetail j _ \<Rightarrow> j \<noteq> i | PWorkspaces ws \<Rightarrow> i \<in> set (map su_id ws) | _ \<Rightarrow> True)"

lemma apply_tabs: "cs_tabs (fold apply_push es s) = last (cs_tabs s # snapshots es)"
proof (induction es arbitrary: s)
  case (Cons e es)
  then show ?case by (cases e) (simp_all add: snapshots_def List.map_filter_simps)
qed (simp add: snapshots_def List.map_filter_simps)

lemma apply_notes:
  "cs_notifications s = take_last NOTIFICATION_CAP old \<Longrightarrow>
    cs_notifications (fold apply_push es s) = take_last NOTIFICATION_CAP (old @ noted es)"
proof (induction es arbitrary: s old)
  case (Cons e es)
  show ?case
  proof (cases e)
    case (PNotification n)
    have "cs_notifications (apply_push e s) = take_last NOTIFICATION_CAP (old @ [n])"
      using Cons.prems by (simp add: PNotification take_last_take_last)
    from Cons.IH [OF this] show ?thesis by (simp add: PNotification noted_def List.map_filter_simps)
  qed (use Cons in \<open>simp_all add: noted_def List.map_filter_simps\<close>)
qed (simp add: noted_def List.map_filter_simps)

lemma apply_spares: "list_all (spares i) es \<Longrightarrow> cs_detail (fold apply_push es s) i = cs_detail s i"
proof (induction es arbitrary: s)
  case (Cons e es)
  then have "cs_detail (apply_push e s) i = cs_detail s i" by (cases e) (auto simp: spares_def)
  then show ?case using Cons by simp
qed simp

text \<open>
  C20. What a daemon pushes is what its client knows, however the connection cuts the bytes. Every event
  arrives once and in order as long as a record and a read together fit the reader's bound; the tabs are
  then the last list, the notifications the last sixty-four, and a workspace has the detail that was
  last pushed for it if every later list still has it.
\<close>

theorem pushes_reach_the_client:
  assumes "list_all (plain_json tj fj) es" "concat chunks = concat (map (sse_record tj) es)"
    and "\<forall>c \<in> set chunks. \<forall>ev \<in> set es. length (sse_record tj ev) + length c \<le> MAX_SSE_RECORD"
    and "es = before @ PDetail i d # after" "list_all (spares i) after"
    and "read = fold (read_chunk fj) chunks sse_start" "known = fold next_event (map Api (sse_sent read)) s"
    and "cs_notifications s = []"
  shows "read = \<lparr>sse_buf = [], sse_sent = es, sse_broken = False\<rparr>
      \<and> cs_tabs known = last (cs_tabs s # snapshots es)
      \<and> cs_notifications known = take_last NOTIFICATION_CAP (noted es)
      \<and> cs_detail known i = Some d"
proof -
  have read: "read = \<lparr>sse_buf = [], sse_sent = es, sse_broken = False\<rparr>"
    using read_chunks [OF assms(1) _ assms(3), of "[]"] assms(2) drain_stream [OF assms(1)] by (simp add: assms(6))
  have "fold next_event (map Api xs) s = fold apply_push xs s" for xs by (induction xs arbitrary: s) simp_all
  then have known: "known = fold apply_push es s" by (simp add: assms(7) read)
  have "cs_detail known i = Some d"
    using apply_spares [OF assms(5)] by (simp add: known assms(4))
  then show ?thesis
    using read apply_tabs [of es s] apply_notes [of s "[]" es] assms(8) by (simp add: known)
qed

text \<open>A stream of two events, cut inside the first separator.\<close>

definition tiny_json :: "(nat, nat) push \<Rightarrow> string option" where
  "tiny_json e = (case e of PDetail i d \<Rightarrow> if i = 1 \<and> d = 5 then Some ''D'' else None | PSystem n \<Rightarrow> if n = 3 then Some ''S'' else None | _ \<Rightarrow> None)"

definition tiny_read :: "string \<Rightarrow> (nat, nat) push option" where
  "tiny_read s = (if s = ''D'' then Some (PDetail 1 5) else if s = ''S'' then Some (PSystem 3) else None)"

definition unknown :: "(nat, nat) client_state" where
  "unknown = \<lparr>cs_tabs = [], cs_detail = Map.empty, cs_system = 0, cs_notifications = [], cs_git_op = None, cs_connected = False\<rparr>"

theorem pushes_reach_the_client_witness:
  "cs_detail (fold next_event (map Api (sse_sent (fold (read_chunk tiny_read)
      [''data: D'' @ [CHR 0x0A], CHR 0x0A # ''data: '', ''S'' @ [CHR 0x0A, CHR 0x0A]] sse_start))) unknown) 1 = Some 5"
proof -
  let ?chunks = "[''data: D'' @ [CHR 0x0A], CHR 0x0A # ''data: '', ''S'' @ [CHR 0x0A, CHR 0x0A]]"
  let ?es = "[PDetail 1 5, PSystem 3] :: (nat, nat) push list"
  have "list_all (plain_json tiny_json tiny_read) ?es"
    by (simp add: plain_json_def tiny_json_def tiny_read_def byte_in_def)
  moreover have "concat ?chunks = concat (map (sse_record tiny_json) ?es)"
    by (simp add: sse_record_def tiny_json_def)
  moreover have "\<forall>c \<in> set ?chunks. \<forall>ev \<in> set ?es. length (sse_record tiny_json ev) + length c \<le> MAX_SSE_RECORD"
    by (simp add: sse_record_def tiny_json_def MAX_SSE_RECORD_def)
  ultimately show ?thesis
    using pushes_reach_the_client [of tiny_json tiny_read ?es ?chunks "[]" 1 5 "[PSystem 3]", OF _ _ _ _ _ refl refl]
    by (simp add: spares_def unknown_def)
qed

end
