(* ===== verification/Fleet.thy ===== *)
theory Fleet
  imports Protocol
begin

text \<open>
  The machines of one client (\<open>butai-client/src/workbench.rs\<close>): the daemons it is connected to with their
  badges and sockets, the dials in flight, the links that dropped and when they are tried again, and the
  tabs over all of them. Connecting and ssh are parameters of the steps: whether a daemon answers, whether
  a child is alive and what the clock says. Times are milliseconds.
\<close>

section \<open>State\<close>

record daemon =
  da_socket :: path
  da_tabs :: "session_id list"

record dial_meta =
  dm_label :: string
  dm_remember :: bool
  dm_reconnect :: bool
  dm_args :: "string list"
  dm_socket_path :: "path option"

record dial_spec =
  ds_target :: string
  ds_args :: "string list"
  ds_socket_path :: "path option"

record downed =
  dn_losses :: nat
  dn_backoff :: nat
  dn_next_try :: "nat option"

record endpoint =
  ep_host :: "string option"
  ep_socket :: path

record remote_dial =
  rd_target :: string
  rd_label :: string
  rd_args :: "string list"
  rd_socket_path :: "path option"

text \<open>
  The locals of \<open>run\<close> that are about machines; \<open>fl_started\<close> is the log of the dials that were begun and
  \<open>fl_remembered\<close> that of the \<open>[[remote]]\<close> blocks that were written.
\<close>

record fleet =
  fl_daemons :: "daemon list"
  fl_hosts :: "string option list"
  fl_sockets :: "path list"
  fl_forwards :: "path list"
  fl_dialling :: "string list"
  fl_meta :: "string \<rightharpoonup> dial_meta"
  fl_specs :: "string \<rightharpoonup> dial_spec"
  fl_downed :: "string \<rightharpoonup> downed"
  fl_tab :: nat
  fl_browse :: "nat option"
  fl_started :: "string list"
  fl_remembered :: "string list"

section \<open>Tabs\<close>

fun tabs_from :: "nat \<Rightarrow> daemon list \<Rightarrow> (nat \<times> nat) list" where
  "tabs_from d [] = []"
| "tabs_from d (dm # ds) = map (Pair d) [0..<length (da_tabs dm)] @ tabs_from (Suc d) ds"

definition tab_index :: "fleet \<Rightarrow> (nat \<times> nat) list" where
  "tab_index f = tabs_from 0 (fl_daemons f)"

definition tab_at :: "fleet \<Rightarrow> (nat \<times> nat) option" where
  "tab_at f = (if fl_tab f < length (tab_index f) then Some (tab_index f ! fl_tab f) else None)"

definition active_ws_key :: "fleet \<Rightarrow> (nat \<times> session_id) option" where
  "active_ws_key f = map_option (\<lambda>(d, t). (d, da_tabs (fl_daemons f ! d) ! t)) (tab_at f)"

definition active_daemon :: "fleet \<Rightarrow> nat" where
  "active_daemon f = (case tab_at f of Some (d, _) \<Rightarrow> d | None \<Rightarrow> 0)"

definition active_host :: "fleet \<Rightarrow> string option" where
  "active_host f = (if active_daemon f < length (fl_hosts f) then fl_hosts f ! active_daemon f else None)"

section \<open>Dials\<close>

definition badges :: "fleet \<Rightarrow> string list" where
  "badges f = List.map_filter id (fl_hosts f)"

definition should_dial :: "string \<Rightarrow> fleet \<Rightarrow> bool" where
  "should_dial target f \<longleftrightarrow> target \<notin> set (badges f) \<and> target \<notin> set (fl_dialling f)"

definition announcement_dials :: "string \<Rightarrow> fleet \<Rightarrow> bool \<Rightarrow> bool" where
  "announcement_dials target f auto \<longleftrightarrow> auto \<and> should_dial target f"

definition announced_target :: "string \<Rightarrow> string \<Rightarrow> string option" where
  "announced_target ssh_target hint =
     (let target = (if ssh_target = [] then hint else ssh_target) in if target = [] then None else Some target)"

definition spawn_dial :: "string \<Rightarrow> dial_meta \<Rightarrow> fleet \<Rightarrow> fleet" where
  "spawn_dial target m f =
     f\<lparr>fl_dialling := List.insert target (fl_dialling f), fl_meta := (fl_meta f)(target \<mapsto> m),
       fl_started := fl_started f @ [target]\<rparr>"

definition connect_machine :: "string \<Rightarrow> fleet \<Rightarrow> fleet" where
  "connect_machine target f =
     (if target \<in> set (badges f) then f
      else if target \<in> set (fl_dialling f) then f
      else spawn_dial target
        \<lparr>dm_label = target, dm_remember = True, dm_reconnect = False, dm_args = [], dm_socket_path = None\<rparr> f)"

definition on_announce :: "string \<Rightarrow> string \<Rightarrow> string list \<Rightarrow> path \<Rightarrow> bool \<Rightarrow> fleet \<Rightarrow> fleet" where
  "on_announce ssh_target hint args socket auto f =
     (case announced_target ssh_target hint of
        Some target \<Rightarrow>
          (if announcement_dials target f auto
           then spawn_dial target
             \<lparr>dm_label = target, dm_remember = False, dm_reconnect = False, dm_args = args, dm_socket_path = Some socket\<rparr> f
           else f)
      | None \<Rightarrow> f)"

definition dial_remote :: "remote_dial \<Rightarrow> fleet \<Rightarrow> fleet" where
  "dial_remote r f =
     (if should_dial (rd_target r) f
      then spawn_dial (rd_target r)
        \<lparr>dm_label = rd_label r, dm_remember = False, dm_reconnect = False, dm_args = rd_args r,
         dm_socket_path = rd_socket_path r\<rparr> f
      else f)"

text \<open>
  What connecting to a socket gives: nothing, a daemon that does not tell its state, or one with its tabs.
  The second ends the start of the client, the first only leaves the daemon out.
\<close>

datatype greeting = Unreachable | Unprimed | Primed "session_id list"

definition opened :: "(path \<Rightarrow> greeting) \<Rightarrow> endpoint \<Rightarrow> daemon option" where
  "opened connect e =
     (case connect (ep_socket e) of
        Primed tabs \<Rightarrow> Some \<lparr>da_socket = ep_socket e, da_tabs = tabs\<rparr>
      | _ \<Rightarrow> None)"

definition start_fleet :: "(path \<Rightarrow> greeting) \<Rightarrow> endpoint list \<Rightarrow> remote_dial list \<Rightarrow> fleet option" where
  "start_fleet connect eps remotes =
     (let daemons = List.map_filter (opened connect) eps
      in if (\<exists>e \<in> set eps. connect (ep_socket e) = Unprimed) \<or> daemons = [] then None
         else Some (fold dial_remote remotes
           \<lparr>fl_daemons = daemons, fl_hosts = map ep_host eps, fl_sockets = map ep_socket eps, fl_forwards = [],
            fl_dialling = [], fl_meta = Map.empty, fl_specs = Map.empty, fl_downed = Map.empty, fl_tab = 0,
            fl_browse = None, fl_started = [], fl_remembered = []\<rparr>))"

section \<open>Leaving\<close>

text \<open>
  \<open>Vec::remove\<close> past the end of a list panics; here it leaves the list. The lists the client keeps stay of
  one length (below), unless a daemon did not answer when it started.
\<close>

definition index_after_removal :: "nat option \<Rightarrow> nat \<Rightarrow> nat option" where
  "index_after_removal held removed =
     (case held of
        Some b \<Rightarrow> if b = removed then None else if removed < b then Some (b - 1) else Some b
      | None \<Rightarrow> None)"

definition disconnect_daemon :: "nat \<Rightarrow> fleet \<Rightarrow> (string + string) \<times> fleet" where
  "disconnect_daemon d f =
     (case if d < length (fl_hosts f) then fl_hosts f ! d else None of
        None \<Rightarrow> (Inl ''this machine is not a link to drop'', f)
      | Some host \<Rightarrow>
          if d \<ge> length (fl_sockets f) then (Inl ''no socket for that machine'', f)
          else let socket = fl_sockets f ! d; kept = filter (\<lambda>s. s \<noteq> socket) (fl_forwards f)
            in if length kept = length (fl_forwards f) then (Inl (host @ '' is not one we dialled''), f)
               else (Inr host, f\<lparr>fl_forwards := kept, fl_daemons := remove_nth d (fl_daemons f),
                   fl_hosts := remove_nth d (fl_hosts f), fl_sockets := remove_nth d (fl_sockets f),
                   fl_browse := index_after_removal (fl_browse f) d, fl_tab := 0\<rparr>))"

definition disconnect_host :: "string \<Rightarrow> fleet \<Rightarrow> (string + string) \<times> fleet" where
  "disconnect_host host f =
     (case position (\<lambda>h. h = Some host) (fl_hosts f) of
        Some d \<Rightarrow> disconnect_daemon d f
      | None \<Rightarrow> (Inl (host @ '' is not connected''), f))"

section \<open>Links that drop\<close>

definition REDIAL_MIN :: nat where "REDIAL_MIN = 5000"
definition REDIAL_MAX :: nat where "REDIAL_MAX = 300000"
definition LOSSES_BEFORE_REDIAL :: nat where "LOSSES_BEFORE_REDIAL = 2"

definition not_downed :: downed where
  "not_downed = \<lparr>dn_losses = 0, dn_backoff = 0, dn_next_try = None\<rparr>"

text \<open>The entry of one machine, and whether to try it now.\<close>

definition redial_due :: "bool \<Rightarrow> nat \<Rightarrow> downed \<Rightarrow> bool \<times> downed" where
  "redial_due forward_alive now d =
     (let d = d\<lparr>dn_losses := dn_losses d + 1\<rparr>
      in if forward_alive \<and> dn_losses d < LOSSES_BEFORE_REDIAL then (False, d)
         else if (case dn_next_try d of Some t \<Rightarrow> now < t | None \<Rightarrow> False) then (False, d)
         else let b = (if dn_backoff d = 0 then REDIAL_MIN else min (dn_backoff d * 2) REDIAL_MAX)
           in (True, d\<lparr>dn_backoff := b, dn_next_try := Some (now + b)\<rparr>))"

definition or_default :: "downed option \<Rightarrow> downed" where
  "or_default d = (case d of Some x \<Rightarrow> x | None \<Rightarrow> not_downed)"

definition redial_lost :: "nat \<Rightarrow> (path \<Rightarrow> bool) \<Rightarrow> nat \<Rightarrow> fleet \<Rightarrow> fleet" where
  "redial_lost d is_alive now f =
     (case if d < length (fl_hosts f) then fl_hosts f ! d else None of
        None \<Rightarrow> f
      | Some host \<Rightarrow>
          (case fl_specs f host of
             None \<Rightarrow> f
           | Some spec \<Rightarrow>
               if ds_target spec \<in> set (fl_dialling f) then f
               else if d \<ge> length (fl_sockets f) then f
               else let socket = fl_sockets f ! d;
                        alive = (socket \<in> set (fl_forwards f) \<and> is_alive socket);
                        (due, entry) = redial_due alive now (or_default (fl_downed f host));
                        f = f\<lparr>fl_downed := (fl_downed f)(host \<mapsto> entry)\<rparr>
                 in if \<not> due then f
                    else spawn_dial (ds_target spec)
                      \<lparr>dm_label = host, dm_remember = False, dm_reconnect = True, dm_args = ds_args spec,
                       dm_socket_path = ds_socket_path spec\<rparr>
                      (f\<lparr>fl_forwards := filter (\<lambda>s. s \<noteq> socket) (fl_forwards f)\<rparr>)))"

definition on_connected :: "nat \<Rightarrow> fleet \<Rightarrow> fleet" where
  "on_connected d f =
     (case if d < length (fl_hosts f) then fl_hosts f ! d else None of
        Some host \<Rightarrow> f\<lparr>fl_downed := (fl_downed f)(host := None)\<rparr>
      | None \<Rightarrow> f)"

text \<open>
  A dial that ends: with no forward, with one behind which no daemon answers, or with a daemon and its
  tabs.
\<close>

datatype landing = DialFailed | Silent path | Answered path "session_id list"

definition adopt :: "string \<Rightarrow> dial_meta \<Rightarrow> path \<Rightarrow> session_id list \<Rightarrow> fleet \<Rightarrow> fleet" where
  "adopt target m socket tabs f =
     (let slot = (if dm_reconnect m then position (\<lambda>h. h = Some (dm_label m)) (fl_hosts f) else None);
          f = f\<lparr>fl_remembered := fl_remembered f @ (if dm_remember m then [target] else []),
                fl_specs := (fl_specs f)(dm_label m \<mapsto>
                  \<lparr>ds_target = target, ds_args = dm_args m, ds_socket_path = dm_socket_path m\<rparr>),
                fl_downed := (fl_downed f)(dm_label m := None)\<rparr>;
          d = \<lparr>da_socket = socket, da_tabs = tabs\<rparr>
      in (case slot of
            Some i \<Rightarrow> f\<lparr>fl_daemons := (fl_daemons f)[i := d], fl_sockets := (fl_sockets f)[i := socket]\<rparr>
          | None \<Rightarrow> f\<lparr>fl_daemons := fl_daemons f @ [d], fl_hosts := fl_hosts f @ [Some (dm_label m)],
                     fl_sockets := fl_sockets f @ [socket]\<rparr>))"

definition on_landed :: "string \<Rightarrow> landing \<Rightarrow> fleet \<Rightarrow> fleet" where
  "on_landed target l f =
     (let m = (case fl_meta f target of
             Some m \<Rightarrow> m
           | None \<Rightarrow> \<lparr>dm_label = target, dm_remember = False, dm_reconnect = False, dm_args = [], dm_socket_path = None\<rparr>);
          f = f\<lparr>fl_dialling := removeAll target (fl_dialling f), fl_meta := (fl_meta f)(target := None)\<rparr>
      in case l of
           DialFailed \<Rightarrow> f
         | Silent socket \<Rightarrow> f\<lparr>fl_forwards := fl_forwards f @ [socket]\<rparr>
         | Answered socket tabs \<Rightarrow> adopt target m socket tabs (f\<lparr>fl_forwards := fl_forwards f @ [socket]\<rparr>))"

text \<open>A pushed list of workspaces, of the daemon at \<open>d\<close>.\<close>

definition on_tabs :: "nat \<Rightarrow> session_id list \<Rightarrow> fleet \<Rightarrow> fleet" where
  "on_tabs d tabs f =
     (if d < length (fl_daemons f) then f\<lparr>fl_daemons := (fl_daemons f)[d := (fl_daemons f ! d)\<lparr>da_tabs := tabs\<rparr>]\<rparr> else f)"

section \<open>What can happen\<close>

inductive fleet_step :: "fleet \<Rightarrow> fleet \<Rightarrow> bool" where
  lost: "d < length (fl_daemons f) \<Longrightarrow> fleet_step f (redial_lost d is_alive now f)"
| returned: "d < length (fl_daemons f) \<Longrightarrow> fleet_step f (on_connected d f)"
| pushed: "d < length (fl_daemons f) \<Longrightarrow> fleet_step f (on_tabs d tabs f)"
| announced: "fleet_step f (on_announce ssh_target hint args socket auto f)"
| named: "fleet_step f (connect_machine target f)"
| landed: "target \<in> set (fl_dialling f) \<Longrightarrow> fleet_step f (on_landed target l f)"
| dropped: "fleet_step f (snd (disconnect_host host f))"
| dropped_tab: "fleet_step f (snd (disconnect_daemon d f))"
| machine: "d < length (fl_daemons f) \<Longrightarrow> fleet_step f (f\<lparr>fl_browse := Some d\<rparr>)"
| tab: "fleet_step f (f\<lparr>fl_tab := n\<rparr>)"

inductive fleet_reached :: "fleet \<Rightarrow> fleet \<Rightarrow> bool" for start where
  start: "fleet_reached start start"
| more: "fleet_reached start f \<Longrightarrow> fleet_step f g \<Longrightarrow> fleet_reached start g"

inductive_cases fleet_stepE: "fleet_step f g"

section \<open>The wait between two tries\<close>

definition wait :: "nat \<Rightarrow> nat" where "wait k = min (REDIAL_MIN * 2 ^ k) REDIAL_MAX"

lemma wait_simps: "wait 0 = REDIAL_MIN" "min (wait k * 2) REDIAL_MAX = wait (Suc k)" "0 < wait k" "wait k \<le> REDIAL_MAX"
  by (auto simp: wait_def REDIAL_MIN_def REDIAL_MAX_def)

text \<open>The times at which a machine is tried, given when its stream was lost and whether its ssh lived.\<close>

fun attempts :: "(nat \<times> bool) list \<Rightarrow> downed \<Rightarrow> nat list" where
  "attempts [] d = []"
| "attempts ((now, alive) # ls) d =
     (case redial_due alive now d of (due, d') \<Rightarrow> if due then now # attempts ls d' else attempts ls d')"

fun spaced :: "nat \<Rightarrow> nat list \<Rightarrow> bool" where
  "spaced k (a # b # ts) \<longleftrightarrow> a + wait k \<le> b \<and> spaced (Suc k) (b # ts)"
| "spaced k _ \<longleftrightarrow> True"

text \<open>Waiting since \<open>a\<close>, after \<open>k\<close> tries.\<close>

definition waiting :: "nat \<Rightarrow> nat \<Rightarrow> downed \<Rightarrow> bool" where
  "waiting a k d \<longleftrightarrow> dn_backoff d = wait k \<and> dn_next_try d = Some (a + wait k)"

lemma redial_waiting:
  assumes "waiting a k d" "redial_due alive now d = (due, d')"
  shows "due \<Longrightarrow> a + wait k \<le> now \<and> waiting now (Suc k) d'"
    "\<not> due \<Longrightarrow> waiting a k d'" "\<not> due \<Longrightarrow> \<not> alive \<Longrightarrow> now < a + wait k"
  using assms wait_simps(2,3) [of k] by (auto simp: waiting_def redial_due_def Let_def split: if_splits)

lemma spaced_attempts: "waiting a k d \<Longrightarrow> spaced k (a # attempts ls d)"
proof (induction ls arbitrary: a k d)
  case (Cons l ls)
  obtain now alive where l: "l = (now, alive)" by (cases l)
  obtain due d' where r: "redial_due alive now d = (due, d')" by (cases "redial_due alive now d")
  show ?case
    using Cons.IH redial_waiting [OF Cons.prems r] by (cases due) (simp_all add: l r)
qed simp

lemma tried_since:
  "waiting a k d \<Longrightarrow> sorted (a # map fst ls) \<Longrightarrow> (t, False) \<in> set ls \<Longrightarrow>
    \<exists>b \<in> set (a # attempts ls d). b \<le> t \<and> t \<le> b + REDIAL_MAX"
proof (induction ls arbitrary: a k d)
  case (Cons l ls)
  obtain now alive where l: "l = (now, alive)" by (cases l)
  obtain due d' where r: "redial_due alive now d = (due, d')" by (cases "redial_due alive now d")
  note w = redial_waiting [OF Cons.prems(1) r]
  show ?case
  proof (cases "l = (t, False)")
    case True
    then show ?thesis using w wait_simps(4) [of k] Cons.prems(2) l r by (cases due) auto
  next
    case False
    then have rest: "(t, False) \<in> set ls" "sorted (a # map fst ls)" "sorted (now # map fst ls)"
      using Cons.prems(2,3) l by auto
    show ?thesis
    proof (cases due)
      case True
      then show ?thesis using Cons.IH [of now "Suc k" d'] w rest by (auto simp: l r)
    next
      case False
      then show ?thesis using Cons.IH [of a k d'] w rest by (auto simp: l r)
    qed
  qed
qed simp

lemma first_try:
  assumes "redial_due alive now d = (due, d')" "dn_backoff d = 0" "dn_next_try d = None"
  shows "due \<Longrightarrow> waiting now 0 d'" "\<not> due \<Longrightarrow> alive \<and> dn_backoff d' = 0 \<and> dn_next_try d' = None"
  using assms wait_simps(1) by (auto simp: waiting_def redial_due_def Let_def split: if_splits)

lemma fresh_spaced:
  "dn_backoff d = 0 \<Longrightarrow> dn_next_try d = None \<Longrightarrow> spaced 0 (attempts ls d)"
proof (induction ls arbitrary: d)
  case (Cons l ls)
  obtain now alive where l: "l = (now, alive)" by (cases l)
  obtain due d' where r: "redial_due alive now d = (due, d')" by (cases "redial_due alive now d")
  have step: "attempts (l # ls) d = (if due then now # attempts ls d' else attempts ls d')" by (simp add: l r)
  show ?case
    using Cons.IH first_try [OF r Cons.prems] spaced_attempts [of now 0 d' ls] by (cases due) (simp_all add: step del: attempts.simps)
qed simp

lemma fresh_tried:
  "dn_backoff d = 0 \<Longrightarrow> dn_next_try d = None \<Longrightarrow> sorted (map fst ls) \<Longrightarrow> (t, False) \<in> set ls \<Longrightarrow>
    \<exists>b \<in> set (attempts ls d). b \<le> t \<and> t \<le> b + REDIAL_MAX"
proof (induction ls arbitrary: d)
  case (Cons l ls)
  obtain now alive where l: "l = (now, alive)" by (cases l)
  obtain due d' where r: "redial_due alive now d = (due, d')" by (cases "redial_due alive now d")
  have step: "attempts (l # ls) d = (if due then now # attempts ls d' else attempts ls d')" by (simp add: l r)
  note w = first_try [OF r Cons.prems(1,2)]
  show ?case
  proof (cases due)
    case True
    then have "(t, False) \<in> set ls \<Longrightarrow> ?thesis"
      using w tried_since [of now 0 d' ls t] Cons.prems(3) step by (simp add: l del: attempts.simps)
    then show ?thesis using True Cons.prems(4) step by (auto simp: l simp del: attempts.simps)
  next
    case False
    then show ?thesis using Cons.IH [of d'] w Cons.prems(3,4) step by (auto simp: l simp del: attempts.simps)
  qed
qed simp

text \<open>
  C14. A machine whose link has dropped is tried again, neither too often nor too late. Two tries are at
  least five seconds apart, the wait doubles from one to the next up to five minutes, and whenever its
  stream is lost with the ssh gone, a try was made then or at most five minutes before.
\<close>

theorem redials_back_off:
  assumes "sorted (map fst losses)" "ts = attempts losses not_downed"
  shows "(\<forall>k. Suc k < length ts \<longrightarrow> ts ! k + min (REDIAL_MIN * 2 ^ k) REDIAL_MAX \<le> ts ! Suc k)
    \<and> (\<forall>t. (t, False) \<in> set losses \<longrightarrow> (\<exists>b \<in> set ts. b \<le> t \<and> t \<le> b + REDIAL_MAX))"
proof (intro conjI allI impI)
  have "Suc i < length xs \<Longrightarrow> spaced k xs \<Longrightarrow> xs ! i + wait (k + i) \<le> xs ! Suc i" for i k and xs :: "nat list"
  proof (induction k xs arbitrary: i rule: spaced.induct)
    case (1 k a b ts)
    then show ?case by (cases i) simp_all
  qed simp_all
  from this [of _ ts 0] show "ts ! k + min (REDIAL_MIN * 2 ^ k) REDIAL_MAX \<le> ts ! Suc k" if "Suc k < length ts" for k
    using that fresh_spaced [of not_downed losses] assms by (simp add: wait_def not_downed_def)
  show "\<exists>b \<in> set ts. b \<le> t \<and> t \<le> b + REDIAL_MAX" if "(t, False) \<in> set losses" for t
    using fresh_tried [of not_downed losses t] assms that by (simp add: not_downed_def)
qed

theorem redials_back_off_witness:
  "attempts [(0, True), (1000, True), (3000, True), (6000, False), (9000, False), (16000, False)] not_downed = [1000, 6000, 16000]
    \<and> (\<exists>b \<in> {1000, 6000, 16000}. b \<le> (9000::nat) \<and> 9000 \<le> b + REDIAL_MAX)"
proof -
  let ?ls = "[(0, True), (1000, True), (3000, True), (6000, False), (9000, False), (16000, False)]"
  have a: "attempts ?ls not_downed = [1000, 6000, 16000]"
    by (simp add: redial_due_def not_downed_def REDIAL_MIN_def REDIAL_MAX_def LOSSES_BEFORE_REDIAL_def Let_def)
  show ?thesis using redials_back_off [of ?ls "[1000, 6000, 16000]"] a by (simp only: set_simps) (fastforce simp: REDIAL_MAX_def)
qed

section \<open>The lists of machines\<close>

text \<open>
  Every list about the machines has one entry per daemon, in the same order; the first is this machine,
  and no other has the badge of another. A dial that is not a reconnection is to a machine not in the bar.
\<close>

definition plain_meta :: "fleet \<Rightarrow> string \<Rightarrow> dial_meta \<Rightarrow> bool" where
  "plain_meta f target m \<longleftrightarrow> dm_label m = target \<and> (dm_reconnect m \<or> target \<notin> set (badges f))"

definition aligned :: "fleet \<Rightarrow> bool" where
  "aligned f \<longleftrightarrow> length (fl_hosts f) = length (fl_daemons f) \<and> fl_sockets f = map da_socket (fl_daemons f)
    \<and> fl_hosts f \<noteq> [] \<and> hd (fl_hosts f) = None \<and> distinct (badges f)"

definition dials_ok :: "fleet \<Rightarrow> bool" where
  "dials_ok f \<longleftrightarrow> distinct (fl_dialling f) \<and> dom (fl_meta f) = set (fl_dialling f)
    \<and> (\<forall>t m. fl_meta f t = Some m \<longrightarrow> plain_meta f t m) \<and> (\<forall>h s. fl_specs f h = Some s \<longrightarrow> ds_target s = h)"

definition browse_ok :: "fleet \<Rightarrow> bool" where
  "browse_ok f \<longleftrightarrow> (\<forall>b. fl_browse f = Some b \<longrightarrow> b < length (fl_daemons f))"

definition fleet_ok :: "fleet \<Rightarrow> bool" where "fleet_ok f \<longleftrightarrow> aligned f \<and> dials_ok f \<and> browse_ok f"

lemma set_badges: "h \<in> set (badges f) \<longleftrightarrow> Some h \<in> set (fl_hosts f)"
  by (force simp: badges_def map_filter_def)

lemma badges_of: "badges f = map the (filter (\<lambda>h. h \<noteq> None) (fl_hosts f))"
  by (simp add: badges_def map_filter_def comp_def)

lemma badges_append: "badges (f\<lparr>fl_hosts := hs @ [Some l]\<rparr>) = badges (f\<lparr>fl_hosts := hs\<rparr>) @ [l]"
  by (simp add: badges_of)

text \<open>Dials and times touch none of the lists.\<close>

lemma spawn_dial_fields [simp]:
  "fl_daemons (spawn_dial t m f) = fl_daemons f" "fl_hosts (spawn_dial t m f) = fl_hosts f"
  "fl_sockets (spawn_dial t m f) = fl_sockets f" "fl_browse (spawn_dial t m f) = fl_browse f"
  "fl_specs (spawn_dial t m f) = fl_specs f" "badges (spawn_dial t m f) = badges f"
  "fl_forwards (spawn_dial t m f) = fl_forwards f" "fl_tab (spawn_dial t m f) = fl_tab f"
  by (simp_all add: spawn_dial_def badges_of)

lemma spawn_dial_ok:
  assumes "fleet_ok f" "t \<notin> set (fl_dialling f)" "plain_meta f t m"
  shows "fleet_ok (spawn_dial t m f)"
proof -
  have "dials_ok (spawn_dial t m f)"
    using assms unfolding fleet_ok_def dials_ok_def plain_meta_def by (auto simp: spawn_dial_def badges_of List.insert_def)
  then show ?thesis using assms(1) by (simp add: fleet_ok_def aligned_def browse_ok_def)
qed

lemma connect_machine_ok: "fleet_ok f \<Longrightarrow> fleet_ok (connect_machine t f)"
  by (auto simp: connect_machine_def plain_meta_def intro!: spawn_dial_ok)

lemma on_announce_ok: "fleet_ok f \<Longrightarrow> fleet_ok (on_announce t hint args socket auto f)"
  by (auto simp: on_announce_def announcement_dials_def should_dial_def plain_meta_def intro!: spawn_dial_ok
      split: option.splits)

lemma dial_remote_ok: "fleet_ok f \<Longrightarrow> rd_label r = rd_target r \<Longrightarrow> fleet_ok (dial_remote r f)"
  by (auto simp: dial_remote_def should_dial_def plain_meta_def intro!: spawn_dial_ok)

lemma fleet_ok_frame [simp]:
  "fleet_ok (f\<lparr>fl_downed := D\<rparr>) = fleet_ok f" "fleet_ok (f\<lparr>fl_forwards := F\<rparr>) = fleet_ok f"
  "fleet_ok (f\<lparr>fl_tab := n\<rparr>) = fleet_ok f" "fleet_ok (f\<lparr>fl_remembered := R\<rparr>) = fleet_ok f"
  by (simp_all add: fleet_ok_def aligned_def dials_ok_def browse_ok_def plain_meta_def badges_of)

lemma redial_lost_ok: "fleet_ok f \<Longrightarrow> fleet_ok (redial_lost d is_alive now f)"
proof -
  assume f: "fleet_ok f"
  show ?thesis
  proof (cases "\<exists>host spec. d < length (fl_hosts f) \<and> fl_hosts f ! d = Some host \<and> fl_specs f host = Some spec")
    case True
    then obtain host spec where h: "d < length (fl_hosts f)" "fl_hosts f ! d = Some host" "fl_specs f host = Some spec" by blast
    have t: "ds_target spec = host" using f h(3) by (auto simp: fleet_ok_def dials_ok_def)
    show ?thesis
      using f h t by (auto simp: redial_lost_def Let_def plain_meta_def split: prod.splits intro!: spawn_dial_ok)
  next
    case False
    then have "redial_lost d is_alive now f = f" by (auto simp: redial_lost_def split: option.splits)
    then show ?thesis using f by simp
  qed
qed

lemma on_connected_ok: "fleet_ok f \<Longrightarrow> fleet_ok (on_connected d f)"
  by (simp add: on_connected_def split: option.splits)

lemma on_tabs_ok:
  assumes "fleet_ok f" shows "fleet_ok (on_tabs d tabs f)"
proof -
  have "(map da_socket ds)[d := da_socket (ds ! d)] = map da_socket ds" if "d < length ds" for ds
    using that by (metis length_map list_update_id nth_map)
  then have "(map da_socket (fl_daemons f))[d := da_socket (fl_daemons f ! d)] = map da_socket (fl_daemons f)"
    if "d < length (fl_daemons f)" using that by blast
  then show ?thesis
    using assms by (simp add: on_tabs_def fleet_ok_def aligned_def dials_ok_def browse_ok_def plain_meta_def badges_of map_update)
qed

lemma adopt_ok:
  assumes "aligned f" "dials_ok f" "browse_ok f" "t \<notin> set (fl_dialling f)" "plain_meta f t m"
  shows "fleet_ok (adopt t m socket tabs f)"
proof -
  let ?g = "f\<lparr>fl_remembered := fl_remembered f @ (if dm_remember m then [t] else []),
    fl_specs := (fl_specs f)(dm_label m \<mapsto> \<lparr>ds_target = t, ds_args = dm_args m, ds_socket_path = dm_socket_path m\<rparr>),
    fl_downed := (fl_downed f)(dm_label m := None)\<rparr>"
  let ?slot = "if dm_reconnect m then position (\<lambda>h. h = Some (dm_label m)) (fl_hosts f) else None"
  have l: "dm_label m = t" using assms(5) by (simp add: plain_meta_def)
  show ?thesis
  proof (cases ?slot)
    case None
    then have new: "t \<notin> set (badges f)" using assms(5) l by (auto simp: plain_meta_def set_badges split: if_splits)
    have "adopt t m socket tabs f = ?g\<lparr>fl_daemons := fl_daemons f @ [\<lparr>da_socket = socket, da_tabs = tabs\<rparr>],
        fl_hosts := fl_hosts f @ [Some t], fl_sockets := fl_sockets f @ [socket]\<rparr>"
      using None by (simp add: adopt_def Let_def l)
    then have eq: "fleet_ok (adopt t m socket tabs f) =
        fleet_ok (?g\<lparr>fl_daemons := fl_daemons f @ [\<lparr>da_socket = socket, da_tabs = tabs\<rparr>],
        fl_hosts := fl_hosts f @ [Some t], fl_sockets := fl_sockets f @ [socket]\<rparr>)" (is "_ = fleet_ok ?h") by simp
    have b: "badges ?h = badges f @ [t]" by (simp add: badges_of)
    have "plain_meta ?h x y" if "fl_meta f x = Some y" for x y
    proof -
      have "x \<in> set (fl_dialling f)" using assms(2) that by (auto simp: dials_ok_def)
      then show ?thesis using assms(2,4) that b by (auto simp: dials_ok_def plain_meta_def)
    qed
    then have "dials_ok ?h" using assms(2) l by (auto simp: dials_ok_def)
    moreover have "aligned ?h" using assms(1) new b by (simp add: aligned_def)
    moreover have "browse_ok ?h" using assms(3) by (auto simp: browse_ok_def)
    ultimately show ?thesis using eq by (simp add: fleet_ok_def)
  next
    case (Some i)
    then have "adopt t m socket tabs f = ?g\<lparr>fl_daemons := (fl_daemons f)[i := \<lparr>da_socket = socket, da_tabs = tabs\<rparr>],
        fl_sockets := (fl_sockets f)[i := socket]\<rparr>"
      by (simp add: adopt_def Let_def l split: if_splits)
    then show ?thesis
      using assms l
      by (auto simp: fleet_ok_def aligned_def dials_ok_def browse_ok_def plain_meta_def badges_of map_update split: if_splits)
  qed
qed

lemma on_landed_ok:
  assumes "fleet_ok f" "t \<in> set (fl_dialling f)"
  shows "fleet_ok (on_landed t l f)"
proof -
  have "t \<in> dom (fl_meta f)" using assms by (simp add: fleet_ok_def dials_ok_def)
  then obtain m where m: "fl_meta f t = Some m" by blast
  let ?f = "f\<lparr>fl_dialling := removeAll t (fl_dialling f), fl_meta := (fl_meta f)(t := None)\<rparr>"
  have ok: "fleet_ok ?f"
    using assms(1) by (auto simp: fleet_ok_def aligned_def dials_ok_def browse_ok_def plain_meta_def badges_of distinct_removeAll)
  have "plain_meta ?f t m" using assms(1) m by (auto simp: fleet_ok_def dials_ok_def plain_meta_def badges_of)
  then have pm: "plain_meta (?f\<lparr>fl_forwards := F\<rparr>) t m" for F by (simp add: plain_meta_def badges_of)
  show ?thesis
  proof (cases l)
    case (Answered socket tabs)
    have "fleet_ok (?f\<lparr>fl_forwards := fl_forwards f @ [socket]\<rparr>)" using ok by simp
    then have "fleet_ok (adopt t m socket tabs (?f\<lparr>fl_forwards := fl_forwards f @ [socket]\<rparr>))"
      by (intro adopt_ok pm) (simp_all add: fleet_ok_def)
    then show ?thesis by (simp add: on_landed_def m Answered Let_def)
  qed (use ok in \<open>simp_all add: on_landed_def m Let_def\<close>)
qed

section \<open>Leaving the bar\<close>

text \<open>What a disconnection does when it succeeds.\<close>

lemma disconnect_daemon_Inr:
  assumes "disconnect_daemon d f = (Inr h, g)"
  shows "d < length (fl_hosts f)" "fl_hosts f ! d = Some h" "d < length (fl_sockets f)"
    "g = f\<lparr>fl_forwards := filter (\<lambda>s. s \<noteq> fl_sockets f ! d) (fl_forwards f), fl_daemons := remove_nth d (fl_daemons f),
      fl_hosts := remove_nth d (fl_hosts f), fl_sockets := remove_nth d (fl_sockets f),
      fl_browse := index_after_removal (fl_browse f) d, fl_tab := 0\<rparr>"
    "fl_sockets f ! d \<in> set (fl_forwards f)"
proof -
  have "length (filter (\<lambda>s. s \<noteq> x) xs) \<noteq> length xs \<longleftrightarrow> x \<in> set xs" for x and xs :: "path list"
    using filter_id_conv [of "\<lambda>s. s \<noteq> x" xs] length_filter_less [of x xs "\<lambda>s. s \<noteq> x"] by (metis less_irrefl)
  then show "d < length (fl_hosts f)" "fl_hosts f ! d = Some h" "d < length (fl_sockets f)"
    "g = f\<lparr>fl_forwards := filter (\<lambda>s. s \<noteq> fl_sockets f ! d) (fl_forwards f), fl_daemons := remove_nth d (fl_daemons f),
      fl_hosts := remove_nth d (fl_hosts f), fl_sockets := remove_nth d (fl_sockets f),
      fl_browse := index_after_removal (fl_browse f) d, fl_tab := 0\<rparr>"
    "fl_sockets f ! d \<in> set (fl_forwards f)"
    using assms by (auto simp: disconnect_daemon_def Let_def split: if_splits option.splits)
qed

lemma disconnect_daemon_Inl: "disconnect_daemon d f = (Inl e, g) \<Longrightarrow> g = f"
  by (auto simp: disconnect_daemon_def Let_def split: if_splits option.splits)

lemma remove_nth_distinct:
  "distinct (map the (filter (\<lambda>h. h \<noteq> None) hs)) \<Longrightarrow> distinct (map the (filter (\<lambda>h. h \<noteq> None) (remove_nth d hs)))"
proof -
  assume a: "distinct (map the (filter (\<lambda>h. h \<noteq> None) hs))"
  have "hs = take d hs @ drop d hs" by simp
  moreover have "drop d hs = [] \<or> drop d hs = hs ! d # drop (Suc d) hs" by (metis Cons_nth_drop_Suc drop_eq_Nil not_less)
  ultimately consider "drop d hs = []" "take d hs = hs" "drop (Suc d) hs = []" | "hs = take d hs @ hs ! d # drop (Suc d) hs"
    by (metis append_Nil2 drop_eq_Nil le_SucI)
  then show ?thesis
  proof cases
    case 2
    have "distinct (map the (filter (\<lambda>h. h \<noteq> None) (take d hs @ hs ! d # drop (Suc d) hs)))" using a 2 by metis
    then show ?thesis by (auto simp: remove_nth_def split: if_splits)
  qed (use a in \<open>simp add: remove_nth_def\<close>)
qed

lemma remove_nth_map: "remove_nth d (map g xs) = map g (remove_nth d xs)"
  by (simp add: remove_nth_def take_map drop_map)

lemma disconnect_daemon_ok:
  assumes "fleet_ok f" "disconnect_daemon d f = (r, g)"
  shows "fleet_ok g"
proof (cases r)
  case (Inr h)
  note D = disconnect_daemon_Inr [OF assms(2) [unfolded Inr]]
  have d: "d \<noteq> 0" using D(1,2) assms(1) by (cases d) (auto simp: fleet_ok_def aligned_def hd_conv_nth)
  have "fl_hosts f \<noteq> []" using assms(1) by (simp add: fleet_ok_def aligned_def)
  then have hd: "hd (remove_nth d (fl_hosts f)) = hd (fl_hosts f)" "remove_nth d (fl_hosts f) \<noteq> []"
    using d by (cases d; cases "fl_hosts f"; simp)+
  have "set (remove_nth d xs) \<subseteq> set xs" for xs :: "string option list"
    by (auto simp: remove_nth_def dest: in_set_takeD in_set_dropD)
  then have "plain_meta f x y \<Longrightarrow> plain_meta g x y" for x y
    by (auto simp: plain_meta_def set_badges D(4))
  then have "dials_ok g" using assms(1) by (auto simp: fleet_ok_def dials_ok_def D(4))
  moreover have "aligned g"
    using assms(1) D(1) hd remove_nth_distinct [of "fl_hosts f" d]
    by (simp add: fleet_ok_def aligned_def D(4) badges_of remove_nth_map)
  moreover have "browse_ok g"
    using assms(1) D(1) by (auto simp: fleet_ok_def browse_ok_def aligned_def D(4) index_after_removal_def split: option.splits if_splits)
  ultimately show ?thesis by (simp add: fleet_ok_def)
qed (use assms disconnect_daemon_Inl in blast)

lemma disconnect_host_ok: "fleet_ok f \<Longrightarrow> fleet_ok (snd (disconnect_host h f))"
  by (auto simp: disconnect_host_def intro: disconnect_daemon_ok [OF _ surjective_pairing] split: option.splits)

section \<open>From start to end\<close>

lemma fleet_step_ok: "fleet_step f g \<Longrightarrow> fleet_ok f \<Longrightarrow> fleet_ok g"
proof (induction rule: fleet_step.induct)
  case (dropped_tab d f)
  then show ?case using disconnect_daemon_ok by (metis prod.collapse)
next
  case (machine d f)
  then show ?case by (auto simp: fleet_ok_def aligned_def dials_ok_def browse_ok_def plain_meta_def badges_of)
qed (simp_all add: redial_lost_ok on_connected_ok on_tabs_ok on_announce_ok connect_machine_ok on_landed_ok disconnect_host_ok)

lemma fleet_reached_ok: "fleet_reached start f \<Longrightarrow> fleet_ok start \<Longrightarrow> fleet_ok f"
  by (induction rule: fleet_reached.induct) (auto intro: fleet_step_ok)

lemma dial_remotes_ok: "fleet_ok f \<Longrightarrow> \<forall>r \<in> set rs. rd_label r = rd_target r \<Longrightarrow> fleet_ok (fold dial_remote rs f)"
  by (induction rs arbitrary: f) (auto intro: dial_remote_ok)

lemma start_fleet_ok:
  assumes "start_fleet connect eps remotes = Some f" "\<forall>e \<in> set eps. connect (ep_socket e) \<noteq> Unreachable"
    "ep_host (hd eps) = None" "distinct (List.map_filter ep_host eps)" "\<forall>r \<in> set remotes. rd_label r = rd_target r"
  shows "fleet_ok f"
proof -
  have all: "\<forall>e \<in> set eps. \<exists>tabs. connect (ep_socket e) = Primed tabs"
    using assms(1,2) by (auto simp: start_fleet_def Let_def split: if_splits) (metis greeting.exhaust)
  have ne: "eps \<noteq> []" using assms(1) by (auto simp: start_fleet_def map_filter_simps)
  define ds where "ds = List.map_filter (opened connect) eps"
  have "ds = map (the \<circ> opened connect) eps" using all unfolding ds_def
    by (induction eps) (auto simp: map_filter_simps opened_def)
  then have ds: "length ds = length eps" "map da_socket ds = map ep_socket eps"
    using all by (auto simp: opened_def)
  have "List.map_filter id (map ep_host eps) = List.map_filter ep_host eps"
    by (induction eps) (auto simp: map_filter_simps split: option.splits)
  then have "fleet_ok \<lparr>fl_daemons = ds, fl_hosts = map ep_host eps, fl_sockets = map ep_socket eps, fl_forwards = [],
      fl_dialling = [], fl_meta = Map.empty, fl_specs = Map.empty, fl_downed = Map.empty, fl_tab = 0,
      fl_browse = None, fl_started = [], fl_remembered = []\<rparr>"
    using ds ne assms(3,4) by (simp add: fleet_ok_def aligned_def dials_ok_def browse_ok_def badges_def hd_map)
  from dial_remotes_ok [OF this assms(5)] show ?thesis
    using assms(1) by (auto simp: start_fleet_def Let_def ds_def split: if_splits)
qed

lemma tabs_from_in: "(d, t) \<in> set (tabs_from k ds) \<Longrightarrow> k \<le> d \<and> d < k + length ds \<and> t < length (da_tabs (ds ! (d - k)))"
proof (induction k ds rule: tabs_from.induct)
  case (2 k dm ds)
  then show ?case by (auto simp: nth_Cons' Suc_diff_le diff_Suc split: nat.splits)
qed simp

text \<open>The machine with a badge: its daemon and the socket it is reached through.\<close>

definition machine_of :: "string \<Rightarrow> fleet \<Rightarrow> (daemon \<times> path) option" where
  "machine_of h f = map_option (\<lambda>i. (fl_daemons f ! i, fl_sockets f ! i)) (position (\<lambda>x. x = Some h) (fl_hosts f))"

definition browsed :: "fleet \<Rightarrow> string option option" where
  "browsed f = map_option (\<lambda>b. fl_hosts f ! b) (fl_browse f)"

text \<open>Whatever the start was, the badges go with the sockets and no daemon is without them.\<close>

definition in_bounds :: "fleet \<Rightarrow> bool" where
  "in_bounds f \<longleftrightarrow> length (fl_hosts f) = length (fl_sockets f) \<and> length (fl_daemons f) \<le> length (fl_hosts f) \<and> browse_ok f"

lemma in_bounds_frame [simp]:
  "in_bounds (spawn_dial t m f) = in_bounds f" "in_bounds (f\<lparr>fl_downed := D\<rparr>) = in_bounds f"
  "in_bounds (f\<lparr>fl_forwards := F\<rparr>) = in_bounds f" "in_bounds (f\<lparr>fl_tab := n\<rparr>) = in_bounds f"
  "in_bounds (f\<lparr>fl_dialling := L\<rparr>) = in_bounds f" "in_bounds (f\<lparr>fl_meta := M\<rparr>) = in_bounds f"
  by (simp_all add: in_bounds_def browse_ok_def)

lemma adopt_bounds: "in_bounds f \<Longrightarrow> in_bounds (adopt t m socket tabs f)"
  by (auto simp: adopt_def in_bounds_def browse_ok_def Let_def split: option.splits)

lemma disconnect_bounds:
  assumes "in_bounds f" "disconnect_daemon d f = (r, g)"
  shows "in_bounds g"
proof (cases r)
  case (Inr h)
  note D = disconnect_daemon_Inr [OF assms(2) [unfolded Inr]]
  show ?thesis
    using assms(1) D(1,3)
    by (auto simp: in_bounds_def browse_ok_def D(4) index_after_removal_def remove_nth_def split: option.splits if_splits)
qed (use assms disconnect_daemon_Inl in blast)

lemma fleet_step_bounds: "fleet_step f g \<Longrightarrow> in_bounds f \<Longrightarrow> in_bounds g"
proof (induction rule: fleet_step.induct)
  case (dropped host f)
  then show ?case
    by (auto simp: disconnect_host_def intro: disconnect_bounds [OF _ surjective_pairing] split: option.splits)
next
  case (dropped_tab d f)
  then show ?case using disconnect_bounds by (metis prod.collapse)
next
  case (landed target f l)
  then show ?case by (cases l) (simp_all add: on_landed_def adopt_bounds Let_def)
next
  case (lost d f is_alive now)
  then show ?case by (simp add: redial_lost_def Let_def split: option.split prod.split)
next
  case (announced f ssh_target hint args socket auto)
  then show ?case by (simp add: on_announce_def split: option.split)
qed (auto simp: on_connected_def on_tabs_def connect_machine_def in_bounds_def browse_ok_def split: option.splits)

lemma start_bounds: "start_fleet connect eps remotes = Some f \<Longrightarrow> in_bounds f"
proof -
  have r: "in_bounds (fold dial_remote rs f) = in_bounds f" for rs and f :: fleet
    by (induction rs arbitrary: f) (simp_all add: dial_remote_def)
  have "length (List.map_filter h xs) \<le> length xs" for h :: "endpoint \<Rightarrow> daemon option" and xs
    by (simp add: map_filter_def)
  then show "start_fleet connect eps remotes = Some f \<Longrightarrow> in_bounds f"
    by (auto simp: start_fleet_def Let_def r split: if_splits) (simp add: in_bounds_def browse_ok_def)
qed

lemma fleet_reached_bounds: "fleet_reached start f \<Longrightarrow> in_bounds start \<Longrightarrow> in_bounds f"
  by (induction rule: fleet_reached.induct) (auto intro: fleet_step_bounds)

lemma tab_at_in: "tab_at f = Some (d, t) \<Longrightarrow> d < length (fl_daemons f) \<and> t < length (da_tabs (fl_daemons f ! d))"
proof -
  assume "tab_at f = Some (d, t)"
  then have "(d, t) \<in> set (tab_index f)" by (auto simp: tab_at_def split: if_splits) (metis nth_mem)
  then show ?thesis using tabs_from_in [of d t 0 "fl_daemons f"] by (simp add: tab_index_def)
qed

text \<open>
  C11. Whatever drops, returns, is announced, named, disconnected or lands, in whatever order, there is one
  badge per socket, no daemon is without them, the machine new workspaces open on is one of the daemons,
  and the tab shown has a machine and a workspace. When besides every daemon of the start answered, this
  machine was the first of them, no badge came twice and no remembered machine has a name of its own, the
  lists stay in step: one badge and one socket per daemon, in the same order, this machine first and no
  badge twice, and the machine shown is the one of the tab. The lemmas below show what happens otherwise.
\<close>

theorem fleet_stays_aligned:
  assumes "start_fleet connect eps remotes = Some start" "fleet_reached start f"
  shows "length (fl_hosts f) = length (fl_sockets f) \<and> length (fl_daemons f) \<le> length (fl_hosts f)
    \<and> (\<forall>b. fl_browse f = Some b \<longrightarrow> b < length (fl_daemons f))
    \<and> (\<forall>d t. tab_at f = Some (d, t) \<longrightarrow> d < length (fl_daemons f) \<and> t < length (da_tabs (fl_daemons f ! d)))
    \<and> ((\<forall>e \<in> set eps. connect (ep_socket e) \<noteq> Unreachable) \<and> ep_host (hd eps) = None
        \<and> distinct (List.map_filter ep_host eps) \<and> (\<forall>r \<in> set remotes. rd_label r = rd_target r) \<longrightarrow>
      length (fl_hosts f) = length (fl_daemons f) \<and> fl_sockets f = map da_socket (fl_daemons f)
      \<and> fl_daemons f \<noteq> [] \<and> fl_hosts f ! 0 = None \<and> distinct (List.map_filter id (fl_hosts f))
      \<and> active_daemon f < length (fl_daemons f)
      \<and> (\<forall>d t. tab_at f = Some (d, t) \<longrightarrow> active_host f = fl_hosts f ! d))"
proof (intro conjI impI)
  have b: "in_bounds f" by (rule fleet_reached_bounds [OF assms(2) start_bounds [OF assms(1)]])
  then show "length (fl_hosts f) = length (fl_sockets f)" "length (fl_daemons f) \<le> length (fl_hosts f)"
    "\<forall>b. fl_browse f = Some b \<longrightarrow> b < length (fl_daemons f)"
    by (simp_all add: in_bounds_def browse_ok_def)
  show "\<forall>d t. tab_at f = Some (d, t) \<longrightarrow> d < length (fl_daemons f) \<and> t < length (da_tabs (fl_daemons f ! d))"
    using tab_at_in by blast
next
  assume "(\<forall>e \<in> set eps. connect (ep_socket e) \<noteq> Unreachable) \<and> ep_host (hd eps) = None
        \<and> distinct (List.map_filter ep_host eps) \<and> (\<forall>r \<in> set remotes. rd_label r = rd_target r)"
  then have ok: "fleet_ok f" using fleet_reached_ok start_fleet_ok assms by blast
  then have len: "length (fl_hosts f) = length (fl_daemons f)" "fl_daemons f \<noteq> []" by (auto simp: fleet_ok_def aligned_def)
  show act: "active_daemon f < length (fl_daemons f)"
    using tab_at_in len by (auto simp: active_daemon_def split: option.splits)
  show "\<forall>d t. tab_at f = Some (d, t) \<longrightarrow> active_host f = fl_hosts f ! d"
    using act len by (auto simp: active_host_def active_daemon_def)
  show "length (fl_hosts f) = length (fl_daemons f)" "fl_sockets f = map da_socket (fl_daemons f)" "fl_daemons f \<noteq> []"
    "fl_hosts f ! 0 = None" "distinct (List.map_filter id (fl_hosts f))"
    using ok len by (auto simp: fleet_ok_def aligned_def hd_conv_nth badges_def)
qed

text \<open>Three machines: this one, one whose socket somebody else forwarded, and a remembered one.\<close>

definition sample_start :: fleet where
  "sample_start =
     \<lparr>fl_daemons = [\<lparr>da_socket = ''here'', da_tabs = [1]\<rparr>, \<lparr>da_socket = ''theirs'', da_tabs = [1, 2]\<rparr>],
      fl_hosts = [None, Some ''lab''], fl_sockets = [''here'', ''theirs''], fl_forwards = [],
      fl_dialling = [''nas''],
      fl_meta = [''nas'' \<mapsto> \<lparr>dm_label = ''nas'', dm_remember = False, dm_reconnect = False, dm_args = [], dm_socket_path = None\<rparr>],
      fl_specs = Map.empty, fl_downed = Map.empty, fl_tab = 0, fl_browse = None, fl_started = [''nas''], fl_remembered = []\<rparr>"

definition sample_eps :: "endpoint list" where
  "sample_eps = [\<lparr>ep_host = None, ep_socket = ''here''\<rparr>, \<lparr>ep_host = Some ''lab'', ep_socket = ''theirs''\<rparr>]"

definition sample_remotes :: "remote_dial list" where
  "sample_remotes = [\<lparr>rd_target = ''nas'', rd_label = ''nas'', rd_args = [], rd_socket_path = None\<rparr>]"

definition sample_connect :: "path \<Rightarrow> greeting" where
  "sample_connect s = Primed (if s = ''here'' then [1] else [1, 2])"

lemma sample_starts: "start_fleet sample_connect sample_eps sample_remotes = Some sample_start"
  by (simp add: start_fleet_def sample_connect_def sample_eps_def sample_remotes_def sample_start_def opened_def
      map_filter_simps dial_remote_def should_dial_def spawn_dial_def badges_def Let_def)

lemma sample_fleet_ok: "fleet_ok sample_start"
  by (rule start_fleet_ok [OF sample_starts])
    (simp_all add: sample_connect_def sample_eps_def sample_remotes_def map_filter_simps)

definition sample_landed :: fleet where
  "sample_landed = on_landed ''nas'' (Answered ''s1'' [7]) sample_start\<lparr>fl_browse := Some 2\<rparr>"

lemma sample_landed_eq:
  "sample_landed = \<lparr>fl_daemons = [\<lparr>da_socket = ''here'', da_tabs = [1]\<rparr>, \<lparr>da_socket = ''theirs'', da_tabs = [1, 2]\<rparr>,
        \<lparr>da_socket = ''s1'', da_tabs = [7]\<rparr>],
      fl_hosts = [None, Some ''lab'', Some ''nas''], fl_sockets = [''here'', ''theirs'', ''s1''], fl_forwards = [''s1''],
      fl_dialling = [], fl_meta = Map.empty,
      fl_specs = [''nas'' \<mapsto> \<lparr>ds_target = ''nas'', ds_args = [], ds_socket_path = None\<rparr>],
      fl_downed = Map.empty, fl_tab = 0, fl_browse = Some 2, fl_started = [''nas''], fl_remembered = []\<rparr>"
  by (simp add: sample_landed_def on_landed_def adopt_def sample_start_def Let_def)

lemma sample_landed_reached: "fleet_reached sample_start sample_landed"
proof -
  have a: "fleet_step sample_start (on_landed ''nas'' (Answered ''s1'' [7]) sample_start)"
    by (rule fleet_step.landed) (simp add: sample_start_def)
  have b: "fleet_step (on_landed ''nas'' (Answered ''s1'' [7]) sample_start) sample_landed"
    unfolding sample_landed_def by (rule fleet_step.machine) (simp add: on_landed_def adopt_def sample_start_def Let_def)
  show ?thesis by (rule fleet_reached.more [OF fleet_reached.more [OF fleet_reached.start a] b])
qed

theorem fleet_stays_aligned_witness:
  "length (fl_hosts sample_landed) = length (fl_daemons sample_landed) \<and> length (fl_daemons sample_landed) = 3
    \<and> fl_hosts sample_landed = [None, Some ''lab'', Some ''nas''] \<and> active_daemon sample_landed < 3"
proof -
  have "length (fl_daemons sample_landed) = 3" "fl_hosts sample_landed = [None, Some ''lab'', Some ''nas'']"
    by (simp_all add: sample_landed_eq)
  then show ?thesis
    using fleet_stays_aligned [OF sample_starts sample_landed_reached]
    by (simp add: sample_connect_def sample_eps_def sample_remotes_def map_filter_simps)
qed

section \<open>One machine leaves, the others stay\<close>

lemma distinct_hosts:
  "distinct (map the (filter (\<lambda>h. h \<noteq> None) hs)) \<Longrightarrow> i < length hs \<Longrightarrow> j < length hs \<Longrightarrow> hs ! i = Some h \<Longrightarrow> hs ! j = Some h \<Longrightarrow> i = j"
proof (induction hs arbitrary: i j)
  case (Cons a hs)
  have in_rest: "Some h \<in> set hs \<Longrightarrow> h \<in> set (map the (filter (\<lambda>h. h \<noteq> None) hs))" by force
  then have no: "a \<noteq> Some h \<or> Some h \<notin> set hs" using Cons.prems(1) by auto
  have d: "distinct (map the (filter (\<lambda>h. h \<noteq> None) hs))" using Cons.prems(1) by (simp split: if_splits)
  show ?case
  proof (cases i)
    case 0
    then show ?thesis using no Cons.prems(3-) nth_mem [of "j - 1" hs] by (cases j) auto
  next
    case (Suc k)
    show ?thesis
    proof (cases j)
      case 0
      then show ?thesis using no Cons.prems Suc nth_mem [of k hs] by auto
    next
      case (Suc l)
      then show ?thesis using Cons.IH [OF d, of k l] Cons.prems \<open>i = Suc k\<close> by simp
    qed
  qed
qed simp

lemma position_distinct:
  assumes "distinct (map the (filter (\<lambda>h. h \<noteq> None) hs))"
  shows "position (\<lambda>x. x = Some h) hs = Some i \<longleftrightarrow> i < length hs \<and> hs ! i = Some h"
proof
  assume i: "i < length hs \<and> hs ! i = Some h"
  then have "hs ! j \<noteq> Some h" if "j < i" for j using that distinct_hosts [OF assms, of j i h] by auto
  then show "position (\<lambda>x. x = Some h) hs = Some i" using i by (simp add: position_Some_iff)
qed (simp add: position_Some_iff)

lemma machine_of_iff:
  assumes "distinct (badges f)"
  shows "machine_of h f = Some m \<longleftrightarrow> (\<exists>i < length (fl_hosts f). fl_hosts f ! i = Some h \<and> m = (fl_daemons f ! i, fl_sockets f ! i))"
  using position_distinct [of "fl_hosts f" h] assms by (auto simp: machine_of_def badges_of)

lemma remove_nth_nth:
  "d < length xs \<Longrightarrow> i < length xs - 1 \<Longrightarrow> remove_nth d xs ! i = xs ! (if i < d then i else Suc i)"
  by (auto simp: remove_nth_def nth_append min_def)

lemma disconnect_machines:
  assumes f: "fleet_ok f" and D: "disconnect_daemon d f = (Inr h, g)"
  shows "machine_of h g = None" "k \<noteq> h \<Longrightarrow> machine_of k g = machine_of k f"
    "browsed g = (if browsed f = Some (Some h) then None else browsed f)"
proof -
  note g = disconnect_daemon_Inr [OF D]
  have dis: "distinct (badges f)" "distinct (badges g)"
    using f disconnect_daemon_ok [OF f D] by (auto simp: fleet_ok_def aligned_def)
  have len: "length (fl_hosts f) = length (fl_daemons f)" "length (fl_sockets f) = length (fl_hosts f)"
    using f by (auto simp: fleet_ok_def aligned_def)
  have only: "i < length (fl_hosts f) \<Longrightarrow> fl_hosts f ! i = Some h \<Longrightarrow> i = d" for i
    using distinct_hosts [of "fl_hosts f" i d h] dis(1) g(1,2) by (simp add: badges_of)
  let ?up = "\<lambda>i. if i < d then i else Suc i"
  have at: "fl_hosts g ! i = fl_hosts f ! ?up i" "fl_daemons g ! i = fl_daemons f ! ?up i" "fl_sockets g ! i = fl_sockets f ! ?up i"
    if "i < length (fl_hosts f) - 1" for i using that g(1,3) len by (simp_all add: g(4) remove_nth_nth)
  have n: "length (fl_hosts g) = length (fl_hosts f) - 1" using g(1) by (simp add: g(4))
  show "machine_of h g = None"
  proof (rule ccontr)
    assume "machine_of h g \<noteq> None"
    then obtain i where i: "i < length (fl_hosts f) - 1" "fl_hosts f ! ?up i = Some h"
      using at(1) n by (auto simp: machine_of_iff [OF dis(2)])
    then have "?up i = d" by (intro only) auto
    then show False by (simp split: if_splits)
  qed
  show "machine_of k g = machine_of k f" if k: "k \<noteq> h"
  proof -
    have "machine_of k g = Some m \<longleftrightarrow> machine_of k f = Some m" for m
    proof -
      have "(\<exists>i < length (fl_hosts f) - 1. P (?up i)) \<longleftrightarrow> (\<exists>j < length (fl_hosts f). j \<noteq> d \<and> P j)" for P
      proof
        assume "\<exists>i < length (fl_hosts f) - 1. P (?up i)"
        then obtain i where "i < length (fl_hosts f) - 1" "P (?up i)" by blast
        then show "\<exists>j < length (fl_hosts f). j \<noteq> d \<and> P j" using g(1) by (intro exI [of _ "?up i"]) auto
      next
        assume "\<exists>j < length (fl_hosts f). j \<noteq> d \<and> P j"
        then obtain j where "j < length (fl_hosts f)" "j \<noteq> d" "P j" by blast
        then show "\<exists>i < length (fl_hosts f) - 1. P (?up i)"
          using g(1) by (intro exI [of _ "if j < d then j else j - 1"]) auto
      qed
      note shift = this [of "\<lambda>j. fl_hosts f ! j = Some k \<and> m = (fl_daemons f ! j, fl_sockets f ! j)"]
      have "machine_of k g = Some m \<longleftrightarrow> (\<exists>i < length (fl_hosts f) - 1. fl_hosts f ! ?up i = Some k
          \<and> m = (fl_daemons f ! ?up i, fl_sockets f ! ?up i))"
        unfolding machine_of_iff [OF dis(2)] n by (intro ex_cong1 conj_cong refl) (simp_all only: at)
      also have "\<dots> \<longleftrightarrow> (\<exists>j < length (fl_hosts f). j \<noteq> d \<and> fl_hosts f ! j = Some k \<and> m = (fl_daemons f ! j, fl_sockets f ! j))"
        by (rule shift)
      also have "\<dots> \<longleftrightarrow> machine_of k f = Some m"
        unfolding machine_of_iff [OF dis(1)] using k g(2) by auto
      finally show ?thesis .
    qed
    then show ?thesis by (metis option.exhaust)
  qed
  show "browsed g = (if browsed f = Some (Some h) then None else browsed f)"
  proof (cases "fl_browse f")
    case (Some b)
    then have b: "b < length (fl_hosts f)" using f len by (auto simp: fleet_ok_def browse_ok_def)
    have "b = d \<or> b < d \<or> d < b" by arith
    then show ?thesis
    proof (elim disjE)
      assume "d < b"
      then show ?thesis using Some b only [OF b] at(1) [of "b - 1"] by (auto simp: browsed_def index_after_removal_def g(4))
    next
      assume "b < d"
      then show ?thesis using Some b only [OF b] at(1) [of b] g(1) by (auto simp: browsed_def index_after_removal_def g(4))
    qed (use Some g in \<open>simp add: browsed_def index_after_removal_def\<close>)
  qed (simp add: browsed_def index_after_removal_def g(4))
qed


definition dropped_sample :: fleet where "dropped_sample = snd (disconnect_host ''nas'' sample_landed)"

lemma sample_landed_ok: "fleet_ok sample_landed"
  by (rule fleet_reached_ok [OF sample_landed_reached sample_fleet_ok])


section \<open>A link that comes back\<close>

text \<open>What \<open>redial_lost\<close> does when it dials.\<close>

lemma redial_lost_dials:
  assumes "fl_started (redial_lost d is_alive now f) \<noteq> fl_started f"
  obtains host spec b where "d < length (fl_hosts f)" "fl_hosts f ! d = Some host" "fl_specs f host = Some spec"
    "ds_target spec \<notin> set (fl_dialling f)" "d < length (fl_sockets f)"
    "redial_lost d is_alive now f = spawn_dial (ds_target spec)
      \<lparr>dm_label = host, dm_remember = False, dm_reconnect = True, dm_args = ds_args spec, dm_socket_path = ds_socket_path spec\<rparr>
      (f\<lparr>fl_downed := (fl_downed f)(host \<mapsto> b), fl_forwards := filter (\<lambda>s. s \<noteq> fl_sockets f ! d) (fl_forwards f)\<rparr>)"
  using assms that by (auto simp: redial_lost_def Let_def split: if_splits option.splits prod.splits)



section \<open>Where the lists fall apart\<close>

text \<open>
  A daemon that does not answer at the start leaves its badge and its socket behind: the next daemon is
  shown under its badge, and a machine that lands later has an index past the end of the daemons, at which
  disconnecting it removes (a panic).
\<close>

definition silent_start :: "fleet option" where
  "silent_start = start_fleet (\<lambda>s. if s = ''a'' then Unreachable else Primed [1])
     [\<lparr>ep_host = None, ep_socket = ''here''\<rparr>, \<lparr>ep_host = Some ''A'', ep_socket = ''a''\<rparr>, \<lparr>ep_host = Some ''B'', ep_socket = ''b''\<rparr>] []"

lemma silent_endpoint_shifts_badges:
  "\<exists>f. silent_start = Some f \<and> (let g = f\<lparr>fl_tab := 1\<rparr> in
     da_socket (fl_daemons g ! active_daemon g) = ''b'' \<and> active_host g = Some ''A'')
   \<and> (let g = on_landed ''nas'' (Answered ''s'' [1]) (connect_machine ''nas'' f) in
     position (\<lambda>h. h = Some ''nas'') (fl_hosts g) = Some (length (fl_daemons g)) \<and> fst (disconnect_host ''nas'' g) = Inr ''nas'')"
  by (simp add: silent_start_def start_fleet_def opened_def map_filter_simps active_host_def active_daemon_def tab_at_def
      tab_index_def connect_machine_def spawn_dial_def badges_def on_landed_def adopt_def disconnect_host_def
      disconnect_daemon_def Let_def)

text \<open>
  What is in the bar is told by the badge and what is dialled by the target, so a machine with a name of
  its own is dialled again when it announces itself, and comes a second time under its target.
\<close>

definition box_start :: "fleet option" where
  "box_start = start_fleet (\<lambda>_. Primed []) [\<lparr>ep_host = None, ep_socket = ''here''\<rparr>]
     [\<lparr>rd_target = ''10.0.0.1'', rd_label = ''box'', rd_args = [], rd_socket_path = None\<rparr>]"

lemma renamed_machine_comes_twice:
  "\<exists>f. box_start = Some f
   \<and> (let g = on_landed ''10.0.0.1'' (Answered ''s1'' []) f; h = on_announce ''10.0.0.1'' '''' [] ''sock'' True g
      in fl_hosts g = [None, Some ''box''] \<and>
        fl_hosts (on_landed ''10.0.0.1'' (Answered ''s2'' []) h) = [None, Some ''box'', Some ''10.0.0.1''])"
proof -
  obtain f where f: "box_start = Some f" "fl_hosts f = [None]" "fl_dialling f = [''10.0.0.1'']"
      "fl_meta f ''10.0.0.1'' = Some \<lparr>dm_label = ''box'', dm_remember = False, dm_reconnect = False, dm_args = [], dm_socket_path = None\<rparr>"
    by (simp add: box_start_def start_fleet_def opened_def map_filter_simps dial_remote_def should_dial_def spawn_dial_def
        badges_def Let_def)
  define g where "g = on_landed ''10.0.0.1'' (Answered ''s1'' []) f"
  have g: "fl_hosts g = [None, Some ''box'']" "fl_dialling g = []"
    using f by (simp_all add: g_def on_landed_def adopt_def Let_def)
  define h where "h = on_announce ''10.0.0.1'' '''' [] ''sock'' True g"
  have h: "fl_hosts h = [None, Some ''box'']"
      "fl_meta h ''10.0.0.1'' = Some \<lparr>dm_label = ''10.0.0.1'', dm_remember = False, dm_reconnect = False, dm_args = [],
        dm_socket_path = Some ''sock''\<rparr>"
    using g by (simp_all add: h_def on_announce_def announced_target_def announcement_dials_def should_dial_def spawn_dial_def
        badges_of Let_def)
  have "fl_hosts (on_landed ''10.0.0.1'' (Answered ''s2'' []) h) = [None, Some ''box'', Some ''10.0.0.1'']"
    using h by (simp add: on_landed_def adopt_def Let_def)
  then show ?thesis using f(1) g(1) by (auto simp: g_def h_def Let_def)
qed

text \<open>The ssh of a machine whose daemon does not answer is kept, and nothing in the bar can drop it.\<close>

lemma silent_forward_is_kept:
  "on_landed t (Silent s) f = g \<Longrightarrow> s \<in> set (fl_forwards g) \<and> fl_hosts g = fl_hosts f \<and> fl_sockets g = fl_sockets f"
  by (auto simp: on_landed_def Let_def)

text \<open>
  While a link is being rebuilt, and after a try that failed, the machine cannot be disconnected: its old ssh
  is gone, and the message says it was never ours.
\<close>

lemma redialled_machine_cannot_be_dropped:
  assumes "fl_started (redial_lost d is_alive now f) \<noteq> fl_started f" "fl_hosts f ! d = Some host"
  shows "fst (disconnect_daemon d (redial_lost d is_alive now f)) = Inl (host @ '' is not one we dialled'')
    \<and> fst (disconnect_daemon d (on_landed host DialFailed (redial_lost d is_alive now f))) = Inl (host @ '' is not one we dialled'')"
proof -
  obtain host' and spec :: dial_spec and b where r: "d < length (fl_hosts f)" "fl_hosts f ! d = Some host'" "d < length (fl_sockets f)"
      "redial_lost d is_alive now f = spawn_dial (ds_target spec)
        \<lparr>dm_label = host', dm_remember = False, dm_reconnect = True, dm_args = ds_args spec, dm_socket_path = ds_socket_path spec\<rparr>
        (f\<lparr>fl_downed := (fl_downed f)(host' \<mapsto> b), fl_forwards := filter (\<lambda>s. s \<noteq> fl_sockets f ! d) (fl_forwards f)\<rparr>)"
    by (rule redial_lost_dials [OF assms(1)]) blast
  then show ?thesis using assms(2) by (simp add: disconnect_daemon_def on_landed_def Let_def)
qed

end
