(* ===== verification/Views.thy ===== *)
theory Views
  imports Keymap Fleet
begin

text \<open>
  What a client remembers in its configuration (\<open>butai-client/src/views.rs\<close>, the writers of
  \<open>config.rs\<close>): which space every workspace was last looking at, with the delay of the writes, their
  retries and the bounds of both lists, and the remembered machines. The file is what its tables say; a
  write that fails is a parameter of the step. Times are milliseconds.
\<close>

section \<open>Spaces\<close>

definition page_order :: "page list" where
  "page_order = [AgentsPage, FilesPage, GitPage, DockerPage, DocsPage]"

fun page_label :: "page \<Rightarrow> string" where
  "page_label BoothPage = ''booth''"
| "page_label AgentsPage = ''agents''"
| "page_label FilesPage = ''files''"
| "page_label DiffPage = ''diff''"
| "page_label GitPage = ''git''"
| "page_label DockerPage = ''docker''"
| "page_label DocsPage = ''docs''"
| "page_label SettingsPage = ''settings''"
| "page_label HelpPage = ''help''"
| "page_label UsagePage = ''usage''"

definition space_named :: "string \<Rightarrow> page option" where
  "space_named w = find (\<lambda>p. page_label p = w) page_order"

definition is_space :: "page \<Rightarrow> bool" where "is_space p \<longleftrightarrow> p \<in> set page_order"

definition order_index :: "page \<Rightarrow> nat" where
  "order_index p = (case position (\<lambda>q. q = p) page_order of Some i \<Rightarrow> i | None \<Rightarrow> 0)"

definition next_page :: "page \<Rightarrow> page" where
  "next_page p = page_order ! ((order_index p + 1) mod length page_order)"

definition prev_page :: "page \<Rightarrow> page" where
  "prev_page p = page_order ! ((order_index p + length page_order - 1) mod length page_order)"

lemma space_named_label [simp]: "is_space p \<Longrightarrow> space_named (page_label p) = Some p"
  by (cases p) (simp_all add: is_space_def space_named_def page_order_def)

lemma space_named_space: "space_named w = Some p \<Longrightarrow> is_space p \<and> page_label p = w"
  by (auto simp: space_named_def is_space_def page_order_def split: if_splits)

lemma next_prev: "is_space p \<Longrightarrow> next_page (prev_page p) = p \<and> prev_page (next_page p) = p"
  by (cases p) (simp_all add: is_space_def next_page_def prev_page_def order_index_def page_order_def)

section \<open>The name of a workspace in the file\<close>

definition local_badge :: string where "local_badge = ''local''"

text \<open>The loop that pushes a character unless it repeats a slash, and the one that drops trailing slashes.\<close>

fun push_path :: "string \<Rightarrow> string \<Rightarrow> string" where
  "push_path out [] = out"
| "push_path out (c # cs) = push_path (if c = CHR ''/'' \<and> out \<noteq> [] \<and> last out = CHR ''/'' then out else out @ [c]) cs"

function drop_slashes :: "string \<Rightarrow> string" where
  "drop_slashes out = (if 1 < length out \<and> last out = CHR ''/'' then drop_slashes (butlast out) else out)"
  by auto
termination by (relation "measure length") auto

declare drop_slashes.simps [simp del]

definition normalise_path :: "string \<Rightarrow> string" where "normalise_path cwd = drop_slashes (push_path [] cwd)"

definition badge_or_local :: "string option \<Rightarrow> string" where
  "badge_or_local host = (case host of Some h \<Rightarrow> h | None \<Rightarrow> local_badge)"

definition view_key :: "string option \<Rightarrow> string \<Rightarrow> string" where
  "view_key host cwd = badge_or_local host @ '':'' @ normalise_path cwd"

section \<open>The table of the file\<close>

definition VIEWS_CAP :: nat where "VIEWS_CAP = 64"

definition save_view :: "string \<Rightarrow> page \<Rightarrow> (string \<times> string) list \<Rightarrow> (string \<times> string) list" where
  "save_view k p t = (let t = filter (\<lambda>e. fst e \<noteq> k) t @ [(k, page_label p)] in drop (length t - VIEWS_CAP) t)"

section \<open>The memory of the client\<close>

definition DEBOUNCE :: nat where "DEBOUNCE = 2000"
definition RETRY :: nat where "RETRY = 5000"
definition RETRY_MAX :: nat where "RETRY_MAX = 300000"
definition OWED_CAP :: nat where "OWED_CAP = 16"
definition u32_max :: nat where "u32_max = 4294967295"

record views =
  vs_seen :: "string \<rightharpoonup> page"
  vs_owed :: "(string \<times> page) list"
  vs_due :: "nat option"
  vs_fails :: nat

type_synonym memory = "views \<times> (string \<times> string) list"

definition seeded :: "(string \<times> string) list \<Rightarrow> string \<Rightarrow> page option" where
  "seeded t k = Option.bind (map_of t k) space_named"

definition new_views :: "(string \<times> string) list \<Rightarrow> views" where
  "new_views t = \<lparr>vs_seen = seeded t, vs_owed = [], vs_due = None, vs_fails = 0\<rparr>"

definition page_for :: "string \<Rightarrow> views \<Rightarrow> page option" where "page_for k v = vs_seen v k"

definition write_wait :: "nat \<Rightarrow> nat" where
  "write_wait fails = (if fails = 0 then DEBOUNCE else min (RETRY * 2 ^ min (fails - 1) 6) RETRY_MAX)"

definition owe :: "string \<Rightarrow> page \<Rightarrow> (string \<times> page) list \<Rightarrow> (string \<times> page) list" where
  "owe k p os =
     (case position (\<lambda>e. fst e = k) os of
        Some i \<Rightarrow> os[i := (k, p)]
      | None \<Rightarrow> let os = os @ [(k, p)] in drop (length os - OWED_CAP) os)"

text \<open>The writes of a flush; \<open>n\<close> is how many of them succeed before one fails.\<close>

fun flush_loop :: "nat \<Rightarrow> (string \<times> page) list \<Rightarrow> (string \<times> string) list \<Rightarrow> (string \<times> page) list \<times> (string \<times> string) list" where
  "flush_loop n [] t = ([], t)"
| "flush_loop 0 (e # os) t = (e # os, t)"
| "flush_loop (Suc n) ((k, p) # os) t = flush_loop n os (save_view k p t)"

definition flush :: "nat \<Rightarrow> memory \<Rightarrow> memory" where
  "flush n vt =
     (case flush_loop n (vs_owed (fst vt)) (snd vt) of (os, t) \<Rightarrow>
       ((fst vt)\<lparr>vs_due := None, vs_owed := os, vs_fails := (if os = [] then 0 else min (vs_fails (fst vt) + 1) u32_max)\<rparr>, t))"

record frame_note =
  fn_key :: "string option"
  fn_page :: page
  fn_now :: nat
  fn_left :: nat
  fn_due :: nat

text \<open>The first flush of a frame, for a workspace that was left.\<close>

definition flush_left :: "frame_note \<Rightarrow> memory \<Rightarrow> memory" where
  "flush_left x vt =
     (if vs_fails (fst vt) = 0 \<and> (\<exists>e \<in> set (vs_owed (fst vt)). Some (fst e) \<noteq> fn_key x) then flush (fn_left x) vt else vt)"

definition take_note :: "frame_note \<Rightarrow> memory \<Rightarrow> memory" where
  "take_note x vt =
     (case fn_key x of
        Some k \<Rightarrow>
          if is_space (fn_page x) \<and> vs_seen (fst vt) k \<noteq> Some (fn_page x)
          then ((fst vt)\<lparr>vs_seen := (vs_seen (fst vt))(k \<mapsto> fn_page x), vs_owed := owe k (fn_page x) (vs_owed (fst vt))\<rparr>, snd vt)
          else vt
      | None \<Rightarrow> vt)"

definition flush_due :: "frame_note \<Rightarrow> memory \<Rightarrow> memory" where
  "flush_due x vt = (case vs_due (fst vt) of Some d \<Rightarrow> if d \<le> fn_now x then flush (fn_due x) vt else vt | None \<Rightarrow> vt)"

definition arm :: "frame_note \<Rightarrow> memory \<Rightarrow> memory" where
  "arm x vt =
     (if vs_owed (fst vt) \<noteq> [] \<and> vs_due (fst vt) = None
      then ((fst vt)\<lparr>vs_due := Some (fn_now x + write_wait (vs_fails (fst vt)))\<rparr>, snd vt) else vt)"

definition note_view :: "frame_note \<Rightarrow> memory \<Rightarrow> memory" where
  "note_view x = arm x \<circ> flush_due x \<circ> take_note x \<circ> flush_left x"

text \<open>The frames of a run and the flush at its end.\<close>

definition run_views :: "frame_note list \<Rightarrow> (string \<times> string) list \<Rightarrow> memory" where
  "run_views xs t = fold note_view xs (new_views t, t)"

text \<open>The page a workspace was last looking at, of those that are views of a workspace.\<close>

fun last_space :: "frame_note list \<Rightarrow> string \<Rightarrow> page option" where
  "last_space [] k = None"
| "last_space (x # xs) k =
     (case last_space xs k of
        Some p \<Rightarrow> Some p
      | None \<Rightarrow> if fn_key x = Some k \<and> is_space (fn_page x) then Some (fn_page x) else None)"

definition visited :: "frame_note list \<Rightarrow> string set" where
  "visited xs = {k. \<exists>x \<in> set xs. fn_key x = Some k}"

section \<open>Nothing is lost\<close>

text \<open>Saving one line, when the table has room.\<close>

lemma save_view_room:
  assumes "distinct (map fst t)" "card (insert k (fst ` set t)) \<le> VIEWS_CAP" "is_space p"
  shows "distinct (map fst (save_view k p t))" "fst ` set (save_view k p t) = insert k (fst ` set t)"
    "seeded (save_view k p t) = (seeded t)(k \<mapsto> p)"
proof -
  let ?t = "filter (\<lambda>e. fst e \<noteq> k) t @ [(k, page_label p)]"
  have d: "distinct (map fst ?t)" using assms(1) by (auto simp: distinct_map_filter)
  have s: "set (map fst ?t) = insert k (fst ` set t)" by auto
  have "length ?t = card (set (map fst ?t))" using distinct_card [OF d] by simp
  then have "length ?t - VIEWS_CAP = 0" using assms(2) s by simp
  then have e: "save_view k p t = ?t" by (simp only: save_view_def Let_def drop0)
  show "distinct (map fst (save_view k p t))" "fst ` set (save_view k p t) = insert k (fst ` set t)"
    using d s by (simp_all only: e set_map)
  have "map_of (filter (\<lambda>e. fst e \<noteq> k) t) k = None" by (auto simp: map_of_eq_None_iff)
  then have "map_of ?t k = Some (page_label p)" by (simp add: map_add_def)
  moreover have "map_of (filter (\<lambda>e. fst e \<noteq> k) t) j = map_of t j" if "j \<noteq> k" for j using that by (induction t) auto
  ultimately show "seeded (save_view k p t) = (seeded t)(k \<mapsto> p)"
    using assms(3) by (auto simp: e seeded_def map_add_def fun_eq_iff split: option.splits)
qed

text \<open>
  What the client and the file know together: every workspace whose line is not owed has in the file what
  the client has seen, and what is owed is what it has seen. \<open>K\<close> are the names in use.
\<close>

definition kept :: "string set \<Rightarrow> string set \<Rightarrow> memory \<Rightarrow> bool" where
  "kept W K vt \<longleftrightarrow>
     (let v = fst vt; t = snd vt in
       distinct (map fst t) \<and> fst ` set t \<subseteq> K \<and> distinct (map fst (vs_owed v)) \<and> fst ` set (vs_owed v) \<subseteq> W
       \<and> (\<forall>k p. (k, p) \<in> set (vs_owed v) \<longrightarrow> vs_seen v k = Some p \<and> is_space p)
       \<and> (\<forall>k. k \<notin> fst ` set (vs_owed v) \<longrightarrow> seeded t k = vs_seen v k))"

lemma flush_loop_kept:
  assumes "distinct (map fst t)" "fst ` set t \<subseteq> K" "fst ` set os \<subseteq> K" "card K \<le> VIEWS_CAP" "finite K"
    "distinct (map fst os)" "\<forall>k p. (k, p) \<in> set os \<longrightarrow> seen k = Some p \<and> is_space p"
    "\<forall>k. k \<notin> fst ` set os \<longrightarrow> seeded t k = seen k" "flush_loop n os t = (os', t')"
  shows "distinct (map fst t') \<and> fst ` set t' \<subseteq> K \<and> distinct (map fst os') \<and> set os' \<subseteq> set os
    \<and> (\<forall>k. k \<notin> fst ` set os' \<longrightarrow> seeded t' k = seen k)"
  using assms
proof (induction n os t rule: flush_loop.induct)
  case (3 n k p os t)
  have room: "card (insert k (fst ` set t)) \<le> VIEWS_CAP"
    using card_mono [OF 3(6), of "insert k (fst ` set t)"] 3(3,4,5) by auto
  have p: "is_space p" "seen k = Some p" using 3(8) by auto
  note s = save_view_room [OF 3(2) room p(1)]
  have "distinct (map fst t') \<and> fst ` set t' \<subseteq> K \<and> distinct (map fst os') \<and> set os' \<subseteq> set os
      \<and> (\<forall>k. k \<notin> fst ` set os' \<longrightarrow> seeded t' k = seen k)"
  proof (rule 3(1))
    show "\<forall>j. j \<notin> fst ` set os \<longrightarrow> seeded (save_view k p t) j = seen j" using 3(9) p s(3) by auto
  qed (use 3 s in auto)
  then show ?case by auto
qed auto

lemma flush_loop_all: "length os \<le> n \<Longrightarrow> fst (flush_loop n os t) = []"
  by (induction n os t rule: flush_loop.induct) auto

lemma flush_kept:
  assumes "kept W K vt" "W \<subseteq> K" "card K \<le> VIEWS_CAP" "finite K"
  shows "kept W K (flush n vt)"
proof -
  obtain os t where f: "flush_loop n (vs_owed (fst vt)) (snd vt) = (os, t)" by fastforce
  have "distinct (map fst t) \<and> fst ` set t \<subseteq> K \<and> distinct (map fst os) \<and> set os \<subseteq> set (vs_owed (fst vt))
    \<and> (\<forall>k. k \<notin> fst ` set os \<longrightarrow> seeded t k = vs_seen (fst vt) k)"
    by (rule flush_loop_kept [OF _ _ _ assms(3,4) _ _ _ f]) (use assms in \<open>auto simp: kept_def Let_def\<close>)
  moreover from this have "fst ` set os \<subseteq> fst ` set (vs_owed (fst vt))" by blast
  ultimately show ?thesis using assms(1) by (simp add: flush_def f kept_def Let_def) blast
qed

lemma owe_new:
  assumes "k \<notin> fst ` set os" "length os < OWED_CAP"
  shows "owe k p os = os @ [(k, p)]"
proof -
  have "position (\<lambda>e. fst e = k) os = None" using assms(1) by auto
  then have "owe k p os = drop (length (os @ [(k, p)]) - OWED_CAP) (os @ [(k, p)])"
    unfolding owe_def Let_def by (simp only: option.case)
  moreover have "length (os @ [(k, p)]) - OWED_CAP = 0" using assms(2) by simp
  ultimately show ?thesis by (simp only: drop0)
qed

lemma owe_old:
  assumes "distinct (map fst os)" "i < length os" "fst (os ! i) = k"
  shows "owe k p os = os[i := (k, p)]"
proof -
  have "position (\<lambda>e. fst e = k) os = Some i"
    using assms nth_eq_iff_index_eq [OF assms(1), of _ i] by (auto simp: position_Some_iff)
  then show ?thesis by (simp add: owe_def)
qed

lemma set_list_update_key:
  assumes "distinct (map fst os)" "i < length os" "fst (os ! i) = k"
  shows "(j, q) \<in> set (os[i := (k, p)]) \<longleftrightarrow> (if j = k then q = p else (j, q) \<in> set os)"
proof -
  have s: "set (os[i := (k, p)]) = insert (k, p) (set os - {os ! i})"
    using assms(1,2) by (intro set_update_distinct) (simp_all add: distinct_map)
  have only: "(k, x) \<in> set os \<Longrightarrow> (k, x) = os ! i" for x
    using assms by (metis distinct_map fst_conv inj_onD nth_mem)
  have "(j, q) \<noteq> os ! i" if "j \<noteq> k" using that assms(3) by (metis fst_conv)
  then show ?thesis using only unfolding s by auto
qed

lemma owe_room:
  assumes "distinct (map fst os)" "card (insert k (fst ` set os)) \<le> OWED_CAP"
  shows "distinct (map fst (owe k p os))" "fst ` set (owe k p os) = insert k (fst ` set os)"
    "(j, q) \<in> set (owe k p os) \<longleftrightarrow> (if j = k then q = p else (j, q) \<in> set os)"
proof -
  have "distinct (map fst (owe k p os)) \<and> fst ` set (owe k p os) = insert k (fst ` set os)
    \<and> ((j, q) \<in> set (owe k p os) \<longleftrightarrow> (if j = k then q = p else (j, q) \<in> set os))"
  proof (cases "k \<in> fst ` set os")
    case False
    have "length os < OWED_CAP" using assms(2) False distinct_card [OF assms(1)] by simp
    then have e: "owe k p os = os @ [(k, p)]" by (rule owe_new [OF False])
    have "(k, q) \<notin> set os" using False image_eqI [of k fst "(k, q)"] by auto
    then show ?thesis unfolding e using assms(1) False by auto
  next
    case True
    then obtain i where i: "i < length os" "fst (os ! i) = k" by (auto simp: in_set_conv_nth)
    have "map fst (os[i := (k, p)]) = map fst os" using i by (metis fst_conv list_update_id map_update)
    moreover from this have "fst ` set (os[i := (k, p)]) = fst ` set os" by (metis list.set_map)
    ultimately show ?thesis
      unfolding owe_old [OF assms(1) i] insert_absorb [OF True] set_list_update_key [OF assms(1) i] using assms(1) by simp
  qed
  then show "distinct (map fst (owe k p os))" "fst ` set (owe k p os) = insert k (fst ` set os)"
    "(j, q) \<in> set (owe k p os) \<longleftrightarrow> (if j = k then q = p else (j, q) \<in> set os)" by blast+
qed

lemma take_note_kept:
  assumes "kept W K vt" "\<forall>k. fn_key x = Some k \<longrightarrow> k \<in> W" "card W \<le> OWED_CAP" "finite W"
  shows "kept W K (take_note x vt)"
proof (cases "\<exists>k. fn_key x = Some k \<and> is_space (fn_page x) \<and> vs_seen (fst vt) k \<noteq> Some (fn_page x)")
  case True
  then obtain k where k: "fn_key x = Some k" "is_space (fn_page x)" "vs_seen (fst vt) k \<noteq> Some (fn_page x)" by blast
  have "card (insert k (fst ` set (vs_owed (fst vt)))) \<le> OWED_CAP"
    using assms k(1) card_mono [OF assms(4), of "insert k (fst ` set (vs_owed (fst vt)))"] by (auto simp: kept_def Let_def)
  moreover have "distinct (map fst (vs_owed (fst vt)))" using assms(1) by (simp add: kept_def Let_def)
  ultimately have o: "distinct (map fst (owe k (fn_page x) (vs_owed (fst vt))))"
      "fst ` set (owe k (fn_page x) (vs_owed (fst vt))) = insert k (fst ` set (vs_owed (fst vt)))"
      "\<And>j q. (j, q) \<in> set (owe k (fn_page x) (vs_owed (fst vt))) \<longleftrightarrow> (if j = k then q = fn_page x else (j, q) \<in> set (vs_owed (fst vt)))"
    using owe_room by blast+
  show ?thesis using assms(1,2) k o by (auto simp: take_note_def kept_def Let_def)
qed (use assms in \<open>auto simp: take_note_def split: option.splits\<close>)

lemma note_view_kept:
  assumes "kept W K vt" "\<forall>k. fn_key x = Some k \<longrightarrow> k \<in> W" "card W \<le> OWED_CAP" "W \<subseteq> K" "card K \<le> VIEWS_CAP" "finite K"
  shows "kept W K (note_view x vt)"
proof -
  have fin: "finite W" using assms(4,6) finite_subset by blast
  have a: "kept W K (flush_left x vt)" using assms flush_kept by (simp add: flush_left_def)
  have b: "kept W K (take_note x (flush_left x vt))" by (rule take_note_kept [OF a assms(2,3) fin])
  have c: "kept W K (flush_due x (take_note x (flush_left x vt)))"
    using b assms flush_kept by (auto simp: flush_due_def split: option.splits)
  then show ?thesis by (simp add: note_view_def arm_def kept_def Let_def)
qed

lemma seen_flush [simp]: "vs_seen (fst (flush n vt)) = vs_seen (fst vt)"
  by (simp add: flush_def split: prod.splits)

lemma seen_note:
  "vs_seen (fst (note_view x vt)) = (case fn_key x of
      Some k \<Rightarrow> if is_space (fn_page x) then (vs_seen (fst vt))(k \<mapsto> fn_page x) else vs_seen (fst vt)
    | None \<Rightarrow> vs_seen (fst vt))"
  by (auto simp: note_view_def flush_left_def take_note_def flush_due_def arm_def split: option.splits)

lemma seen_run:
  "vs_seen (fst (fold note_view xs vt)) k = (case last_space xs k of Some p \<Rightarrow> Some p | None \<Rightarrow> vs_seen (fst vt) k)"
  by (induction xs arbitrary: vt) (auto simp: seen_note split: option.splits)

definition now_seen :: "frame_note list \<Rightarrow> (string \<times> string) list \<Rightarrow> string \<Rightarrow> page option" where
  "now_seen xs t k = (case last_space xs k of Some p \<Rightarrow> Some p | None \<Rightarrow> page_for k (new_views t))"

lemma run_views_seen: "vs_seen (fst (run_views xs t)) k = now_seen xs t k"
  by (simp add: run_views_def seen_run now_seen_def page_for_def new_views_def split: option.split)

lemma kept_start: "distinct (map fst t) \<Longrightarrow> fst ` set t \<subseteq> K \<Longrightarrow> kept W K (new_views t, t)"
  by (simp add: kept_def new_views_def Let_def)

lemma fold_kept:
  assumes "kept W K vt" "visited xs \<subseteq> W" "card W \<le> OWED_CAP" "W \<subseteq> K" "card K \<le> VIEWS_CAP" "finite K"
  shows "kept W K (fold note_view xs vt)"
  using assms(1,2)
proof (induction xs arbitrary: vt)
  case (Cons x xs)
  have "kept W K (note_view x vt)"
    by (rule note_view_kept [OF Cons.prems(1) _ assms(3-6)]) (use Cons.prems(2) in \<open>auto simp: visited_def\<close>)
  moreover have "visited xs \<subseteq> W" using Cons.prems(2) by (auto simp: visited_def)
  ultimately have "kept W K (fold note_view xs (note_view x vt))" by (rule Cons.IH)
  then show ?case by simp
qed simp

lemma finite_visited [simp]: "finite (visited xs)"
proof -
  have "visited xs \<subseteq> (\<lambda>x. the (fn_key x)) ` set xs" by (force simp: visited_def)
  then show ?thesis using finite_subset by blast
qed

lemma run_views_kept:
  assumes "distinct (map fst t)" "card (visited xs) \<le> OWED_CAP" "card (fst ` set t \<union> visited xs) \<le> VIEWS_CAP"
  shows "kept (visited xs) (fst ` set t \<union> visited xs) (run_views xs t)"
  unfolding run_views_def by (rule fold_kept [OF kept_start [OF assms(1)]]) (use assms in auto)

lemma kept_none_owed: "kept W K vt \<Longrightarrow> vs_owed (fst vt) = [] \<Longrightarrow> seeded (snd vt) k = vs_seen (fst vt) k"
  by (simp add: kept_def Let_def)

lemma owed_bound:
  assumes "kept W K vt" "finite W" "card W \<le> n"
  shows "length (vs_owed (fst vt)) \<le> n"
proof -
  have "length (vs_owed (fst vt)) = card (fst ` set (vs_owed (fst vt)))"
    using assms(1) distinct_card [of "map fst (vs_owed (fst vt))"] by (simp add: kept_def Let_def)
  also have "\<dots> \<le> card W" using assms(1,2) by (intro card_mono) (auto simp: kept_def Let_def)
  finally show ?thesis using assms(3) by simp
qed

lemma flush_all:
  assumes "length (vs_owed (fst vt)) \<le> n"
  shows "vs_owed (fst (flush n vt)) = []" "vs_fails (fst (flush n vt)) = 0" "vs_due (fst (flush n vt)) = None"
  using flush_loop_all [OF assms, of "snd vt"] by (auto simp: flush_def split: prod.splits)

text \<open>
  C15. A workspace opens where it was left. Whatever was looked at in a run of the client, at whatever times,
  however many writes of the file failed and whichever of them: when the write at its end goes through, the
  next client shows every workspace on the last page that was a view of it, and every workspace that was
  not visited where it was before; and nothing is owed to the file any more. This is for a run that visits
  no more than 16 workspaces, the bound of the pages that wait to be written, and a file that then has lines
  for no more than 64, the bound of the table.
\<close>

theorem remembered_pages_come_back:
  assumes "distinct (map fst t)" "card (visited xs) \<le> OWED_CAP" "card (fst ` set t \<union> visited xs) \<le> VIEWS_CAP" "OWED_CAP \<le> n"
  shows "page_for k (new_views (snd (flush n (run_views xs t)))) =
      (case last_space xs k of Some p \<Rightarrow> Some p | None \<Rightarrow> page_for k (new_views t))
    \<and> vs_owed (fst (flush n (run_views xs t))) = []"
proof -
  let ?K = "fst ` set t \<union> visited xs"
  have k: "kept (visited xs) ?K (run_views xs t)" using run_views_kept assms by blast
  have len: "length (vs_owed (fst (run_views xs t))) \<le> n" using owed_bound [OF k] assms(2,4) by simp
  have "kept (visited xs) ?K (flush n (run_views xs t))" by (rule flush_kept [OF k]) (use assms in auto)
  from kept_none_owed [OF this flush_all(1) [OF len]] show ?thesis
    using run_views_seen [of xs t k] flush_all(1) [OF len] by (simp add: page_for_def new_views_def now_seen_def)
qed

definition sample_frames :: "frame_note list" where
  "sample_frames =
     [\<lparr>fn_key = Some ''local:/a'', fn_page = GitPage, fn_now = 0, fn_left = 0, fn_due = 0\<rparr>,
      \<lparr>fn_key = Some ''local:/a'', fn_page = FilesPage, fn_now = 1500, fn_left = 0, fn_due = 0\<rparr>,
      \<lparr>fn_key = Some ''local:/a'', fn_page = SettingsPage, fn_now = 2500, fn_left = 0, fn_due = 0\<rparr>,
      \<lparr>fn_key = Some ''nas:/b'', fn_page = DocsPage, fn_now = 3000, fn_left = 0, fn_due = 0\<rparr>]"

lemma sample_visited: "visited sample_frames = {''local:/a'', ''nas:/b''}"
  by (auto simp: visited_def sample_frames_def)

theorem remembered_pages_come_back_witness:
  "page_for ''local:/a'' (new_views (snd (flush 16 (run_views sample_frames [(''local:/c'', ''git'')])))) = Some FilesPage
    \<and> page_for ''nas:/b'' (new_views (snd (flush 16 (run_views sample_frames [(''local:/c'', ''git'')])))) = Some DocsPage
    \<and> page_for ''local:/c'' (new_views (snd (flush 16 (run_views sample_frames [(''local:/c'', ''git'')])))) = Some GitPage"
proof -
  let ?t = "[(''local:/c'', ''git'')]"
  have l: "last_space sample_frames ''local:/a'' = Some FilesPage" "last_space sample_frames ''nas:/b'' = Some DocsPage"
    "last_space sample_frames ''local:/c'' = None"
    by (simp_all add: sample_frames_def is_space_def page_order_def)
  have c: "page_for ''local:/c'' (new_views ?t) = Some GitPage"
    by (simp add: page_for_def new_views_def seeded_def space_named_def page_order_def)
  have "distinct (map fst ?t)" "card (visited sample_frames) \<le> OWED_CAP" "card (fst ` set ?t \<union> visited sample_frames) \<le> VIEWS_CAP"
    "OWED_CAP \<le> 16"
    by (simp_all add: sample_visited OWED_CAP_def VIEWS_CAP_def)
  note w = remembered_pages_come_back [OF this, THEN conjunct1]
  show ?thesis using w [of "''local:/a''"] w [of "''nas:/b''"] w [of "''local:/c''"] l c by simp
qed

section \<open>How far the file is behind\<close>

text \<open>When writes succeed: nothing owed, or everything before the frame that armed the deadline is written.\<close>

definition in_time :: "frame_note list \<Rightarrow> (string \<times> string) list \<Rightarrow> memory \<Rightarrow> bool" where
  "in_time xs t vt \<longleftrightarrow> vs_fails (fst vt) = 0
    \<and> (vs_owed (fst vt) = [] \<and> vs_due (fst vt) = None
       \<or> (\<exists>ys x zs. xs = ys @ x # zs \<and> vs_due (fst vt) = Some (fn_now x + DEBOUNCE) \<and> fn_now (last xs) < fn_now x + DEBOUNCE
            \<and> (\<forall>k. seeded (snd vt) k = now_seen ys t k)))"

lemma note_in_time:
  assumes k: "kept W K (run_views xs t)" "finite W" "card W \<le> OWED_CAP" "W \<subseteq> K" "card K \<le> VIEWS_CAP" "finite K"
    and x: "\<forall>k. fn_key x = Some k \<longrightarrow> k \<in> W" "OWED_CAP \<le> fn_left x" "OWED_CAP \<le> fn_due x"
    and i: "in_time xs t (run_views xs t)"
  shows "in_time (xs @ [x]) t (run_views (xs @ [x]) t)"
proof -
  let ?a = "run_views xs t" let ?b = "flush_left x ?a" let ?c = "take_note x ?b" let ?d = "flush_due x ?c"
  have kb: "kept W K ?b" using k flush_kept by (simp add: flush_left_def)
  have kc: "kept W K ?c" by (rule take_note_kept [OF kb x(1) k(3,2)])
  have len: "length (vs_owed (fst ?a)) \<le> fn_left x" "length (vs_owed (fst ?c)) \<le> fn_due x"
    using owed_bound [OF k(1,2)] owed_bound [OF kc k(2)] k(3) x(2,3) by simp_all
  have r: "run_views (xs @ [x]) t = arm x ?d" by (simp add: run_views_def note_view_def)
  have c: "vs_fails (fst ?c) = vs_fails (fst ?b)" "vs_due (fst ?c) = vs_due (fst ?b)" "snd ?c = snd ?b"
    by (auto simp: take_note_def split: option.splits)
  have fresh: ?thesis if e: "vs_owed (fst ?b) = []" "vs_due (fst ?b) = None" "vs_fails (fst ?b) = 0"
  proof -
    have "?d = ?c" using e c by (simp add: flush_due_def)
    moreover have "seeded (snd ?b) j = now_seen xs t j" for j
      using kept_none_owed [OF kb e(1), of j] run_views_seen [of xs t j] by (auto simp: flush_left_def split: if_splits)
    ultimately show ?thesis
    proof (cases "vs_owed (fst ?c) = []")
      case False
      then have "arm x ?d = ((fst ?c)\<lparr>vs_due := Some (fn_now x + DEBOUNCE)\<rparr>, snd ?b)"
        using e c \<open>?d = ?c\<close> by (simp add: arm_def write_wait_def)
      then show ?thesis
        using e c \<open>\<And>j. seeded (snd ?b) j = now_seen xs t j\<close> unfolding r in_time_def
        by (intro conjI disjI2 exI [of _ xs] exI [of _ x] exI [of _ "[]"]) (simp_all add: DEBOUNCE_def)
    qed (use e c in \<open>simp add: r in_time_def arm_def\<close>)
  qed
  show ?thesis
  proof (cases "vs_owed (fst ?a) = [] \<and> vs_due (fst ?a) = None")
    case True
    then have "?b = ?a" by (simp add: flush_left_def)
    then show ?thesis using fresh True i by (simp add: in_time_def)
  next
    case False
    then obtain ys y zs where y: "xs = ys @ y # zs" "vs_due (fst ?a) = Some (fn_now y + DEBOUNCE)"
        "\<forall>k. seeded (snd ?a) k = now_seen ys t k" and f: "vs_fails (fst ?a) = 0"
      using i by (auto simp: in_time_def)
    show ?thesis
    proof (cases "?b = ?a")
      case True
      show ?thesis
      proof (cases "fn_now y + DEBOUNCE \<le> fn_now x")
        case True
        then have "?d = flush (fn_due x) ?c" using c y(2) \<open>?b = ?a\<close> by (simp add: flush_due_def)
        then show ?thesis using flush_all [OF len(2)] by (simp add: r in_time_def arm_def)
      next
        case False
        then have d: "?d = ?c" using c y(2) \<open>?b = ?a\<close> by (simp add: flush_due_def)
        then have a: "arm x ?d = ?c" using c y(2) \<open>?b = ?a\<close> by (simp add: arm_def)
        have "xs @ [x] = ys @ y # (zs @ [x])" using y(1) by simp
        then show ?thesis using c y f False \<open>?b = ?a\<close> unfolding r a in_time_def by (auto intro!: exI)
      qed
    next
      case False
      then have "?b = flush (fn_left x) ?a" by (auto simp: flush_left_def)
      then show ?thesis using fresh flush_all [OF len(1)] by simp
    qed
  qed
qed

lemma run_in_time:
  assumes "distinct (map fst t)" "finite W" "card W \<le> OWED_CAP" "card (fst ` set t \<union> W) \<le> VIEWS_CAP"
  shows "visited xs \<subseteq> W \<Longrightarrow> \<forall>x \<in> set xs. OWED_CAP \<le> fn_left x \<and> OWED_CAP \<le> fn_due x \<Longrightarrow> in_time xs t (run_views xs t)"
proof (induction xs rule: rev_induct)
  case Nil
  then show ?case by (simp add: in_time_def run_views_def new_views_def)
next
  case (snoc x xs)
  let ?K = "fst ` set t \<union> W"
  have v: "visited xs \<subseteq> W" "\<forall>k. fn_key x = Some k \<longrightarrow> k \<in> W" using snoc.prems(1) by (auto simp: visited_def)
  have "kept W ?K (run_views xs t)"
    unfolding run_views_def by (rule fold_kept [OF kept_start [OF assms(1)] v(1) assms(3)]) (use assms in auto)
  then show ?case
    by (rule note_in_time) (use assms v snoc in auto)
qed



text \<open>
  While writes fail, the next try is at least \<open>RETRY\<close> later, the wait doubles up to \<open>RETRY_MAX\<close>, and leaving
  a workspace does not hurry it.
\<close>

lemma write_wait_bounds: "0 < fails \<Longrightarrow> RETRY \<le> write_wait fails \<and> write_wait fails \<le> RETRY_MAX"
  by (simp add: write_wait_def RETRY_def RETRY_MAX_def)

lemma write_wait_doubles: "0 < fails \<Longrightarrow> write_wait (Suc fails) = min (2 * write_wait fails) RETRY_MAX"
proof -
  assume "0 < fails"
  then obtain n where n: "fails = Suc n" by (cases fails) auto
  show ?thesis
  proof (cases "n < 6")
    case True
    then have "min (Suc n) 6 = Suc (min n 6)" by simp
    then show ?thesis by (simp add: write_wait_def n RETRY_def RETRY_MAX_def)
  next
    case False
    then have "min n 6 = 6" "min (Suc n) 6 = 6" by simp_all
    then show ?thesis by (simp add: write_wait_def n RETRY_def RETRY_MAX_def)
  qed
qed

lemma failing_waits: "0 < vs_fails (fst vt) \<Longrightarrow> flush_left x vt = vt"
  by (simp add: flush_left_def)

text \<open>
  The table drops the line that was written longest ago, and looking at a project on the page it was left on
  writes nothing: a project that is looked at every day falls off the front all the same.
\<close>

lemma looking_does_not_refresh:
  assumes "length ((h, w) # t) = VIEWS_CAP" "k \<notin> fst ` set ((h, w) # t)" "h \<notin> fst ` set t" "space_named w = Some p" "is_space q"
  shows "h \<notin> fst ` set (snd (flush 1 (run_views
      [\<lparr>fn_key = Some h, fn_page = p, fn_now = 0, fn_left = 1, fn_due = 1\<rparr>,
       \<lparr>fn_key = Some k, fn_page = q, fn_now = 1000, fn_left = 1, fn_due = 1\<rparr>] ((h, w) # t))))"
proof -
  let ?t = "(h, w) # t"
  let ?x = "\<lparr>fn_key = Some h, fn_page = p, fn_now = 0, fn_left = 1, fn_due = 1\<rparr>"
  let ?y = "\<lparr>fn_key = Some k, fn_page = q, fn_now = 1000, fn_left = 1, fn_due = 1\<rparr>"
  have kt: "k \<notin> fst ` set t" "k \<noteq> h" using assms(2) by auto
  have s: "seeded ?t h = Some p" "seeded ?t k = None"
    using assms(4) kt by (auto simp: seeded_def map_of_eq_None_iff bind_eq_None_conv)
  have one: "note_view ?x (new_views ?t, ?t) = (new_views ?t, ?t)"
    using s by (simp add: note_view_def flush_left_def take_note_def flush_due_def arm_def new_views_def)
  have "owe k q [] = [(k, q)]" by (rule owe_new [of k "[]", simplified]) (simp add: OWED_CAP_def)
  then have two: "vs_owed (fst (note_view ?y (new_views ?t, ?t))) = [(k, q)]" "snd (note_view ?y (new_views ?t, ?t)) = ?t"
    using s(2) assms(5) by (simp_all add: note_view_def flush_left_def take_note_def flush_due_def arm_def new_views_def)
  have "filter (\<lambda>e. fst e \<noteq> k) t = t" using kt(1) by (auto simp: filter_id_conv)
  then have "save_view k q ?t = drop (Suc (Suc (length t)) - VIEWS_CAP) (?t @ [(k, page_label q)])"
    using kt(2) by (simp add: save_view_def Let_def)
  also have "\<dots> = t @ [(k, page_label q)]" using assms(1) by simp
  finally have "save_view k q ?t = t @ [(k, page_label q)]" .
  then show ?thesis using one two assms(3) kt(2) by (simp add: run_views_def flush_def)
qed

section \<open>One name per workspace\<close>

text \<open>The directories of an absolute path.\<close>

definition dirs :: "string \<Rightarrow> string list" where "dirs path = filter (\<lambda>d. d \<noteq> []) (split_char (CHR ''/'') path)"

lemma push_path_piece: "CHR ''/'' \<notin> set p \<Longrightarrow> push_path out (p @ cs) = push_path (out @ p) cs"
  by (induction p arbitrary: out) auto

lemma drop_slashes_snoc: "out \<noteq> [] \<Longrightarrow> drop_slashes (out @ ''/'') = drop_slashes out"
  by (subst drop_slashes.simps) (simp add: Suc_less_eq)

lemma push_path_dirs:
  assumes "out \<noteq> []" "last out = CHR ''/''" "ps \<noteq> []" "\<forall>p \<in> set ps. CHR ''/'' \<notin> set p"
  shows "drop_slashes (push_path out (join ''/'' ps)) = drop_slashes (out @ join ''/'' (filter (\<lambda>d. d \<noteq> []) ps))"
  using assms
proof (induction "''/''" ps arbitrary: out rule: join.induct)
  case (2 p)
  then show ?case using push_path_piece [of p out "[]"] by simp
next
  case (3 p q ps)
  let ?rest = "filter (\<lambda>d. d \<noteq> []) (q # ps)"
  have step: "push_path out (join ''/'' (p # q # ps)) = push_path (out @ p) (CHR ''/'' # join ''/'' (q # ps))"
    using push_path_piece [of p out] 3(5) by simp
  show ?case
  proof (cases "p = []")
    case True
    then show ?thesis using step 3 by simp
  next
    case False
    then have "last p \<noteq> CHR ''/''" using 3(5) by (metis last_in_set list.set_intros(1))
    then have "push_path out (join ''/'' (p # q # ps)) = push_path (out @ p @ ''/'') (join ''/'' (q # ps))"
      using step False by simp
    then have "drop_slashes (push_path out (join ''/'' (p # q # ps))) = drop_slashes ((out @ p @ ''/'') @ join ''/'' ?rest)"
      using 3(1) [of "out @ p @ ''/''"] 3(5) by simp
    also have "\<dots> = drop_slashes (out @ join ''/'' (p # ?rest))"
    proof (cases ?rest)
      case Nil
      then show ?thesis using drop_slashes_snoc [of "out @ p"] False by simp
    qed simp
    finally show ?thesis using False by simp
  qed
qed simp

lemma pieces_no_sep: "\<forall>p \<in> set (split_char c s). c \<notin> set p"
  by (induction s) (auto split: list.splits)

lemma dirs_clean: "\<forall>d \<in> set (dirs c). d \<noteq> [] \<and> CHR ''/'' \<notin> set d"
  using pieces_no_sep [of "CHR ''/''" c] by (auto simp: dirs_def)

lemma last_join: "ds \<noteq> [] \<Longrightarrow> \<forall>d \<in> set ds. d \<noteq> [] \<Longrightarrow> join sep ds \<noteq> [] \<and> last (join sep ds) = last (last ds)"
  by (induction sep ds rule: join.induct) auto

lemma normalise_path_dirs:
  assumes "starts_with ''/'' cwd"
  shows "normalise_path cwd = ''/'' @ join ''/'' (dirs cwd)"
proof -
  obtain r where r: "cwd = CHR ''/'' # r" using assms by (cases cwd) (auto simp: starts_with_def split: if_splits)
  have d: "dirs cwd = dirs r" by (simp add: r dirs_def)
  have "normalise_path cwd = drop_slashes (push_path ''/'' (join ''/'' (split_char (CHR ''/'') r)))"
    using join_split_char [of "CHR ''/''" r] by (simp add: normalise_path_def r)
  also have "\<dots> = drop_slashes (''/'' @ join ''/'' (dirs r))"
    unfolding dirs_def by (rule push_path_dirs) (simp_all add: pieces_no_sep)
  also have "\<dots> = ''/'' @ join ''/'' (dirs r)"
  proof (cases "dirs r = []")
    case False
    note ne = dirs_clean [of r]
    then have "last (join ''/'' (dirs r)) \<noteq> CHR ''/''" "join ''/'' (dirs r) \<noteq> []"
      using last_join [OF False, of "''/''"] False by (auto simp: last_in_set) (metis last_in_set)
    then show ?thesis by (subst drop_slashes.simps) simp
  qed (simp add: drop_slashes.simps)
  finally show ?thesis by (simp add: d)
qed

lemma first_sep_unique: "c \<notin> set a \<Longrightarrow> c \<notin> set b \<Longrightarrow> a @ c # x = b @ c # y \<longleftrightarrow> a = b \<and> x = y"
proof (induction a arbitrary: b)
  case Nil
  then show ?case by (cases b) auto
next
  case (Cons z a)
  then show ?case by (cases b) auto
qed

lemma dirs_of_join: "\<forall>d \<in> set ds. d \<noteq> [] \<and> CHR ''/'' \<notin> set d \<Longrightarrow> dirs (join ''/'' ds) = ds"
proof (cases "ds = []")
  case False
  assume a: "\<forall>d \<in> set ds. d \<noteq> [] \<and> CHR ''/'' \<notin> set d"
  then have "split_char (CHR ''/'') (join ''/'' ds) = ds" using False by (intro split_char_join) auto
  then show ?thesis using a by (simp add: dirs_def filter_id_conv)
qed (simp add: dirs_def)

text \<open>
  Two workspaces are filed under one name exactly when they are on the same machine and in the same
  directory, however the path is spelled: repeated and trailing slashes do not matter and nothing else does.
  Badges have no colon; a machine called \<open>local\<close> is this one.
\<close>

theorem one_name_per_workspace:
  assumes "starts_with ''/'' c1" "starts_with ''/'' c2" "CHR '':'' \<notin> set (badge_or_local h1)" "CHR '':'' \<notin> set (badge_or_local h2)"
  shows "view_key h1 c1 = view_key h2 c2 \<longleftrightarrow> badge_or_local h1 = badge_or_local h2 \<and> dirs c1 = dirs c2"
proof -
  have key: "view_key h1 c1 = view_key h2 c2 \<longleftrightarrow> badge_or_local h1 = badge_or_local h2 \<and> normalise_path c1 = normalise_path c2"
    unfolding view_key_def append_Cons append_Nil by (rule first_sep_unique [OF assms(3,4)])
  have "normalise_path c1 = normalise_path c2 \<longleftrightarrow> join ''/'' (dirs c1) = join ''/'' (dirs c2)"
    unfolding normalise_path_dirs [OF assms(1)] normalise_path_dirs [OF assms(2)] by (rule same_append_eq)
  moreover have "join ''/'' (dirs c1) = join ''/'' (dirs c2) \<longleftrightarrow> dirs c1 = dirs c2"
    using dirs_of_join [OF dirs_clean [of c1]] dirs_of_join [OF dirs_clean [of c2]] by metis
  ultimately show ?thesis unfolding key by blast
qed

theorem one_name_per_workspace_witness:
  "view_key None ''/srv//app/'' = ''local:/srv/app'' \<and> view_key None ''/srv//app/'' = view_key None ''/srv/app''
    \<and> view_key (Some ''nas'') ''/srv/app'' \<noteq> view_key None ''/srv/app''"
proof -
  have s: "starts_with ''/'' ''/srv//app/''" "starts_with ''/'' ''/srv/app''" by (simp_all add: starts_with_def)
  have d: "dirs ''/srv//app/'' = dirs ''/srv/app''" by (simp add: dirs_def)
  have v: "view_key None ''/srv//app/'' = ''local:/srv/app''"
    by (simp add: view_key_def badge_or_local_def local_badge_def normalise_path_def drop_slashes.simps)
  show ?thesis
    using one_name_per_workspace [OF s, of None None] one_name_per_workspace [OF s(2) s(2), of "Some ''nas''" None] d v by (simp add: badge_or_local_def local_badge_def)
qed

section \<open>Remembered machines\<close>

record remote_def =
  rm_name :: "string option"
  rm_host :: "string option"
  rm_ssh_args :: "string list"
  rm_socket :: "path option"
  rm_socket_path :: "path option"

definition names_machine :: "string option \<Rightarrow> string option \<Rightarrow> string \<Rightarrow> bool" where
  "names_machine name host badge = (case host of Some h \<Rightarrow> h = badge \<or> name = Some badge | None \<Rightarrow> False)"

definition save_remote :: "string option \<Rightarrow> string \<Rightarrow> string list \<Rightarrow> remote_def list \<Rightarrow> remote_def list" where
  "save_remote name host ssh_args bs =
     (if \<exists>b \<in> set bs. rm_host b = Some host then bs
      else bs @ [\<lparr>rm_name = (if name = Some host then None else name), rm_host = Some host, rm_ssh_args = ssh_args,
        rm_socket = None, rm_socket_path = None\<rparr>])"

definition forget_remote :: "string \<Rightarrow> remote_def list \<Rightarrow> bool \<times> remote_def list" where
  "forget_remote badge bs =
     (if \<not> (\<exists>b \<in> set bs. names_machine (rm_name b) (rm_host b) badge) then (False, bs)
      else (True, filter (\<lambda>b. \<not> names_machine (rm_name b) (rm_host b) badge) bs))"

text \<open>What the client connects to and what it dials when it starts.\<close>

definition badge_of_socket :: "path \<Rightarrow> string" where "badge_of_socket socket = last (split_char (CHR ''/'') socket)"

definition endpoints :: "path \<Rightarrow> remote_def list \<Rightarrow> endpoint list" where
  "endpoints here bs = \<lparr>ep_host = None, ep_socket = here\<rparr> #
     List.map_filter (\<lambda>b. map_option (\<lambda>socket.
       \<lparr>ep_host = Some (case rm_name b of Some n \<Rightarrow> n | None \<Rightarrow> (case rm_host b of Some h \<Rightarrow> h | None \<Rightarrow> badge_of_socket socket)),
        ep_socket = socket\<rparr>) (rm_socket b)) bs"

definition remotes :: "remote_def list \<Rightarrow> remote_dial list" where
  "remotes bs = List.map_filter (\<lambda>b. map_option (\<lambda>host.
     \<lparr>rd_target = host, rd_label = (case rm_name b of Some n \<Rightarrow> n | None \<Rightarrow> host), rd_args = rm_ssh_args b,
      rd_socket_path = rm_socket_path b\<rparr>) (rm_host b)) bs"

lemma set_map_filter: "y \<in> set (List.map_filter g xs) \<longleftrightarrow> (\<exists>x \<in> set xs. g x = Some y)"
  by (force simp: map_filter_def)

lemma remotes_targets: "t \<in> rd_target ` set (remotes bs) \<longleftrightarrow> (\<exists>b \<in> set bs. rm_host b = Some t)"
  by (force simp: remotes_def set_map_filter)

lemma remotes_named: "r \<in> set (remotes bs) \<Longrightarrow> \<exists>b \<in> set bs. names_machine (rm_name b) (rm_host b) (rd_label r)
    \<and> names_machine (rm_name b) (rm_host b) (rd_target r)"
proof -
  assume "r \<in> set (remotes bs)"
  then obtain b h where b: "b \<in> set bs" "rm_host b = Some h"
      "r = \<lparr>rd_target = h, rd_label = (case rm_name b of Some n \<Rightarrow> n | None \<Rightarrow> h), rd_args = rm_ssh_args b, rd_socket_path = rm_socket_path b\<rparr>"
    by (auto simp: remotes_def set_map_filter)
  show ?thesis using b(2,3) by (intro bexI [OF _ b(1)]) (cases "rm_name b"; simp add: names_machine_def)
qed

lemma dial_remote_fields:
  "badges (dial_remote r f) = badges f"
  "set (fl_dialling (dial_remote r f)) = set (fl_dialling f) \<union> (if rd_target r \<in> set (badges f) then {} else {rd_target r})"
  by (auto simp: dial_remote_def should_dial_def spawn_dial_def badges_of)

lemma dials_at_start:
  "badges (fold dial_remote rs f) = badges f"
  "set (fl_dialling (fold dial_remote rs f)) = set (fl_dialling f) \<union> (rd_target ` set rs - set (badges f))"
  by (induction rs arbitrary: f) (auto simp: dial_remote_fields split: if_splits)

lemma dial_labels: "fl_meta (fold dial_remote rs f) t = Some m \<Longrightarrow> fl_meta f t = Some m \<or> dm_label m \<in> rd_label ` set rs"
proof (induction rs arbitrary: f)
  case (Cons r rs)
  have "fl_meta (dial_remote r f) t = Some m \<Longrightarrow> fl_meta f t = Some m \<or> dm_label m = rd_label r"
    by (auto simp: dial_remote_def spawn_dial_def split: if_splits)
  then show ?case using Cons by fastforce
qed simp

lemma start_fleet_dials:
  assumes "start_fleet connect eps rs = Some f"
  shows "set (fl_dialling f) = rd_target ` set rs - set (List.map_filter ep_host eps)"
    "fl_meta f t = Some m \<Longrightarrow> dm_label m \<in> rd_label ` set rs"
proof -
  have b: "List.map_filter id (map ep_host eps) = List.map_filter ep_host eps"
    by (induction eps) (auto simp: map_filter_simps split: option.splits)
  show "set (fl_dialling f) = rd_target ` set rs - set (List.map_filter ep_host eps)"
    using assms by (auto simp: start_fleet_def Let_def dials_at_start badges_def b split: if_splits)
  show "fl_meta f t = Some m \<Longrightarrow> dm_label m \<in> rd_label ` set rs"
    using assms by (auto simp: start_fleet_def Let_def dest!: dial_labels split: if_splits)
qed

text \<open>
  C17. A machine that was connected by name is dialled again by the next client that starts, unless it is in
  the bar already; one that was disconnected and forgotten is neither dialled nor comes under its badge, and
  every machine with another badge and another destination is remembered as before. Connecting the same
  machine again writes no second block.
\<close>

theorem machines_are_remembered:
  "(\<forall>f. start_fleet connect (endpoints here saved) (remotes saved) = Some f \<longrightarrow> saved = save_remote name host args bs \<longrightarrow>
      host \<in> set (fl_dialling f) \<or> Some host \<in> ep_host ` set (endpoints here saved))
   \<and> (\<forall>g. start_fleet connect (endpoints here kept_blocks) (remotes kept_blocks) = Some g \<longrightarrow> kept_blocks = snd (forget_remote badge bs) \<longrightarrow>
      badge \<notin> set (fl_dialling g) \<and> (\<forall>t m. fl_meta g t = Some m \<longrightarrow> dm_label m \<noteq> badge))
   \<and> (\<forall>b. rm_host b \<noteq> Some badge \<and> rm_name b \<noteq> Some badge \<longrightarrow> (b \<in> set (snd (forget_remote badge bs)) \<longleftrightarrow> b \<in> set bs))
   \<and> save_remote name host args (save_remote name' host args' bs) = save_remote name' host args' bs"
proof (intro conjI allI impI)
  fix f assume f: "start_fleet connect (endpoints here saved) (remotes saved) = Some f" "saved = save_remote name host args bs"
  have "\<exists>b \<in> set saved. rm_host b = Some host" by (auto simp: f(2) save_remote_def)
  then have "host \<in> rd_target ` set (remotes saved)" by (simp add: remotes_targets)
  then show "host \<in> set (fl_dialling f) \<or> Some host \<in> ep_host ` set (endpoints here saved)"
    using start_fleet_dials(1) [OF f(1)] by (auto simp: set_map_filter image_iff) metis
next
  fix g assume g: "start_fleet connect (endpoints here kept_blocks) (remotes kept_blocks) = Some g" "kept_blocks = snd (forget_remote badge bs)"
  have none: "\<forall>b \<in> set kept_blocks. \<not> names_machine (rm_name b) (rm_host b) badge"
    by (auto simp: g(2) forget_remote_def)
  then have "\<forall>r \<in> set (remotes kept_blocks). rd_label r \<noteq> badge \<and> rd_target r \<noteq> badge" using remotes_named by blast
  note r = this
  show "badge \<notin> set (fl_dialling g)" using start_fleet_dials(1) [OF g(1)] r by auto
  show "dm_label m \<noteq> badge" if "fl_meta g t = Some m" for t m using start_fleet_dials(2) [OF g(1) that] r by auto
qed (auto simp: forget_remote_def names_machine_def save_remote_def split: option.splits)

definition sample_blocks :: "remote_def list" where
  "sample_blocks = [\<lparr>rm_name = Some ''lab'', rm_host = None, rm_ssh_args = [], rm_socket = Some ''/tmp/lab.sock'', rm_socket_path = None\<rparr>]"

theorem machines_are_remembered_witness:
  "(\<exists>f. start_fleet (\<lambda>_. Primed []) (endpoints ''here'' (save_remote None ''nas'' [] sample_blocks))
        (remotes (save_remote None ''nas'' [] sample_blocks)) = Some f \<and> ''nas'' \<in> set (fl_dialling f))
   \<and> snd (forget_remote ''nas'' (save_remote None ''nas'' [] sample_blocks)) = sample_blocks"
proof -
  let ?bs = "save_remote None ''nas'' [] sample_blocks"
  have e: "endpoints ''here'' ?bs = [\<lparr>ep_host = None, ep_socket = ''here''\<rparr>, \<lparr>ep_host = Some ''lab'', ep_socket = ''/tmp/lab.sock''\<rparr>]"
    by (simp add: endpoints_def save_remote_def sample_blocks_def map_filter_simps)
  have "start_fleet (\<lambda>_. Primed []) (endpoints ''here'' ?bs) (remotes ?bs) \<noteq> None"
    unfolding e by (simp add: start_fleet_def opened_def map_filter_simps Let_def)
  then obtain f where f: "start_fleet (\<lambda>_. Primed []) (endpoints ''here'' ?bs) (remotes ?bs) = Some f" by blast
  have "''nas'' \<in> set (fl_dialling f)"
    using machines_are_remembered [of "\<lambda>_. Primed []" "''here''" ?bs None "''nas''" "[]" sample_blocks "[]" "''nas''" None "[]"] f e
    by auto
  moreover have "snd (forget_remote ''nas'' ?bs) = sample_blocks"
    by (simp add: forget_remote_def save_remote_def sample_blocks_def names_machine_def)
  ultimately show ?thesis using f by blast
qed

text \<open>
  The comment of \<open>names_machine\<close> calls it the inverse of how badges are derived. It also takes the block of a
  machine with another badge whose destination has this badge for a name.
\<close>

lemma forgetting_takes_another:
  "\<exists>b. rd_label (hd (remotes [b])) = ''box'' \<and> forget_remote ''nas'' [b] = (True, [])"
  by (rule exI [of _ "\<lparr>rm_name = Some ''box'', rm_host = Some ''nas'', rm_ssh_args = [], rm_socket = None, rm_socket_path = None\<rparr>"])
    (simp add: remotes_def map_filter_simps forget_remote_def names_machine_def)

end
