(* ===== verification/Diff_View.thy ===== *)
theory Diff_View
  imports Hunk_Apply Client_Calls
begin

text \<open>
  The diff of the client (\<open>DiffView\<close> of \<open>butai-client/src/chrome/mod.rs\<close>): a patch laid out as rows, a
  cursor on one of its hunks, folded files, lines picked one by one, and the piece that is sent to be
  staged, unstaged or discarded. The line numbers of the source are \<open>usize\<close>; their overflow would need a
  file of \<open>2 ^ 64\<close> lines and is left out.
\<close>

section \<open>Rows\<close>

datatype diff_row =
  RFile string nat nat "string option" bool
  | RRule
  | RHunk nat nat string
  | RLine "nat option" "nat option" origin string
  | RNote string

type_synonym anchor = "nat \<times> nat \<times> nat"

fun line_numbers :: "nat \<Rightarrow> nat \<Rightarrow> origin \<Rightarrow> nat option \<times> nat option" where
  "line_numbers a b Context = (Some a, Some b)"
| "line_numbers a b Removed = (Some a, None)"
| "line_numbers a b Added = (None, Some b)"
| "line_numbers a b NoNewline = (None, None)"

fun line_rows :: "nat \<Rightarrow> nat \<Rightarrow> nat \<Rightarrow> nat \<Rightarrow> nat \<Rightarrow> hunk_line list \<Rightarrow> (diff_row \<times> anchor option) list" where
  "line_rows f h i a b [] = []"
| "line_rows f h i a b (l # ls) =
     (case line_numbers a b (l_origin l) of (x, y) \<Rightarrow> (RLine x y (l_origin l) (l_text l), Some (f, h, i)))
     # line_rows f h (Suc i) (if in_old (l_origin l) then Suc a else a) (if in_new (l_origin l) then Suc b else b) ls"

definition hunk_rows :: "nat \<Rightarrow> nat \<Rightarrow> hunk \<Rightarrow> (diff_row \<times> anchor option) list" where
  "hunk_rows f h k =
     (RHunk (old_start k) (new_start k) (h_section k), None) # line_rows f h 0 (old_start k) (new_start k) (h_lines k)"

definition file_count :: "file_patch \<Rightarrow> origin \<Rightarrow> nat" where
  "file_count f r = length (filter (\<lambda>l. l_origin l = r) (concat (map h_lines (hunks f))))"

definition file_label :: "file_patch \<Rightarrow> string" where
  "file_label f =
     (if old_path f = null_path \<or> old_path f = [] then new_path f
      else if new_path f = null_path \<or> new_path f = [] then old_path f
      else if old_path f \<noteq> new_path f then old_path f @ '' -> '' @ new_path f
      else new_path f)"

fun header_note :: "string list \<Rightarrow> string option" where
  "header_note [] = None"
| "header_note (l # ls) =
     (if starts_with ''new file mode'' l then Some ''new file''
      else if starts_with ''deleted file mode'' l then Some ''deleted''
      else if starts_with ''rename from'' l then Some ''renamed''
      else if starts_with ''old mode'' l then Some ''mode changed''
      else header_note ls)"

definition file_note :: "file_patch \<Rightarrow> string option" where "file_note f = header_note (fp_header f)"

definition file_rows :: "nat set \<Rightarrow> nat \<Rightarrow> file_patch \<Rightarrow> (diff_row \<times> anchor option) list" where
  "file_rows folded f file =
     [(RFile (file_label file) (file_count file Added) (file_count file Removed) (file_note file) (f \<in> folded), None), (RRule, None)]
     @ (if f \<in> folded then [] else concat (map (\<lambda>(h, k). hunk_rows f h k) (List.enumerate 0 (hunks file))))"

definition render_rows :: "patch \<Rightarrow> nat set \<Rightarrow> (diff_row \<times> anchor option) list" where
  "render_rows p folded = concat (map (\<lambda>(f, file). file_rows folded f file) (List.enumerate 0 (files p)))"

definition line_number_digits :: "patch \<Rightarrow> nat" where
  "line_number_digits p =
     (let ends = concat (map (\<lambda>f. concat (map (\<lambda>h.
            [old_start h + length (filter (\<lambda>l. l_origin l \<noteq> Added) (h_lines h)),
             new_start h + length (filter (\<lambda>l. l_origin l \<noteq> Removed) (h_lines h))]) (hunks f))) (files p))
      in max 3 (min (length (show_nat (fold max ends 0))) 6))"

section \<open>The view\<close>

datatype view_mode = ReadMode | LinesMode

record diff_cursor =
  dc_file :: nat
  dc_hunk :: nat

record diff_view =
  dv_kind :: "diff_kind option"
  dv_patch :: patch
  dv_rows :: "diff_row list"
  dv_anchors :: "anchor option list"
  dv_folded :: "nat set"
  dv_digits :: nat
  dv_scroll :: nat
  dv_cursor :: diff_cursor
  dv_picked :: "nat list"
  dv_line :: nat
  dv_mode :: view_mode
  dv_notice :: "string option"
  dv_view_rows :: nat

fun kind_mutable :: "diff_kind \<Rightarrow> bool" where
  "kind_mutable (DCommit _ _) = False"
| "kind_mutable _ = True"

fun kind_staged :: "diff_kind \<Rightarrow> bool" where
  "kind_staged (DStaged _) = True"
| "kind_staged _ = False"

definition relayout :: "diff_view \<Rightarrow> diff_view" where
  "relayout d =
     (let rs = render_rows (dv_patch d) (dv_folded d)
      in if rs = [] then d\<lparr>dv_patch := \<lparr>files = []\<rparr>, dv_anchors := [None], dv_rows := [RNote ''(no differences)'']\<rparr>
         else d\<lparr>dv_rows := map fst rs, dv_anchors := map snd rs\<rparr>)"

definition current_hunk :: "diff_view \<Rightarrow> hunk option" where
  "current_hunk d =
     (if dc_file (dv_cursor d) < length (files (dv_patch d))
      then let hs = hunks (files (dv_patch d) ! dc_file (dv_cursor d))
        in if dc_hunk (dv_cursor d) < length hs then Some (hs ! dc_hunk (dv_cursor d)) else None
      else None)"

definition changed_indices :: "diff_view \<Rightarrow> nat list" where
  "changed_indices d = (case current_hunk d of Some h \<Rightarrow> changed_line_indices h | None \<Rightarrow> [])"

definition clamp_cursor :: "diff_view \<Rightarrow> diff_view" where
  "clamp_cursor d =
     (if files (dv_patch d) = [] then d\<lparr>dv_cursor := \<lparr>dc_file = 0, dc_hunk = 0\<rparr>, dv_picked := [], dv_mode := ReadMode\<rparr>
      else
        let f = min (dc_file (dv_cursor d)) (length (files (dv_patch d)) - 1);
            n = length (hunks (files (dv_patch d) ! f));
            h = (if n = 0 then 0 else if dc_hunk (dv_cursor d) \<ge> n then n - 1 else dc_hunk (dv_cursor d));
            d = d\<lparr>dv_cursor := \<lparr>dc_file = f, dc_hunk = h\<rparr>\<rparr>;
            changed = length (changed_indices d);
            size = (case current_hunk d of Some k \<Rightarrow> length (h_lines k) | None \<Rightarrow> 0)
        in d\<lparr>dv_mode := (if changed = 0 then ReadMode else dv_mode d), dv_line := min (dv_line d) (changed - 1),
             dv_picked := filter (\<lambda>i. i < size) (dv_picked d), dv_scroll := min (dv_scroll d) (length (dv_rows d) - 1)\<rparr>)"

definition set_patch :: "string \<Rightarrow> diff_view \<Rightarrow> diff_view" where
  "set_patch text d =
     (let p = parse text in
       clamp_cursor (relayout (d\<lparr>dv_patch := p, dv_folded := {f \<in> dv_folded d. f < length (files p)},
         dv_digits := line_number_digits p\<rparr>)))"

definition default_view :: diff_view where
  "default_view = \<lparr>dv_kind = None, dv_patch = \<lparr>files = []\<rparr>, dv_rows = [], dv_anchors = [], dv_folded = {}, dv_digits = 0,
     dv_scroll = 0, dv_cursor = \<lparr>dc_file = 0, dc_hunk = 0\<rparr>, dv_picked = [], dv_line = 0, dv_mode = ReadMode,
     dv_notice = None, dv_view_rows = 0\<rparr>"

definition new_view :: "diff_kind \<Rightarrow> string \<Rightarrow> diff_view" where
  "new_view k text = set_patch text (default_view\<lparr>dv_kind := Some k, dv_view_rows := 24\<rparr>)"

section \<open>Where the cursor is drawn\<close>

definition page_rows :: "diff_view \<Rightarrow> nat" where "page_rows d = max (dv_view_rows d - 1) 1"

fun is_file_row :: "diff_row \<Rightarrow> bool" where
  "is_file_row (RFile _ _ _ _ _) = True"
| "is_file_row _ = False"

definition file_header_row :: "nat \<Rightarrow> diff_row list \<Rightarrow> nat option" where
  "file_header_row n rows =
     (let headers = filter (\<lambda>x. is_file_row (snd x)) (List.enumerate 0 rows)
      in if n < length headers then Some (fst (headers ! n)) else None)"

definition nth_option :: "nat list \<Rightarrow> nat \<Rightarrow> nat option" where
  "nth_option xs i = (if i < length xs then Some (xs ! i) else None)"

definition cursor_row :: "diff_view \<Rightarrow> nat option" where
  "cursor_row d =
     (let f = dc_file (dv_cursor d); h = dc_hunk (dv_cursor d);
          want = (case dv_mode d of LinesMode \<Rightarrow> nth_option (changed_indices d) (dv_line d) | ReadMode \<Rightarrow> None);
          row = (case want of
             Some l \<Rightarrow> position (\<lambda>a. a = Some (f, h, l)) (dv_anchors d)
           | None \<Rightarrow> map_option (\<lambda>i. i - 1) (position (\<lambda>a. \<exists>l. a = Some (f, h, l)) (dv_anchors d)))
      in case row of Some r \<Rightarrow> Some r | None \<Rightarrow> file_header_row f (dv_rows d))"

definition scroll_to_cursor :: "diff_view \<Rightarrow> diff_view" where
  "scroll_to_cursor d =
     (case cursor_row d of
        None \<Rightarrow> d
      | Some row \<Rightarrow>
          if row < dv_scroll d then d\<lparr>dv_scroll := row\<rparr>
          else if row \<ge> dv_scroll d + page_rows d then d\<lparr>dv_scroll := row + 1 - page_rows d\<rparr>
          else d)"

section \<open>Moving and picking\<close>

definition clamp_scroll :: "diff_view \<Rightarrow> diff_view" where
  "clamp_scroll d = d\<lparr>dv_scroll := min (dv_scroll d) (length (dv_rows d) - 1)\<rparr>"

definition toggle_fold :: "diff_view \<Rightarrow> diff_view" where
  "toggle_fold d =
     (if files (dv_patch d) = [] then d
      else let f = dc_file (dv_cursor d) in
        scroll_to_cursor (clamp_scroll (relayout
          (d\<lparr>dv_folded := (if f \<in> dv_folded d then dv_folded d - {f} else insert f (dv_folded d))\<rparr>))))"

definition toggle_fold_all :: "diff_view \<Rightarrow> diff_view" where
  "toggle_fold_all d =
     scroll_to_cursor (clamp_scroll (relayout
       (d\<lparr>dv_folded := (if card (dv_folded d) = length (files (dv_patch d)) then {} else {0..<length (files (dv_patch d))})\<rparr>)))"

definition moved :: "nat \<Rightarrow> int \<Rightarrow> nat \<Rightarrow> nat" where
  "moved i delta n = nat (max 0 (min (int i + delta) (int n - 1)))"

definition all_hunks :: "patch \<Rightarrow> diff_cursor list" where
  "all_hunks p = concat (map (\<lambda>(f, file). map (\<lambda>h. \<lparr>dc_file = f, dc_hunk = h\<rparr>) [0..<length (hunks file)])
     (List.enumerate 0 (files p)))"

definition step_hunk :: "int \<Rightarrow> diff_view \<Rightarrow> diff_view" where
  "step_hunk delta d =
     (let flat = all_hunks (dv_patch d) in
      if flat = [] then d
      else
        let i = (case position (\<lambda>c. c = dv_cursor d) flat of Some i \<Rightarrow> i | None \<Rightarrow> 0);
            c = flat ! moved i delta (length flat);
            d = d\<lparr>dv_cursor := c, dv_mode := ReadMode, dv_picked := [], dv_line := 0\<rparr>;
            d = (if dc_file c \<in> dv_folded d then relayout (d\<lparr>dv_folded := dv_folded d - {dc_file c}\<rparr>) else d)
        in scroll_to_cursor d)"

definition line_select :: "diff_view \<Rightarrow> diff_view" where
  "line_select d =
     (if changed_indices d = [] then d\<lparr>dv_notice := Some ''nothing to pick in this hunk''\<rparr>
      else scroll_to_cursor (d\<lparr>dv_mode := LinesMode, dv_line := 0, dv_picked := []\<rparr>))"

definition cancel_line_select :: "diff_view \<Rightarrow> diff_view" where
  "cancel_line_select d = d\<lparr>dv_mode := ReadMode, dv_picked := []\<rparr>"

definition step_line :: "int \<Rightarrow> diff_view \<Rightarrow> diff_view" where
  "step_line delta d =
     (let n = length (changed_indices d) in
      if n = 0 then d else scroll_to_cursor (d\<lparr>dv_line := moved (dv_line d) delta n\<rparr>))"

definition pick_line :: "diff_view \<Rightarrow> diff_view" where
  "pick_line d =
     step_line 1 (case nth_option (changed_indices d) (dv_line d) of
        Some i \<Rightarrow> (case position (\<lambda>p. p = i) (dv_picked d) of
            Some j \<Rightarrow> d\<lparr>dv_picked := remove_nth j (dv_picked d)\<rparr>
          | None \<Rightarrow> d\<lparr>dv_picked := dv_picked d @ [i]\<rparr>)
      | None \<Rightarrow> d)"

definition scroll_by :: "int \<Rightarrow> diff_view \<Rightarrow> diff_view" where
  "scroll_by delta d =
     d\<lparr>dv_scroll := nat (max 0 (min (int (dv_scroll d) + delta) (max (int (length (dv_rows d) - 1)) 0)))\<rparr>"

definition scroll_to_end :: "diff_view \<Rightarrow> diff_view" where
  "scroll_to_end d = d\<lparr>dv_scroll := length (dv_rows d) - 1\<rparr>"

text \<open>The patch to send, where it goes and whether it is turned round.\<close>

definition diff_selection :: "bool \<Rightarrow> diff_view \<Rightarrow> (string \<times> apply_target \<times> bool) option \<times> diff_view" where
  "diff_selection discard d =
     (let d = d\<lparr>dv_notice := None\<rparr> in
      case dv_kind d of
        None \<Rightarrow> (None, d)
      | Some k \<Rightarrow>
          if \<not> kind_mutable k then (None, d)
          else if discard \<and> kind_staged k then (None, d)
          else if dv_mode d = LinesMode \<and> dv_picked d = [] then (None, d\<lparr>dv_notice := Some ''no lines picked''\<rparr>)
          else
            let ls = (case dv_mode d of ReadMode \<Rightarrow> None | LinesMode \<Rightarrow> Some (sort (dv_picked d)))
            in case subset (dv_patch d) \<lparr>sel_file = dc_file (dv_cursor d), sel_hunk = dc_hunk (dv_cursor d), sel_lines = ls\<rparr> of
                 None \<Rightarrow> (None, d\<lparr>dv_notice := Some ''nothing to apply''\<rparr>)
               | Some patch \<Rightarrow> (Some (if discard then (patch, Worktree, True) else (patch, Index, kind_staged k)), d))"

section \<open>Keys and requests\<close>

text \<open>
  What a key asks of the workbench beyond the view: nothing, the way out of the diff, a request to apply the
  selection (to discard it, if true) or the diff read again. \<open>diff_page_key\<close> is \<open>handle_diff_key\<close> of the DIFF
  page, \<open>diff_body_key\<close> the part of \<open>handle_git_key\<close> for the body of the GIT page, with the height of its lists.
\<close>

datatype diff_flow = DiffStay | DiffLeave | DiffApply bool | DiffAgain diff_kind

definition diff_page_key :: "key_code \<Rightarrow> diff_view \<Rightarrow> diff_flow option \<times> diff_view" where
  "diff_page_key k d =
     (let page = int (page_rows d); picking = (dv_mode d = LinesMode) in
      if k = KEsc \<and> picking then (Some DiffStay, cancel_line_select d)
      else if k = KEsc \<or> k = KChar ''q'' then (Some DiffLeave, d)
      else if (k = KDown \<or> k = KChar ''j'') \<and> picking then (Some DiffStay, step_line 1 d)
      else if (k = KUp \<or> k = KChar ''k'') \<and> picking then (Some DiffStay, step_line (- 1) d)
      else if k = KDown \<or> k = KChar ''j'' then (Some DiffStay, scroll_by 1 d)
      else if k = KUp \<or> k = KChar ''k'' then (Some DiffStay, scroll_by (- 1) d)
      else if k = KPageDown then (Some DiffStay, scroll_by page d)
      else if k = KPageUp then (Some DiffStay, scroll_by (- page) d)
      else if k = KHome \<or> k = KChar ''g'' then (Some DiffStay, d\<lparr>dv_scroll := 0\<rparr>)
      else if k = KEnd \<or> k = KChar ''G'' then (Some DiffStay, scroll_to_end d)
      else if k = KChar '']'' then (Some DiffStay, step_hunk 1 d)
      else if k = KChar ''['' then (Some DiffStay, step_hunk (- 1) d)
      else if k = KChar ''v'' then (Some DiffStay, case dv_mode d of ReadMode \<Rightarrow> line_select d | LinesMode \<Rightarrow> cancel_line_select d)
      else if k = KChar '' '' \<and> picking then (Some DiffStay, pick_line d)
      else if k = KChar '' '' then (Some (DiffApply False), d)
      else if k = KEnter \<and> picking then (Some (DiffApply False), d)
      else if k = KChar ''x'' then (Some (DiffApply True), d)
      else if k = KChar ''r'' then (map_option DiffAgain (dv_kind d), d)
      else (None, d))"

definition diff_mutable :: "diff_view \<Rightarrow> bool" where
  "diff_mutable d = (case dv_kind d of None \<Rightarrow> False | Some k \<Rightarrow> kind_mutable k)"

definition diff_body_key :: "nat \<Rightarrow> key_code \<Rightarrow> diff_view \<Rightarrow> diff_flow option \<times> diff_view" where
  "diff_body_key height k d =
     (let page = int (max height 1); picking = (dv_mode d = LinesMode); mutable = diff_mutable d in
      if (k = KChar ''j'' \<or> k = KDown) \<and> picking then (Some DiffStay, step_line 1 d)
      else if (k = KChar ''k'' \<or> k = KUp) \<and> picking then (Some DiffStay, step_line (- 1) d)
      else if k = KChar ''j'' \<or> k = KDown then (Some DiffStay, scroll_by 1 d)
      else if k = KChar ''k'' \<or> k = KUp then (Some DiffStay, scroll_by (- 1) d)
      else if k = KPageDown then (Some DiffStay, scroll_by page d)
      else if k = KPageUp then (Some DiffStay, scroll_by (- page) d)
      else if k = KChar '']'' then (Some DiffStay, step_hunk 1 d)
      else if k = KChar ''['' then (Some DiffStay, step_hunk (- 1) d)
      else if k = KChar ''z'' then (Some DiffStay, toggle_fold d)
      else if k = KChar ''Z'' then (Some DiffStay, toggle_fold_all d)
      else if k = KChar '' '' \<and> mutable \<and> picking then (Some DiffStay, pick_line d)
      else if k = KChar '' '' \<and> mutable then (Some (DiffApply False), d)
      else if k = KEnter \<and> mutable \<and> picking then (Some (DiffApply False), d)
      else if k = KChar ''v'' \<and> mutable \<and> picking then (Some DiffStay, cancel_line_select d)
      else if k = KChar ''v'' \<and> mutable then (Some DiffStay, line_select d)
      else if k = KChar ''x'' \<and> mutable then (Some (DiffApply True), d)
      else if k = KEsc \<and> picking then (Some DiffStay, cancel_line_select d)
      else if k = KEsc then (Some DiffLeave, d)
      else (None, d))"

text \<open>What the last row of the diff offers.\<close>

definition diff_hints :: "diff_view \<Rightarrow> string" where
  "diff_hints d =
     (let fold = (if length (files (dv_patch d)) > 1 then ''   z fold'' else []);
          staged = (case dv_kind d of None \<Rightarrow> False | Some k \<Rightarrow> kind_staged k)
      in if \<not> diff_mutable d then ''] next hunk   [ prev hunk'' @ fold @ ''   r refresh   esc close''
         else case dv_mode d of
           ReadMode \<Rightarrow>
             ''] next hunk   [ prev hunk   '' @ (if staged then ''space unstage hunk'' else ''space stage hunk'')
             @ ''   v pick lines'' @ (if staged then [] else ''   x discard hunk'') @ fold @ ''   esc close''
         | LinesMode \<Rightarrow> ''j/k line   space pick   enter apply picked   v cancel   esc close'')"

definition diff_title :: "diff_kind \<Rightarrow> string" where
  "diff_title k = (case k of
     DUnstaged (Some p) \<Rightarrow> ''diff '' @ p
   | DUnstaged None \<Rightarrow> ''diff (unstaged)''
   | DStaged (Some p) \<Rightarrow> ''diff --staged '' @ p
   | DStaged None \<Rightarrow> ''diff --staged''
   | DCommit c summary \<Rightarrow> ''commit '' @ concat (take 7 (uchars c)) @ '' '' @ summary)"

text \<open>
  \<open>Flow::ApplyDiff\<close>: the selection is sent, and once the daemon has taken it the diff is read again. The daemon
  is the arguments \<open>apply\<close> and \<open>fetch\<close>; what they answer with \<open>Inl\<close> is shown.
\<close>

definition apply_flow ::
  "(string \<Rightarrow> apply_target \<Rightarrow> bool \<Rightarrow> string + unit) \<Rightarrow> (diff_kind \<Rightarrow> string + string) \<Rightarrow> bool \<Rightarrow> diff_view \<Rightarrow> diff_view" where
  "apply_flow apply fetch discard d =
     (case diff_selection discard d of
        (None, d) \<Rightarrow> d
      | (Some (patch, target, turned), d) \<Rightarrow>
          (case apply patch target turned of
             Inl e \<Rightarrow> d\<lparr>dv_notice := Some e\<rparr>
           | Inr _ \<Rightarrow>
               (let d = cancel_line_select d in
                case dv_kind d of
                  None \<Rightarrow> d
                | Some k \<Rightarrow>
                    (case fetch k of
                       Inl e \<Rightarrow> d\<lparr>dv_notice := Some (''refresh: '' @ e)\<rparr>
                     | Inr text \<Rightarrow> set_patch text d))))"

inductive diff_step :: "diff_view \<Rightarrow> diff_view \<Rightarrow> bool" where
  page_key: "diff_step d (snd (diff_page_key k d))"
| body_key: "diff_step d (snd (diff_body_key height k d))"
| applied: "diff_step d (apply_flow apply fetch discard d)"
| read_again: "diff_step d (set_patch text d)"
| wheel: "diff_step d (scroll_by delta d)"
| resized: "diff_step d (d\<lparr>dv_view_rows := n\<rparr>)"

inductive diff_reached :: "diff_view \<Rightarrow> bool" where
  opened: "diff_reached (new_view k text)"
| stepped: "diff_reached d \<Longrightarrow> diff_step d e \<Longrightarrow> diff_reached e"

section \<open>The cursor stays in the patch\<close>

definition laid_out :: "diff_view \<Rightarrow> bool" where
  "laid_out d \<longleftrightarrow> (if files (dv_patch d) = [] then dv_rows d = [RNote ''(no differences)''] \<and> dv_anchors d = [None]
     else dv_rows d = map fst (render_rows (dv_patch d) (dv_folded d)) \<and> dv_anchors d = map snd (render_rows (dv_patch d) (dv_folded d)))
   \<and> (\<forall>f \<in> dv_folded d. f < length (files (dv_patch d)))"

definition cursor_ok :: "diff_view \<Rightarrow> bool" where
  "cursor_ok d \<longleftrightarrow>
     (files (dv_patch d) \<noteq> [] \<longrightarrow> dc_file (dv_cursor d) < length (files (dv_patch d))
        \<and> (let hs = hunks (files (dv_patch d) ! dc_file (dv_cursor d)) in if hs = [] then dc_hunk (dv_cursor d) = 0 else dc_hunk (dv_cursor d) < length hs))
   \<and> (dv_mode d = LinesMode \<longrightarrow> dv_line d < length (changed_indices d))
   \<and> distinct (dv_picked d) \<and> (\<forall>i \<in> set (dv_picked d). \<exists>k. current_hunk d = Some k \<and> i < length (h_lines k))"

definition scroll_ok :: "diff_view \<Rightarrow> bool" where
  "scroll_ok d \<longleftrightarrow> (files (dv_patch d) \<noteq> [] \<longrightarrow> dv_scroll d < length (dv_rows d))"

definition diff_ok :: "diff_view \<Rightarrow> bool" where "diff_ok d \<longleftrightarrow> laid_out d \<and> cursor_ok d \<and> scroll_ok d"

lemma render_nonempty [simp]: "render_rows p folded = [] \<longleftrightarrow> files p = []"
  by (cases "files p") (auto simp: render_rows_def file_rows_def enumerate_simps)

lemma laid_out_lengths: "laid_out d \<Longrightarrow> length (dv_anchors d) = length (dv_rows d) \<and> dv_rows d \<noteq> []"
  by (auto simp: laid_out_def split: if_splits)

lemma laid_out_relayout: "\<forall>f \<in> dv_folded d. f < length (files (dv_patch d)) \<Longrightarrow> laid_out (relayout d)"
  by (auto simp: relayout_def laid_out_def Let_def)

lemma relayout_fields [simp]:
  "dv_patch (relayout d) = dv_patch d" "dv_folded (relayout d) = dv_folded d" "dv_cursor (relayout d) = dv_cursor d"
  "dv_picked (relayout d) = dv_picked d" "dv_line (relayout d) = dv_line d" "dv_mode (relayout d) = dv_mode d"
  "dv_scroll (relayout d) = dv_scroll d" "dv_kind (relayout d) = dv_kind d" "dv_view_rows (relayout d) = dv_view_rows d"
  by (auto simp: relayout_def Let_def intro: patch.equality)

lemma scroll_fields [simp]:
  "dv_patch (scroll_to_cursor d) = dv_patch d" "dv_folded (scroll_to_cursor d) = dv_folded d"
  "dv_cursor (scroll_to_cursor d) = dv_cursor d" "dv_picked (scroll_to_cursor d) = dv_picked d"
  "dv_line (scroll_to_cursor d) = dv_line d" "dv_mode (scroll_to_cursor d) = dv_mode d"
  "dv_rows (scroll_to_cursor d) = dv_rows d" "dv_anchors (scroll_to_cursor d) = dv_anchors d"
  "dv_kind (scroll_to_cursor d) = dv_kind d" "dv_view_rows (scroll_to_cursor d) = dv_view_rows d"
  by (auto simp: scroll_to_cursor_def split: option.splits)

lemma laid_out_cong:
  "dv_patch d = dv_patch e \<Longrightarrow> dv_folded d = dv_folded e \<Longrightarrow> dv_rows d = dv_rows e \<Longrightarrow> dv_anchors d = dv_anchors e \<Longrightarrow> laid_out d = laid_out e"
  by (simp add: laid_out_def)

lemma current_hunk_cong: "dv_patch d = dv_patch e \<Longrightarrow> dv_cursor d = dv_cursor e \<Longrightarrow> current_hunk d = current_hunk e"
  by (simp add: current_hunk_def Let_def)

lemma cursor_okI:
  assumes "files (dv_patch d) \<noteq> [] \<Longrightarrow> dc_file (dv_cursor d) < length (files (dv_patch d))"
    "files (dv_patch d) \<noteq> [] \<Longrightarrow> let hs = hunks (files (dv_patch d) ! dc_file (dv_cursor d)) in
       if hs = [] then dc_hunk (dv_cursor d) = 0 else dc_hunk (dv_cursor d) < length hs"
    "dv_mode d = LinesMode \<Longrightarrow> dv_line d < length (changed_indices d)"
    "distinct (dv_picked d)" "\<And>i. i \<in> set (dv_picked d) \<Longrightarrow> \<exists>k. current_hunk d = Some k \<and> i < length (h_lines k)"
  shows "cursor_ok d"
  using assms unfolding cursor_ok_def by blast

lemma cursor_ok_cong:
  assumes "dv_patch d = dv_patch e" "dv_cursor d = dv_cursor e" "dv_mode d = dv_mode e" "dv_line d = dv_line e" "dv_picked d = dv_picked e"
  shows "cursor_ok d = cursor_ok e"
  using assms current_hunk_cong [OF assms(1,2)] by (simp add: cursor_ok_def changed_indices_def)

lemma position_bound: "position P xs = Some i \<Longrightarrow> i < length xs"
  by (simp add: position_Some_iff)

lemma file_header_row_bound: "file_header_row n rows = Some i \<Longrightarrow> i < length rows"
proof -
  let ?xs = "filter (\<lambda>x. is_file_row (snd x)) (List.enumerate 0 rows)"
  assume "file_header_row n rows = Some i"
  then have n: "n < length ?xs" "i = fst (?xs ! n)" by (auto simp: file_header_row_def Let_def split: if_splits)
  have "?xs ! n \<in> set (List.enumerate 0 rows)" using nth_mem [OF n(1)] by (simp only: set_filter mem_Collect_eq)
  then show ?thesis using n(2) by (auto simp: in_set_enumerate_eq)
qed

lemma cursor_row_bound:
  assumes "laid_out d" "cursor_row d = Some r"
  shows "r < length (dv_rows d)"
  using assms laid_out_lengths [OF assms(1)] position_bound file_header_row_bound
  by (fastforce simp: cursor_row_def Let_def split: option.splits)

lemma scroll_ok_scroll: "laid_out d \<Longrightarrow> scroll_ok d \<Longrightarrow> scroll_ok (scroll_to_cursor d)"
  using cursor_row_bound [of d]
  by (fastforce simp: scroll_ok_def scroll_to_cursor_def page_rows_def split: option.splits)

lemma scroll_to_cursor_ok: "laid_out d \<Longrightarrow> cursor_ok d \<Longrightarrow> scroll_ok d \<Longrightarrow> diff_ok (scroll_to_cursor d)"
  using laid_out_cong [of "scroll_to_cursor d" d] cursor_ok_cong [of "scroll_to_cursor d" d] scroll_ok_scroll
  by (simp add: diff_ok_def)

lemma scroll_ok_clamp: "laid_out d \<Longrightarrow> scroll_ok (clamp_scroll d)"
  using laid_out_lengths [of d] by (cases "dv_rows d") (auto simp: scroll_ok_def clamp_scroll_def)

lemma clamp_scroll_fields [simp]:
  "dv_patch (clamp_scroll d) = dv_patch d" "dv_folded (clamp_scroll d) = dv_folded d"
  "dv_cursor (clamp_scroll d) = dv_cursor d" "dv_picked (clamp_scroll d) = dv_picked d"
  "dv_line (clamp_scroll d) = dv_line d" "dv_mode (clamp_scroll d) = dv_mode d"
  "dv_rows (clamp_scroll d) = dv_rows d" "dv_anchors (clamp_scroll d) = dv_anchors d"
  by (simp_all add: clamp_scroll_def)

lemma refold_ok:
  assumes "cursor_ok d" "dv_patch e = dv_patch d" "dv_cursor e = dv_cursor d" "dv_mode e = dv_mode d" "dv_line e = dv_line d"
    "dv_picked e = dv_picked d" "\<forall>f \<in> dv_folded e. f < length (files (dv_patch e))"
  shows "diff_ok (scroll_to_cursor (clamp_scroll (relayout e)))"
proof (rule scroll_to_cursor_ok)
  have l: "laid_out (relayout e)" by (rule laid_out_relayout [OF assms(7)])
  show "laid_out (clamp_scroll (relayout e))" using laid_out_cong [of "clamp_scroll (relayout e)" "relayout e"] l by simp
  show "cursor_ok (clamp_scroll (relayout e))" using cursor_ok_cong [of "clamp_scroll (relayout e)" d] assms by simp
  show "scroll_ok (clamp_scroll (relayout e))" by (rule scroll_ok_clamp [OF l])
qed

lemma toggle_fold_ok:
  assumes "diff_ok d" shows "diff_ok (toggle_fold d)"
proof (cases "files (dv_patch d) = []")
  case False
  then show ?thesis
    using assms unfolding toggle_fold_def Let_def
    by (simp only: if_False, intro refold_ok [of d]) (auto simp: diff_ok_def laid_out_def cursor_ok_def)
qed (use assms in \<open>simp add: toggle_fold_def\<close>)

lemma toggle_fold_all_ok: "diff_ok d \<Longrightarrow> diff_ok (toggle_fold_all d)"
  unfolding toggle_fold_all_def by (rule refold_ok [of d]) (auto simp: diff_ok_def)

lemma moved_bound: "0 < n \<Longrightarrow> moved i delta n < n"
  by (auto simp: moved_def)

lemma all_hunks_mem: "c \<in> set (all_hunks p) \<longleftrightarrow> dc_file c < length (files p) \<and> dc_hunk c < length (hunks (files p ! dc_file c))"
proof -
  have "c \<in> set (all_hunks p) \<longleftrightarrow> (\<exists>f < length (files p). \<exists>h < length (hunks (files p ! f)). c = \<lparr>dc_file = f, dc_hunk = h\<rparr>)"
    by (auto simp: all_hunks_def in_set_enumerate_eq) (force simp: in_set_enumerate_eq)
  also have "\<dots> \<longleftrightarrow> dc_file c < length (files p) \<and> dc_hunk c < length (hunks (files p ! dc_file c))"
    by (cases c) auto
  finally show ?thesis .
qed

text \<open>The view after the move of \<open>step_hunk\<close>, before it is scrolled.\<close>

definition at_hunk :: "diff_cursor \<Rightarrow> diff_view \<Rightarrow> diff_view" where
  "at_hunk c d =
     (let d = d\<lparr>dv_cursor := c, dv_mode := ReadMode, dv_picked := [], dv_line := 0\<rparr>
      in if dc_file c \<in> dv_folded d then relayout (d\<lparr>dv_folded := dv_folded d - {dc_file c}\<rparr>) else d)"

lemma step_hunk_at:
  "step_hunk delta d = (let flat = all_hunks (dv_patch d) in if flat = [] then d
     else scroll_to_cursor (at_hunk (flat ! moved (case position (\<lambda>c. c = dv_cursor d) flat of Some i \<Rightarrow> i | None \<Rightarrow> 0) delta (length flat)) d))"
  by (simp add: step_hunk_def at_hunk_def Let_def)

lemma render_more:
  "length (render_rows p folded) \<le> length (render_rows p (folded - {f}))"
proof -
  have one: "length (file_rows folded i fp) \<le> length (file_rows (folded - {f}) i fp)" for i fp
    by (auto simp: file_rows_def)
  have "length (concat (map (\<lambda>(i, fp). file_rows folded i fp) xs)) \<le> length (concat (map (\<lambda>(i, fp). file_rows (folded - {f}) i fp) xs))" for xs
  proof (induction xs)
    case (Cons x xs)
    obtain i fp where "x = (i, fp)" by (cases x)
    then show ?case using one [of i fp] Cons.IH by simp
  qed simp
  then show ?thesis by (simp add: render_rows_def)
qed

lemma at_hunk_ok:
  assumes d: "diff_ok d" and c: "c \<in> set (all_hunks (dv_patch d))"
  shows "laid_out (at_hunk c d)" "cursor_ok (at_hunk c d)" "scroll_ok (at_hunk c d)" "dc_file c \<notin> dv_folded (at_hunk c d)"
    "dv_cursor (at_hunk c d) = c" "dv_mode (at_hunk c d) = ReadMode" "dv_patch (at_hunk c d) = dv_patch d"
proof -
  let ?e = "d\<lparr>dv_cursor := c, dv_mode := ReadMode, dv_picked := [], dv_line := 0\<rparr>"
  let ?r = "relayout (?e\<lparr>dv_folded := dv_folded ?e - {dc_file c}\<rparr>)"
  have l: "laid_out d" "\<forall>f \<in> dv_folded d. f < length (files (dv_patch d))" "files (dv_patch d) \<noteq> []"
    using d c by (auto simp: diff_ok_def laid_out_def all_hunks_mem)
  have le: "laid_out ?e" using laid_out_cong [of ?e d] l(1) by simp
  have lr: "laid_out ?r" by (rule laid_out_relayout) (use l(2) in auto)
  show "laid_out (at_hunk c d)" using le lr by (simp add: at_hunk_def Let_def)
  have f: "dv_cursor (at_hunk c d) = c" "dv_mode (at_hunk c d) = ReadMode" "dv_patch (at_hunk c d) = dv_patch d"
    "dv_picked (at_hunk c d) = []" by (simp_all add: at_hunk_def Let_def)
  then show "dv_cursor (at_hunk c d) = c" "dv_mode (at_hunk c d) = ReadMode" "dv_patch (at_hunk c d) = dv_patch d" by simp_all
  show "cursor_ok (at_hunk c d)" using c by (auto simp: cursor_ok_def f all_hunks_mem Let_def)
  show "dc_file c \<notin> dv_folded (at_hunk c d)" by (simp add: at_hunk_def Let_def)
  have "length (dv_rows d) \<le> length (dv_rows ?r)"
    using l lr render_more [of "dv_patch d" "dv_folded d" "dc_file c"] by (simp add: laid_out_def)
  then show "scroll_ok (at_hunk c d)" using d by (auto simp: at_hunk_def diff_ok_def scroll_ok_def Let_def)
qed

lemma step_hunk_ok:
  assumes "diff_ok d" shows "diff_ok (step_hunk delta d)"
proof (cases "all_hunks (dv_patch d) = []")
  case False
  let ?flat = "all_hunks (dv_patch d)"
  have "?flat ! moved i delta (length ?flat) \<in> set ?flat" for i
    using moved_bound [of "length ?flat"] False by (intro nth_mem) simp
  then show ?thesis
    using at_hunk_ok [OF assms] False by (simp add: step_hunk_at Let_def scroll_to_cursor_ok)
qed (simp add: step_hunk_def assms)

lemma line_select_ok: "diff_ok d \<Longrightarrow> diff_ok (line_select d)"
proof -
  assume d: "diff_ok d"
  let ?e = "d\<lparr>dv_mode := LinesMode, dv_line := 0, dv_picked := []\<rparr>" and ?n = "d\<lparr>dv_notice := Some ''nothing to pick in this hunk''\<rparr>"
  have "current_hunk ?e = current_hunk d" by (rule current_hunk_cong) simp_all
  then have i: "changed_indices ?e = changed_indices d" by (simp add: changed_indices_def)
  have "laid_out ?e" "laid_out ?n" using laid_out_cong [of ?e d] laid_out_cong [of ?n d] d by (simp_all add: diff_ok_def)
  moreover have "cursor_ok ?n" using cursor_ok_cong [of ?n d] d by (simp add: diff_ok_def)
  moreover have "changed_indices d \<noteq> [] \<Longrightarrow> cursor_ok ?e" using d by (simp add: cursor_ok_def i diff_ok_def Let_def)
  moreover have "scroll_ok ?e" "scroll_ok ?n" using d by (simp_all add: diff_ok_def scroll_ok_def)
  ultimately show ?thesis by (auto simp: line_select_def diff_ok_def [of ?n] intro!: scroll_to_cursor_ok)
qed

lemma plain_change_ok:
  assumes "diff_ok d" "dv_patch e = dv_patch d" "dv_folded e = dv_folded d" "dv_rows e = dv_rows d" "dv_anchors e = dv_anchors d"
    "dv_cursor e = dv_cursor d" "cursor_ok e" "scroll_ok e"
  shows "diff_ok e"
  using assms laid_out_cong [of e d] by (simp add: diff_ok_def)

lemma cancel_ok: "diff_ok d \<Longrightarrow> diff_ok (cancel_line_select d)"
  by (rule plain_change_ok [of d]) (auto simp: cancel_line_select_def diff_ok_def cursor_ok_def scroll_ok_def Let_def)

lemma step_line_ok:
  assumes "diff_ok d" shows "diff_ok (step_line delta d)"
proof (cases "changed_indices d = []")
  case False
  let ?e = "d\<lparr>dv_line := moved (dv_line d) delta (length (changed_indices d))\<rparr>"
  have c: "current_hunk ?e = current_hunk d" by (rule current_hunk_cong) simp_all
  then have i: "changed_indices ?e = changed_indices d" by (simp add: changed_indices_def)
  have "laid_out ?e" "scroll_ok ?e" using assms laid_out_cong [of ?e d] by (simp_all add: diff_ok_def scroll_ok_def)
  moreover have "cursor_ok ?e" using assms moved_bound [of "length (changed_indices d)"] False
    by (simp add: diff_ok_def cursor_ok_def i c Let_def)
  ultimately show ?thesis using False by (simp add: step_line_def Let_def scroll_to_cursor_ok)
qed (simp add: step_line_def assms)

lemma changed_index_bound: "i \<in> set (changed_line_indices h) \<Longrightarrow> i < length (h_lines h)"
  by (auto simp: changed_line_indices_def in_set_enumerate_eq)

lemma set_remove_nth: "distinct xs \<Longrightarrow> i < length xs \<Longrightarrow> distinct (remove_nth i xs) \<and> set (remove_nth i xs) = set xs - {xs ! i}"
proof (induction xs arbitrary: i)
  case (Cons x xs)
  then show ?case by (cases i) auto
qed simp

lemma picked_change_ok:
  assumes d: "diff_ok d" and p: "distinct ps" "\<forall>i \<in> set ps. i \<in> set (dv_picked d) \<or> i \<in> set (changed_indices d)"
  shows "diff_ok (d\<lparr>dv_picked := ps\<rparr>)"
proof (rule plain_change_ok [OF d])
  let ?e = "d\<lparr>dv_picked := ps\<rparr>"
  have c: "current_hunk ?e = current_hunk d" by (rule current_hunk_cong) simp_all
  then have i: "changed_indices ?e = changed_indices d" by (simp add: changed_indices_def)
  have "i \<in> set (changed_indices d) \<Longrightarrow> \<exists>k. current_hunk d = Some k \<and> i < length (h_lines k)" for i
    using changed_index_bound by (cases "current_hunk d") (auto simp: changed_indices_def)
  then show "cursor_ok ?e" using d p by (auto simp: diff_ok_def cursor_ok_def i c Let_def)
  show "scroll_ok ?e" using d by (simp add: diff_ok_def scroll_ok_def)
qed simp_all

lemma nth_option_mem: "nth_option xs i = Some x \<Longrightarrow> x \<in> set xs"
  by (auto simp: nth_option_def split: if_splits)

lemma pick_line_ok:
  assumes "diff_ok d" shows "diff_ok (pick_line d)"
proof -
  have dis: "distinct (dv_picked d)" using assms by (simp add: diff_ok_def cursor_ok_def)
  have "diff_ok (case nth_option (changed_indices d) (dv_line d) of
      Some i \<Rightarrow> (case position (\<lambda>p. p = i) (dv_picked d) of
          Some j \<Rightarrow> d\<lparr>dv_picked := remove_nth j (dv_picked d)\<rparr>
        | None \<Rightarrow> d\<lparr>dv_picked := dv_picked d @ [i]\<rparr>)
    | None \<Rightarrow> d)" (is "diff_ok ?e")
  proof (cases "nth_option (changed_indices d) (dv_line d)")
    case (Some i)
    show ?thesis
    proof (cases "position (\<lambda>p. p = i) (dv_picked d)")
      case None
      have "i \<notin> set (dv_picked d)" using None by auto
      then have "diff_ok (d\<lparr>dv_picked := dv_picked d @ [i]\<rparr>)"
        using nth_option_mem [OF Some] dis by (intro picked_change_ok [OF assms]) auto
      then show ?thesis by (simp only: Some None option.case)
    next
      case (Some j)
      have "diff_ok (d\<lparr>dv_picked := remove_nth j (dv_picked d)\<rparr>)"
        using set_remove_nth [OF dis position_bound [OF Some]] by (intro picked_change_ok [OF assms]) auto
      then show ?thesis using \<open>nth_option _ _ = Some i\<close> Some by simp
    qed
  qed (simp add: assms)
  then show ?thesis unfolding pick_line_def by (rule step_line_ok)
qed

lemma same_cursor_ok:
  assumes "diff_ok d" "dv_patch e = dv_patch d" "dv_folded e = dv_folded d" "dv_rows e = dv_rows d" "dv_anchors e = dv_anchors d"
    "dv_cursor e = dv_cursor d" "dv_mode e = dv_mode d" "dv_line e = dv_line d" "dv_picked e = dv_picked d" "scroll_ok e"
  shows "diff_ok e"
proof -
  have "laid_out e" using laid_out_cong [OF assms(2,3,4,5)] assms(1) by (simp add: diff_ok_def)
  moreover have "cursor_ok e" using cursor_ok_cong [OF assms(2,6,7,8,9)] assms(1) by (simp add: diff_ok_def)
  ultimately show ?thesis using assms(10) by (simp add: diff_ok_def)
qed

lemma scroll_change_ok: "diff_ok d \<Longrightarrow> s < length (dv_rows d) \<Longrightarrow> diff_ok (d\<lparr>dv_scroll := s\<rparr>)"
  by (rule same_cursor_ok [of d]) (simp_all add: scroll_ok_def)

lemma rows_nonempty: "diff_ok d \<Longrightarrow> 0 < length (dv_rows d)"
  using laid_out_lengths [of d] by (simp add: diff_ok_def)

lemma scroll_by_ok: "diff_ok d \<Longrightarrow> diff_ok (scroll_by delta d)"
proof -
  assume d: "diff_ok d"
  have "nat (max 0 (min x (max (int (n - 1)) 0))) < n" if "0 < n" for x and n :: nat using that by linarith
  from this [OF rows_nonempty [OF d]] show ?thesis unfolding scroll_by_def by (rule scroll_change_ok [OF d])
qed

definition renotified :: "diff_view \<Rightarrow> diff_view \<Rightarrow> bool" where
  "renotified d e \<longleftrightarrow> (\<exists>n. e = d\<lparr>dv_notice := n\<rparr>)"

lemma selection_view: "renotified d (snd (diff_selection discard d))"
proof -
  have u: "renotified d (d\<lparr>dv_notice := n\<rparr>)" for n by (auto simp: renotified_def)
  show ?thesis unfolding diff_selection_def Let_def by (simp add: u split: option.split)
qed

lemma notice_ok: "diff_ok d \<Longrightarrow> diff_ok (d\<lparr>dv_notice := n\<rparr>)"
  by (rule same_cursor_ok [of d]) (simp_all add: diff_ok_def scroll_ok_def)

lemma view_rows_ok: "diff_ok d \<Longrightarrow> diff_ok (d\<lparr>dv_view_rows := n\<rparr>)"
  by (rule same_cursor_ok [of d]) (simp_all add: diff_ok_def scroll_ok_def)

text \<open>Reading the patch again brings the cursor back into it, wherever it was.\<close>

lemma clamp_cursor_ok:
  assumes l: "laid_out d" and p: "distinct (dv_picked d)"
  shows "diff_ok (clamp_cursor d)"
proof (cases "files (dv_patch d) = []")
  case True
  let ?e = "d\<lparr>dv_cursor := \<lparr>dc_file = 0, dc_hunk = 0\<rparr>, dv_picked := [], dv_mode := ReadMode\<rparr>"
  have e: "clamp_cursor d = ?e" using True by (simp add: clamp_cursor_def)
  show ?thesis unfolding e using True laid_out_cong [of ?e d] l by (simp add: diff_ok_def cursor_ok_def scroll_ok_def)
next
  case False
  define f where "f = min (dc_file (dv_cursor d)) (length (files (dv_patch d)) - 1)"
  define n where "n = length (hunks (files (dv_patch d) ! f))"
  define h where "h = (if n = 0 then 0 else if dc_hunk (dv_cursor d) \<ge> n then n - 1 else dc_hunk (dv_cursor d))"
  define m where "m = d\<lparr>dv_cursor := \<lparr>dc_file = f, dc_hunk = h\<rparr>\<rparr>"
  define size where "size = (case current_hunk m of Some k \<Rightarrow> length (h_lines k) | None \<Rightarrow> 0)"
  let ?e = "m\<lparr>dv_mode := (if length (changed_indices m) = 0 then ReadMode else dv_mode m), dv_line := min (dv_line m) (length (changed_indices m) - 1),
    dv_picked := filter (\<lambda>i. i < size) (dv_picked m), dv_scroll := min (dv_scroll m) (length (dv_rows m) - 1)\<rparr>"
  have e: "clamp_cursor d = ?e" using False unfolding clamp_cursor_def Let_def size_def m_def h_def n_def f_def
    by (simp only: if_False)
  have c: "current_hunk ?e = current_hunk m" by (rule current_hunk_cong) simp_all
  then have i: "changed_indices ?e = changed_indices m" by (simp add: changed_indices_def)
  have f: "f < length (files (dv_patch d))" using False by (cases "files (dv_patch d)") (auto simp: f_def)
  have h: "let hs = hunks (files (dv_patch d) ! f) in if hs = [] then h = 0 else h < length hs"
    by (cases "hunks (files (dv_patch d) ! f)") (simp_all add: Let_def h_def n_def)
  have size: "\<exists>k. current_hunk m = Some k \<and> j < length (h_lines k)" if "j < size" for j
    using that by (cases "current_hunk m") (auto simp: size_def)
  have m: "dv_patch m = dv_patch d" "dv_cursor m = \<lparr>dc_file = f, dc_hunk = h\<rparr>" "dv_picked m = dv_picked d" "dv_rows m = dv_rows d"
    by (simp_all add: m_def)
  have line: "changed_indices m \<noteq> [] \<Longrightarrow> min (dv_line m) (length (changed_indices m) - 1) < length (changed_indices m)"
    by (cases "changed_indices m") auto
  have "cursor_ok ?e"
    using f h line size p by (intro cursor_okI) (simp_all only: i c, simp_all add: m Let_def split: if_splits)
  moreover have "laid_out ?e" using laid_out_cong [of ?e d] l by (simp add: m_def)
  moreover have "scroll_ok ?e" using laid_out_lengths [OF l] by (cases "dv_rows d") (auto simp: scroll_ok_def m)
  ultimately show ?thesis unfolding e diff_ok_def by blast
qed

lemma set_patch_ok: "distinct (dv_picked d) \<Longrightarrow> diff_ok (set_patch text d)"
  unfolding set_patch_def Let_def by (intro clamp_cursor_ok laid_out_relayout) auto

lemma scroll_to_end_ok: "diff_ok d \<Longrightarrow> diff_ok (scroll_to_end d)"
  unfolding scroll_to_end_def by (intro scroll_change_ok) (use rows_nonempty [of d] in auto)

lemma scroll_to_top_ok: "diff_ok d \<Longrightarrow> diff_ok (d\<lparr>dv_scroll := 0\<rparr>)"
  by (intro scroll_change_ok) (use rows_nonempty [of d] in auto)

lemmas diff_operations_ok = toggle_fold_ok toggle_fold_all_ok step_hunk_ok line_select_ok cancel_ok step_line_ok pick_line_ok scroll_by_ok
  scroll_to_end_ok scroll_to_top_ok

lemma page_key_ok: "diff_ok d \<Longrightarrow> diff_ok (snd (diff_page_key k d))"
  unfolding diff_page_key_def Let_def by (simp add: diff_operations_ok split: view_mode.split)

lemma body_key_ok: "diff_ok d \<Longrightarrow> diff_ok (snd (diff_body_key height k d))"
  unfolding diff_body_key_def Let_def by (simp add: diff_operations_ok)

lemma apply_flow_ok:
  assumes "diff_ok d" shows "diff_ok (apply_flow apply fetch discard d)"
proof -
  obtain a e where s: "diff_selection discard d = (a, e)" by (cases "diff_selection discard d")
  have e: "diff_ok e" using selection_view [of d discard] assms by (auto simp: s renotified_def intro: notice_ok)
  have c: "diff_ok (cancel_line_select e)" "distinct (dv_picked (cancel_line_select e))"
    using cancel_ok [OF e] by (simp_all add: cancel_line_select_def)
  show ?thesis unfolding apply_flow_def s Let_def
    by (simp add: e c notice_ok set_patch_ok split: option.split sum.split)
qed

lemma diff_step_ok: "diff_step d e \<Longrightarrow> diff_ok d \<Longrightarrow> diff_ok e"
proof (induction rule: diff_step.induct)
  case (read_again d t)
  then show ?case by (intro set_patch_ok) (simp add: diff_ok_def cursor_ok_def)
qed (simp_all add: page_key_ok body_key_ok apply_flow_ok scroll_by_ok view_rows_ok)

lemma diff_reached_ok: "diff_reached d \<Longrightarrow> diff_ok d"
  by (induction rule: diff_reached.induct) (auto simp: new_view_def default_view_def intro: set_patch_ok diff_step_ok)

section \<open>What a row says\<close>

text \<open>Where the first element of a list is that satisfies a test, past a part where none does.\<close>

lemma position_skip: "\<forall>y \<in> set xs. \<not> P y \<Longrightarrow> position P (xs @ ys) = map_option ((+) (length xs)) (position P ys)"
  by (induction xs; cases "position P ys") (simp_all add: option.map_comp comp_def del: position_None_iff)

lemma position_keep: "position P xs = Some i \<Longrightarrow> position P (xs @ ys) = Some i"
  by (auto simp: position_Some_iff nth_append)

lemma concat_enumerate_split:
  assumes "i < length xs"
  shows "concat (map g (List.enumerate n xs)) =
    concat (map g (List.enumerate n (take i xs))) @ g (n + i, xs ! i) @ concat (map g (List.enumerate (Suc (n + i)) (drop (Suc i) xs)))"
proof -
  have "List.enumerate n xs = List.enumerate n (take i xs @ xs ! i # drop (Suc i) xs)"
    using id_take_nth_drop [OF assms] by simp
  then show ?thesis using assms by (simp add: enumerate_append_eq)
qed

lemma line_rows_anchors: "map snd (line_rows f h i x y ls) = map (\<lambda>l. Some (f, h, l)) [i..<i + length ls]"
proof (induction ls arbitrary: i x y)
  case (Cons l ls)
  have "[i..<i + length (l # ls)] = i # [Suc i..<Suc i + length ls]" by (simp add: upt_conv_Cons del: upt_Suc)
  then show ?case using Cons.IH by (simp split: prod.split)
qed simp

lemma line_rows_length [simp]: "length (line_rows f h i x y ls) = length ls"
  using arg_cong [OF line_rows_anchors, of length f h i x y ls] by simp

definition line_number :: "(origin \<Rightarrow> bool) \<Rightarrow> nat \<Rightarrow> hunk_line list \<Rightarrow> nat \<Rightarrow> nat option" where
  "line_number side start ls j =
     (if side (l_origin (ls ! j)) then Some (start + length (filter (\<lambda>l. side (l_origin l)) (take j ls))) else None)"

lemma line_rows_nth:
  "j < length ls \<Longrightarrow> fst (line_rows f h i x y ls ! j) =
     RLine (line_number in_old x ls j) (line_number in_new y ls j) (l_origin (ls ! j)) (l_text (ls ! j))"
proof (induction ls arbitrary: i x y j)
  case (Cons l ls)
  show ?case
  proof (cases j)
    case 0
    then show ?thesis by (cases "l_origin l") (simp_all add: line_number_def)
  next
    case (Suc m)
    then show ?thesis using Cons by (auto simp: line_number_def split: prod.split)
  qed
qed simp

lemma line_rows_plain: "filter (\<lambda>x. is_file_row (fst x)) (line_rows f h i x y ls) = []"
  by (induction ls arbitrary: i x y) (simp_all split: prod.split)

lemma in_pieces: "y \<in> set (concat (map (\<lambda>(i, x). g i x) (List.enumerate n xs))) \<longleftrightarrow> (\<exists>(i, x) \<in> set (List.enumerate n xs). y \<in> set (g i x))"
  by auto

lemma line_rows_anchor: "y \<in> snd ` set (line_rows f h i x z ls) \<Longrightarrow> \<exists>l. y = Some (f, h, l)"
proof -
  assume "y \<in> snd ` set (line_rows f h i x z ls)"
  then have "y \<in> set (map snd (line_rows f h i x z ls))" by simp
  then show ?thesis unfolding line_rows_anchors by auto
qed

lemma hunk_rows_anchor: "y \<in> snd ` set (hunk_rows f h k) \<Longrightarrow> y = None \<or> (\<exists>l. y = Some (f, h, l))"
  using line_rows_anchor [of y f h 0 "old_start k" "new_start k" "h_lines k"] by (auto simp: hunk_rows_def)

lemma file_rows_anchor: "y \<in> snd ` set (file_rows folded f fp) \<Longrightarrow> y = None \<or> (\<exists>h l. y = Some (f, h, l))"
proof -
  assume "y \<in> snd ` set (file_rows folded f fp)"
  then obtain r where r: "r \<in> set (file_rows folded f fp)" "y = snd r" by blast
  show ?thesis
  proof (cases "r \<in> set (concat (map (\<lambda>(h, k). hunk_rows f h k) (List.enumerate 0 (hunks fp))))")
    case True
    then obtain h k where "r \<in> set (hunk_rows f h k)" unfolding in_pieces by blast
    then show ?thesis using hunk_rows_anchor [of y f h k] imageI [of r _ snd] r(2) by blast
  next
    case False
    have "set (file_rows folded f fp) \<subseteq> {(RFile (file_label fp) (file_count fp Added) (file_count fp Removed) (file_note fp) (f \<in> folded), None), (RRule, None)}
        \<union> set (concat (map (\<lambda>(h, k). hunk_rows f h k) (List.enumerate 0 (hunks fp))))"
      unfolding file_rows_def set_append by (auto simp del: set_concat)
    then show ?thesis using False r by (auto simp del: set_concat)
  qed
qed

lemma hunk_rows_plain: "filter (\<lambda>x. is_file_row (fst x)) (hunk_rows f h k) = []"
  by (simp add: hunk_rows_def line_rows_plain)

lemma file_rows_header: "length (filter (\<lambda>x. is_file_row (fst x)) (file_rows folded f fp)) = 1"
proof -
  have "filter (\<lambda>x. is_file_row (fst x)) (concat (map (\<lambda>(h, k). hunk_rows f h k) xs)) = []" for xs
    by (induction xs) (auto simp: hunk_rows_plain split: prod.split)
  then show ?thesis by (simp add: file_rows_def)
qed

lemma headers_count:
  "length (filter (\<lambda>x. is_file_row (fst x)) (concat (map (\<lambda>(f, fp). file_rows folded f fp) (List.enumerate n fs)))) = length fs"
  by (induction fs arbitrary: n) (simp_all add: file_rows_header)

lemma file_at:
  assumes "f < length (files p)"
  obtains A B where "render_rows p folded = A @ file_rows folded f (files p ! f) @ B"
    "length (filter (\<lambda>x. is_file_row (fst x)) A) = f"
    "\<And>h l y. y \<in> set A \<Longrightarrow> snd y \<noteq> Some (f, h, l)"
proof
  let ?g = "\<lambda>(f, file). file_rows folded f file"
  let ?A = "concat (map ?g (List.enumerate 0 (take f (files p))))"
  show "render_rows p folded = ?A @ file_rows folded f (files p ! f) @ concat (map ?g (List.enumerate (Suc f) (drop (Suc f) (files p))))"
    using concat_enumerate_split [OF assms, of ?g 0] by (simp add: render_rows_def)
  show "length (filter (\<lambda>x. is_file_row (fst x)) ?A) = f" using assms by (simp add: headers_count)
  show "snd y \<noteq> Some (f, h, l)" if y: "y \<in> set ?A" for h l y
  proof
    obtain i fp where "(i, fp) \<in> set (List.enumerate 0 (take f (files p)))" "y \<in> set (file_rows folded i fp)"
      using y [unfolded in_pieces] by blast
    moreover assume "snd y = Some (f, h, l)"
    ultimately show False using file_rows_anchor [of "snd y" folded i fp] imageI [of y _ snd] by (auto simp: in_set_enumerate_eq)
  qed
qed

lemma hunk_at:
  assumes "f < length (files p)" "f \<notin> folded" "h < length (hunks (files p ! f))"
  obtains A B where "render_rows p folded = A @ hunk_rows f h (hunks (files p ! f) ! h) @ B"
    "\<And>l y. y \<in> set A \<Longrightarrow> snd y \<noteq> Some (f, h, l)"
proof -
  obtain A B where 1: "render_rows p folded = A @ file_rows folded f (files p ! f) @ B"
    "\<And>h l y. y \<in> set A \<Longrightarrow> snd y \<noteq> Some (f, h, l)" by (rule file_at [OF assms(1)]) blast
  let ?g = "\<lambda>(h, k). hunk_rows f h k" and ?hs = "hunks (files p ! f)"
  let ?C = "concat (map ?g (List.enumerate 0 (take h ?hs)))"
  obtain H where 2: "file_rows folded f (files p ! f) = H @ concat (map ?g (List.enumerate 0 ?hs))" "snd ` set H = {None}"
    using assms(2) by (auto simp: file_rows_def)
  obtain D where D: "concat (map ?g (List.enumerate 0 ?hs)) = ?C @ hunk_rows f h (?hs ! h) @ D"
    using concat_enumerate_split [OF assms(3), of ?g 0] by simp
  have C: "snd y \<noteq> Some (f, h, l)" if y: "y \<in> set ?C" for l y
  proof
    obtain i k where "(i, k) \<in> set (List.enumerate 0 (take h ?hs))" "y \<in> set (hunk_rows f i k)"
      using y [unfolded in_pieces] by blast
    moreover assume "snd y = Some (f, h, l)"
    ultimately show False using hunk_rows_anchor [of "snd y" f i k] imageI [of y _ snd] by (auto simp: in_set_enumerate_eq)
  qed
  have H: "snd y \<noteq> Some (f, h, l)" if "y \<in> set H" for l y using 2(2) that by (metis empty_iff imageI insert_iff option.distinct(1))
  show ?thesis
  proof (rule that)
    show "render_rows p folded = (A @ H @ ?C) @ hunk_rows f h (?hs ! h) @ D @ B" by (simp add: 1 2 D)
    show "snd y \<noteq> Some (f, h, l)" if "y \<in> set (A @ H @ ?C)" for l y
      using that 1(2) C H unfolding set_append by blast
  qed
qed

text \<open>The row of the cursor, in the three cases the source tells apart.\<close>

definition headed :: "diff_view \<Rightarrow> diff_row \<Rightarrow> bool" where
  "headed d r \<longleftrightarrow> (let f = dc_file (dv_cursor d); fp = files (dv_patch d) ! f
     in r = RFile (file_label fp) (file_count fp Added) (file_count fp Removed) (file_note fp) (f \<in> dv_folded d))"

lemma header_row_at:
  assumes "laid_out d" "dc_file (dv_cursor d) < length (files (dv_patch d))"
  shows "\<exists>r. file_header_row (dc_file (dv_cursor d)) (dv_rows d) = Some r \<and> r < length (dv_rows d) \<and> headed d (dv_rows d ! r)"
proof -
  let ?f = "dc_file (dv_cursor d)"
  obtain A B where 1: "render_rows (dv_patch d) (dv_folded d) = A @ file_rows (dv_folded d) ?f (files (dv_patch d) ! ?f) @ B"
    "length (filter (\<lambda>x. is_file_row (fst x)) A) = ?f" by (rule file_at [OF assms(2)]) blast
  then obtain hd C where 2: "render_rows (dv_patch d) (dv_folded d) = A @ (hd, None) # C" "headed d hd" "is_file_row hd"
    by (auto simp: file_rows_def headed_def Let_def)
  have rows: "dv_rows d = map fst A @ hd # map fst C" using assms 2(1) by (auto simp: laid_out_def split: if_splits)
  have n: "length (filter (\<lambda>x. is_file_row (snd x)) (List.enumerate n (map fst A))) = ?f" for n
  proof -
    have "length (filter (\<lambda>x. is_file_row (snd x)) (List.enumerate n xs)) = length (filter is_file_row xs)" for xs
      by (induction xs arbitrary: n) auto
    then show ?thesis using 1(2) by (simp add: filter_map comp_def)
  qed
  have "file_header_row ?f (dv_rows d) = Some (length A)"
    using 2(3) n [of 0] by (simp add: file_header_row_def rows enumerate_append_eq nth_append)
  then show ?thesis using 2(2) by (simp add: rows nth_append)
qed

lemma anchor_in_file:
  "(r, Some (f, h, l)) \<in> set (file_rows folded i fp) \<Longrightarrow>
   i = f \<and> f \<notin> folded \<and> h < length (hunks fp) \<and> l < length (h_lines (hunks fp ! h))"
proof -
  assume r: "(r, Some (f, h, l)) \<in> set (file_rows folded i fp)"
  have i: "i = f" using file_rows_anchor [of "Some (f, h, l)" folded i fp] imageI [OF r, of snd] by simp
  have "(r, Some (f, h, l)) \<in> set (concat (map (\<lambda>(h, k). hunk_rows f h k) (List.enumerate 0 (hunks fp)))) \<and> f \<notin> folded"
    using r unfolding i file_rows_def set_append by (simp del: set_concat split: if_splits)
  then obtain j k where j: "(j, k) \<in> set (List.enumerate 0 (hunks fp))" "(r, Some (f, h, l)) \<in> set (hunk_rows f j k)" "f \<notin> folded"
    unfolding in_pieces by blast
  have "j = h" using hunk_rows_anchor [of "Some (f, h, l)" f j k] imageI [OF j(2), of snd] by simp
  have "(r, Some (f, h, l)) \<in> set (line_rows f j 0 (old_start k) (new_start k) (h_lines k))"
    using j(2) by (simp add: hunk_rows_def)
  from imageI [OF this, of snd]
  have "Some (f, h, l) \<in> set (map snd (line_rows f j 0 (old_start k) (new_start k) (h_lines k)))" by simp
  then have "l < length (h_lines k)" unfolding line_rows_anchors by auto
  with \<open>j = h\<close> show ?thesis using i j by (auto simp: in_set_enumerate_eq)
qed

lemma anchors_free:
  assumes "laid_out d" "Some (f, h, l) \<in> set (dv_anchors d)"
  shows "f < length (files (dv_patch d)) \<and> f \<notin> dv_folded d \<and> h < length (hunks (files (dv_patch d) ! f))
    \<and> l < length (h_lines (hunks (files (dv_patch d) ! f) ! h))"
proof -
  obtain r where "(r, Some (f, h, l)) \<in> set (render_rows (dv_patch d) (dv_folded d))"
    using assms by (auto simp: laid_out_def split: if_splits)
  then obtain i fp where "(i, fp) \<in> set (List.enumerate 0 (files (dv_patch d)))" "(r, Some (f, h, l)) \<in> set (file_rows (dv_folded d) i fp)"
    unfolding render_rows_def in_pieces by blast
  then show ?thesis using anchor_in_file by (fastforce simp: in_set_enumerate_eq)
qed

lemma cursor_row_folded:
  assumes "laid_out d" "dc_file (dv_cursor d) < length (files (dv_patch d))"
    and "dc_file (dv_cursor d) \<in> dv_folded d \<or> (case current_hunk d of None \<Rightarrow> True | Some k \<Rightarrow> h_lines k = [])"
  shows "\<exists>r. cursor_row d = Some r \<and> r < length (dv_rows d) \<and> headed d (dv_rows d ! r)"
proof -
  let ?f = "dc_file (dv_cursor d)" and ?h = "dc_hunk (dv_cursor d)"
  have no: "Some (?f, ?h, l) \<notin> set (dv_anchors d)" for l
    using anchors_free [OF assms(1), of ?f ?h l] assms(2,3) by (auto simp: current_hunk_def Let_def)
  have "position (\<lambda>a. a = Some (?f, ?h, l)) (dv_anchors d) = None" "position (\<lambda>a. \<exists>l. a = Some (?f, ?h, l)) (dv_anchors d) = None" for l
    using no by (auto simp only: position_None_iff)
  note * = this
  have "cursor_row d = file_header_row ?f (dv_rows d)" by (simp add: cursor_row_def Let_def * split: option.split)
  then show ?thesis using header_row_at [OF assms(1,2)] by simp
qed

definition at_cursor :: "diff_view \<Rightarrow> hunk \<Rightarrow> diff_row \<Rightarrow> bool" where
  "at_cursor d k r \<longleftrightarrow>
     (case dv_mode d of
        ReadMode \<Rightarrow> r = RHunk (old_start k) (new_start k) (h_section k)
      | LinesMode \<Rightarrow> (let j = changed_line_indices k ! dv_line d in
          r = RLine (line_number in_old (old_start k) (h_lines k) j) (line_number in_new (new_start k) (h_lines k) j)
            (l_origin (h_lines k ! j)) (l_text (h_lines k ! j))))"

lemma cursor_row_hunk:
  assumes l: "laid_out d" and c: "cursor_ok d" and k: "current_hunk d = Some k"
    and f: "dc_file (dv_cursor d) \<notin> dv_folded d" and n: "h_lines k \<noteq> []"
  shows "\<exists>r. cursor_row d = Some r \<and> r < length (dv_rows d) \<and> at_cursor d k (dv_rows d ! r)"
proof -
  let ?f = "dc_file (dv_cursor d)" and ?h = "dc_hunk (dv_cursor d)" and ?n = "length (h_lines k)"
  have b: "?f < length (files (dv_patch d))" "?h < length (hunks (files (dv_patch d) ! ?f))" "hunks (files (dv_patch d) ! ?f) ! ?h = k"
    using k by (auto simp: current_hunk_def Let_def split: if_splits)
  obtain A B where A: "render_rows (dv_patch d) (dv_folded d) = A @ hunk_rows ?f ?h k @ B"
    and free: "\<And>l y. y \<in> set A \<Longrightarrow> snd y \<noteq> Some (?f, ?h, l)" using hunk_at [OF b(1) f b(2)] b(3) by metis
  let ?lr = "line_rows ?f ?h 0 (old_start k) (new_start k) (h_lines k)"
  have rows: "dv_rows d = (map fst A @ [RHunk (old_start k) (new_start k) (h_section k)]) @ map fst ?lr @ map fst B"
    using l b(1) A by (auto simp: laid_out_def hunk_rows_def split: if_splits)
  have "map snd (hunk_rows ?f ?h k) = None # map (\<lambda>l. Some (?f, ?h, l)) [0..<?n]"
    by (simp add: hunk_rows_def line_rows_anchors)
  then have anchors: "dv_anchors d = (map snd A @ [None]) @ map (\<lambda>l. Some (?f, ?h, l)) [0..<?n] @ map snd B"
    using l b(1) A by (auto simp: laid_out_def split: if_splits)
  have at: "position P (dv_anchors d) = Some (Suc (length A) + j)"
    if "j < ?n" "P (Some (?f, ?h, j))" "\<And>i. i < j \<Longrightarrow> \<not> P (Some (?f, ?h, i))" "\<And>a. P a \<Longrightarrow> \<exists>l. a = Some (?f, ?h, l)" for P j
  proof -
    have "\<forall>y \<in> set (map snd A @ [None]). \<not> P y" using free that(4) by fastforce
    moreover have "position P (map (\<lambda>l. Some (?f, ?h, l)) [0..<?n]) = Some j" using that(1-3) by (simp add: position_Some_iff)
    ultimately show ?thesis unfolding anchors by (simp add: position_skip position_keep del: append_assoc position_None_iff)
  qed
  show ?thesis
  proof (cases "dv_mode d")
    case ReadMode
    have "position (\<lambda>a. \<exists>l. a = Some (?f, ?h, l)) (dv_anchors d) = Some (Suc (length A) + 0)" by (rule at) (use n in auto)
    then have "cursor_row d = Some (length A)" by (simp add: cursor_row_def ReadMode Let_def)
    then show ?thesis by (simp add: rows nth_append at_cursor_def ReadMode)
  next
    case LinesMode
    let ?j = "changed_line_indices k ! dv_line d"
    have line: "dv_line d < length (changed_line_indices k)" using c LinesMode k by (simp add: cursor_ok_def changed_indices_def)
    then have j: "?j < ?n" using changed_index_bound nth_mem by blast
    have "position (\<lambda>a. a = Some (?f, ?h, ?j)) (dv_anchors d) = Some (Suc (length A) + ?j)" by (rule at) (use j in auto)
    then have "cursor_row d = Some (Suc (length A) + ?j)"
      using line by (simp add: cursor_row_def LinesMode Let_def nth_option_def changed_indices_def k)
    then show ?thesis using j line_rows_nth [OF j, of ?f ?h 0 "old_start k" "new_start k"]
      by (simp add: rows nth_append at_cursor_def LinesMode Let_def)
  qed
qed

lemma all_hunks_distinct: "distinct (all_hunks p)"
proof -
  have "distinct (concat (map (\<lambda>(f, file). map (\<lambda>h. \<lparr>dc_file = f, dc_hunk = h\<rparr>) [0..<length (hunks file)]) (List.enumerate n fs)))" for n fs
    by (induction fs arbitrary: n) (auto simp: distinct_map inj_on_def in_set_enumerate_eq)
  then show ?thesis by (simp add: all_hunks_def)
qed

lemma position_distinct_nth: "distinct xs \<Longrightarrow> i < length xs \<Longrightarrow> position (\<lambda>x. x = xs ! i) xs = Some i"
  by (auto simp: position_Some_iff nth_eq_iff_index_eq)

lemma cursor_row_scroll [simp]: "cursor_row (d\<lparr>dv_scroll := s\<rparr>) = cursor_row d"
proof -
  let ?e = "d\<lparr>dv_scroll := s\<rparr>"
  have "dv_cursor ?e = dv_cursor d" "dv_mode ?e = dv_mode d" "dv_line ?e = dv_line d" "dv_anchors ?e = dv_anchors d" "dv_rows ?e = dv_rows d"
    and "changed_indices ?e = changed_indices d" using current_hunk_cong [of ?e d] by (simp_all add: changed_indices_def)
  note same = this
  show ?thesis unfolding cursor_row_def same ..
qed

lemma scrolled_to_row:
  "cursor_row d = Some r \<Longrightarrow> cursor_row (scroll_to_cursor d) = Some r \<and> dv_scroll (scroll_to_cursor d) \<le> r
     \<and> r < dv_scroll (scroll_to_cursor d) + page_rows (scroll_to_cursor d)"
  by (auto simp: scroll_to_cursor_def page_rows_def)

lemma current_hunk_in: "c \<in> set (all_hunks (dv_patch d)) \<Longrightarrow> dv_cursor d = c \<Longrightarrow> current_hunk d \<noteq> None"
  by (simp add: all_hunks_mem current_hunk_def Let_def)

lemma cursor_has_row:
  assumes "diff_ok d" "files (dv_patch d) \<noteq> []"
  shows "\<exists>r. cursor_row d = Some r \<and> r < length (dv_rows d)
    \<and> (case current_hunk d of
         None \<Rightarrow> headed d (dv_rows d ! r)
       | Some k \<Rightarrow> if dc_file (dv_cursor d) \<in> dv_folded d \<or> h_lines k = [] then headed d (dv_rows d ! r) else at_cursor d k (dv_rows d ! r))"
proof -
  have l: "laid_out d" "cursor_ok d" and f: "dc_file (dv_cursor d) < length (files (dv_patch d))"
    using assms by (auto simp: diff_ok_def cursor_ok_def)
  show ?thesis
  proof (cases "current_hunk d")
    case None
    then show ?thesis using cursor_row_folded [OF l(1) f] by simp
  next
    case (Some k)
    then show ?thesis using cursor_row_folded [OF l(1) f] cursor_row_hunk [OF l Some]
      by (cases "dc_file (dv_cursor d) \<in> dv_folded d \<or> h_lines k = []") auto
  qed
qed

text \<open>The piece that is sent: the hunk under the cursor, with the changes that were chosen.\<close>

lemma selection_Some:
  assumes "fst (diff_selection discard d) = Some (t, target, turned)"
  obtains kd where "dv_kind d = Some kd" "kind_mutable kd" "discard \<Longrightarrow> \<not> kind_staged kd"
    "target = (if discard then Worktree else Index)" "turned = (if discard then True else kind_staged kd)"
    "subset (dv_patch d) \<lparr>sel_file = dc_file (dv_cursor d), sel_hunk = dc_hunk (dv_cursor d),
       sel_lines = (case dv_mode d of ReadMode \<Rightarrow> None | LinesMode \<Rightarrow> Some (sort (dv_picked d)))\<rparr> = Some t"
    "dv_mode d = LinesMode \<Longrightarrow> dv_picked d \<noteq> []"
proof (cases "dv_kind d")
  case None
  then show ?thesis using assms by (simp add: diff_selection_def Let_def)
next
  case (Some kd)
  let ?s = "subset (dv_patch d) \<lparr>sel_file = dc_file (dv_cursor d), sel_hunk = dc_hunk (dv_cursor d),
       sel_lines = (case dv_mode d of ReadMode \<Rightarrow> None | LinesMode \<Rightarrow> Some (sort (dv_picked d)))\<rparr>"
  have eq: "fst (diff_selection discard d) = (if \<not> kind_mutable kd \<or> discard \<and> kind_staged kd \<or> dv_mode d = LinesMode \<and> dv_picked d = [] then None
     else map_option (\<lambda>t. if discard then (t, Worktree, True) else (t, Index, kind_staged kd)) ?s)"
    unfolding diff_selection_def Let_def by (cases "dv_mode d") (simp_all add: Some split: option.split)
  show ?thesis by (rule that [of kd]) (use assms [unfolded eq] Some in \<open>auto split: if_splits\<close>)
qed

lemma keep_sorted: "keep_of (Some (sort ps)) = (\<lambda>i. i \<in> set ps)"
  by (simp add: keep_of_def fun_eq_iff)

section \<open>A diff to look at\<close>

definition demo_view :: diff_view where
  "demo_view = new_view (DUnstaged None) (to_text demo_patch)"

lemma demo_parse: "parse (to_text demo_patch) = demo_patch"
  using parse_to_text [OF wf_demo] renumber_demo by (simp add: renumber_def demo_patch_def)

lemma demo_changed: "changed_line_indices (hunks demo_file ! 0) = [1, 2, 3]"
  by (simp add: demo_file_def changed_line_indices_def)

lemma demo_view_simps:
  "dv_patch demo_view = demo_patch" "dv_cursor demo_view = \<lparr>dc_file = 0, dc_hunk = 0\<rparr>" "dv_kind demo_view = Some (DUnstaged None)"
  "dv_mode demo_view = ReadMode" "dv_folded demo_view = {}" "dv_picked demo_view = []"
  by (simp_all add: demo_view_def new_view_def set_patch_def demo_parse clamp_cursor_def Let_def default_view_def)

lemma demo_reached: "diff_reached demo_view"
  unfolding demo_view_def by (rule diff_reached.opened)

definition demo_picked :: diff_view where
  "demo_picked = snd (diff_page_key (KChar '' '') (snd (diff_page_key (KChar ''v'') demo_view)))"

lemma demo_current: "dv_patch d = demo_patch \<Longrightarrow> dv_cursor d = \<lparr>dc_file = 0, dc_hunk = 0\<rparr> \<Longrightarrow> current_hunk d = Some (hunks demo_file ! 0)"
  by (simp add: current_hunk_def demo_patch_def demo_file_def)

lemma demo_picked_simps:
  "dv_patch demo_picked = demo_patch" "dv_cursor demo_picked = \<lparr>dc_file = 0, dc_hunk = 0\<rparr>" "dv_kind demo_picked = Some (DUnstaged None)"
  "dv_mode demo_picked = LinesMode" "dv_picked demo_picked = [1]"
proof -
  have i: "changed_indices d = [1, 2, 3]" if "dv_patch d = demo_patch" "dv_cursor d = \<lparr>dc_file = 0, dc_hunk = 0\<rparr>" for d
    using that by (simp only: changed_indices_def demo_current demo_changed option.case)
  have "diff_page_key (KChar ''v'') demo_view = (Some DiffStay, line_select demo_view)" "dv_mode (line_select demo_view) = LinesMode"
    by (simp_all add: diff_page_key_def demo_view_simps line_select_def i)
  then have picked: "demo_picked = pick_line (line_select demo_view)" by (simp add: demo_picked_def) (simp add: diff_page_key_def)
  show "dv_patch demo_picked = demo_patch" "dv_cursor demo_picked = \<lparr>dc_file = 0, dc_hunk = 0\<rparr>" "dv_kind demo_picked = Some (DUnstaged None)"
    "dv_mode demo_picked = LinesMode" "dv_picked demo_picked = [1]"
    by (simp_all add: picked pick_line_def line_select_def step_line_def i demo_view_simps nth_option_def Let_def)
qed

lemma demo_picked_reached: "diff_reached demo_picked"
  unfolding demo_picked_def by (rule diff_reached.stepped [OF diff_reached.stepped [OF demo_reached diff_step.page_key] diff_step.page_key])

section \<open>The properties\<close>

text \<open>
  C25. Whatever is read again, folded, stepped through, picked, scrolled or resized: the rows on the screen are
  those of the patch, and for a patch without files the one row that says so. Where the patch has files the
  cursor is on one of them, on one of its hunks where that file has any, and the page starts on a row. The
  cursor of the line mode is on a changed line of the hunk, and what is picked are lines of that hunk and none
  twice; where the cursor is on no hunk nothing is picked and the mode is that of reading.
\<close>

theorem diff_stays_in_the_patch:
  assumes "diff_reached d"
  shows "(if files (dv_patch d) = [] then dv_rows d = [RNote ''(no differences)''] \<and> dv_anchors d = [None]
      else dv_rows d = map fst (render_rows (dv_patch d) (dv_folded d)) \<and> dv_anchors d = map snd (render_rows (dv_patch d) (dv_folded d))
        \<and> dc_file (dv_cursor d) < length (files (dv_patch d))
        \<and> (let hs = hunks (files (dv_patch d) ! dc_file (dv_cursor d)) in if hs = [] then dc_hunk (dv_cursor d) = 0 else dc_hunk (dv_cursor d) < length hs)
        \<and> dv_scroll d < length (dv_rows d))
    \<and> (dv_mode d = LinesMode \<longrightarrow> dv_line d < length (changed_indices d))
    \<and> distinct (dv_picked d) \<and> (\<forall>i \<in> set (dv_picked d). \<exists>k. current_hunk d = Some k \<and> i < length (h_lines k))
    \<and> (current_hunk d = None \<longrightarrow> dv_picked d = [] \<and> dv_mode d = ReadMode)"
proof -
  note ok = diff_reached_ok [OF assms, unfolded diff_ok_def laid_out_def cursor_ok_def scroll_ok_def]
  have idle: "dv_picked d = [] \<and> dv_mode d = ReadMode" if n: "current_hunk d = None"
  proof
    have "i \<notin> set (dv_picked d)" for i using ok n by (metis option.distinct(1))
    then show "dv_picked d = []" by (metis list.set_intros(1) neq_Nil_conv)
    have "changed_indices d = []" using n by (simp add: changed_indices_def)
    then have "dv_mode d \<noteq> LinesMode" using ok by (metis list.size(3) not_less_zero)
    then show "dv_mode d = ReadMode" by (cases "dv_mode d") auto
  qed
  show ?thesis
  proof (cases "files (dv_patch d) = []")
    case True
    show ?thesis unfolding if_P [OF True] using ok [unfolded if_P [OF True]] idle by blast
  next
    case False
    show ?thesis unfolding if_not_P [OF False] using ok [unfolded if_not_P [OF False]] idle False by blast
  qed
qed

theorem diff_stays_in_the_patch_witness:
  "dv_scroll demo_picked < length (dv_rows demo_picked) \<and> distinct (dv_picked demo_picked)"
proof -
  have ne: "files (dv_patch demo_picked) \<noteq> []" by (simp add: demo_picked_simps demo_patch_def)
  show ?thesis using diff_stays_in_the_patch [OF demo_picked_reached, unfolded if_not_P [OF ne]] by blast
qed

text \<open>
  C26. The row that wears the cursor names what the next key acts on: the header of the hunk, in line mode the
  line itself with its numbers in both files, and for a folded file or one with nothing to show the header
  of that file.
\<close>

theorem cursor_names_its_hunk:
  assumes "diff_reached d" "files (dv_patch d) \<noteq> []"
  shows "\<exists>r. cursor_row d = Some r \<and> r < length (dv_rows d)
    \<and> (case current_hunk d of
         None \<Rightarrow> headed d (dv_rows d ! r)
       | Some k \<Rightarrow> if dc_file (dv_cursor d) \<in> dv_folded d \<or> h_lines k = [] then headed d (dv_rows d ! r) else at_cursor d k (dv_rows d ! r))"
  by (rule cursor_has_row [OF diff_reached_ok [OF assms(1)] assms(2)])

theorem cursor_names_its_hunk_witness:
  "\<exists>r < length (dv_rows demo_view). cursor_row demo_view = Some r \<and> dv_rows demo_view ! r = RHunk 2 2 ''fn f()''"
proof -
  have "current_hunk demo_view = Some (hunks demo_file ! 0)" by (rule demo_current) (simp_all add: demo_view_simps)
  then show ?thesis using cursor_names_its_hunk [OF demo_reached]
    by (auto simp: demo_view_simps at_cursor_def demo_patch_def demo_file_def)
qed

text \<open>
  C27. Stepping by hunks goes as many hunks on as asked, over the ends of files and no further than the last
  or the first, counting from the hunk the cursor is on, and from the first one where it is on none (in a file
  without hunks); the file it comes to is open and the hunk is on the page.
\<close>

theorem stepping_shows_the_hunk:
  assumes "diff_reached d" "all_hunks (dv_patch d) \<noteq> []"
  shows "let e = step_hunk delta d; flat = all_hunks (dv_patch d);
      i = (case position (\<lambda>c. c = dv_cursor d) flat of Some i \<Rightarrow> i | None \<Rightarrow> 0) in
    dv_cursor e = flat ! nat (max 0 (min (int i + delta) (int (length flat) - 1)))
    \<and> dc_file (dv_cursor e) \<notin> dv_folded e \<and> current_hunk e \<noteq> None
    \<and> (\<exists>r. cursor_row e = Some r \<and> dv_scroll e \<le> r \<and> r < dv_scroll e + page_rows e)"
proof -
  let ?flat = "all_hunks (dv_patch d)"
  let ?i = "case position (\<lambda>c. c = dv_cursor d) ?flat of Some i \<Rightarrow> i | None \<Rightarrow> 0"
  define c where "c = ?flat ! moved ?i delta (length ?flat)"
  have m: "moved ?i delta (length ?flat) < length ?flat" using assms(2) by (intro moved_bound) simp
  then have c: "c \<in> set ?flat" by (simp add: c_def)
  note at = at_hunk_ok [OF diff_reached_ok [OF assms(1)] c]
  have e: "step_hunk delta d = scroll_to_cursor (at_hunk c d)" using assms(2) by (simp add: step_hunk_at Let_def c_def)
  have "files (dv_patch (at_hunk c d)) \<noteq> []" using c by (auto simp: at(7) all_hunks_mem)
  then obtain r where "cursor_row (at_hunk c d) = Some r"
    using cursor_has_row [of "at_hunk c d"] at(1-3) by (auto simp: diff_ok_def)
  moreover have "current_hunk (step_hunk delta d) \<noteq> None"
    by (rule current_hunk_in [of c]) (use c in \<open>simp_all add: e at\<close>)
  ultimately show ?thesis using scrolled_to_row at(4,5) unfolding Let_def e by (auto simp: c_def moved_def)
qed

text \<open>A patch of two files, both folded away.\<close>

definition two_files :: patch where "two_files = \<lparr>files = [demo_file, demo_file]\<rparr>"

definition demo_shut :: diff_view where
  "demo_shut = snd (diff_body_key 20 (KChar ''Z'') (new_view (DUnstaged None) (to_text two_files)))"

lemma demo_shut_simps:
  "dv_patch demo_shut = two_files" "dv_cursor demo_shut = \<lparr>dc_file = 0, dc_hunk = 0\<rparr>" "dv_folded demo_shut = {0, 1}"
proof -
  let ?v = "new_view (DUnstaged None) (to_text two_files)"
  have "wf_patch two_files" using wf_demo by (simp add: wf_patch_def two_files_def demo_patch_def)
  moreover have "renumber two_files = two_files" by (simp add: renumber_def two_files_def renumber_demo)
  ultimately have p: "parse (to_text two_files) = two_files" using parse_to_text by simp
  have v: "dv_patch ?v = two_files" "dv_cursor ?v = \<lparr>dc_file = 0, dc_hunk = 0\<rparr>" "dv_folded ?v = {}" "dv_mode ?v = ReadMode"
    by (simp_all add: new_view_def set_patch_def p clamp_cursor_def Let_def default_view_def)
  have t: "demo_shut = toggle_fold_all ?v" unfolding demo_shut_def diff_body_key_def Let_def by (simp add: v)
  have n: "length (files two_files) = 2" "{0..<2} = {0, 1::nat}" by (auto simp: two_files_def)
  then show "dv_patch demo_shut = two_files" "dv_cursor demo_shut = \<lparr>dc_file = 0, dc_hunk = 0\<rparr>" "dv_folded demo_shut = {0, 1}"
    unfolding t toggle_fold_all_def by (simp_all add: clamp_scroll_def v n)
qed

lemma demo_shut_reached: "diff_reached demo_shut"
  unfolding demo_shut_def by (rule diff_reached.stepped [OF diff_reached.opened diff_step.body_key])

theorem stepping_shows_the_hunk_witness:
  "1 \<in> dv_folded demo_shut \<and> dv_cursor (step_hunk 1 demo_shut) = \<lparr>dc_file = 1, dc_hunk = 0\<rparr> \<and> 1 \<notin> dv_folded (step_hunk 1 demo_shut)
   \<and> (\<exists>r. cursor_row (step_hunk 1 demo_shut) = Some r \<and> r < dv_scroll (step_hunk 1 demo_shut) + page_rows (step_hunk 1 demo_shut))"
proof -
  have a: "all_hunks two_files = [\<lparr>dc_file = 0, dc_hunk = 0\<rparr>, \<lparr>dc_file = 1, dc_hunk = 0\<rparr>]"
    by (simp add: all_hunks_def two_files_def demo_file_def)
  then have "all_hunks (dv_patch demo_shut) \<noteq> []" by (simp add: demo_shut_simps)
  from stepping_shows_the_hunk [OF demo_shut_reached this, of 1]
  show ?thesis by (auto simp: demo_shut_simps a Let_def)
qed

text \<open>
  C24. What the key sends is what the cursor is on: one file with its header and one hunk, with the whole of
  the hunk in read mode and in line mode exactly the changes that were picked; forwards to the index, backwards
  out of it from the staged diff, backwards into the worktree to discard, which the staged diff does not; and
  nothing of a commit.
\<close>

theorem what_is_shown_is_staged:
  assumes "wf_patch (dv_patch d)" "fst (diff_selection discard d) = Some (t, target, turned)"
  shows "\<exists>kd h g k. dv_kind d = Some kd \<and> kind_mutable kd \<and> current_hunk d = Some h
    \<and> files (parse t) = [g] \<and> fp_header g = fp_header (files (dv_patch d) ! dc_file (dv_cursor d)) \<and> hunks g = [k]
    \<and> old_start k = old_start h \<and> old_side k = old_side h
    \<and> (case dv_mode d of
         ReadMode \<Rightarrow> h_lines k = h_lines h
       | LinesMode \<Rightarrow> dv_picked d \<noteq> []
           \<and> filter is_change (h_lines k) = map ((!) (h_lines h)) (filter (\<lambda>i. i \<in> set (dv_picked d)) (changed_line_indices h)))
    \<and> (target, turned) = (if discard then (Worktree, True) else (Index, kind_staged kd))
    \<and> (discard \<longrightarrow> \<not> kind_staged kd)"
proof -
  let ?sel = "\<lparr>sel_file = dc_file (dv_cursor d), sel_hunk = dc_hunk (dv_cursor d),
       sel_lines = (case dv_mode d of ReadMode \<Rightarrow> None | LinesMode \<Rightarrow> Some (sort (dv_picked d)))\<rparr>"
  obtain kd where kd: "dv_kind d = Some kd" "kind_mutable kd" "discard \<Longrightarrow> \<not> kind_staged kd"
    "target = (if discard then Worktree else Index)" "turned = (if discard then True else kind_staged kd)"
    and t: "subset (dv_patch d) ?sel = Some t" and p: "dv_mode d = LinesMode \<Longrightarrow> dv_picked d \<noteq> []"
    by (rule selection_Some [OF assms(2)]) blast
  let ?f = "files (dv_patch d) ! dc_file (dv_cursor d)"
  define h where "h = hunks ?f ! dc_hunk (dv_cursor d)"
  have "current_hunk d = Some h" using t subset_None_iff [of "dv_patch d" ?sel] by (auto simp: current_hunk_def h_def)
  moreover have "\<exists>g k. files (parse t) = [g] \<and> fp_header g = fp_header ?f \<and> hunks g = [k] \<and> old_start k = old_start h
      \<and> h_lines k = subset_lines h (sel_lines ?sel)"
    using parse_subset [OF assms(1) t] by (simp add: Let_def renumber_file_def h_def)
  ultimately show ?thesis
    using kd p by (cases "dv_mode d") (auto simp: subset_lines_whole subset_lines_sides subset_lines_changes keep_sorted)
qed

theorem what_is_shown_is_staged_witness:
  "\<exists>t k. fst (diff_selection False demo_picked) = Some (t, Index, False) \<and> hunks (hd (files (parse t))) = [k]
     \<and> filter is_change (h_lines k) = [\<lparr>l_origin = Removed, l_text = ''y''\<rparr>]"
proof -
  have h: "current_hunk demo_picked = Some (hunks demo_file ! 0)" by (rule demo_current) (simp_all add: demo_picked_simps)
  have "subset demo_patch \<lparr>sel_file = 0, sel_hunk = 0, sel_lines = Some [1]\<rparr> \<noteq> None"
    by (simp add: subset_None_iff demo_patch_def demo_file_def keep_of_def changed_line_indices_def)
  then obtain t where t: "fst (diff_selection False demo_picked) = Some (t, Index, False)"
    by (auto simp: diff_selection_def demo_picked_simps Let_def)
  show ?thesis using what_is_shown_is_staged [OF _ t] t
    by (auto simp: demo_picked_simps wf_demo h demo_changed) (auto simp: demo_file_def)
qed

section \<open>What a new read leaves behind\<close>

lemma set_patch_frame:
  "dv_folded (set_patch text d) = {f \<in> dv_folded d. f < length (files (parse text))}" "dv_patch (set_patch text d) = parse text"
  by (simp_all add: set_patch_def clamp_cursor_def Let_def)

text \<open>
  Folds are places in the patch. When the file above is staged away the fold stays where it was and shuts the
  file that took that place, which the comment of the source at this line says it prevents.
\<close>

lemma fold_shuts_the_next_file:
  "f \<in> dv_folded d \<Longrightarrow> files (parse text) = take i (files (dv_patch d)) @ drop (Suc i) (files (dv_patch d)) \<Longrightarrow> i \<le> f \<Longrightarrow>
   Suc f < length (files (dv_patch d)) \<Longrightarrow>
   f \<in> dv_folded (set_patch text d) \<and> files (dv_patch (set_patch text d)) ! f = files (dv_patch d) ! Suc f"
  by (auto simp: set_patch_frame nth_append min_def)

text \<open>
  A patch that begins with a file without hunks (a binary or a change of mode): the cursor is on no hunk, and
  the first step goes to the second one.
\<close>

lemma first_hunk_is_skipped:
  assumes "files (parse text) = b # rest" "hunks b = []" "2 \<le> length (all_hunks (parse text))"
  shows "dv_cursor (step_hunk 1 (new_view kd text)) = all_hunks (parse text) ! 1"
proof -
  let ?d = "new_view kd text" and ?flat = "all_hunks (parse text)"
  have d: "dv_patch ?d = parse text" "dv_cursor ?d = \<lparr>dc_file = 0, dc_hunk = 0\<rparr>"
    using assms(1,2) by (simp_all add: new_view_def set_patch_def clamp_cursor_def Let_def default_view_def)
  have "\<lparr>dc_file = 0, dc_hunk = 0\<rparr> \<notin> set ?flat" using assms(1,2) by (simp add: all_hunks_mem)
  then have none: "position (\<lambda>c. c = \<lparr>dc_file = 0, dc_hunk = 0\<rparr>) ?flat = None" by auto
  have "moved 0 1 (length ?flat) = 1" "?flat \<noteq> []" using assms(3) by (auto simp: moved_def)
  then show ?thesis unfolding step_hunk_at Let_def d none option.case by (simp add: at_hunk_def Let_def)
qed

text \<open>A diff that became empty keeps its scroll: the one row that says so is above the page.\<close>

lemma empty_diff_is_off_the_page:
  "files (parse text) = [] \<Longrightarrow> dv_scroll (set_patch text d) = dv_scroll d \<and> length (dv_rows (set_patch text d)) = 1"
  by (simp add: set_patch_def relayout_def clamp_cursor_def render_rows_def Let_def)

text \<open>
  Picked lines are numbers too. A patch that is read again while lines are picked keeps the numbers, so that
  what is applied next are the lines that have them now.
\<close>

lemma picks_survive_a_new_read:
  assumes f: "dc_file (dv_cursor d) < length (files (parse text))"
    and hs: "hs = hunks (files (parse text) ! dc_file (dv_cursor d))" "dc_hunk (dv_cursor d) < length hs" "h = hs ! dc_hunk (dv_cursor d)"
    and h: "changed_line_indices h \<noteq> []" "\<forall>i \<in> set (dv_picked d). i < length (h_lines h)"
  shows "dv_picked (set_patch text d) = dv_picked d \<and> dv_mode (set_patch text d) = dv_mode d \<and> current_hunk (set_patch text d) = Some h"
proof -
  define r where "r = relayout (d\<lparr>dv_patch := parse text, dv_folded := {f \<in> dv_folded d. f < length (files (parse text))},
    dv_digits := line_number_digits (parse text)\<rparr>)"
  have r: "dv_patch r = parse text" "dv_cursor r = dv_cursor d" "dv_picked r = dv_picked d" "dv_mode r = dv_mode d" by (simp_all add: r_def)
  have c: "current_hunk e = Some h" if "dv_patch e = parse text" "dv_cursor e = dv_cursor d" for e
    using that f hs by (simp add: current_hunk_def Let_def)
  let ?m = "r\<lparr>dv_cursor := \<lparr>dc_file = dc_file (dv_cursor d), dc_hunk = dc_hunk (dv_cursor d)\<rparr>\<rparr>"
  have m: "current_hunk ?m = Some h" "changed_indices ?m = changed_line_indices h"
    using c [of ?m] by (simp_all add: r changed_indices_def)
  have "min (dc_file (dv_cursor d)) (length (files (parse text)) - 1) = dc_file (dv_cursor d)" using f by simp
  moreover have "filter (\<lambda>i. i < length (h_lines h)) (dv_picked d) = dv_picked d" using h(2) by (simp add: filter_id_conv)
  moreover have "hs \<noteq> []" "\<not> length hs \<le> dc_hunk (dv_cursor d)" "files (parse text) \<noteq> []" using f hs(2) by auto
  ultimately have "dv_picked (clamp_cursor r) = dv_picked d \<and> dv_mode (clamp_cursor r) = dv_mode d \<and> dv_cursor (clamp_cursor r) = dv_cursor d
      \<and> dv_patch (clamp_cursor r) = parse text"
    using h(1) by (simp add: clamp_cursor_def Let_def r m flip: hs(1))
  then show ?thesis using c by (simp add: set_patch_def Let_def flip: r_def)
qed

text \<open>
  Two keys that are offered and do nothing: folding on the DIFF page, and reading a commit again in the body
  of the GIT page.
\<close>

lemma fold_is_offered_but_dead:
  assumes "1 < length (files (dv_patch d))" "dv_mode d = ReadMode"
  shows "(\<exists>a b. diff_hints d = a @ ''z fold'' @ b) \<and> diff_page_key (KChar ''z'') d = (None, d)"
proof -
  define staged where "staged = (case dv_kind d of None \<Rightarrow> False | Some k \<Rightarrow> kind_staged k)"
  have "diff_hints d =
      (if \<not> diff_mutable d then ''] next hunk   [ prev hunk   ''
       else ''] next hunk   [ prev hunk   '' @ (if staged then ''space unstage hunk'' else ''space stage hunk'')
         @ ''   v pick lines'' @ (if staged then [] else ''   x discard hunk'') @ ''   '') @ ''z fold''
      @ (if \<not> diff_mutable d then ''   r refresh   esc close'' else ''   esc close'')"
    using assms by (simp add: diff_hints_def Let_def flip: staged_def)
  moreover have "diff_page_key (KChar ''z'') d = (None, d)" by (simp add: diff_page_key_def)
  ultimately show ?thesis by blast
qed

lemma refresh_is_offered_but_dead:
  "\<not> diff_mutable d \<Longrightarrow> length (files (dv_patch d)) \<le> 1 \<Longrightarrow>
   diff_hints d = ''] next hunk   [ prev hunk   r refresh   esc close'' \<and> diff_body_key height (KChar ''r'') d = (None, d)"
  by (simp add: diff_hints_def diff_body_key_def)

text \<open>The keys of the two diffs ask for the same, on a diff that can be staged.\<close>

lemma body_keys_apply_alike:
  "diff_mutable d \<Longrightarrow> fst (diff_body_key height k d) = Some (DiffApply b) \<longleftrightarrow> fst (diff_page_key k d) = Some (DiffApply b)"
  by (cases b) (auto simp: diff_body_key_def diff_page_key_def Let_def)

lemma page_keys_apply:
  "fst (diff_page_key k d) = Some (DiffApply b) \<longleftrightarrow>
     (k = KChar '' '' \<and> dv_mode d = ReadMode \<or> k = KEnter \<and> dv_mode d = LinesMode) \<and> \<not> b \<or> k = KChar ''x'' \<and> b"
  by (cases "dv_mode d"; cases b) (auto simp: diff_page_key_def Let_def)

end
