(* ===== verification/Spec2Isabelle.thy ===== *)
theory Spec2Isabelle
  imports Base64 Hunk_Apply Protocol Names Input_Encode Wire Frame_Diff Pty_Stream Footer Pane Workspace
    Agent_Track Selection Git_Op Core_Restore Update Graph Verbs Links Ssh_Config
    Http_Core Menu_Run Layout Keymap Event_Stream Fleet Views Diff_View
begin

text \<open>
  A model of butai, a daemon that keeps coding agents and processes running in workspaces and streams
  their terminals to the clients that attach, with the theorems that make it correct. The sources are
  the Rust crates under \<open>src/crates\<close>; file names below are relative to it.

  \<^bold>\<open>The program.\<close> One actor, the core (\<open>butai-server/src/core.rs\<close>), owns all state: the clients, the
  workspaces with their rails of agents and processes, the panes, the git operations and the
  notification feed. Everything else talks to it by events: connection tasks (\<open>client_conn.rs\<close>)
  deliver what clients send, reader threads deliver what programs print, scans and git operations
  report back. The core answers with messages to clients, with programs it starts, and with a session
  file and dumps of recent output from which the next daemon restores everything.

  \<^bold>\<open>Theories and sources.\<close>
  \<^item> \<^theory_text>\<open>Prelude\<close>, \<^theory_text>\<open>Rust_Str\<close>: lists, positions, the interfaces \<open>codec\<close> (what is written reads back),
    \<open>chunked\<close> (a stream may be cut anywhere) and \<open>id_supply\<close> (a given identifier is new); the
    \<open>str\<close> operations of Rust the sources use.
  \<^item> \<^theory_text>\<open>Base64\<close> (\<open>butai-protocol/src/b64.rs\<close>), \<^theory_text>\<open>Hunk\<close> and \<^theory_text>\<open>Hunk_Apply\<close> (\<open>hunk.rs\<close>: patches, staging a
    selection of lines, reversal), \<^theory_text>\<open>Protocol\<close> (\<open>lib.rs\<close>: messages and limits),
    \<^theory_text>\<open>Frame_Diff\<close> (\<open>butai-server/src/render.rs\<close>), \<^theory_text>\<open>Wire\<close> (\<open>client_conn.rs\<close>, \<open>framing.rs\<close>), \<^theory_text>\<open>Input_Encode\<close>
    (\<open>input/encode.rs\<close>), \<^theory_text>\<open>Names\<close> (\<open>ids.rs\<close>, \<open>paths.rs\<close>, the names of dumps and scratch files in \<open>core.rs\<close>).
  \<^item> \<^theory_text>\<open>Pty_Stream\<close>, \<^theory_text>\<open>Footer\<close>, \<^theory_text>\<open>Pane\<close> (\<open>pane/terminal.rs\<close>): the bytes a program prints, reading an
    agent's screen, and the pane with its history. \<^theory_text>\<open>Workspace\<close> (\<open>workbench.rs\<close> of the server), \<^theory_text>\<open>Git_Op\<close>
    (\<open>git_op.rs\<close>), \<^theory_text>\<open>Selection\<close> and \<^theory_text>\<open>Agent_Track\<close> (the parts of \<open>core.rs\<close> on selections and on the
    status of agents).
  \<^item> The client, below its drawing: \<^theory_text>\<open>Verbs\<close> (\<open>butai-client/src/verbs.rs\<close>: what each surface offers,
    how a footer is laid out, drawn and clicked), \<^theory_text>\<open>Links\<close> (\<open>links.rs\<close>), \<^theory_text>\<open>Graph\<close> (\<open>graph.rs\<close>: the
    lanes of a page of commits), \<^theory_text>\<open>Ssh_Config\<close> (\<open>ssh_config.rs\<close>), \<^theory_text>\<open>Layout\<close> (\<open>layout.rs\<close>: the tree of
    panes and the window over it), \<^theory_text>\<open>Git_Menu\<close> and \<^theory_text>\<open>Menu_Run\<close> (\<open>git_menu.rs\<close> and the running of its rows
    in \<open>workbench.rs\<close>), \<^theory_text>\<open>Keymap\<close> (\<open>keymap.rs\<close>, \<open>keys.rs\<close>: keys, commands, bindings and the prefix key),
    \<^theory_text>\<open>Fleet\<close> (the machines of \<open>workbench.rs\<close>: tabs over several daemons, dials, links that drop and return),
    \<^theory_text>\<open>Views\<close> (\<open>views.rs\<close>, \<open>config.rs\<close>: the pages and machines a client remembers),
    \<^theory_text>\<open>Diff_View\<close> (\<open>DiffView\<close> of \<open>chrome/mod.rs\<close> and its keys in \<open>workbench.rs\<close>: the diff that is read and
    staged from).
    \<^theory_text>\<open>Update\<close> (\<open>butai-update/src/lib.rs\<close>)
    is the order of versions and what a download must pass.
  \<^item> The HTTP face: \<^theory_text>\<open>Query\<close> (percent encoding and queries), \<^theory_text>\<open>Http\<close> (\<open>butai-server/src/http_conn.rs\<close>:
    bodies, routes and the requests of \<open>butai-protocol/src/api.rs\<close>), \<^theory_text>\<open>Http_Core\<close> (what a request may do
    to the core), \<^theory_text>\<open>Client_Calls\<close> (the calls \<open>workbench.rs\<close> of the client makes, and their meeting with the
    router), \<^theory_text>\<open>Event_Stream\<close> (the events a daemon pushes and \<open>daemon.rs\<close> of the client, which reads them).
  \<^item> The core, in the order the file has it: \<^theory_text>\<open>Core_State\<close> (the record \<open>core\<close> for \<open>ServerCore\<close>, its
    environment \<open>env\<close>), \<^theory_text>\<open>Core_Persist\<close> (the session and the dumps), \<^theory_text>\<open>Core_Launch\<close> (starting panes),
    \<^theory_text>\<open>Core_Life\<close> (opening, closing, restoring, stopping), \<^theory_text>\<open>Core_Io\<close> (input, output, frames),
    \<^theory_text>\<open>Core_Serve\<close> (messages of clients), \<^theory_text>\<open>Core_Api\<close> (git and the requests answered on the actor) and
    \<^theory_text>\<open>Core_Step\<close> (\<open>handle\<close>, the loop of \<open>run\<close> as a step relation, the reachable states).
  \<^item> About the core: \<^theory_text>\<open>Core_Inv\<close> states the invariant, \<^theory_text>\<open>Core_Safe\<close> and \<^theory_text>\<open>Core_Keep\<close> show that each
    operation keeps it, \<^theory_text>\<open>Core_Reach\<close> that every step does, \<^theory_text>\<open>Core_Git\<close> that no step but the
    report of its end takes a repository from a running operation, \<^theory_text>\<open>Core_Props\<close> and \<^theory_text>\<open>Core_Restore\<close> hold the
    properties, with a small daemon on which their hypotheses are met.
\<close>

text \<open>
  \<^bold>\<open>How the model corresponds.\<close> A struct is a record, an enum a datatype, a handler a function from the
  core to the core, in the order of the statements of the source. A message to a client, a started
  program, a requested scan and a probe are appended to a log of the core (\<open>sent\<close>, \<open>launched\<close>,
  \<open>scans\<close>, \<open>probes\<close>), so that a theorem can say what was done. Errors are values of a sum type. What
  the code cannot decide is a field of \<open>env\<close>: whether a program starts, which paths are directories,
  whether the store can be written, the clock, the random bytes, the terminal emulator, libgit2 and
  the regular expressions of the configuration. Nothing is assumed of these except where a theorem
  says so.

  Where the source looks for a workspace by walking the values of a \<open>HashMap\<close>, the model takes the
  order of the tabs: the invariant shows that a pane is in one workspace, so the order cannot matter
  there, and the few searches by name or directory take the first tab.

  \<^bold>\<open>Bounds and fuel.\<close> The only fuel is that of \<open>name_loop\<close>, one more than the number of workspaces;
  \<open>free_name_found\<close> shows that it never runs out. Every other loop is structural or has a measure.
  Words keep their width where the code relies on it (Base64, the bytes of a stream, protocol
  versions, cells); counters that the code never lets near their bound are natural numbers.

  \<^bold>\<open>What the theorems show.\<close> The state of the core is consistent in every reachable state; a stop
  followed by a start brings every workspace back that has a directory of its own, a process and
  configured agents; a session entry is never dropped because something
  could not be rebuilt; a repository has one writer at a time, over every step of the daemon; a change on disk is always scanned; the
  bell, the input and the version check do what they promise. Below the core: patches are written,
  selected and reversed so that git applies exactly what was chosen; no user text becomes an option of
  git; bytes of a program are read the same however they are cut; the recent output, dumps, pasted
  files and frames come back as they were; an agent is called finished only after a turn. An update
  only goes forward, and installs only what matches the published digest where the release has one. In the client a click gives the verb that is
  drawn there, no link and no host is missed, every edge of the commit graph is drawn, the panes of a
  window tile it and the focus is on one that is drawn. Between client and daemon: what a gesture means
  is what the core is asked, with every name and path as it was (a force push of the menu excepted), what cannot be undone is asked about
  first, reading changes nothing, and what a daemon pushes is what its client knows. A client with several machines keeps them in step
  whatever drops, returns or is disconnected, provided every endpoint answered at its start, what is staged from a diff is what the cursor is on,
  and what it remembers survives a file that cannot be written
  for a while.

  \<^bold>\<open>Not modelled.\<close> The git pane (\<open>pane/git.rs\<close>, libgit2), the bodies of HTTP replies, telemetry and usage
  samples, the requests answered on blocking threads, sockets and start-up, the configuration parser,
  and the part of the client that draws and keeps its screen. Of the core: the details pushed with
  every frame, docker and logging. Of the update: the network, the archive reader and the swap. Of the
  client: hit testing, the pages and their cursors, the configuration pages, sockets and ssh.
\<close>

end
